(* ===== verification/Prelude.thy ===== *)
theory Prelude
  imports Main "HOL-Library.Word" "HOL-Library.AList"
begin

text \<open>
  Shared vocabulary of the development: Python results as sums, insertion-ordered
  dictionaries as association lists, fixed-size slicing of a list, and the collections of
  facts that the component theories feed to the simplifier.

  A Python call that may raise returns a value of a sum type: \<open>Inl e\<close> for the exception and
  \<open>Inr v\<close> for the returned value. A Python dict keeps insertion order, so it is an association
  list with distinct keys; \<^const>\<open>AList.update\<close> overwrites in place and appends new keys,
  as assignment to a subscript does.
\<close>

named_theorems db_simps \<open>lookups after table updates\<close>
named_theorems op_defs \<open>definitions of the operations of a service\<close>

subsection \<open>Results\<close>

definition is_ok :: "'e + 'a \<Rightarrow> bool" where
  "is_ok r = (case r of Inl _ \<Rightarrow> False | Inr _ \<Rightarrow> True)"

lemma is_ok_simps [simp]: "\<not> is_ok (Inl e)" "is_ok (Inr v)"
  by (simp_all add: is_ok_def)

definition bind_res :: "'e + 'a \<Rightarrow> ('a \<Rightarrow> 'e + 'b) \<Rightarrow> 'e + 'b" where
  "bind_res r f = (case r of Inl e \<Rightarrow> Inl e | Inr v \<Rightarrow> f v)"

lemma bind_res_simps [simp]: "bind_res (Inl e) f = Inl e" "bind_res (Inr v) f = f v"
  by (simp_all add: bind_res_def)

lemma bind_res_Inr: "bind_res r f = Inr w \<longleftrightarrow> (\<exists>v. r = Inr v \<and> f v = Inr w)"
  by (cases r) simp_all

lemma bind_res_cong [fundef_cong]:
  "r = s \<Longrightarrow> (\<And>v. s = Inr v \<Longrightarrow> f v = g v) \<Longrightarrow> bind_res r f = bind_res s g"
  by (cases s) simp_all

text \<open>The loop that stops at the first exception.\<close>

fun map_res :: "('a \<Rightarrow> 'e + 'b) \<Rightarrow> 'a list \<Rightarrow> 'e + 'b list" where
  "map_res f [] = Inr []"
| "map_res f (x # xs) = bind_res (f x) (\<lambda>y. bind_res (map_res f xs) (\<lambda>ys. Inr (y # ys)))"

lemma map_res_Inr_iff: "map_res f xs = Inr ys \<longleftrightarrow> list_all2 (\<lambda>x y. f x = Inr y) xs ys"
  by (induction xs arbitrary: ys) (auto simp: bind_res_Inr list_all2_Cons1)

lemma map_res_total: "(\<And>x. x \<in> set xs \<Longrightarrow> f x = Inr (g x)) \<Longrightarrow> map_res f xs = Inr (map g xs)"
  by (induction xs) simp_all

lemma map_res_cong [fundef_cong]:
  "xs = ys \<Longrightarrow> (\<And>x. x \<in> set ys \<Longrightarrow> f x = g x) \<Longrightarrow> map_res f xs = map_res g ys"
proof (induction ys arbitrary: xs)
  case (Cons y ys)
  have "map_res f ys = map_res g ys" by (rule Cons.IH) (auto intro: Cons.prems)
  then show ?case using Cons.prems by simp
qed simp

subsection \<open>Insertion-ordered dictionaries\<close>

type_synonym ('k, 'v) dict = "('k \<times> 'v) list"

abbreviation dict_set :: "'k \<Rightarrow> 'v \<Rightarrow> ('k, 'v) dict \<Rightarrow> ('k, 'v) dict" where
  "dict_set \<equiv> AList.update"

abbreviation dict_get :: "('k, 'v) dict \<Rightarrow> 'k \<Rightarrow> 'v option" where
  "dict_get \<equiv> map_of"

abbreviation dict_keys :: "('k, 'v) dict \<Rightarrow> 'k list" where
  "dict_keys \<equiv> map fst"

definition dict_get_or :: "('k, 'v) dict \<Rightarrow> 'k \<Rightarrow> 'v \<Rightarrow> 'v" where
  "dict_get_or d k v = (case map_of d k of None \<Rightarrow> v | Some w \<Rightarrow> w)"

definition dict_has :: "('k, 'v) dict \<Rightarrow> 'k \<Rightarrow> bool" where
  "dict_has d k = (k \<in> fst ` set d)"

definition dict_wf :: "('k, 'v) dict \<Rightarrow> bool" where
  "dict_wf d = distinct (dict_keys d)"

definition dict_pop :: "'k \<Rightarrow> ('k, 'v) dict \<Rightarrow> ('k, 'v) dict" where
  "dict_pop k d = filter (\<lambda>p. fst p \<noteq> k) d"

text \<open>\<open>{**a, **b}\<close> and \<open>a.update(b)\<close>.\<close>

definition dict_merge :: "('k, 'v) dict \<Rightarrow> ('k, 'v) dict \<Rightarrow> ('k, 'v) dict" where
  "dict_merge a b = fold (\<lambda>(k, v) d. dict_set k v d) b a"

lemma dict_get_set [simp]: "dict_get (dict_set k v d) j = (if j = k then Some v else dict_get d j)"
  by (simp add: update_conv')

lemma dict_wf_set [simp, intro]: "dict_wf d \<Longrightarrow> dict_wf (dict_set k v d)"
  by (simp add: dict_wf_def distinct_update)

lemma dict_wf_empty [simp]: "dict_wf []"
  by (simp add: dict_wf_def)

lemma dict_has_iff: "dict_has d k \<longleftrightarrow> (\<exists>v. dict_get d k = Some v)"
  by (metis dict_has_def map_of_eq_None_iff not_None_eq)

lemma dict_get_pop [simp]: "dict_get (dict_pop k d) j = (if j = k then None else dict_get d j)"
  by (induction d) (auto simp: dict_pop_def)

lemma dict_wf_pop [simp, intro]: "dict_wf d \<Longrightarrow> dict_wf (dict_pop k d)"
  unfolding dict_wf_def dict_pop_def by (induction d) auto

lemma dict_wf_merge [simp, intro]: "dict_wf a \<Longrightarrow> dict_wf (dict_merge a b)"
  unfolding dict_merge_def by (induction b arbitrary: a) auto

lemma dict_get_merge:
  "dict_wf b \<Longrightarrow> dict_get (dict_merge a b) k =
     (case dict_get b k of Some v \<Rightarrow> Some v | None \<Rightarrow> dict_get a k)"
proof (induction b arbitrary: a)
  case (Cons p b)
  obtain j w where p: "p = (j, w)" by (cases p)
  have "dict_wf b" and j: "j \<notin> fst ` set b" using Cons.prems by (auto simp: p dict_wf_def)
  have none: "dict_get b j = None" using j by (metis map_of_eq_None_iff)
  have "dict_get (dict_merge a (p # b)) k = dict_get (dict_merge (dict_set j w a) b) k"
    by (simp add: dict_merge_def p)
  then show ?case using Cons.IH [OF \<open>dict_wf b\<close>] none
    by (auto simp: p split: option.split)
qed (simp add: dict_merge_def)

subsection \<open>Slices of fixed size\<close>

text \<open>\<open>[xs[i : i + n] for i in range(0, len(xs), n)]\<close> for a positive step \<open>n\<close>.\<close>

function slices :: "nat \<Rightarrow> 'a list \<Rightarrow> 'a list list" where
  "slices n xs = (if n = 0 \<or> xs = [] then [] else take n xs # slices n (drop n xs))"
  by pat_completeness auto
termination
  by (relation "measure (\<lambda>(n, xs). length xs)") auto

declare slices.simps [simp del]

lemma slices_Nil [simp]: "slices n [] = []"
  by (simp add: slices.simps)

lemma slices_step: "0 < n \<Longrightarrow> xs \<noteq> [] \<Longrightarrow> slices n xs = take n xs # slices n (drop n xs)"
  by (subst slices.simps) simp

lemma concat_slices: "0 < n \<Longrightarrow> concat (slices n xs) = xs"
proof (induction n xs rule: slices.induct)
  case (1 n xs)
  then show ?case by (cases "xs = []") (simp_all add: slices_step)
qed

lemma slices_bound: "0 < n \<Longrightarrow> ys \<in> set (slices n xs) \<Longrightarrow> 0 < length ys \<and> length ys \<le> n"
proof (induction n xs rule: slices.induct)
  case (1 n xs)
  then show ?case by (cases "xs = []") (auto simp: slices_step)
qed

lemma length_slices: "0 < n \<Longrightarrow> length (slices n xs) = (length xs + n - 1) div n"
proof (induction n xs rule: slices.induct)
  case (1 n xs)
  show ?case
  proof (cases "xs = []")
    case False
    then have s: "slices n xs = take n xs # slices n (drop n xs)" using 1 by (simp add: slices_step)
    have "length (slices n (drop n xs)) = (length xs - n + n - 1) div n"
      using 1 False by simp
    moreover have "(length xs + n - 1) div n = Suc ((length xs - n + n - 1) div n)"
    proof (cases "n \<le> length xs")
      case True
      then have "length xs + n - 1 = (length xs - n + n - 1) + n" using 1 by simp
      then show ?thesis using 1 by (metis Suc_eq_plus1 div_add_self2 less_not_refl2)
    next
      case False
      have "length xs > 0" using \<open>xs \<noteq> []\<close> by simp
      then have e: "length xs + n - 1 = n + (length xs - 1)" by (cases xs) auto
      have k: "length xs - 1 < n" using False by simp
      have "(n + (length xs - 1)) div n = Suc ((length xs - 1) div n)"
        using 1 by (simp only: div_add_self1)
      then show ?thesis using False k unfolding e by simp
    qed
    ultimately show ?thesis by (simp add: s)
  next
    case True
    then show ?thesis using 1 by simp
  qed
qed

lemma slices_full:
  "0 < n \<Longrightarrow> Suc i < length (slices n xs) \<Longrightarrow> length (slices n xs ! i) = n"
proof (induction n xs arbitrary: i rule: slices.induct)
  case (1 n xs)
  have ne: "xs \<noteq> []" using 1 by auto
  then have s: "slices n xs = take n xs # slices n (drop n xs)" using 1 by (simp add: slices_step)
  show ?case
  proof (cases i)
    case 0
    have "slices n (drop n xs) \<noteq> []" using 1 s 0 by auto
    then have "drop n xs \<noteq> []" by auto
    then show ?thesis by (simp add: s 0)
  next
    case (Suc j)
    then have "Suc j < length (slices n (drop n xs))" using 1 s by simp
    then show ?thesis using 1 ne by (simp add: s Suc)
  qed
qed

subsection \<open>Optional values\<close>

definition opt_or :: "'a option \<Rightarrow> 'a \<Rightarrow> 'a" where
  "opt_or x d = (case x of None \<Rightarrow> d | Some v \<Rightarrow> v)"

lemma opt_or_simps [simp]: "opt_or None d = d" "opt_or (Some v) d = v"
  by (simp_all add: opt_or_def)

text \<open>The first occurrence of a key among rows: \<open>scalar_one_or_none\<close> on a unique column.\<close>

lemma find_Some_unique:
  "distinct (map key xs) \<Longrightarrow> x \<in> set xs \<Longrightarrow> find (\<lambda>y. key y = key x) xs = Some x"
  by (induction xs) (auto simp: image_iff)

lemma find_None_key: "find (\<lambda>y. key y = k) xs = None \<longleftrightarrow> k \<notin> key ` set xs"
  by (auto simp: find_None_iff)

lemma find_Some_key: "find (\<lambda>y. key y = k) xs = Some x \<Longrightarrow> x \<in> set xs \<and> key x = k"
  by (auto simp: find_Some_iff)

lemma filter_key_unique:
  "distinct (map key xs) \<Longrightarrow> x \<in> set xs \<Longrightarrow> filter (\<lambda>y. key y = key x) xs = [x]"
  by (induction xs) (auto simp: filter_empty_conv image_iff)

end
