(* ===== verification/RunState.thy ===== *)
theory RunState
  imports Prelude
begin

text \<open>
  The run and node life cycles of \<open>backend/app/engine/state.py\<close>: the status enumerations, the
  two transition tables, and \<open>can_transition\<close>, which works on the status strings stored in the
  database and rejects any string that is not a status.
\<close>

subsection \<open>Status enumerations\<close>

datatype run_status =
  PENDING | RUNNING | PAUSED | COMPLETED | FAILED | CANCELLED | SUPERSEDED

datatype node_status =
  N_PENDING | N_RUNNING | N_COMPLETED | N_FAILED | N_SKIPPED | N_RETRYING

fun run_status_value :: "run_status \<Rightarrow> string" where
  "run_status_value PENDING = ''pending''"
| "run_status_value RUNNING = ''running''"
| "run_status_value PAUSED = ''paused''"
| "run_status_value COMPLETED = ''completed''"
| "run_status_value FAILED = ''failed''"
| "run_status_value CANCELLED = ''cancelled''"
| "run_status_value SUPERSEDED = ''superseded''"

fun node_status_value :: "node_status \<Rightarrow> string" where
  "node_status_value N_PENDING = ''pending''"
| "node_status_value N_RUNNING = ''running''"
| "node_status_value N_COMPLETED = ''completed''"
| "node_status_value N_FAILED = ''failed''"
| "node_status_value N_SKIPPED = ''skipped''"
| "node_status_value N_RETRYING = ''retrying''"

definition run_statuses :: "run_status list" where
  "run_statuses = [PENDING, RUNNING, PAUSED, COMPLETED, FAILED, CANCELLED, SUPERSEDED]"

definition node_statuses :: "node_status list" where
  "node_statuses = [N_PENDING, N_RUNNING, N_COMPLETED, N_FAILED, N_SKIPPED, N_RETRYING]"

text \<open>\<open>ExecutionState(value)\<close>: the member with that value, or \<open>ValueError\<close> as \<open>None\<close>.\<close>

definition parse_run_status :: "string \<Rightarrow> run_status option" where
  "parse_run_status v = find (\<lambda>s. run_status_value s = v) run_statuses"

definition parse_node_status :: "string \<Rightarrow> node_status option" where
  "parse_node_status v = find (\<lambda>s. node_status_value s = v) node_statuses"

subsection \<open>Transition tables\<close>

fun valid_transitions :: "run_status \<Rightarrow> run_status list" where
  "valid_transitions PENDING = [RUNNING, CANCELLED]"
| "valid_transitions RUNNING = [PAUSED, COMPLETED, FAILED, CANCELLED]"
| "valid_transitions PAUSED = [RUNNING, CANCELLED]"
| "valid_transitions COMPLETED = []"
| "valid_transitions FAILED = [RUNNING, SUPERSEDED]"
| "valid_transitions CANCELLED = []"
| "valid_transitions SUPERSEDED = []"

fun valid_node_transitions :: "node_status \<Rightarrow> node_status list" where
  "valid_node_transitions N_PENDING = [N_RUNNING, N_SKIPPED]"
| "valid_node_transitions N_RUNNING = [N_COMPLETED, N_FAILED, N_RETRYING, N_SKIPPED]"
| "valid_node_transitions N_RETRYING = [N_RUNNING, N_FAILED, N_SKIPPED]"
| "valid_node_transitions N_COMPLETED = []"
| "valid_node_transitions N_FAILED = [N_RUNNING]"
| "valid_node_transitions N_SKIPPED = []"

definition can_transition :: "string \<Rightarrow> string \<Rightarrow> bool" where
  "can_transition current target =
     (case parse_run_status current of
        None \<Rightarrow> False
      | Some c \<Rightarrow> (case parse_run_status target of
          None \<Rightarrow> False
        | Some t \<Rightarrow> t \<in> set (valid_transitions c)))"

definition can_node_transition :: "string \<Rightarrow> string \<Rightarrow> bool" where
  "can_node_transition current target =
     (case parse_node_status current of
        None \<Rightarrow> False
      | Some c \<Rightarrow> (case parse_node_status target of
          None \<Rightarrow> False
        | Some t \<Rightarrow> t \<in> set (valid_node_transitions c)))"

definition get_terminal_states :: "string list" where
  "get_terminal_states = map run_status_value [COMPLETED, CANCELLED, SUPERSEDED]"

subsection \<open>Parsing and printing of statuses\<close>

lemma run_statuses_complete [simp]: "s \<in> set run_statuses"
  by (cases s) (simp_all add: run_statuses_def)

lemma node_statuses_complete [simp]: "s \<in> set node_statuses"
  by (cases s) (simp_all add: node_statuses_def)

lemma distinct_run_values: "distinct (map run_status_value run_statuses)"
  by (simp add: run_statuses_def)

lemma distinct_node_values: "distinct (map node_status_value node_statuses)"
  by (simp add: node_statuses_def)

lemma parse_run_value [simp]: "parse_run_status (run_status_value s) = Some s"
  unfolding parse_run_status_def
  by (rule find_Some_unique [OF distinct_run_values run_statuses_complete])

lemma parse_node_value [simp]: "parse_node_status (node_status_value s) = Some s"
  unfolding parse_node_status_def
  by (rule find_Some_unique [OF distinct_node_values node_statuses_complete])

lemma parse_run_status_Some: "parse_run_status v = Some s \<longleftrightarrow> v = run_status_value s"
  using parse_run_value find_Some_key [of run_status_value v run_statuses s]
  by (auto simp: parse_run_status_def)

lemma parse_node_status_Some: "parse_node_status v = Some s \<longleftrightarrow> v = node_status_value s"
  using parse_node_value find_Some_key [of node_status_value v node_statuses s]
  by (auto simp: parse_node_status_def)

lemma can_transition_values [simp]:
  "can_transition (run_status_value c) (run_status_value t) \<longleftrightarrow> t \<in> set (valid_transitions c)"
  by (simp add: can_transition_def)

lemma can_node_transition_values [simp]:
  "can_node_transition (node_status_value c) (node_status_value t)
     \<longleftrightarrow> t \<in> set (valid_node_transitions c)"
  by (simp add: can_node_transition_def)

lemma run_status_value_inj: "run_status_value a = run_status_value b \<longleftrightarrow> a = b"
  by (metis option.inject parse_run_value)

subsection \<open>Life cycles\<close>

text \<open>
  What both tables promise: a life cycle is a table of successors whose terminal states are
  exactly those without a successor. A history is a sequence of states in which each is a
  legal successor of the one before.
\<close>

locale lifecycle =
  fixes next_states :: "'s \<Rightarrow> 's list"
    and terminal :: "'s list"
  assumes terminal_iff: "s \<in> set terminal \<longleftrightarrow> next_states s = []"
begin

fun history :: "'s \<Rightarrow> 's list \<Rightarrow> bool" where
  "history s [] = True"
| "history s (t # ts) = (t \<in> set (next_states s) \<and> history t ts)"

lemma terminal_stuck: "s \<in> set terminal \<Longrightarrow> history s ts \<longleftrightarrow> ts = []"
  using terminal_iff by (cases ts) auto

lemma history_append: "history s (xs @ ys) \<longleftrightarrow> history s xs \<and> history (last (s # xs)) ys"
  by (induction xs arbitrary: s) auto

lemma terminal_only_last:
  assumes "history s (xs @ t # ys)" and "t \<in> set terminal"
  shows "ys = []"
proof -
  from assms(1) have "history s ((xs @ [t]) @ ys)" by simp
  then have "history (last (s # xs @ [t])) ys" unfolding history_append by simp
  then have "history t ys" by simp
  with assms(2) show ?thesis by (simp add: terminal_stuck)
qed

end

definition run_terminal :: "run_status list" where
  "run_terminal = [COMPLETED, CANCELLED, SUPERSEDED]"

definition node_terminal :: "node_status list" where
  "node_terminal = [N_COMPLETED, N_SKIPPED]"

interpretation runs: lifecycle valid_transitions run_terminal
  by unfold_locales (case_tac s; simp add: run_terminal_def)

interpretation nodes: lifecycle valid_node_transitions node_terminal
  by unfold_locales (case_tac s; simp add: node_terminal_def)

text \<open>The step that the code takes on a run: any change of status, or none.\<close>

definition legal_step :: "run_status \<Rightarrow> run_status \<Rightarrow> bool" where
  "legal_step s t = (s = t \<or> t \<in> set (valid_transitions s))"

end
