(* ===== verification/Json.thy ===== *)
theory Json
  imports Prelude
begin

text \<open>
  JSON values as Python sees them after \<open>json.loads\<close> or out of a JSONB column, with the
  operations the program applies to them: truth testing, \<open>dict.get\<close>, type tests.
  A float keeps its IEEE bits, which nothing here computes with beyond testing for zero.
  A Python \<open>str\<close> is a list of characters.
\<close>

datatype json =
    JNull
  | JBool bool
  | JInt int
  | JFloat "64 word"
  | JStr string
  | JList "json list"
  | JObj "(string \<times> json) list"

type_synonym obj = "(string, json) dict"

fun truthy :: "json \<Rightarrow> bool" where
  "truthy JNull = False"
| "truthy (JBool b) = b"
| "truthy (JInt i) = (i \<noteq> 0)"
| "truthy (JFloat w) = (w \<noteq> 0 \<and> w \<noteq> 0x8000000000000000)"
| "truthy (JStr s) = (s \<noteq> [])"
| "truthy (JList xs) = (xs \<noteq> [])"
| "truthy (JObj kvs) = (kvs \<noteq> [])"

fun is_obj :: "json \<Rightarrow> bool" where
  "is_obj (JObj _) = True" | "is_obj _ = False"

fun is_list :: "json \<Rightarrow> bool" where
  "is_list (JList _) = True" | "is_list _ = False"

fun is_str :: "json \<Rightarrow> bool" where
  "is_str (JStr _) = True" | "is_str _ = False"

text \<open>Lists and dicts are not hashable: \<open>x in d\<close> raises \<open>TypeError\<close> for them.\<close>

definition hashable :: "json \<Rightarrow> bool" where
  "hashable j = (\<not> is_obj j \<and> \<not> is_list j)"

definition obj_get :: "obj \<Rightarrow> string \<Rightarrow> json" where
  "obj_get d k = dict_get_or d k JNull"

text \<open>\<open>d.get(k1) or d.get(k2) or default\<close>.\<close>

definition or_else :: "json \<Rightarrow> json \<Rightarrow> json" where
  "or_else a b = (if truthy a then a else b)"

lemma obj_get_set [simp]: "obj_get (dict_set k v d) j = (if j = k then v else obj_get d j)"
  by (simp add: obj_get_def dict_get_or_def)

text \<open>Every dictionary inside the value has distinct keys, as a parsed value has.\<close>

fun json_wf :: "json \<Rightarrow> bool" where
  "json_wf (JList xs) = list_all json_wf xs"
| "json_wf (JObj kvs) = (distinct (map fst kvs) \<and> list_all (\<lambda>p. json_wf (snd p)) kvs)"
| "json_wf _ = True"

end
