(* ===== verification/Scheduler.thy ===== *)
theory Scheduler
  imports Json "HOL-Library.Multiset"
begin

text \<open>
  The DAG scheduler of \<open>backend/app/engine/scheduler.py\<close>: Kahn's algorithm, grouped by depth,
  and \<open>validate_dag\<close>. Nodes are the keys of the node dictionary in insertion order; an edge is
  a JSON object read through \<open>source\<close>, \<open>source_id\<close>, \<open>from\<close> and \<open>target\<close>, \<open>target_id\<close>, \<open>to\<close>.
  The in-degree table and the adjacency table are functions (every node starts at 0 and at the
  empty list, as the dict comprehension and the \<open>defaultdict\<close> do). The \<open>while\<close> loop takes fuel,
  one unit per level, and one unit more than the number of nodes is shown to be enough.
\<close>

subsection \<open>Reading edges\<close>

definition edge_source :: "obj \<Rightarrow> json" where
  "edge_source e =
     dict_get_or e ''source'' (dict_get_or e ''source_id'' (obj_get e ''from''))"

definition edge_target :: "obj \<Rightarrow> json" where
  "edge_target e =
     dict_get_or e ''target'' (dict_get_or e ''target_id'' (obj_get e ''to''))"

datatype sched_error = Cycle | Unhashable

text \<open>
  Membership of a JSON value in the node dictionary (or in the set of its keys): only a string
  can be a key; lists and dicts raise \<open>TypeError\<close>.
\<close>

definition in_nodes :: "json \<Rightarrow> string list \<Rightarrow> sched_error + bool" where
  "in_nodes j nodes =
     (if \<not> hashable j then Inl Unhashable
      else Inr (case j of JStr s \<Rightarrow> s \<in> set nodes | _ \<Rightarrow> False))"

definition the_str :: "json \<Rightarrow> string" where
  "the_str j = (case j of JStr s \<Rightarrow> s | _ \<Rightarrow> [])"

text \<open>
  The edges with both ends among the nodes; \<open>and\<close> tests the target only when the source is
  known.
\<close>

fun known_edges :: "string list \<Rightarrow> obj list \<Rightarrow> sched_error + (string \<times> string) list" where
  "known_edges nodes [] = Inr []"
| "known_edges nodes (e # es) =
     bind_res (in_nodes (edge_source e) nodes) (\<lambda>s_in.
       if s_in then
         bind_res (in_nodes (edge_target e) nodes) (\<lambda>t_in.
           bind_res (known_edges nodes es) (\<lambda>rest.
             Inr (if t_in then (the_str (edge_source e), the_str (edge_target e)) # rest
                  else rest)))
       else known_edges nodes es)"

subsection \<open>Kahn's algorithm\<close>

type_synonym 'a degrees = "'a \<Rightarrow> int"
type_synonym 'a adjacency = "'a \<Rightarrow> 'a list"

fun build_graph :: "('a \<times> 'a) list \<Rightarrow> 'a degrees \<times> 'a adjacency \<Rightarrow> 'a degrees \<times> 'a adjacency" where
  "build_graph [] g = g"
| "build_graph ((s, t) # es) (deg, adj) =
     build_graph es (deg(t := deg t + 1), adj(s := adj s @ [t]))"

text \<open>The loop over the neighbours of one level: decrement, and enqueue at zero.\<close>

fun relax :: "'a list \<Rightarrow> 'a degrees \<Rightarrow> 'a list \<Rightarrow> 'a degrees \<times> 'a list" where
  "relax [] deg nxt = (deg, nxt)"
| "relax (n # ns) deg nxt =
     (let deg' = deg(n := deg n - 1)
      in relax ns deg' (if deg' n = 0 then nxt @ [n] else nxt))"

definition level_targets :: "'a adjacency \<Rightarrow> 'a list \<Rightarrow> 'a list" where
  "level_targets adj level = concat (map adj level)"

fun kahn_levels :: "nat \<Rightarrow> 'a adjacency \<Rightarrow> 'a degrees \<Rightarrow> 'a list \<Rightarrow> 'a list list option" where
  "kahn_levels fuel adj deg [] = Some []"
| "kahn_levels 0 adj deg (q # qs) = None"
| "kahn_levels (Suc fuel) adj deg (q # qs) =
     (let (deg', nxt) = relax (level_targets adj (q # qs)) deg []
      in map_option (\<lambda>ls. (q # qs) # ls) (kahn_levels fuel adj deg' nxt))"

definition kahn :: "'a list \<Rightarrow> ('a \<times> 'a) list \<Rightarrow> 'a list list option" where
  "kahn nodes es =
     (let (deg, adj) = build_graph es (\<lambda>_. 0, \<lambda>_. [])
      in kahn_levels (Suc (length nodes)) adj deg (filter (\<lambda>n. deg n = 0) nodes))"

text \<open>
  \<open>visited_count != len(nodes)\<close> raises. The outer option is the fuel; \<open>topological_sort_total\<close>
  shows it is never exhausted.
\<close>

definition topological_sort :: "string list \<Rightarrow> obj list \<Rightarrow> (sched_error + string list list) option" where
  "topological_sort nodes edges =
     (case known_edges nodes edges of
        Inl e \<Rightarrow> Some (Inl e)
      | Inr es \<Rightarrow> map_option (\<lambda>levels.
          if sum_list (map length levels) \<noteq> length nodes then Inl Cycle else Inr levels)
          (kahn nodes es))"

subsection \<open>Validation\<close>

datatype dag_error = SourceNotFound nat json | TargetNotFound nat json | HasCycle

fun check_edges :: "string list \<Rightarrow> nat \<Rightarrow> obj list \<Rightarrow> sched_error + dag_error list" where
  "check_edges nodes i [] = Inr []"
| "check_edges nodes i (e # es) =
     bind_res (in_nodes (edge_source e) nodes) (\<lambda>s_in.
     bind_res (in_nodes (edge_target e) nodes) (\<lambda>t_in.
     bind_res (check_edges nodes (Suc i) es) (\<lambda>rest.
       Inr ((if s_in then [] else [SourceNotFound i (edge_source e)])
            @ (if t_in then [] else [TargetNotFound i (edge_target e)]) @ rest))))"

definition validate_dag :: "string list \<Rightarrow> obj list \<Rightarrow> (sched_error + dag_error list) option" where
  "validate_dag nodes edges =
     (case check_edges nodes 0 edges of
        Inl e \<Rightarrow> Some (Inl e)
      | Inr errs \<Rightarrow> map_option (\<lambda>r. case r of
            Inl Cycle \<Rightarrow> Inr (errs @ [HasCycle])
          | Inl Unhashable \<Rightarrow> Inl Unhashable
          | Inr _ \<Rightarrow> Inr errs) (topological_sort nodes edges))"

subsection \<open>The graph tables\<close>

definition in_edges :: "('a \<times> 'a) list \<Rightarrow> 'a \<Rightarrow> nat" where
  "in_edges es n = count_list (map snd es) n"

lemma build_graph_deg: "fst (build_graph es (deg, adj)) n = deg n + int (in_edges es n)"
  by (induction es "(deg, adj)" arbitrary: deg adj rule: build_graph.induct)
     (auto simp: in_edges_def)

lemma build_graph_adj: "snd (build_graph es (deg, adj)) s = adj s @ map snd (filter (\<lambda>e. fst e = s) es)"
  by (induction es "(deg, adj)" arbitrary: deg adj rule: build_graph.induct) auto

lemma relax_deg: "fst (relax ns deg nxt) n = deg n - int (count_list ns n)"
  by (induction ns arbitrary: deg nxt) (simp_all add: Let_def)

text \<open>A node enters the next level once: when its last open edge is consumed.\<close>

definition drained :: "'a degrees \<Rightarrow> 'a list \<Rightarrow> 'a \<Rightarrow> bool" where
  "drained deg ns n = (0 < deg n \<and> deg n \<le> int (count_list ns n))"

lemma drained_Cons:
  "drained deg (n # ns) m \<longleftrightarrow>
     (if m = n then deg n = 1 \<or> drained (deg(n := deg n - 1)) ns n
      else drained (deg(n := deg n - 1)) ns m)"
  by (auto simp: drained_def)

lemma drained_mem: "drained deg ns n \<Longrightarrow> n \<in> set ns"
  by (rule ccontr) (auto simp: drained_def)

lemma relax_next:
  "\<exists>new. snd (relax ns deg nxt) = nxt @ new \<and> distinct new \<and> set new = Collect (drained deg ns)"
proof (induction ns arbitrary: deg nxt)
  case Nil
  then show ?case by (simp add: drained_def)
next
  case (Cons n ns)
  let ?d = "deg(n := deg n - 1)"
  let ?q = "if ?d n = 0 then nxt @ [n] else nxt"
  obtain new where new: "snd (relax ns ?d ?q) = ?q @ new" "distinct new"
    "set new = Collect (drained ?d ns)" using Cons.IH by blast
  let ?new = "(if ?d n = 0 then [n] else []) @ new"
  have "snd (relax (n # ns) deg nxt) = nxt @ ?new" using new(1) by (simp add: Let_def)
  moreover have "?d n = 0 \<Longrightarrow> n \<notin> set new" using new(3) by (simp add: drained_def)
  then have "distinct ?new" using new(2) by simp
  moreover have "set ?new = Collect (drained deg (n # ns))"
  proof (rule set_eqI)
    fix m
    have "m \<in> set new \<longleftrightarrow> drained ?d ns m" using new(3) by simp
    then show "m \<in> set ?new \<longleftrightarrow> m \<in> Collect (drained deg (n # ns))"
      unfolding mem_Collect_eq drained_Cons by (cases "m = n") simp_all
  qed
  ultimately show ?case by blast
qed

subsection \<open>The invariant of the loop\<close>

text \<open>The edges into a node whose source has not been processed yet.\<close>

definition open_edges :: "('a \<times> 'a) list \<Rightarrow> 'a list \<Rightarrow> 'a \<Rightarrow> nat" where
  "open_edges es done n = length (filter (\<lambda>e. snd e = n \<and> fst e \<notin> set done) es)"

definition succs :: "('a \<times> 'a) list \<Rightarrow> 'a adjacency" where
  "succs es = (\<lambda>s. map snd (filter (\<lambda>e. fst e = s) es))"

lemma open_edges_Nil: "open_edges es [] n = in_edges es n"
  by (induction es) (auto simp: open_edges_def in_edges_def)

lemma open_edges_0: "open_edges es done n = 0 \<longleftrightarrow> (\<forall>u. (u, n) \<in> set es \<longrightarrow> u \<in> set done)"
  by (force simp: open_edges_def filter_empty_conv)

lemma count_succs: "count_list (succs es s) n = length (filter (\<lambda>e. snd e = n \<and> fst e = s) es)"
  by (induction es) (auto simp: succs_def)

lemma count_targets:
  "distinct level \<Longrightarrow> count_list (level_targets (succs es) level) n =
     length (filter (\<lambda>e. snd e = n \<and> fst e \<in> set level) es)"
proof (induction level)
  case (Cons s level)
  have "length (filter (\<lambda>e. snd e = n \<and> fst e = s) es)
      + length (filter (\<lambda>e. snd e = n \<and> fst e \<in> set level) es)
      = length (filter (\<lambda>e. snd e = n \<and> fst e \<in> set (s # level)) es)"
    using Cons.prems by (induction es) auto
  with Cons show ?case by (simp add: level_targets_def count_succs)
qed (simp add: level_targets_def)

lemma open_edges_append:
  assumes "distinct (done @ level)"
  shows "int (open_edges es (done @ level) n) =
    int (open_edges es done n) - int (count_list (level_targets (succs es) level) n)"
proof -
  have "distinct level" using assms by simp
  moreover have "open_edges es (done @ level) n
      + length (filter (\<lambda>e. snd e = n \<and> fst e \<in> set level) es) = open_edges es done n"
    using assms by (induction es) (auto simp: open_edges_def)
  ultimately show ?thesis by (simp add: count_targets)
qed

definition kahn_inv ::
  "'a list \<Rightarrow> ('a \<times> 'a) list \<Rightarrow> 'a list \<Rightarrow> 'a degrees \<Rightarrow> 'a list \<Rightarrow> bool" where
  "kahn_inv nodes es done deg queue \<longleftrightarrow>
     distinct (done @ queue) \<and>
     set (done @ queue) = {n \<in> set nodes. open_edges es done n = 0} \<and>
     (\<forall>n. deg n = int (open_edges es done n))"

definition wf_edges :: "'a list \<Rightarrow> ('a \<times> 'a) list \<Rightarrow> bool" where
  "wf_edges nodes es \<longleftrightarrow> distinct nodes \<and> set es \<subseteq> set nodes \<times> set nodes"

lemma kahn_inv_step:
  assumes wf: "wf_edges nodes es" and inv: "kahn_inv nodes es done deg queue"
    and r: "relax (level_targets (succs es) queue) deg [] = (deg', nxt)"
  shows "kahn_inv nodes es (done @ queue) deg' nxt"
    and "\<forall>n \<in> set nxt. \<exists>u \<in> set queue. (u, n) \<in> set es"
proof -
  let ?ts = "level_targets (succs es) queue"
  have d: "distinct (done @ queue)"
    and s: "set (done @ queue) = {n \<in> set nodes. open_edges es done n = 0}"
    and g: "deg n = int (open_edges es done n)" for n
    using inv by (auto simp: kahn_inv_def)
  have g': "deg' n = int (open_edges es (done @ queue) n)" for n
    using relax_deg [of ?ts deg "[]" n] r open_edges_append [OF d] by (simp add: g)
  have nxt: "distinct nxt" "set nxt = Collect (drained deg ?ts)"
    using relax_next [of ?ts deg "[]"] r by auto
  have dr: "drained deg ?ts n \<longleftrightarrow>
      0 < open_edges es done n \<and> open_edges es (done @ queue) n = 0" for n
    using open_edges_append [OF d, of es n] by (auto simp: drained_def g)
  have pred: "\<exists>u \<in> set queue. (u, n) \<in> set es" if "drained deg ?ts n" for n
  proof -
    have "\<exists>u. (u, n) \<in> set es \<and> u \<notin> set done"
      using that open_edges_0 [of es "done" n] unfolding dr by auto
    then show ?thesis using that open_edges_0 [of es "done @ queue" n] unfolding dr by auto
  qed
  then show "\<forall>n \<in> set nxt. \<exists>u \<in> set queue. (u, n) \<in> set es" by (simp add: nxt)
  have mono: "open_edges es done n = 0 \<Longrightarrow> open_edges es (done @ queue) n = 0" for n
    by (simp add: open_edges_0)
  have "set nxt \<subseteq> set nodes"
    using pred wf by (auto simp: nxt wf_edges_def)
  moreover have "set (done @ queue) \<inter> set nxt = {}"
    using s by (auto simp: nxt dr)
  moreover have "n \<in> set (done @ queue) \<or> n \<in> set nxt"
    if "n \<in> set nodes" "open_edges es (done @ queue) n = 0" for n
    using that s by (auto simp: nxt dr)
  moreover have "open_edges es (done @ queue) n = 0" if "n \<in> set (done @ queue)" for n
    using that s mono by blast
  ultimately show "kahn_inv nodes es (done @ queue) deg' nxt"
    unfolding kahn_inv_def using d s g' nxt(1) by (auto simp: nxt dr)
qed

text \<open>
  Levels are ordered when every edge into a level starts in an earlier one, and tight when
  every node after the first level has a predecessor in the level just before it.
\<close>

fun ordered_levels :: "('a \<times> 'a) list \<Rightarrow> 'a list \<Rightarrow> 'a list list \<Rightarrow> bool" where
  "ordered_levels es done [] = True"
| "ordered_levels es done (l # ls) =
     (l \<noteq> [] \<and> (\<forall>n \<in> set l. open_edges es done n = 0) \<and> ordered_levels es (done @ l) ls)"

fun tight_levels :: "('a \<times> 'a) list \<Rightarrow> 'a list list \<Rightarrow> bool" where
  "tight_levels es (l # m # ls) =
     ((\<forall>n \<in> set m. \<exists>u \<in> set l. (u, n) \<in> set es) \<and> tight_levels es (m # ls))"
| "tight_levels es _ = True"

definition levels_ok :: "'a list \<Rightarrow> ('a \<times> 'a) list \<Rightarrow> 'a list \<Rightarrow> 'a list list \<Rightarrow> bool" where
  "levels_ok nodes es done ls \<longleftrightarrow>
     distinct (done @ concat ls) \<and>
     set (done @ concat ls) = {n \<in> set nodes. open_edges es (done @ concat ls) n = 0} \<and>
     ordered_levels es done ls \<and> tight_levels es ls"

lemma kahn_levels_ok:
  assumes wf: "wf_edges nodes es"
  shows "kahn_inv nodes es done deg queue \<Longrightarrow> length nodes < fuel + length done \<Longrightarrow>
    \<exists>ls. kahn_levels fuel (succs es) deg queue = Some ls \<and> levels_ok nodes es done ls \<and>
      (queue = [] \<longrightarrow> ls = []) \<and> (queue \<noteq> [] \<longrightarrow> (\<exists>ls'. ls = queue # ls'))"
proof (induction fuel arbitrary: "done" deg queue)
  case 0
  then have "distinct done" "set done \<subseteq> set nodes" by (auto simp: kahn_inv_def)
  then have "length done \<le> length nodes"
    using wf card_mono [of "set nodes" "set done"] by (simp add: wf_edges_def distinct_card)
  with 0 show ?case by simp
next
  case (Suc fuel)
  show ?case
  proof (cases queue)
    case Nil
    with Suc.prems show ?thesis by (simp add: levels_ok_def kahn_inv_def)
  next
    case (Cons q qs)
    obtain deg' nxt where r: "relax (level_targets (succs es) queue) deg [] = (deg', nxt)"
      by fastforce
    note step = kahn_inv_step [OF wf Suc.prems(1) r]
    obtain ls where ls: "kahn_levels fuel (succs es) deg' nxt = Some ls"
      "levels_ok nodes es (done @ queue) ls" "nxt = [] \<longrightarrow> ls = []"
      "nxt \<noteq> [] \<longrightarrow> (\<exists>ls'. ls = nxt # ls')"
      using Suc.IH [OF step(1)] Suc.prems(2) Cons by fastforce
    have "tight_levels es (queue # ls)"
      using ls(2,3,4) step(2) by (cases "nxt = []") (auto simp: levels_ok_def)
    moreover have "\<forall>n \<in> set queue. open_edges es done n = 0"
      using Suc.prems(1) by (auto simp: kahn_inv_def)
    ultimately have "levels_ok nodes es done (queue # ls)"
      using ls(2) Cons by (simp add: levels_ok_def)
    moreover have "kahn_levels (Suc fuel) (succs es) deg queue = Some (queue # ls)"
      using r ls(1) Cons by simp
    ultimately show ?thesis using Cons by blast
  qed
qed

lemma build_graph_eq: "build_graph es (\<lambda>_. 0, \<lambda>_. []) = (\<lambda>n. int (in_edges es n), succs es)"
proof (rule prod_eqI; rule ext)
  fix n
  show "fst (build_graph es (\<lambda>_. 0, \<lambda>_. [])) n = fst (\<lambda>n. int (in_edges es n), succs es) n"
    by (simp add: build_graph_deg)
  show "snd (build_graph es (\<lambda>_. 0, \<lambda>_. [])) n = snd (\<lambda>n. int (in_edges es n), succs es) n"
    by (simp add: build_graph_adj succs_def)
qed

lemma kahn_ok:
  assumes "wf_edges nodes es"
  obtains ls where "kahn nodes es = Some ls" "levels_ok nodes es [] ls"
proof -
  let ?deg = "\<lambda>n. int (in_edges es n)"
  have "kahn_inv nodes es [] ?deg (filter (\<lambda>n. ?deg n = 0) nodes)"
    using assms by (auto simp: kahn_inv_def wf_edges_def open_edges_Nil)
  from kahn_levels_ok [OF assms this, of "Suc (length nodes)"] that show ?thesis
    by (auto simp: kahn_def build_graph_eq)
qed

subsection \<open>What the levels mean\<close>

lemma ordered_levels_edge:
  "ordered_levels es done ls \<Longrightarrow> (u, v) \<in> set es \<Longrightarrow> j < length ls \<Longrightarrow> v \<in> set (ls ! j) \<Longrightarrow>
     u \<in> set done \<or> (\<exists>i < j. u \<in> set (ls ! i))"
proof (induction es "done" ls arbitrary: j rule: ordered_levels.induct)
  case (2 es "done" l ls)
  show ?case
  proof (cases j)
    case 0
    then show ?thesis using 2 by (auto simp: open_edges_0)
  next
    case (Suc k)
    then consider "u \<in> set (done @ l)" | i where "i < k" "u \<in> set (ls ! i)"
      using 2 by fastforce
    then show ?thesis
    proof cases
      case 1
      then show ?thesis using Suc by force
    next
      case 2
      then show ?thesis using Suc by (intro disjI2 exI [of _ "Suc i"]) simp
    qed
  qed
qed simp

lemma ordered_levels_nonempty: "ordered_levels es done ls \<Longrightarrow> [] \<notin> set ls"
  by (induction es "done" ls rule: ordered_levels.induct) auto

lemma tight_levels_edge:
  "tight_levels es ls \<Longrightarrow> Suc i < length ls \<Longrightarrow> v \<in> set (ls ! Suc i) \<Longrightarrow>
     \<exists>u \<in> set (ls ! i). (u, v) \<in> set es"
proof (induction es ls arbitrary: i rule: tight_levels.induct)
  case (1 es l m ls)
  then show ?case by (cases i) auto
qed auto

lemma levels_ok_complete_acyclic:
  assumes ok: "levels_ok nodes es [] ls" and wf: "wf_edges nodes es"
    and all: "set (concat ls) = set nodes"
  shows "acyclic (set es)"
proof -
  have ord: "ordered_levels es [] ls" using ok by (simp add: levels_ok_def)
  define rank where "rank n = (LEAST j. j < length ls \<and> n \<in> set (ls ! j))" for n
  have "(u, v) \<in> measure rank" if e: "(u, v) \<in> set es" for u v
  proof -
    have "v \<in> set (concat ls)" using e wf all by (auto simp: wf_edges_def)
    then obtain l where "l \<in> set ls" "v \<in> set l" by auto
    then have ex: "\<exists>j. j < length ls \<and> v \<in> set (ls ! j)" by (metis in_set_conv_nth)
    have j: "rank v < length ls \<and> v \<in> set (ls ! rank v)"
      unfolding rank_def by (rule LeastI_ex [OF ex])
    then obtain i where i: "i < rank v" "u \<in> set (ls ! i)"
      using ordered_levels_edge [OF ord e] by auto
    then have "rank u \<le> i" unfolding rank_def [of u] using j by (intro Least_le) auto
    with i show ?thesis by simp
  qed
  then have "set es \<subseteq> measure rank" by auto
  then show ?thesis by (rule acyclic_subset [OF wf_acyclic [OF wf_measure]])
qed

lemma levels_ok_acyclic_complete:
  assumes ok: "levels_ok nodes es [] ls" and wf: "wf_edges nodes es"
    and ac: "acyclic (set es)"
  shows "set (concat ls) = set nodes"
proof (rule ccontr)
  have s: "set (concat ls) = {n \<in> set nodes. open_edges es (concat ls) n = 0}"
    using ok by (simp add: levels_ok_def)
  assume "set (concat ls) \<noteq> set nodes"
  then obtain x where x: "x \<in> set nodes - set (concat ls)" using s by blast
  have "Wellfounded.wf (set es)" using ac by (simp add: finite_acyclic_wf)
  from wfE_min [OF this x] obtain z where
    z: "z \<in> set nodes" "z \<notin> set (concat ls)" and
    min: "\<And>y. (y, z) \<in> set es \<Longrightarrow> y \<notin> set nodes - set (concat ls)" by blast
  have "open_edges es (concat ls) z \<noteq> 0"
  proof
    assume "open_edges es (concat ls) z = 0"
    with z(1) have "z \<in> {n \<in> set nodes. open_edges es (concat ls) n = 0}" by simp
    then have "z \<in> set (concat ls)" unfolding s [symmetric] .
    with z(2) show False ..
  qed
  then obtain u where "(u, z) \<in> set es" "u \<notin> set (concat ls)"
    unfolding open_edges_0 by blast
  moreover from this have "u \<in> set nodes" using wf by (auto simp: wf_edges_def)
  ultimately show False using min by blast
qed

lemma levels_ok_count:
  assumes "levels_ok nodes es [] ls" "wf_edges nodes es"
  shows "sum_list (map length ls) = length nodes \<longleftrightarrow> set (concat ls) = set nodes"
proof -
  have d: "distinct (concat ls)" "set (concat ls) \<subseteq> set nodes" "distinct nodes"
    using assms by (auto simp: levels_ok_def wf_edges_def)
  have "sum_list (map length ls) = card (set (concat ls))"
    using d by (metis distinct_card length_concat)
  moreover have "length nodes = card (set nodes)" using d by (simp add: distinct_card)
  ultimately show ?thesis using d(2) by (metis List.finite_set card_subset_eq)
qed

subsection \<open>The scheduler's contract\<close>

lemma known_edges_mem:
  "known_edges nodes es = Inr ps \<Longrightarrow> (u, v) \<in> set ps \<longleftrightarrow>
     u \<in> set nodes \<and> v \<in> set nodes \<and>
     (\<exists>e \<in> set es. edge_source e = JStr u \<and> edge_target e = JStr v)"
  by (induction nodes es arbitrary: ps rule: known_edges.induct)
     (auto simp: bind_res_Inr in_nodes_def the_str_def split: if_splits json.splits)

lemma known_edges_wf: "known_edges nodes es = Inr ps \<Longrightarrow> distinct nodes \<Longrightarrow> wf_edges nodes ps"
  by (auto simp: wf_edges_def known_edges_mem)

text \<open>The edge relation the program schedules.\<close>

definition edge_rel :: "string list \<Rightarrow> obj list \<Rightarrow> (string \<times> string) set" where
  "edge_rel nodes edges = {(u, v). u \<in> set nodes \<and> v \<in> set nodes \<and>
     (\<exists>e \<in> set edges. edge_source e = JStr u \<and> edge_target e = JStr v)}"

lemma known_edges_rel: "known_edges nodes es = Inr ps \<Longrightarrow> set ps = edge_rel nodes es"
  by (auto simp: edge_rel_def known_edges_mem)

lemma topological_sort_levels:
  assumes "topological_sort nodes edges = Some (Inr levels)" "distinct nodes"
  obtains ps where "known_edges nodes edges = Inr ps" "levels_ok nodes ps [] levels"
    "set (concat levels) = set nodes" "wf_edges nodes ps"
proof -
  obtain ps where ps: "known_edges nodes edges = Inr ps"
    using assms(1) by (cases "known_edges nodes edges") (auto simp: topological_sort_def)
  note w = known_edges_wf [OF ps assms(2)]
  obtain ls where ls: "kahn nodes ps = Some ls" "levels_ok nodes ps [] ls" by (rule kahn_ok [OF w])
  have "ls = levels" "sum_list (map length ls) = length nodes"
    using assms(1) ps ls(1) by (auto simp: topological_sort_def split: if_splits)
  with that [OF ps _ _ w] ls(2) levels_ok_count [OF ls(2) w] show ?thesis by blast
qed

lemma topological_sort_returns:
  assumes "distinct nodes"
  obtains r where "topological_sort nodes edges = Some r"
proof (cases "known_edges nodes edges")
  case (Inr ps)
  obtain ls where "kahn nodes ps = Some ls"
    by (rule kahn_ok [OF known_edges_wf [OF Inr assms]])
  with Inr that show ?thesis by (simp add: topological_sort_def)
next
  case (Inl e)
  with that show ?thesis by (simp add: topological_sort_def)
qed

text \<open>
  C23. The scheduler always returns: whatever the nodes and edges are, the level loop ends within
  one round per node (so \<open>topological_sort\<close> either raises or returns levels).
\<close>

theorem topological_sort_total:
  "distinct nodes \<Longrightarrow> \<exists>r. topological_sort nodes edges = Some r"
  by (erule topological_sort_returns) blast

text \<open>
  C9. A returned schedule is sound, complete and as parallel as possible: every node occurs
  exactly once, no level is empty, every edge between known nodes goes from an earlier level to a
  later one, and every node beyond the first level has a predecessor in the level just before it.
\<close>

theorem topological_sort_schedule:
  assumes "topological_sort nodes edges = Some (Inr levels)" and "distinct nodes"
  shows "mset (concat levels) = mset nodes \<and> [] \<notin> set levels \<and>
    (\<forall>(u, v) \<in> edge_rel nodes edges. \<forall>j < length levels. v \<in> set (levels ! j) \<longrightarrow>
       (\<exists>i < j. u \<in> set (levels ! i))) \<and>
    (\<forall>i v. Suc i < length levels \<longrightarrow> v \<in> set (levels ! Suc i) \<longrightarrow>
       (\<exists>u \<in> set (levels ! i). (u, v) \<in> edge_rel nodes edges))"
proof -
  obtain ps where ps: "known_edges nodes edges = Inr ps" and ok: "levels_ok nodes ps [] levels"
    and all: "set (concat levels) = set nodes" and "wf_edges nodes ps"
    using topological_sort_levels [OF assms] .
  have rel: "set ps = edge_rel nodes edges" by (rule known_edges_rel [OF ps])
  have d: "distinct (concat levels)" "ordered_levels ps [] levels" "tight_levels ps levels"
    using ok by (auto simp: levels_ok_def)
  have "mset (concat levels) = mset nodes"
    using d(1) all assms(2) by (metis set_eq_iff_mset_eq_distinct)
  moreover have "[] \<notin> set levels" using d(2) by (rule ordered_levels_nonempty)
  moreover have "\<forall>(u, v) \<in> edge_rel nodes edges. \<forall>j < length levels. v \<in> set (levels ! j) \<longrightarrow>
       (\<exists>i < j. u \<in> set (levels ! i))"
    using ordered_levels_edge [OF d(2)] unfolding rel [symmetric] by fastforce
  moreover have "\<forall>i v. Suc i < length levels \<longrightarrow> v \<in> set (levels ! Suc i) \<longrightarrow>
       (\<exists>u \<in> set (levels ! i). (u, v) \<in> edge_rel nodes edges)"
    using tight_levels_edge [OF d(3)] unfolding rel by blast
  ultimately show ?thesis by blast
qed

definition diamond_nodes :: "string list" where
  "diamond_nodes = [''a'', ''b'', ''c'', ''d'']"

definition diamond_edges :: "obj list" where
  "diamond_edges = [
     [(''source'', JStr ''a''), (''target'', JStr ''b'')],
     [(''source_id'', JStr ''a''), (''target'', JStr ''c'')],
     [(''from'', JStr ''b''), (''to'', JStr ''d'')],
     [(''source'', JStr ''c''), (''target_id'', JStr ''d'')],
     [(''source'', JStr ''ghost''), (''target'', JStr ''d'')]]"

lemmas sched_eval = topological_sort_def kahn_def in_nodes_def hashable_def
  edge_source_def edge_target_def obj_get_def dict_get_or_def the_str_def level_targets_def

lemma diamond_sorted:
  "topological_sort diamond_nodes diamond_edges = Some (Inr [[''a''], [''b'', ''c''], [''d'']])"
  by code_simp

theorem topological_sort_total_witness:
  "distinct diamond_nodes \<and> (\<exists>r. topological_sort diamond_nodes diamond_edges = Some r)"
proof -
  have d: "distinct diamond_nodes" by (simp add: diamond_nodes_def)
  show ?thesis using d topological_sort_total [OF d] by blast
qed

theorem topological_sort_schedule_witness:
  "distinct diamond_nodes \<and>
   topological_sort diamond_nodes diamond_edges = Some (Inr [[''a''], [''b'', ''c''], [''d'']]) \<and>
   mset (concat [[''a''], [''b'', ''c''], [''d'']]) = mset diamond_nodes"
proof -
  have d: "distinct diamond_nodes" by (simp add: diamond_nodes_def)
  show ?thesis
    using d diamond_sorted topological_sort_schedule [OF diamond_sorted d] by blast
qed

text \<open>
  C24. The cycle error is exact: when the edge endpoints are hashable, \<open>topological_sort\<close> raises
  if and only if the edges between known nodes contain a cycle.
\<close>

theorem topological_sort_cycle_iff:
  assumes "distinct nodes" and "known_edges nodes edges = Inr ps"
  shows "topological_sort nodes edges = Some (Inl Cycle) \<longleftrightarrow> \<not> acyclic (edge_rel nodes edges)"
proof -
  note w = known_edges_wf [OF assms(2,1)]
  obtain ls where ls: "kahn nodes ps = Some ls" "levels_ok nodes ps [] ls" by (rule kahn_ok [OF w])
  have "set (concat ls) = set nodes \<longleftrightarrow> acyclic (set ps)"
    using levels_ok_complete_acyclic [OF ls(2) w] levels_ok_acyclic_complete [OF ls(2) w] by blast
  then show ?thesis
    using assms(2) ls(1) levels_ok_count [OF ls(2) w]
    by (auto simp: topological_sort_def known_edges_rel [OF assms(2)] split: if_splits)
qed

definition loop_edges :: "obj list" where
  "loop_edges = [[(''source'', JStr ''b''), (''target'', JStr ''c'')],
                 [(''source'', JStr ''c''), (''target'', JStr ''b'')]]"

theorem topological_sort_cycle_iff_witness:
  "topological_sort diamond_nodes loop_edges = Some (Inl Cycle) \<and>
   \<not> acyclic (edge_rel diamond_nodes loop_edges)"
proof -
  have d: "distinct diamond_nodes" by (simp add: diamond_nodes_def)
  have k: "known_edges diamond_nodes loop_edges = Inr [(''b'', ''c''), (''c'', ''b'')]" by code_simp
  have "topological_sort diamond_nodes loop_edges = Some (Inl Cycle)" by code_simp
  then show ?thesis using topological_sort_cycle_iff [OF d k] by blast
qed

lemma check_edges_empty:
  "check_edges nodes i es = Inr [] \<longleftrightarrow>
     (\<forall>e \<in> set es. \<exists>u \<in> set nodes. \<exists>v \<in> set nodes. edge_source e = JStr u \<and> edge_target e = JStr v)"
  by (induction es arbitrary: i)
     (auto simp: bind_res_Inr in_nodes_def hashable_def split: if_splits json.splits)

text \<open>
  \<open>validate_dag\<close> reports no error exactly when every edge joins two known nodes and the
  graph is acyclic; then \<open>topological_sort\<close> succeeds on the same input.
\<close>

theorem validate_dag_iff:
  assumes "distinct nodes"
  shows "validate_dag nodes edges = Some (Inr []) \<longleftrightarrow>
    (\<forall>e \<in> set edges. \<exists>u \<in> set nodes. \<exists>v \<in> set nodes.
        edge_source e = JStr u \<and> edge_target e = JStr v) \<and>
    (\<exists>levels. topological_sort nodes edges = Some (Inr levels))"
proof -
  obtain r where r: "topological_sort nodes edges = Some r"
    by (rule topological_sort_returns [OF assms])
  show ?thesis
    unfolding check_edges_empty [of nodes 0, symmetric]
    by (auto simp: validate_dag_def r split: sum.splits sched_error.splits)
qed

theorem validate_dag_iff_witness:
  "validate_dag diamond_nodes (take 4 diamond_edges) = Some (Inr []) \<and>
   (\<exists>levels. topological_sort diamond_nodes (take 4 diamond_edges) = Some (Inr levels))"
proof -
  have d: "distinct diamond_nodes" by (simp add: diamond_nodes_def)
  have "validate_dag diamond_nodes (take 4 diamond_edges) = Some (Inr [])" by code_simp
  then show ?thesis using validate_dag_iff [OF d] by blast
qed

end
