(* ===== verification/PyText.thy ===== *)
theory PyText
  imports Prelude
begin

text \<open>
  The methods of Python's \<open>str\<close> that the program uses, on lists of characters: case folding of
  ASCII letters, stripping, splitting at a separator, joining, searching. Characters are bytes; what
  the methods do on other code points is not modelled.
\<close>

subsection \<open>Characters\<close>

definition ascii_space :: "char \<Rightarrow> bool" where
  "ascii_space c \<longleftrightarrow> c \<in> {CHR '' '', CHR 0x09, CHR 0x0A, CHR 0x0B, CHR 0x0C, CHR 0x0D}"

definition ascii_upper :: "char \<Rightarrow> bool" where
  "ascii_upper c \<longleftrightarrow> 65 \<le> (of_char c :: nat) \<and> (of_char c :: nat) \<le> 90"

definition lower_char :: "char \<Rightarrow> char" where
  "lower_char c = (if ascii_upper c then char_of ((of_char c :: nat) + 32) else c)"

definition py_lower :: "string \<Rightarrow> string" where
  "py_lower s = map lower_char s"

subsection \<open>Stripping\<close>

definition lstrip :: "string \<Rightarrow> string" where
  "lstrip s = dropWhile ascii_space s"

definition rstrip :: "string \<Rightarrow> string" where
  "rstrip s = rev (dropWhile ascii_space (rev s))"

definition strip :: "string \<Rightarrow> string" where
  "strip s = rstrip (lstrip s)"

lemma strip_Nil_iff: "strip s = [] \<longleftrightarrow> list_all ascii_space s"
proof (cases "dropWhile ascii_space s = []")
  case True
  then show ?thesis
    by (auto simp: strip_def rstrip_def lstrip_def dropWhile_eq_Nil_conv list_all_iff dest: set_dropWhileD)
next
  case False
  let ?c = "hd (dropWhile ascii_space s)"
  have c: "?c \<in> set (dropWhile ascii_space s)" "\<not> ascii_space ?c"
    using hd_in_set [OF False] hd_dropWhile [OF False] by auto
  then have "?c \<in> set s" by (meson set_dropWhileD)
  with c(2) have "\<not> list_all ascii_space s" by (auto simp: list_all_iff)
  moreover have "strip s \<noteq> []" using c by (auto simp: strip_def rstrip_def lstrip_def dropWhile_eq_Nil_conv)
  ultimately show ?thesis by simp
qed

lemma length_strip: "length (strip s) \<le> length s"
  by (simp add: strip_def rstrip_def lstrip_def)
     (metis length_dropWhile_le le_trans length_rev)

subsection \<open>Splitting and joining\<close>

text \<open>\<open>s.split(c)\<close> for a one-character separator, and \<open>c.join(parts)\<close>.\<close>

fun split_on :: "char \<Rightarrow> string \<Rightarrow> string list" where
  "split_on c [] = [[]]"
| "split_on c (x # xs) = (if x = c then [] # split_on c xs
     else (case split_on c xs of p # ps \<Rightarrow> (x # p) # ps | [] \<Rightarrow> [[x]]))"

fun join_on :: "char \<Rightarrow> string list \<Rightarrow> string" where
  "join_on c [] = []"
| "join_on c [p] = p"
| "join_on c (p # ps) = p @ c # join_on c ps"

lemma split_on_nonempty [simp]: "split_on c s \<noteq> []"
  by (induction s) (auto split: list.split)

lemma split_on_piece: "c \<notin> set p \<Longrightarrow> split_on c (p @ c # s) = p # split_on c s"
  by (induction p) auto

lemma split_on_whole: "c \<notin> set p \<Longrightarrow> split_on c p = [p]"
  by (induction p) auto

lemma split_join: "ps \<noteq> [] \<Longrightarrow> list_all (\<lambda>p. c \<notin> set p) ps \<Longrightarrow> split_on c (join_on c ps) = ps"
  by (induction c ps rule: join_on.induct) (auto simp: split_on_piece split_on_whole)

lemma join_split: "join_on c (split_on c s) = s"
proof (induction s)
  case (Cons x xs)
  obtain p ps where s: "split_on c xs = p # ps" by (meson neq_Nil_conv split_on_nonempty)
  then have "join_on c (p # ps) = xs" using Cons by simp
  then show ?case by (cases ps) (auto simp: s)
qed simp

lemma set_split_on: "p \<in> set (split_on c s) \<Longrightarrow> c \<notin> set p \<and> set p \<subseteq> set s"
  by (induction s arbitrary: p) (fastforce split: if_splits list.splits)+

lemma set_join_on: "set (join_on c ps) \<subseteq> insert c (\<Union> (set ` set ps))"
  by (induction c ps rule: join_on.induct) auto

text \<open>\<open>s.split()\<close>.\<close>

fun space_words :: "string \<Rightarrow> string \<Rightarrow> string list" where
  "space_words [] word = (if word = [] then [] else [word])"
| "space_words (c # cs) word =
     (if ascii_space c then (if word = [] then space_words cs [] else word # space_words cs [])
      else space_words cs (word @ [c]))"

subsection \<open>Numerals\<close>

definition is_digit :: "char \<Rightarrow> bool" where
  "is_digit c \<longleftrightarrow> 48 \<le> (of_char c :: nat) \<and> (of_char c :: nat) \<le> 57"

definition digit_value :: "char \<Rightarrow> nat" where
  "digit_value c = (of_char c :: nat) - 48"

definition decimal_value :: "string \<Rightarrow> nat" where
  "decimal_value s = foldl (\<lambda>n c. 10 * n + digit_value c) 0 s"

fun nat_str :: "nat \<Rightarrow> string" where
  "nat_str n = (if n < 10 then [char_of (48 + n)] else nat_str (n div 10) @ [char_of (48 + n mod 10)])"

declare nat_str.simps [simp del]

lemma digit_of_char: "n < 10 \<Longrightarrow> is_digit (char_of (48 + n)) \<and> digit_value (char_of (48 + n)) = n"
  by (simp add: is_digit_def digit_value_def of_char_of)

lemma nat_str_digits: "list_all is_digit (nat_str n)"
proof (induction n rule: nat_str.induct)
  case (1 n)
  then show ?case using digit_of_char [of n] digit_of_char [of "n mod 10"]
    by (subst nat_str.simps) simp
qed

lemma nat_str_value: "decimal_value (nat_str n) = n"
proof (induction n rule: nat_str.induct)
  case (1 n)
  then show ?case using digit_of_char [of n] digit_of_char [of "n mod 10"]
    by (subst nat_str.simps) (simp add: decimal_value_def)
qed

lemma nat_str_nonempty [simp]: "nat_str n \<noteq> []"
  by (subst nat_str.simps) simp

lemma nat_str_length: "n < 10 ^ k \<Longrightarrow> 0 < k \<Longrightarrow> length (nat_str n) \<le> k"
proof (induction k arbitrary: n)
  case (Suc k)
  show ?case
  proof (cases "n < 10")
    case True
    then show ?thesis by (subst nat_str.simps) simp
  next
    case False
    then have "0 < k" using Suc.prems by (cases k) auto
    moreover have "n div 10 < 10 ^ k" using Suc.prems by (simp add: less_mult_imp_div_less)
    ultimately have "length (nat_str (n div 10)) \<le> k" by (rule Suc.IH [rotated])
    then show ?thesis using False by (subst nat_str.simps) simp
  qed
qed simp

lemma nat_str_head: "nat_str n = c # cs \<Longrightarrow> c = CHR ''0'' \<Longrightarrow> n = 0"
proof (induction n arbitrary: cs rule: nat_str.induct)
  case (1 n)
  show ?case
  proof (cases "n < 10")
    case True
    then have "char_of (48 + n) = CHR ''0''" using 1(2,3) by (subst (asm) nat_str.simps) simp
    then have "digit_value (char_of (48 + n)) = 0" by (simp add: digit_value_def)
    then show ?thesis using digit_of_char [OF True] by simp
  next
    case False
    then have "nat_str (n div 10) @ [char_of (48 + n mod 10)] = c # cs"
      using 1(2) by (subst (asm) nat_str.simps) simp
    then obtain cs' where "nat_str (n div 10) = c # cs'"
      by (cases "nat_str (n div 10)") auto
    then have "n div 10 = 0" using 1(1) False 1(3) by blast
    then show ?thesis using False by simp
  qed
qed

lemma char_of_digit: "is_digit c \<Longrightarrow> char_of (48 + digit_value c) = c"
  by (simp add: is_digit_def digit_value_def)

lemma digit_value_less: "is_digit c \<Longrightarrow> digit_value c < 10"
  unfolding is_digit_def digit_value_def by linarith

text \<open>A numeral without a superfluous zero in front is the text of its value.\<close>

lemma nat_str_decimal:
  "list_all is_digit s \<Longrightarrow> s \<noteq> [] \<Longrightarrow> s = ''0'' \<or> hd s \<noteq> CHR ''0'' \<Longrightarrow> nat_str (decimal_value s) = s"
proof (induction s rule: rev_induct)
  case (snoc c s)
  let ?d = "digit_value c"
  have d: "?d < 10" "char_of (48 + ?d) = c" using snoc.prems(1) by (simp_all add: digit_value_less char_of_digit)
  show ?case
  proof (cases "s = []")
    case True
    then show ?thesis using d by (subst nat_str.simps) (simp add: decimal_value_def)
  next
    case False
    then have hd: "hd s \<noteq> CHR ''0''" using snoc.prems(3) by (cases s) auto
    then have s: "nat_str (decimal_value s) = s" using snoc False by simp
    have "decimal_value s \<noteq> 0"
    proof
      assume "decimal_value s = 0"
      then have "s = nat_str 0" using s by simp
      moreover have "nat_str 0 = ''0''" by code_simp
      ultimately show False using hd by simp
    qed
    then show ?thesis using d s by (subst nat_str.simps) (simp add: decimal_value_def)
  qed
qed simp

definition int_str :: "int \<Rightarrow> string" where
  "int_str i = (if i < 0 then ''-'' @ nat_str (nat (- i)) else nat_str (nat i))"

subsection \<open>Text of a string in a message\<close>

text \<open>\<open>repr\<close> of a string, without the escapes of unprintable characters and quotes.\<close>

definition py_quote :: "string \<Rightarrow> string" where
  "py_quote s = CHR 0x27 # s @ [CHR 0x27]"

end
