(* ===== verification/GraphData.thy ===== *)
theory GraphData
  imports Scheduler PyText
begin

text \<open>
  Graph definitions: the node registry (\<open>backend/app/nodes/registry.py\<close>, \<open>nodes/base.py\<close>), the
  validation of edges against node contracts and the clean-up of saved configurations
  (\<open>backend/app/graph_validation.py\<close>), and the conversion of a stored graph version to the
  executor's inputs (\<open>backend/app/engine/graph_data.py\<close>).
\<close>

subsection \<open>Python iteration and strings\<close>

text \<open>The items of \<open>for x in v\<close>; \<open>None\<close> is the \<open>TypeError\<close> of a value that is not iterable.\<close>

fun iter_values :: "json \<Rightarrow> json list option" where
  "iter_values (JList xs) = Some xs"
| "iter_values (JObj kvs) = Some (map (JStr \<circ> fst) kvs)"
| "iter_values (JStr s) = Some (map (\<lambda>c. JStr [c]) s)"
| "iter_values _ = None"

text \<open>\<open>str(v)\<close>; the text of floats, lists and dicts is the parameter \<open>repr\<close>.\<close>

fun py_str :: "(json \<Rightarrow> string) \<Rightarrow> json \<Rightarrow> string" where
  "py_str repr (JStr s) = s"
| "py_str repr JNull = ''None''"
| "py_str repr (JBool b) = (if b then ''True'' else ''False'')"
| "py_str repr (JInt i) = int_str i"
| "py_str repr v = repr v"

subsection \<open>Node contracts and the registry\<close>

datatype port_type =
  ANY | FILE_LIST | TABLE | JSON | DOCUMENT | CHUNKS | EMBEDDINGS | TEXT | ITEMS

record port_def =
  pt_name :: string
  pt_type :: port_type
  pt_required :: bool
  pt_multi :: bool

record node_def =
  nd_type :: string
  nd_category :: string
  nd_inputs :: "port_def list"
  nd_outputs :: "port_def list"
  nd_properties :: obj
  nd_required :: "string list option"

type_synonym registry = "(string, node_def) dict"

datatype graph_error =
    AlreadyRegistered string
  | UnknownNodeType json json
  | EdgeUnknownNode json
  | EdgeUnknownPort json
  | EdgeTypeMismatch json port_type port_type
  | AttributeError
  | TypeError

definition register_node :: "registry \<Rightarrow> node_def \<Rightarrow> graph_error + registry" where
  "register_node reg n =
     (if dict_has reg (nd_type n) then Inl (AlreadyRegistered (nd_type n))
      else Inr (dict_set (nd_type n) n reg))"

definition get_node :: "registry \<Rightarrow> string \<Rightarrow> node_def option" where
  "get_node reg t = dict_get reg t"

definition get_nodes_by_category :: "registry \<Rightarrow> string \<Rightarrow> node_def list" where
  "get_nodes_by_category reg c = filter (\<lambda>n. nd_category n = c) (map snd reg)"

text \<open>\<open>BaseNode.validate_config\<close>: the required fields of the schema that are missing.\<close>

definition validate_config :: "node_def \<Rightarrow> obj \<Rightarrow> string list" where
  "validate_config n config =
     filter (\<lambda>f. dict_has (nd_properties n) f \<and> \<not> dict_has config f) (opt_or (nd_required n) [])"

text \<open>\<open>validate_registry_contracts\<close>: every entry serializes under its own key.\<close>

definition registry_ok :: "registry \<Rightarrow> bool" where
  "registry_ok reg \<longleftrightarrow> dict_wf reg \<and> (\<forall>(t, n) \<in> set reg. nd_type n = t)"

lemma register_node_ok: "registry_ok reg \<Longrightarrow> register_node reg n = Inr reg' \<Longrightarrow> registry_ok reg'"
proof -
  have "p \<in> set (dict_set k v d) \<Longrightarrow> p = (k, v) \<or> p \<in> set d" for p k v and d :: registry
    by (induction d) (auto split: if_splits)
  then show "registry_ok reg \<Longrightarrow> register_node reg n = Inr reg' \<Longrightarrow> registry_ok reg'"
    by (fastforce simp: registry_ok_def register_node_def split: if_splits)
qed

lemma get_node_type: "registry_ok reg \<Longrightarrow> get_node reg t = Some n \<Longrightarrow> nd_type n = t"
  by (auto simp: registry_ok_def get_node_def dest: map_of_SomeD)

subsection \<open>Saving a version: validation\<close>

text \<open>\<open>(data or {}).get(key, [])\<close>.\<close>

definition raw_items :: "obj option \<Rightarrow> string \<Rightarrow> json" where
  "raw_items data key = dict_get_or (opt_or data []) key (JList [])"

text \<open>\<open>item.get(...)\<close> on an item that is not a dict is an \<open>AttributeError\<close>.\<close>

definition as_dict :: "json \<Rightarrow> graph_error + obj" where
  "as_dict j = (case j of JObj d \<Rightarrow> Inr d | _ \<Rightarrow> Inl AttributeError)"

definition iter_dicts :: "json \<Rightarrow> graph_error + json list" where
  "iter_dicts j = (case iter_values j of None \<Rightarrow> Inl TypeError | Some xs \<Rightarrow> Inr xs)"

fun collect_definitions ::
  "registry \<Rightarrow> json list \<Rightarrow> registry \<Rightarrow> graph_error + registry" where
  "collect_definitions reg [] defs = Inr defs"
| "collect_definitions reg (item # items) defs =
     bind_res (as_dict item) (\<lambda>d.
       let node_id = obj_get d ''id''; node_type = obj_get d ''type'';
           defn = (case node_type of JStr t \<Rightarrow> get_node reg t | _ \<Rightarrow> None)
       in (case (node_id, defn) of
             (JStr i, Some n) \<Rightarrow> collect_definitions reg items (dict_set i n defs)
           | _ \<Rightarrow> Inl (UnknownNodeType node_type node_id)))"

definition lookup_definition :: "registry \<Rightarrow> json \<Rightarrow> graph_error + node_def option" where
  "lookup_definition defs j =
     (if \<not> hashable j then Inl TypeError
      else Inr (case j of JStr s \<Rightarrow> dict_get defs s | _ \<Rightarrow> None))"

definition edge_port_name :: "obj \<Rightarrow> string \<Rightarrow> string \<Rightarrow> string \<Rightarrow> json" where
  "edge_port_name e key handle fallback =
     or_else (obj_get e key) (or_else (obj_get e handle) (JStr fallback))"

definition find_port :: "port_def list \<Rightarrow> json \<Rightarrow> port_def option" where
  "find_port ports name = find (\<lambda>p. JStr (pt_name p) = name) ports"

definition check_edge :: "registry \<Rightarrow> json \<Rightarrow> graph_error + unit" where
  "check_edge defs item =
     bind_res (as_dict item) (\<lambda>e.
       let edge_id = dict_get_or e ''id'' (JStr ''<unknown>'') in
       bind_res (lookup_definition defs (obj_get e ''source'')) (\<lambda>src.
         case src of None \<Rightarrow> Inl (EdgeUnknownNode edge_id)
         | Some s \<Rightarrow>
           bind_res (lookup_definition defs (obj_get e ''target'')) (\<lambda>tgt.
             case tgt of None \<Rightarrow> Inl (EdgeUnknownNode edge_id)
             | Some t \<Rightarrow>
               (case (find_port (nd_outputs s) (edge_port_name e ''source_port'' ''sourceHandle'' ''output''),
                      find_port (nd_inputs t) (edge_port_name e ''target_port'' ''targetHandle'' ''input'')) of
                  (Some sp, Some tp) \<Rightarrow>
                    if pt_type tp \<noteq> ANY \<and> pt_type sp \<noteq> pt_type tp
                    then Inl (EdgeTypeMismatch edge_id (pt_type sp) (pt_type tp))
                    else Inr ()
                | _ \<Rightarrow> Inl (EdgeUnknownPort edge_id)))))"

definition validate_graph_edges ::
  "registry \<Rightarrow> obj option \<Rightarrow> obj option \<Rightarrow> graph_error + unit" where
  "validate_graph_edges reg nodes_data edges_data =
     bind_res (iter_dicts (raw_items nodes_data ''nodes'')) (\<lambda>items.
     bind_res (collect_definitions reg items []) (\<lambda>defs.
     bind_res (iter_dicts (raw_items edges_data ''edges'')) (\<lambda>edges.
     bind_res (map_res (check_edge defs) edges) (\<lambda>_. Inr ()))))"

subsection \<open>Saving a version: configurations\<close>

fun node_type_table :: "json list \<Rightarrow> (json, json) dict \<Rightarrow> graph_error + (json, json) dict" where
  "node_type_table [] acc = Inr acc"
| "node_type_table (item # items) acc =
     bind_res (as_dict item) (\<lambda>d.
       if hashable (obj_get d ''id'')
       then node_type_table items (dict_set (obj_get d ''id'') (obj_get d ''type'') acc)
       else Inl TypeError)"

definition sanitize_config ::
  "registry \<Rightarrow> (json, json) dict \<Rightarrow> string \<Rightarrow> json \<Rightarrow> graph_error + obj" where
  "sanitize_config reg types node_id raw =
     bind_res (lookup_definition reg (dict_get_or types (JStr node_id) JNull)) (\<lambda>defn.
       case (defn, raw) of
         (Some n, JObj c) \<Rightarrow> Inr (filter (\<lambda>p. dict_has (nd_properties n) (fst p)) c)
       | _ \<Rightarrow> Inr [])"

definition sanitize_node_configs ::
  "registry \<Rightarrow> obj option \<Rightarrow> obj option \<Rightarrow> graph_error + (string, obj) dict" where
  "sanitize_node_configs reg nodes_data configs =
     bind_res (iter_dicts (raw_items nodes_data ''nodes'')) (\<lambda>items.
     bind_res (node_type_table items []) (\<lambda>types.
       map_res (\<lambda>(i, raw). bind_res (sanitize_config reg types i raw) (\<lambda>c. Inr (i, c)))
         (opt_or configs [])))"

definition strip_item :: "json \<Rightarrow> graph_error + json" where
  "strip_item item =
     bind_res (as_dict item) (\<lambda>d.
       Inr (JObj (case obj_get d ''data'' of
              JObj data \<Rightarrow> dict_set ''data'' (JObj (dict_set ''config'' (JObj []) data)) d
            | _ \<Rightarrow> d)))"

definition strip_embedded_node_configs :: "obj option \<Rightarrow> graph_error + obj option" where
  "strip_embedded_node_configs nodes_data =
     (case nodes_data of
        None \<Rightarrow> Inr None
      | Some d \<Rightarrow>
          bind_res (iter_dicts (dict_get_or d ''nodes'' (JList []))) (\<lambda>items.
          bind_res (map_res strip_item items) (\<lambda>items'.
            Inr (Some (if is_list (obj_get d ''nodes'') then dict_set ''nodes'' (JList items') d else d)))))"

subsection \<open>Loading a version\<close>

definition node_key :: "(json \<Rightarrow> string) \<Rightarrow> obj \<Rightarrow> string" where
  "node_key repr d = py_str repr (dict_get_or d ''id'' (obj_get d ''node_id''))"

definition only_dicts :: "json list \<Rightarrow> obj list" where
  "only_dicts xs = List.map_filter (\<lambda>j. case j of JObj d \<Rightarrow> Some d | _ \<Rightarrow> None) xs"

definition unpack_nodes :: "(json \<Rightarrow> string) \<Rightarrow> json \<Rightarrow> obj" where
  "unpack_nodes repr nodes_data =
     (case nodes_data of
        JObj d \<Rightarrow>
          (case dict_get d ''nodes'' of
             Some (JList xs) \<Rightarrow> fold (\<lambda>n acc. dict_set (node_key repr n) (JObj n) acc) (only_dicts xs) []
           | _ \<Rightarrow> d)
      | _ \<Rightarrow> [])"

definition normalize_edge :: "obj \<Rightarrow> obj" where
  "normalize_edge e =
     dict_set ''target_port'' (edge_port_name e ''target_port'' ''targetHandle'' ''input'')
       (dict_set ''source_port'' (edge_port_name e ''source_port'' ''sourceHandle'' ''output'') e)"

definition unpack_edges :: "json \<Rightarrow> obj list" where
  "unpack_edges edges_data =
     (let raw = (case edges_data of
                   JObj d \<Rightarrow> (case dict_get d ''edges'' of Some v \<Rightarrow> v | None \<Rightarrow> edges_data)
                 | _ \<Rightarrow> edges_data)
      in (case raw of JList xs \<Rightarrow> map normalize_edge (only_dicts xs) | _ \<Rightarrow> []))"

definition unpack_version_data :: "(json \<Rightarrow> string) \<Rightarrow> json \<Rightarrow> json \<Rightarrow> obj \<times> obj list" where
  "unpack_version_data repr nodes_data edges_data =
     (unpack_nodes repr nodes_data, unpack_edges edges_data)"

subsection \<open>Normalised edges\<close>

lemma edge_port_name_truthy: "fallback \<noteq> [] \<Longrightarrow> truthy (edge_port_name e key handle fallback)"
  by (simp add: edge_port_name_def or_else_def)

lemma edge_port_name_keep: "truthy (obj_get e key) \<Longrightarrow> edge_port_name e key handle fallback = obj_get e key"
  by (simp add: edge_port_name_def or_else_def)

lemma dict_set_same: "dict_get d k = Some v \<Longrightarrow> dict_set k v d = d"
  by (induction d) auto

lemma normalize_edge_get:
  "obj_get (normalize_edge e) k =
     (if k = ''target_port'' then edge_port_name e ''target_port'' ''targetHandle'' ''input''
      else if k = ''source_port'' then edge_port_name e ''source_port'' ''sourceHandle'' ''output''
      else obj_get e k)"
  by (simp add: normalize_edge_def)

lemma normalize_edge_idem: "normalize_edge (normalize_edge e) = normalize_edge e"
proof -
  let ?n = "normalize_edge e"
  have t: "truthy (obj_get ?n ''source_port'')" "truthy (obj_get ?n ''target_port'')"
    by (simp_all add: normalize_edge_get edge_port_name_truthy)
  have g: "dict_get ?n ''source_port'' = Some (obj_get ?n ''source_port'')"
    "dict_get ?n ''target_port'' = Some (obj_get ?n ''target_port'')"
    by (simp_all add: normalize_edge_def)
  show ?thesis
    unfolding normalize_edge_def [of ?n]
    by (simp add: edge_port_name_keep t dict_set_same g)
qed

lemma edge_ends_normalize [simp]:
  "edge_source (normalize_edge e) = edge_source e" "edge_target (normalize_edge e) = edge_target e"
  by (simp_all add: edge_source_def edge_target_def dict_get_or_def obj_get_def normalize_edge_def)

lemma only_dicts_map [simp]: "only_dicts (map JObj ds) = ds"
  by (induction ds) (simp_all add: only_dicts_def List.map_filter_simps)

lemma unpack_edges_list: "unpack_edges (JList (map JObj ds)) = map normalize_edge ds"
  by (simp add: unpack_edges_def)

lemma unpack_edges_image: "\<exists>ds. unpack_edges j = map normalize_edge ds"
  by (auto simp: unpack_edges_def Let_def intro: exI [of _ "[]"] split: json.splits)

lemma unpack_edges_idem: "unpack_edges (JList (map JObj (unpack_edges j))) = unpack_edges j"
proof -
  obtain ds where "unpack_edges j = map normalize_edge ds" using unpack_edges_image by blast
  then show ?thesis by (simp add: unpack_edges_list normalize_edge_idem o_def del: map_map) (simp add: normalize_edge_idem)
qed

subsection \<open>What validation guarantees\<close>

definition node_entry :: "registry \<Rightarrow> json \<Rightarrow> string \<Rightarrow> node_def \<Rightarrow> bool" where
  "node_entry reg item i n = (\<exists>d t. item = JObj d \<and> obj_get d ''id'' = JStr i \<and>
     obj_get d ''type'' = JStr t \<and> get_node reg t = Some n)"

lemma collect_definitions_Cons:
  "collect_definitions reg (item # items) defs = Inr out \<longleftrightarrow>
     (\<exists>i n. node_entry reg item i n \<and> collect_definitions reg items (dict_set i n defs) = Inr out)"
  by (cases item)
     (auto simp: as_dict_def node_entry_def Let_def split: json.splits option.splits)

lemma collect_definitions_entry:
  "collect_definitions reg items defs = Inr out \<Longrightarrow> dict_get out i = Some n \<Longrightarrow>
     dict_get defs i = Some n \<or> (\<exists>item \<in> set items. node_entry reg item i n)"
proof (induction items arbitrary: defs)
  case (Cons item items)
  then obtain j m where jm: "node_entry reg item j m"
    "collect_definitions reg items (dict_set j m defs) = Inr out"
    unfolding collect_definitions_Cons by blast
  from Cons.IH [OF jm(2) Cons.prems(2)] jm(1) show ?case by (auto split: if_splits)
qed simp

lemma collect_definitions_items:
  "collect_definitions reg items defs = Inr out \<Longrightarrow> item \<in> set items \<Longrightarrow> \<exists>i n. node_entry reg item i n"
  by (induction items arbitrary: defs) (auto simp: collect_definitions_Cons simp del: collect_definitions.simps)

text \<open>An edge between declared ports of declared nodes, of compatible types.\<close>

definition edge_typed :: "registry \<Rightarrow> json list \<Rightarrow> json \<Rightarrow> bool" where
  "edge_typed reg items item = (\<exists>e s t ns nt sp tp.
     item = JObj e \<and> obj_get e ''source'' = JStr s \<and> obj_get e ''target'' = JStr t \<and>
     (\<exists>x \<in> set items. node_entry reg x s ns) \<and> (\<exists>x \<in> set items. node_entry reg x t nt) \<and>
     sp \<in> set (nd_outputs ns) \<and> tp \<in> set (nd_inputs nt) \<and>
     JStr (pt_name sp) = edge_port_name e ''source_port'' ''sourceHandle'' ''output'' \<and>
     JStr (pt_name tp) = edge_port_name e ''target_port'' ''targetHandle'' ''input'' \<and>
     (pt_type tp = ANY \<or> pt_type sp = pt_type tp))"

lemma lookup_definition_Some:
  "lookup_definition defs j = Inr (Some n) \<longleftrightarrow> (\<exists>s. j = JStr s \<and> dict_get defs s = Some n)"
  by (cases j) (auto simp: lookup_definition_def hashable_def)

lemma find_port_Some: "find_port ports name = Some p \<Longrightarrow> p \<in> set ports \<and> JStr (pt_name p) = name"
  by (auto simp: find_port_def find_Some_iff)

lemma check_edge_ok:
  assumes ok: "check_edge defs item = Inr ()"
  shows "\<exists>e s t ns nt sp tp.
     item = JObj e \<and> obj_get e ''source'' = JStr s \<and> obj_get e ''target'' = JStr t \<and>
     dict_get defs s = Some ns \<and> dict_get defs t = Some nt \<and>
     find_port (nd_outputs ns) (edge_port_name e ''source_port'' ''sourceHandle'' ''output'') = Some sp \<and>
     find_port (nd_inputs nt) (edge_port_name e ''target_port'' ''targetHandle'' ''input'') = Some tp \<and>
     (pt_type tp = ANY \<or> pt_type sp = pt_type tp)"
proof -
  obtain e where e: "item = JObj e"
    using ok by (cases item) (simp_all add: check_edge_def as_dict_def)
  have "\<exists>ns. lookup_definition defs (obj_get e ''source'') = Inr (Some ns)"
    using ok unfolding e check_edge_def as_dict_def
    by (auto simp: bind_res_Inr Let_def split: option.splits)
  then obtain ns where ns: "lookup_definition defs (obj_get e ''source'') = Inr (Some ns)" ..
  have "\<exists>nt. lookup_definition defs (obj_get e ''target'') = Inr (Some nt)"
    using ok ns unfolding e check_edge_def as_dict_def
    by (auto simp: bind_res_Inr Let_def split: option.splits)
  then obtain nt where nt: "lookup_definition defs (obj_get e ''target'') = Inr (Some nt)" ..
  have "\<exists>sp tp.
      find_port (nd_outputs ns) (edge_port_name e ''source_port'' ''sourceHandle'' ''output'') = Some sp \<and>
      find_port (nd_inputs nt) (edge_port_name e ''target_port'' ''targetHandle'' ''input'') = Some tp \<and>
      (pt_type tp = ANY \<or> pt_type sp = pt_type tp)"
    using ok ns nt unfolding e check_edge_def as_dict_def
    by (auto simp: Let_def split: option.splits if_splits)
  with e ns nt show ?thesis unfolding lookup_definition_Some by fast
qed

lemma validate_graph_edges_Inr:
  "validate_graph_edges reg nd ed = Inr () \<longleftrightarrow>
     (\<exists>items defs edges. iter_values (raw_items nd ''nodes'') = Some items \<and>
        collect_definitions reg items [] = Inr defs \<and>
        iter_values (raw_items ed ''edges'') = Some edges \<and>
        (\<forall>x \<in> set edges. check_edge defs x = Inr ()))"
proof -
  have m: "(\<exists>ys. map_res (check_edge defs) edges = Inr ys) \<longleftrightarrow>
      (\<forall>x \<in> set edges. check_edge defs x = Inr ())" for defs edges
    by (induction edges) (auto simp: bind_res_Inr)
  show ?thesis
    by (auto simp: validate_graph_edges_def bind_res_Inr iter_dicts_def m split: option.splits)
qed

text \<open>
  C25. Saving a version checks ports and types: when \<open>validate_graph_edges\<close> accepts, every node
  names a registered type and every edge joins an output port of one declared node to an input
  port of another whose type is equal or \<open>any\<close>.
\<close>

theorem validate_graph_edges_typed:
  assumes "validate_graph_edges reg nodes_data edges_data = Inr ()"
  shows "\<exists>items edges. iter_values (raw_items nodes_data ''nodes'') = Some items \<and>
    iter_values (raw_items edges_data ''edges'') = Some edges \<and>
    (\<forall>x \<in> set items. \<exists>i n. node_entry reg x i n) \<and> (\<forall>x \<in> set edges. edge_typed reg items x)"
proof -
  obtain items defs edges where i: "iter_values (raw_items nodes_data ''nodes'') = Some items"
    and d: "collect_definitions reg items [] = Inr defs"
    and e: "iter_values (raw_items edges_data ''edges'') = Some edges"
    and c: "\<forall>x \<in> set edges. check_edge defs x = Inr ()"
    using assms unfolding validate_graph_edges_Inr by blast
  have entry: "dict_get defs s = Some n \<Longrightarrow> \<exists>x \<in> set items. node_entry reg x s n" for s n
    using collect_definitions_entry [OF d] by auto
  have "edge_typed reg items x" if "x \<in> set edges" for x
    using check_edge_ok [OF c [THEN bspec, OF that]] unfolding edge_typed_def
    by (fast dest: find_port_Some entry)
  with i e collect_definitions_items [OF d] show ?thesis by blast
qed

subsection \<open>A validated version loads\<close>

lemma unpack_fold_keys:
  "set (dict_keys (fold (\<lambda>n acc. dict_set (node_key repr n) (JObj n) acc) ds acc)) =
     set (dict_keys acc) \<union> node_key repr ` set ds"
  by (induction ds arbitrary: acc) (auto simp: dom_update)

lemma unpack_fold_wf:
  "dict_wf acc \<Longrightarrow> dict_wf (fold (\<lambda>n acc. dict_set (node_key repr n) (JObj n) acc) ds acc)"
  by (induction ds arbitrary: acc) auto

lemma unpack_nodes_wf: "(\<And>d. j = JObj d \<Longrightarrow> dict_wf d) \<Longrightarrow> dict_wf (unpack_nodes repr j)"
  by (auto simp: unpack_nodes_def unpack_fold_wf split: json.splits option.splits)

lemma only_dicts_mem: "d \<in> set (only_dicts xs) \<longleftrightarrow> JObj d \<in> set xs"
  by (induction xs) (auto simp: only_dicts_def List.map_filter_simps split: json.splits option.splits)

lemma node_entry_key: "node_entry reg (JObj d) i n \<Longrightarrow> node_key repr d = i"
  by (auto simp: node_entry_def node_key_def obj_get_def dict_get_or_def split: option.splits)

lemma validated_endpoints:
  assumes v: "validate_graph_edges reg (Some nd) (Some ed) = Inr ()"
    and e: "e \<in> set (unpack_edges (JObj ed))"
  shows "\<exists>s \<in> set (dict_keys (unpack_nodes repr (JObj nd))).
         \<exists>t \<in> set (dict_keys (unpack_nodes repr (JObj nd))).
           edge_source e = JStr s \<and> edge_target e = JStr t"
proof -
  obtain items defs edges where i: "iter_values (raw_items (Some nd) ''nodes'') = Some items"
    and d: "collect_definitions reg items [] = Inr defs"
    and ed: "iter_values (raw_items (Some ed) ''edges'') = Some edges"
    and c: "\<forall>x \<in> set edges. check_edge defs x = Inr ()"
    using v unfolding validate_graph_edges_Inr by blast
  obtain e0 where e0: "JObj e0 \<in> set edges" "e = normalize_edge e0"
    using e ed
    by (auto simp: unpack_edges_def raw_items_def dict_get_or_def Let_def only_dicts_mem
        split: option.splits json.splits)
  obtain s t ns nt where st: "obj_get e0 ''source'' = JStr s" "obj_get e0 ''target'' = JStr t"
    "dict_get defs s = Some ns" "dict_get defs t = Some nt"
    using check_edge_ok [OF c [THEN bspec, OF e0(1)]] by auto
  have key: "k \<in> set (dict_keys (unpack_nodes repr (JObj nd)))" if kn: "dict_get defs k = Some n" for k n
  proof -
    obtain x where x: "x \<in> set items" "node_entry reg x k n"
      using collect_definitions_entry [OF d kn] by auto
    then obtain dd where dd: "x = JObj dd" by (auto simp: node_entry_def)
    have "dict_get nd ''nodes'' = Some (JList items)"
      using i x dd
      by (cases "dict_get nd ''nodes''"; cases "the (dict_get nd ''nodes'')")
         (auto simp: raw_items_def dict_get_or_def)
    moreover have "dd \<in> set (only_dicts items)" using x dd by (simp add: only_dicts_mem)
    moreover have "node_key repr dd = k" using x dd node_entry_key by blast
    ultimately show ?thesis
      using unpack_fold_keys [of repr "only_dicts items" "[]"] by (auto simp: unpack_nodes_def)
  qed
  have "edge_source e = JStr s" "edge_target e = JStr t"
    unfolding e0(2) edge_ends_normalize using st(1,2)
    by (auto simp: edge_source_def edge_target_def obj_get_def dict_get_or_def split: option.splits)
  with key st(3,4) show ?thesis by blast
qed

text \<open>
  A version that validation accepted never loads with a dangling edge: after
  \<open>unpack_version_data\<close>, \<open>validate_dag\<close> can report a cycle and nothing else.
\<close>

theorem validated_version_loads:
  assumes "validate_graph_edges reg (Some nd) (Some ed) = Inr ()" and "dict_wf nd"
    and "unpack_version_data repr (JObj nd) (JObj ed) = (nodes, edges)"
  shows "validate_dag (dict_keys nodes) edges \<in> {Some (Inr []), Some (Inr [HasCycle])}"
proof -
  have n: "nodes = unpack_nodes repr (JObj nd)" and e: "edges = unpack_edges (JObj ed)"
    using assms(3) by (simp_all add: unpack_version_data_def)
  have "dict_wf nodes" unfolding n using assms(2) by (intro unpack_nodes_wf) auto
  then obtain r where r: "topological_sort (dict_keys nodes) edges = Some r"
    using topological_sort_returns unfolding dict_wf_def by metis
  have ends: "\<forall>e \<in> set edges. \<exists>u \<in> set (dict_keys nodes). \<exists>v \<in> set (dict_keys nodes).
      edge_source e = JStr u \<and> edge_target e = JStr v"
    using validated_endpoints [OF assms(1)] unfolding n e by blast
  then have "check_edges (dict_keys nodes) 0 edges = Inr []" by (simp only: check_edges_empty)
  moreover have "r \<noteq> Inl Unhashable"
  proof -
    have "\<exists>ps. known_edges (dict_keys nodes) edges = Inr ps"
      using ends by (induction edges) (force simp: in_nodes_def hashable_def)+
    then show ?thesis using r by (auto simp: topological_sort_def split: option.splits if_splits)
  qed
  ultimately show ?thesis
    using r by (auto simp: validate_dag_def split: sum.splits sched_error.splits)
qed

text \<open>A small registry and graph on which the hypotheses hold.\<close>

definition demo_registry :: registry where
  "demo_registry =
     [(''src'', \<lparr>nd_type = ''src'', nd_category = ''source'', nd_inputs = [],
        nd_outputs = [\<lparr>pt_name = ''output'', pt_type = TABLE, pt_required = False, pt_multi = False\<rparr>],
        nd_properties = [(''path'', JNull)], nd_required = Some [''path'']\<rparr>),
      (''sink'', \<lparr>nd_type = ''sink'', nd_category = ''output'',
        nd_inputs = [\<lparr>pt_name = ''input'', pt_type = ANY, pt_required = True, pt_multi = False\<rparr>],
        nd_outputs = [], nd_properties = [], nd_required = None\<rparr>)]"

definition demo_nodes :: obj where
  "demo_nodes = [(''nodes'', JList [
     JObj [(''id'', JStr ''n1''), (''type'', JStr ''src'')],
     JObj [(''id'', JStr ''n2''), (''type'', JStr ''sink'')]])]"

definition demo_edges :: obj where
  "demo_edges = [(''edges'', JList [
     JObj [(''id'', JStr ''e1''), (''source'', JStr ''n1''), (''target'', JStr ''n2'')]])]"

lemma demo_valid: "validate_graph_edges demo_registry (Some demo_nodes) (Some demo_edges) = Inr ()"
  by code_simp

theorem validate_graph_edges_typed_witness:
  "\<exists>items edges. iter_values (raw_items (Some demo_nodes) ''nodes'') = Some items \<and>
    iter_values (raw_items (Some demo_edges) ''edges'') = Some edges \<and>
    (\<forall>x \<in> set items. \<exists>i n. node_entry demo_registry x i n) \<and>
    (\<forall>x \<in> set edges. edge_typed demo_registry items x)"
  by (rule validate_graph_edges_typed [OF demo_valid])

theorem validated_version_loads_witness:
  "validate_dag (dict_keys (unpack_nodes (\<lambda>_. []) (JObj demo_nodes))) (unpack_edges (JObj demo_edges))
     \<in> {Some (Inr []), Some (Inr [HasCycle])}"
  by (rule validated_version_loads [OF demo_valid _ unpack_version_data_def])
     (simp add: demo_nodes_def dict_wf_def)

subsection \<open>Saved configurations\<close>

definition config_keys_declared :: "registry \<Rightarrow> (json, json) dict \<Rightarrow> string \<Rightarrow> obj \<Rightarrow> bool" where
  "config_keys_declared reg types i c \<longleftrightarrow>
     (\<forall>k \<in> set (dict_keys c). \<exists>t n. dict_get types (JStr i) = Some (JStr t) \<and>
        get_node reg t = Some n \<and> dict_has (nd_properties n) k)"

lemma sanitize_config_cases:
  assumes "sanitize_config reg types i raw = Inr c"
  obtains "c = []" "\<exists>d. lookup_definition reg (dict_get_or types (JStr i) JNull) = Inr d"
  | r n t where "raw = JObj r" "c = filter (\<lambda>p. dict_has (nd_properties n) (fst p)) r"
      "lookup_definition reg (JStr t) = Inr (Some n)" "dict_get types (JStr i) = Some (JStr t)"
proof -
  let ?j = "dict_get_or types (JStr i) JNull"
  obtain d where d: "lookup_definition reg ?j = Inr d"
    using assms by (auto simp: sanitize_config_def bind_res_Inr)
  show thesis
  proof (cases "\<exists>n r. d = Some n \<and> raw = JObj r")
    case True
    then obtain n r where n: "d = Some n" "raw = JObj r" by blast
    then obtain t where "?j = JStr t" using d by (auto simp: lookup_definition_Some)
    then show thesis using that(2) assms d n
      by (auto simp: sanitize_config_def dict_get_or_def split: option.splits)
  next
    case False
    then have "c = []" using assms d
      by (cases d; cases raw) (simp_all add: sanitize_config_def)
    then show thesis using that(1) d by blast
  qed
qed

lemma sanitize_config_ok:
  "sanitize_config reg types i raw = Inr c \<Longrightarrow> config_keys_declared reg types i c \<and>
     (\<forall>p \<in> set c. \<exists>r. raw = JObj r \<and> p \<in> set r)"
  by (erule sanitize_config_cases)
     (auto simp: config_keys_declared_def lookup_definition_Some get_node_def)

lemma sanitize_config_idem:
  "sanitize_config reg types i raw = Inr c \<Longrightarrow> sanitize_config reg types i (JObj c) = Inr c"
  by (erule sanitize_config_cases)
     (auto simp: sanitize_config_def dict_get_or_def split: option.split)

lemma map_res_keyed:
  "map_res (\<lambda>(i, raw). bind_res (f i raw) (\<lambda>c. Inr (i, c))) xs = Inr ys \<Longrightarrow>
     dict_keys ys = dict_keys xs \<and> list_all2 (\<lambda>x y. f (fst x) (snd x) = Inr (snd y)) xs ys"
  by (induction xs arbitrary: ys) (auto simp: bind_res_Inr)

lemma sanitize_node_configs_Inr:
  "sanitize_node_configs reg nodes_data configs = Inr out \<longleftrightarrow>
     (\<exists>items types. iter_values (raw_items nodes_data ''nodes'') = Some items \<and>
        node_type_table items [] = Inr types \<and>
        map_res (\<lambda>(i, raw). bind_res (sanitize_config reg types i raw) (\<lambda>c. Inr (i, c)))
          (opt_or configs []) = Inr out)"
  by (simp add: sanitize_node_configs_def iter_dicts_def bind_res_Inr split: option.split)

text \<open>
  Saving sanitises configurations: the result has the same nodes in the same order, every
  surviving field is declared by the schema of that node's registered type and keeps its saved
  value, and sanitising the result again changes nothing.
\<close>

theorem sanitize_node_configs_sound:
  assumes "sanitize_node_configs reg nodes_data configs = Inr out"
  shows "dict_keys out = dict_keys (opt_or configs []) \<and>
    (\<exists>items types. iter_values (raw_items nodes_data ''nodes'') = Some items \<and>
       node_type_table items [] = Inr types \<and>
       (\<forall>(i, c) \<in> set out. config_keys_declared reg types i c)) \<and>
    list_all2 (\<lambda>(_, raw) (_, c). \<forall>p \<in> set c. \<exists>r. raw = JObj r \<and> p \<in> set r)
      (opt_or configs []) out \<and>
    sanitize_node_configs reg nodes_data (Some (map (\<lambda>(i, c). (i, JObj c)) out)) = Inr out"
proof -
  obtain items types where i: "iter_values (raw_items nodes_data ''nodes'') = Some items"
    and t: "node_type_table items [] = Inr types"
    and m: "map_res (\<lambda>(i, raw). bind_res (sanitize_config reg types i raw) (\<lambda>c. Inr (i, c)))
              (opt_or configs []) = Inr out"
    using assms unfolding sanitize_node_configs_Inr by blast
  note k = map_res_keyed [OF m]
  have pairs: "\<exists>raw. sanitize_config reg types (fst p) raw = Inr (snd p)" if "p \<in> set out" for p
  proof -
    from that obtain n where n: "n < length out" "p = out ! n" by (metis in_set_conv_nth)
    let ?x = "opt_or configs [] ! n"
    have "length out = length (opt_or configs [])"
      using arg_cong [OF k [THEN conjunct1], of length] by simp
    moreover have "sanitize_config reg types (fst ?x) (snd ?x) = Inr (snd (out ! n))"
      using k n by (simp add: list_all2_conv_all_nth)
    moreover have "map fst out ! n = map fst (opt_or configs []) ! n" using k by simp
    then have "fst ?x = fst (out ! n)" using n(1) \<open>length out = _\<close> by simp
    ultimately show ?thesis using n by auto
  qed
  have decl: "config_keys_declared reg types j c" if "(j, c) \<in> set out" for j c
    using pairs [OF that] sanitize_config_ok by fastforce
  have keep: "list_all2 (\<lambda>(_, raw) (_, c). \<forall>p \<in> set c. \<exists>r. raw = JObj r \<and> p \<in> set r)
      (opt_or configs []) out"
    using k [THEN conjunct2]
  proof (rule list_all2_mono)
    fix x y
    assume "sanitize_config reg types (fst x) (snd x) = Inr (snd y)"
    then show "(case x of (_, raw) \<Rightarrow> \<lambda>(_, c). \<forall>p \<in> set c. \<exists>r. raw = JObj r \<and> p \<in> set r) y"
      by (cases x; cases y) (auto dest!: sanitize_config_ok)
  qed
  have "map_res (\<lambda>(i, raw). bind_res (sanitize_config reg types i raw) (\<lambda>c. Inr (i, c)))
      (map (\<lambda>(i, c). (i, JObj c)) out) = Inr out"
    unfolding map_res_Inr_iff list_all2_map1 list_all2_same
  proof
    fix p assume "p \<in> set out"
    then have "sanitize_config reg types (fst p) (JObj (snd p)) = Inr (snd p)"
      using pairs sanitize_config_idem by blast
    then show "(case case p of (i, c) \<Rightarrow> (i, JObj c) of (i, raw) \<Rightarrow>
        bind_res (sanitize_config reg types i raw) (\<lambda>c. Inr (i, c))) = Inr p"
      by (cases p) simp
  qed
  then have "sanitize_node_configs reg nodes_data (Some (map (\<lambda>(i, c). (i, JObj c)) out)) = Inr out"
    using i t unfolding sanitize_node_configs_Inr by simp
  moreover have "\<forall>(i, c) \<in> set out. config_keys_declared reg types i c" using decl by blast
  ultimately show ?thesis using i t k keep by blast
qed

theorem sanitize_node_configs_sound_witness:
  "sanitize_node_configs demo_registry (Some demo_nodes)
      (Some [(''n1'', JObj [(''path'', JStr ''/x''), (''token'', JStr ''old'')])])
      = Inr [(''n1'', [(''path'', JStr ''/x'')])] \<and>
   sanitize_node_configs demo_registry (Some demo_nodes)
      (Some (map (\<lambda>(i, c). (i, JObj c)) [(''n1'', [(''path'', JStr ''/x'')])]))
      = Inr [(''n1'', [(''path'', JStr ''/x'')])]"
proof -
  have s: "sanitize_node_configs demo_registry (Some demo_nodes)
      (Some [(''n1'', JObj [(''path'', JStr ''/x''), (''token'', JStr ''old'')])])
      = Inr [(''n1'', [(''path'', JStr ''/x'')])]" by code_simp
  show ?thesis using s sanitize_node_configs_sound [OF s] by blast
qed

end
