(* ===== verification/Database.thy ===== *)
theory Database
  imports RunState GraphData
begin

text \<open>
  The control-plane tables (\<open>backend/app/models/\<close>) and the committed state the services work on.
  A table is the list of its rows in insertion order; a UUID is a natural number drawn from the
  counter \<open>db_next\<close> (\<open>uuid4\<close> never repeats); a timestamp is an integer number of
  microseconds. A JSONB dict column is an \<open>obj option\<close>.

  A service call is one transaction. The rows it reads \<open>FOR UPDATE\<close> stay locked until its commit,
  so the call is modelled as one atomic function of the committed state at its last lock; the
  clock readings that the code takes along the way are arguments.
\<close>

type_synonym uuid = nat
type_synonym time = int

definition seconds :: "int \<Rightarrow> time" where
  "seconds n = n * 1000000"

subsection \<open>Rows\<close>

datatype job_status = QUEUED | LEASED | JOB_COMPLETED | JOB_FAILED
datatype job_type = FULL | RETRY_FAILED
datatype checkpoint_type = PRE_EXEC | POST_EXEC
datatype log_level = DEBUG | INFO | WARNING | ERROR | CRITICAL

record run =
  rn_id :: uuid
  rn_graph_id :: uuid
  rn_version_id :: "uuid option"
  rn_trigger_type :: string
  rn_triggered_by :: "uuid option"
  rn_status :: run_status
  rn_error :: "string option"
  rn_payload :: "obj option"
  rn_created_at :: time

record run_job =
  jb_id :: uuid
  jb_run_id :: uuid
  jb_type :: job_type
  jb_status :: job_status
  jb_available_at :: time
  jb_lease_owner :: "string option"
  jb_lease_expires_at :: "time option"
  jb_heartbeat_at :: "time option"
  jb_attempt_count :: nat
  jb_last_error :: "string option"
  jb_created_at :: time

record run_node =
  nr_id :: uuid
  nr_run_id :: uuid
  nr_node_id :: string
  nr_node_type :: string
  nr_status :: node_status
  nr_attempt_count :: int
  nr_max_retries :: int
  nr_input_data :: "obj option"
  nr_output_data :: "obj option"
  nr_items_processed :: "int option"
  nr_duration_ms :: "int option"
  nr_error :: "string option"
  nr_created_at :: time

record checkpoint =
  cp_run_id :: uuid
  cp_node_id :: string
  cp_type :: checkpoint_type
  cp_state_data :: "obj option"
  cp_node_output :: "obj option"
  cp_created_at :: time

record execution_log =
  lg_run_id :: uuid
  lg_run_node_id :: "uuid option"
  lg_node_id :: "string option"
  lg_level :: log_level
  lg_message :: string

record dead_letter =
  dl_run_id :: "uuid option"
  dl_node_id :: "string option"
  dl_node_type :: "string option"
  dl_error_type :: "string option"
  dl_error_message :: "string option"
  dl_input_data :: "obj option"
  dl_retry_count :: int
  dl_resolved :: bool

record data_lineage =
  ln_run_id :: uuid
  ln_source_node_id :: string
  ln_target_node_id :: string
  ln_source_port :: json
  ln_target_port :: json
  ln_items_count :: "int option"
  ln_items_sample :: json

record source_state =
  ss_owner_id :: uuid
  ss_graph_id :: uuid
  ss_node_id :: string
  ss_source :: string
  ss_stream :: string
  ss_state_data :: obj
  ss_revision :: int
  ss_is_deleted :: bool

record state_candidate =
  cd_run_id :: uuid
  cd_owner_id :: uuid
  cd_graph_id :: uuid
  cd_node_id :: string
  cd_source :: string
  cd_stream :: string
  cd_operation :: string
  cd_state_data :: "obj option"
  cd_base_state_data :: "obj option"
  cd_base_revision :: int

record graph_row =
  gr_id :: uuid
  gr_owner_id :: uuid
  gr_name :: string
  gr_description :: "string option"
  gr_status :: string
  gr_tags :: "string list"
  gr_updated_at :: time

record graph_version =
  gv_id :: uuid
  gv_graph_id :: uuid
  gv_number :: int
  gv_nodes_data :: "obj option"
  gv_edges_data :: "obj option"
  gv_node_configs :: "obj option"
  gv_checksum :: string

record connection =
  cn_id :: uuid
  cn_user_id :: uuid
  cn_config :: "obj option"
  cn_name :: string
  cn_type :: string
  cn_is_valid :: bool
  cn_created_at :: time

datatype trigger_kind = SCHEDULE | WEBHOOK

record graph_trigger =
  tg_id :: uuid
  tg_graph_id :: uuid
  tg_version_id :: uuid
  tg_created_by :: uuid
  tg_name :: string
  tg_type :: trigger_kind
  tg_enabled :: bool
  tg_schedule_kind :: "string option"
  tg_interval_seconds :: "int option"
  tg_cron_expression :: "string option"
  tg_timezone :: string
  tg_next_run_at :: "time option"
  tg_last_run_at :: "time option"
  tg_last_run_id :: "uuid option"
  tg_webhook_secret :: "obj option"
  tg_rate_limit :: int
  tg_created_at :: time

record webhook_delivery =
  wd_trigger_id :: uuid
  wd_delivery_id :: string
  wd_body_sha256 :: string
  wd_received_at :: time
  wd_run_id :: "uuid option"

record db =
  db_runs :: "run list"
  db_jobs :: "run_job list"
  db_run_nodes :: "run_node list"
  db_checkpoints :: "checkpoint list"
  db_logs :: "execution_log list"
  db_dead_letters :: "dead_letter list"
  db_lineage :: "data_lineage list"
  db_states :: "source_state list"
  db_candidates :: "state_candidate list"
  db_graphs :: "graph_row list"
  db_versions :: "graph_version list"
  db_connections :: "connection list"
  db_triggers :: "graph_trigger list"
  db_deliveries :: "webhook_delivery list"
  db_next :: uuid

subsection \<open>Queries by unique column and row updates\<close>

definition upd_row :: "('r \<Rightarrow> 'k) \<Rightarrow> 'k \<Rightarrow> ('r \<Rightarrow> 'r) \<Rightarrow> 'r list \<Rightarrow> 'r list" where
  "upd_row key k f rows = map (\<lambda>r. if key r = k then f r else r) rows"

definition get_row :: "('r \<Rightarrow> 'k) \<Rightarrow> 'k \<Rightarrow> 'r list \<Rightarrow> 'r option" where
  "get_row key k rows = find (\<lambda>r. key r = k) rows"

definition find_run :: "db \<Rightarrow> uuid \<Rightarrow> run option" where
  "find_run db i = get_row rn_id i (db_runs db)"

definition find_job :: "db \<Rightarrow> uuid \<Rightarrow> run_job option" where
  "find_job db i = get_row jb_id i (db_jobs db)"

definition job_of_run :: "db \<Rightarrow> uuid \<Rightarrow> run_job option" where
  "job_of_run db r = get_row jb_run_id r (db_jobs db)"

definition graph_owner :: "db \<Rightarrow> uuid \<Rightarrow> uuid option" where
  "graph_owner db g = map_option gr_owner_id (get_row gr_id g (db_graphs db))"

definition upd_run :: "uuid \<Rightarrow> (run \<Rightarrow> run) \<Rightarrow> db \<Rightarrow> db" where
  "upd_run i f db = db\<lparr>db_runs := upd_row rn_id i f (db_runs db)\<rparr>"

definition upd_job :: "uuid \<Rightarrow> (run_job \<Rightarrow> run_job) \<Rightarrow> db \<Rightarrow> db" where
  "upd_job i f db = db\<lparr>db_jobs := upd_row jb_id i f (db_jobs db)\<rparr>"

subsection \<open>Facts about rows\<close>

lemma get_row_Some: "get_row key k rows = Some r \<Longrightarrow> r \<in> set rows \<and> key r = k"
  unfolding get_row_def by (rule find_Some_key)

lemma get_row_None: "get_row key k rows = None \<longleftrightarrow> k \<notin> key ` set rows"
  unfolding get_row_def by (rule find_None_key)

lemma get_row_unique: "distinct (map key rows) \<Longrightarrow> r \<in> set rows \<Longrightarrow> get_row key (key r) rows = Some r"
  unfolding get_row_def by (rule find_Some_unique)

lemma get_row_append: "get_row key k (rows @ [r]) =
    (case get_row key k rows of Some x \<Rightarrow> Some x | None \<Rightarrow> if key r = k then Some r else None)"
  by (induction rows) (auto simp: get_row_def)

lemma upd_row_keys: "(\<And>r. key r = k \<Longrightarrow> col (f r) = col r) \<Longrightarrow> map col (upd_row key k f rows) = map col rows"
  by (simp add: upd_row_def)

lemma get_row_upd_row:
  assumes "\<And>r. key r = k \<Longrightarrow> key (f r) = key r"
  shows "get_row key j (upd_row key k f rows) =
    (if j = k then map_option f (get_row key j rows) else get_row key j rows)"
  using assms by (induction rows) (auto simp: get_row_def upd_row_def)

lemma get_row_upd_other:
  assumes "\<And>r. key r = k \<Longrightarrow> col (f r) = col r"
  shows "get_row col j (upd_row key k f rows) =
    map_option (\<lambda>r. if key r = k then f r else r) (get_row col j rows)"
  using assms by (induction rows) (auto simp: get_row_def upd_row_def)

lemma ball_upd_row: "(\<forall>r \<in> set (upd_row key k f rows). P r) \<longleftrightarrow>
    (\<forall>r \<in> set rows. P (if key r = k then f r else r))"
  by (auto simp: upd_row_def)

lemma find_run_upd_run [db_simps]:
  "(\<And>r. rn_id (f r) = rn_id r) \<Longrightarrow>
     find_run (upd_run i f db) j = (if j = i then map_option f (find_run db j) else find_run db j)"
  by (simp add: find_run_def upd_run_def get_row_upd_row)

lemma find_run_upd_job [db_simps]: "find_run (upd_job i f db) j = find_run db j"
  by (simp add: find_run_def upd_job_def)

lemma find_job_upd_run [db_simps]: "find_job (upd_run i f db) j = find_job db j"
  by (simp add: find_job_def upd_run_def)

lemma find_job_upd_job [db_simps]:
  "(\<And>r. jb_id (f r) = jb_id r) \<Longrightarrow>
     find_job (upd_job i f db) j = (if j = i then map_option f (find_job db j) else find_job db j)"
  by (simp add: find_job_def upd_job_def get_row_upd_row)

lemma find_run_Some: "find_run db i = Some r \<Longrightarrow> r \<in> set (db_runs db) \<and> rn_id r = i"
  unfolding find_run_def by (rule get_row_Some)

lemma find_job_Some: "find_job db i = Some j \<Longrightarrow> j \<in> set (db_jobs db) \<and> jb_id j = i"
  unfolding find_job_def by (rule get_row_Some)

lemma job_of_run_Some: "job_of_run db i = Some j \<Longrightarrow> j \<in> set (db_jobs db) \<and> jb_run_id j = i"
  unfolding job_of_run_def by (rule get_row_Some)

subsection \<open>Integrity constraints\<close>

text \<open>
  Primary keys, the unique constraint on \<open>run_jobs.run_id\<close>, the foreign key from jobs to runs,
  and the freshness of new identifiers. A lease is complete when a leased job has an owner and an
  expiry, and any other job has neither.
\<close>

definition lease_complete :: "run_job \<Rightarrow> bool" where
  "lease_complete j =
     (if jb_status j = LEASED then jb_lease_owner j \<noteq> None \<and> jb_lease_expires_at j \<noteq> None
      else jb_lease_owner j = None \<and> jb_lease_expires_at j = None)"

definition db_ok :: "db \<Rightarrow> bool" where
  "db_ok db \<longleftrightarrow>
     distinct (map rn_id (db_runs db)) \<and> distinct (map jb_id (db_jobs db)) \<and>
     distinct (map jb_run_id (db_jobs db)) \<and>
     (\<forall>j \<in> set (db_jobs db). jb_run_id j \<in> rn_id ` set (db_runs db)) \<and>
     (\<forall>r \<in> set (db_runs db). rn_id r < db_next db) \<and>
     (\<forall>j \<in> set (db_jobs db). jb_id j < db_next db) \<and>
     (\<forall>j \<in> set (db_jobs db). lease_complete j)"

lemma db_ok_upd_run:
  assumes "db_ok db" "\<And>r. rn_id (f r) = rn_id r"
  shows "db_ok (upd_run i f db)"
proof -
  have k: "map rn_id (upd_row rn_id i f (db_runs db)) = map rn_id (db_runs db)"
    by (simp add: upd_row_keys assms(2))
  have s: "rn_id ` set (upd_row rn_id i f (db_runs db)) = rn_id ` set (db_runs db)"
    using arg_cong [OF k, of set] by simp
  show ?thesis
    using assms unfolding db_ok_def upd_run_def
    by (auto simp: k s ball_upd_row)
qed

lemma db_ok_upd_job:
  assumes "db_ok db" "\<And>r. jb_id (f r) = jb_id r" "\<And>r. jb_run_id (f r) = jb_run_id r"
    "\<And>r. r \<in> set (db_jobs db) \<Longrightarrow> jb_id r = i \<Longrightarrow> lease_complete r \<Longrightarrow> lease_complete (f r)"
  shows "db_ok (upd_job i f db)"
proof -
  have "map jb_id (upd_row jb_id i f (db_jobs db)) = map jb_id (db_jobs db)"
    and "map jb_run_id (upd_row jb_id i f (db_jobs db)) = map jb_run_id (db_jobs db)"
    by (simp_all add: upd_row_keys assms(2,3))
  then show ?thesis
    using assms unfolding db_ok_def upd_job_def by (auto simp: ball_upd_row)
qed

subsection \<open>Initial state\<close>

text \<open>The tables before the first request, and after one user saved one graph version.\<close>

definition empty_db :: db where
  "empty_db =
     \<lparr>db_runs = [], db_jobs = [], db_run_nodes = [], db_checkpoints = [], db_logs = [],
      db_dead_letters = [], db_lineage = [], db_states = [], db_candidates = [], db_graphs = [],
      db_versions = [], db_connections = [], db_triggers = [], db_deliveries = [], db_next = 100\<rparr>"

definition one_graph_db :: db where
  "one_graph_db = empty_db\<lparr>db_graphs := [\<lparr>gr_id = 1, gr_owner_id = 7, gr_name = ''g'', gr_description = None, gr_status = ''draft'', gr_tags = [],
       gr_updated_at = 0\<rparr>],
     db_versions := [\<lparr>gv_id = 2, gv_graph_id = 1, gv_number = 1, gv_nodes_data = Some [],
       gv_edges_data = Some [], gv_node_configs = None, gv_checksum = []\<rparr>]\<rparr>"

lemma db_ok_initial: "db_ok empty_db" "db_ok one_graph_db"
  by (simp_all add: db_ok_def empty_db_def one_graph_db_def)

end
