(* ===== verification/ServiceContract.thy ===== *)
theory ServiceContract
  imports Database
begin

text \<open>
  What every service transaction on the control plane promises, as one interface: it keeps the
  integrity constraints, never deletes a run, never rewrites the immutable columns of a run, and
  moves its status along the life cycle of \<open>engine/state.py\<close> or along one of the two extra
  edges the services take, \<open>failed\<close> to \<open>pending\<close> (retry) and \<open>running\<close> to \<open>pending\<close> (recovery).
\<close>

definition status_step :: "run_status \<Rightarrow> run_status \<Rightarrow> bool" where
  "status_step s t \<longleftrightarrow> legal_step s t \<or> (t = PENDING \<and> s \<in> {FAILED, RUNNING})"

definition run_evolves :: "run \<Rightarrow> run \<Rightarrow> bool" where
  "run_evolves r r' \<longleftrightarrow>
     rn_id r' = rn_id r \<and> rn_graph_id r' = rn_graph_id r \<and> rn_version_id r' = rn_version_id r \<and>
     rn_trigger_type r' = rn_trigger_type r \<and> rn_triggered_by r' = rn_triggered_by r \<and>
     rn_payload r' = rn_payload r \<and> status_step (rn_status r) (rn_status r')"

lemma run_evolves_refl [simp]: "run_evolves r r"
  by (simp add: run_evolves_def status_step_def legal_step_def)

lemma status_step_terminal: "s \<in> set run_terminal \<Longrightarrow> status_step s t \<Longrightarrow> t = s"
  by (auto simp: status_step_def legal_step_def run_terminal_def)

definition db_evolves :: "db \<Rightarrow> db \<Rightarrow> bool" where
  "db_evolves db db' \<longleftrightarrow> db_ok db' \<and>
     (\<forall>i r. find_run db i = Some r \<longrightarrow> (\<exists>r'. find_run db' i = Some r' \<and> run_evolves r r'))"

lemma db_evolves_refl [simp]: "db_ok db \<Longrightarrow> db_evolves db db"
  by (simp add: db_evolves_def)

locale service_op =
  fixes txn :: "db \<Rightarrow> db"
  assumes step: "db_ok db \<Longrightarrow> db_evolves db (txn db)"
begin

lemma keeps_ok: "db_ok db \<Longrightarrow> db_ok (txn db)"
  using step by (simp add: db_evolves_def)

lemma evolves:
  "db_ok db \<Longrightarrow> find_run db i = Some r \<Longrightarrow> \<exists>r'. find_run (txn db) i = Some r' \<and> run_evolves r r'"
  using step by (simp add: db_evolves_def)

lemma keeps_terminal:
  assumes "db_ok db" "find_run db i = Some r" "rn_status r \<in> set run_terminal"
  shows "\<exists>r'. find_run (txn db) i = Some r' \<and> rn_status r' = rn_status r"
  using evolves [OF assms(1,2)] assms(3) status_step_terminal by (auto simp: run_evolves_def)

lemma keeps_run: "db_ok db \<Longrightarrow> find_run db i \<noteq> None \<Longrightarrow> find_run (txn db) i \<noteq> None"
  using evolves by blast

end

subsection \<open>Building blocks\<close>

text \<open>A transaction that rewrites one job row with \<open>f\<close>.\<close>

lemma job_update_contract:
  assumes "db_ok db" "\<And>r. jb_id (f r) = jb_id r" "\<And>r. jb_run_id (f r) = jb_run_id r"
    "\<And>r. r \<in> set (db_jobs db) \<Longrightarrow> jb_id r = k \<Longrightarrow> lease_complete r \<Longrightarrow> lease_complete (f r)"
  shows "db_evolves db (upd_job k f db)"
  using db_ok_upd_job [OF assms] by (simp add: db_evolves_def db_simps)

text \<open>A transaction that rewrites one run row with \<open>f\<close>.\<close>

lemma run_update_contract:
  assumes "db_ok db" "\<And>r. rn_id (f r) = rn_id r"
    "\<And>r. find_run db k = Some r \<Longrightarrow> run_evolves r (f r)"
  shows "db_evolves db (upd_run k f db)"
  using db_ok_upd_run [OF assms(1,2)] assms(3) by (simp add: db_evolves_def db_simps assms(2))

lemma job_in_table: "db_ok db \<Longrightarrow> r \<in> set (db_jobs db) \<Longrightarrow> find_job db (jb_id r) = Some r"
  unfolding db_ok_def find_job_def by (blast intro: get_row_unique)

lemma run_in_table: "db_ok db \<Longrightarrow> r \<in> set (db_runs db) \<Longrightarrow> find_run db (rn_id r) = Some r"
  unfolding db_ok_def find_run_def by (blast intro: get_row_unique)

end
