(* ===== verification/RunQueue.thy ===== *)
theory RunQueue
  imports ServiceContract
begin

text \<open>
  The durable run queue of \<open>backend/app/services/run_queue_service.py\<close>: one job row per run, handed
  to a worker under an expiring lease. Each function is a transaction: it returns its Python result
  and the committed state, and a rollback returns the state it started from. \<open>locked\<close> is the set of
  rows other transactions hold, which \<open>SKIP LOCKED\<close> passes over.
\<close>

definition new_job :: "uuid \<Rightarrow> uuid \<Rightarrow> job_type \<Rightarrow> time \<Rightarrow> run_job" where
  "new_job i run ty now =
     \<lparr>jb_id = i, jb_run_id = run, jb_type = ty, jb_status = QUEUED, jb_available_at = now,
      jb_lease_owner = None, jb_lease_expires_at = None, jb_heartbeat_at = None,
      jb_attempt_count = 0, jb_last_error = None, jb_created_at = now\<rparr>"

definition add_job :: "uuid \<Rightarrow> job_type \<Rightarrow> time \<Rightarrow> db \<Rightarrow> db" where
  "add_job run ty now db =
     db\<lparr>db_jobs := db_jobs db @ [new_job (db_next db) run ty now], db_next := Suc (db_next db)\<rparr>"

subsection \<open>Recovery and enqueueing\<close>

definition orphaned :: "(uuid \<Rightarrow> bool) \<Rightarrow> db \<Rightarrow> run \<Rightarrow> bool" where
  "orphaned locked db r \<longleftrightarrow>
     job_of_run db (rn_id r) = None \<and> rn_version_id r \<noteq> None \<and>
     rn_status r \<in> {PENDING, RUNNING} \<and> \<not> locked (rn_id r)"

definition recover_one :: "time \<Rightarrow> run \<Rightarrow> db \<Rightarrow> db" where
  "recover_one now r db =
     add_job (rn_id r) FULL now
       (upd_run (rn_id r) (\<lambda>x. x\<lparr>rn_status := PENDING, rn_error := None\<rparr>) db)"

definition recover_orphaned_runs :: "(uuid \<Rightarrow> bool) \<Rightarrow> time \<Rightarrow> db \<Rightarrow> nat \<times> db" where
  "recover_orphaned_runs locked now db =
     (let runs = filter (orphaned locked db) (db_runs db)
      in (length runs, fold (recover_one now) runs db))"

text \<open>Create the job row of a run, or reset the one it has.\<close>

definition reset_job :: "job_type \<Rightarrow> time \<Rightarrow> run_job \<Rightarrow> run_job" where
  "reset_job ty now j =
     j\<lparr>jb_type := ty, jb_status := QUEUED, jb_available_at := now, jb_lease_owner := None,
       jb_lease_expires_at := None, jb_heartbeat_at := None, jb_last_error := None\<rparr>"

definition enqueue_run_job :: "uuid \<Rightarrow> job_type \<Rightarrow> time \<Rightarrow> db \<Rightarrow> db" where
  "enqueue_run_job run ty now db =
     (case job_of_run db run of
        None \<Rightarrow> add_job run ty now db
      | Some j \<Rightarrow> upd_job (jb_id j) (reset_job ty now) db)"

subsection \<open>Claiming and leases\<close>

definition expired_by :: "time \<Rightarrow> time option \<Rightarrow> bool" where
  "expired_by now expiry = (case expiry of None \<Rightarrow> False | Some t \<Rightarrow> t \<le> now)"

definition claimable :: "time \<Rightarrow> run_job \<Rightarrow> bool" where
  "claimable now j \<longleftrightarrow>
     (jb_status j = QUEUED \<and> jb_available_at j \<le> now) \<or>
     (jb_status j = LEASED \<and> expired_by now (jb_lease_expires_at j))"

lemma claimable_iff: "claimable now j \<longleftrightarrow>
     (jb_status j = QUEUED \<and> jb_available_at j \<le> now) \<or>
     (jb_status j = LEASED \<and> (\<exists>t. jb_lease_expires_at j = Some t \<and> t \<le> now))"
  by (simp add: claimable_def expired_by_def split: option.split)

definition run_active :: "db \<Rightarrow> uuid \<Rightarrow> bool" where
  "run_active db i = (case find_run db i of None \<Rightarrow> False
                      | Some r \<Rightarrow> rn_status r \<in> {PENDING, RUNNING})"

text \<open>\<open>ORDER BY available_at, created_at LIMIT 1\<close>; rows that tie are taken in table order.\<close>

definition older :: "run_job \<Rightarrow> run_job \<Rightarrow> bool" where
  "older a b \<longleftrightarrow> jb_available_at a < jb_available_at b \<or>
     (jb_available_at a = jb_available_at b \<and> jb_created_at a < jb_created_at b)"

fun oldest :: "run_job list \<Rightarrow> run_job option" where
  "oldest [] = None"
| "oldest (j # js) =
     (case oldest js of None \<Rightarrow> Some j | Some k \<Rightarrow> if older k j then Some k else Some j)"

definition lease_job :: "string \<Rightarrow> int \<Rightarrow> time \<Rightarrow> run_job \<Rightarrow> run_job" where
  "lease_job worker lease now j =
     j\<lparr>jb_status := LEASED, jb_lease_owner := Some worker, jb_heartbeat_at := Some now,
       jb_lease_expires_at := Some (now + seconds lease), jb_attempt_count := Suc (jb_attempt_count j)\<rparr>"

definition claim_candidates :: "(uuid \<Rightarrow> bool) \<Rightarrow> time \<Rightarrow> db \<Rightarrow> run_job list" where
  "claim_candidates locked now db =
     filter (\<lambda>j. claimable now j \<and> run_active db (jb_run_id j) \<and> \<not> locked (jb_id j)) (db_jobs db)"

definition claim_run_job ::
  "(uuid \<Rightarrow> bool) \<Rightarrow> string \<Rightarrow> int \<Rightarrow> time \<Rightarrow> db \<Rightarrow> run_job option \<times> db" where
  "claim_run_job locked worker lease now db =
     (case oldest (claim_candidates locked now db) of
        None \<Rightarrow> (None, db)
      | Some j \<Rightarrow> (Some (lease_job worker lease now j),
                   upd_job (jb_id j) (lease_job worker lease now) db))"

text \<open>Job \<open>i\<close> is leased by the worker and the lease has not expired at \<open>now\<close>.\<close>

definition owns :: "string \<Rightarrow> time \<Rightarrow> run_job \<Rightarrow> bool" where
  "owns worker now j \<longleftrightarrow> jb_status j = LEASED \<and> jb_lease_owner j = Some worker \<and>
     (case jb_lease_expires_at j of None \<Rightarrow> False | Some t \<Rightarrow> now < t)"

lemma owns_iff: "owns worker now j \<longleftrightarrow> jb_status j = LEASED \<and> jb_lease_owner j = Some worker \<and>
     (\<exists>t. jb_lease_expires_at j = Some t \<and> now < t)"
  by (simp add: owns_def split: option.split)

definition holds_lease :: "db \<Rightarrow> uuid \<Rightarrow> string \<Rightarrow> time \<Rightarrow> bool" where
  "holds_lease db i worker now = (case find_job db i of None \<Rightarrow> False | Some j \<Rightarrow> owns worker now j)"

definition renew_job :: "int \<Rightarrow> time \<Rightarrow> run_job \<Rightarrow> run_job" where
  "renew_job lease now j =
     j\<lparr>jb_heartbeat_at := Some now, jb_lease_expires_at := Some (now + seconds lease)\<rparr>"

definition heartbeat_run_job :: "uuid \<Rightarrow> string \<Rightarrow> int \<Rightarrow> time \<Rightarrow> db \<Rightarrow> bool \<times> db" where
  "heartbeat_run_job i worker lease now db =
     (if holds_lease db i worker now then (True, upd_job i (renew_job lease now) db)
      else (False, db))"

subsection \<open>Finishing\<close>

definition has_error :: "string option \<Rightarrow> bool" where
  "has_error e = (e \<noteq> None \<and> e \<noteq> Some [])"

definition close_job :: "string option \<Rightarrow> time \<Rightarrow> run_job \<Rightarrow> run_job" where
  "close_job err now j =
     j\<lparr>jb_status := (if has_error err then JOB_FAILED else JOB_COMPLETED), jb_lease_owner := None,
       jb_lease_expires_at := None, jb_heartbeat_at := Some now, jb_last_error := err\<rparr>"

definition finish_run_job :: "uuid \<Rightarrow> string \<Rightarrow> string option \<Rightarrow> time \<Rightarrow> db \<Rightarrow> bool \<times> db" where
  "finish_run_job i worker err now db =
     (if holds_lease db i worker now then (True, upd_job i (close_job err now) db)
      else (False, db))"

text \<open>
  The worker's failure path reads the clock three times: after locking the job, after locking the
  run, and before the commit.
\<close>

definition mark_run_failed_if_owned ::
  "uuid \<Rightarrow> uuid \<Rightarrow> string \<Rightarrow> string \<Rightarrow> time \<times> time \<times> time \<Rightarrow> db \<Rightarrow> bool \<times> db" where
  "mark_run_failed_if_owned i run worker err ts db =
     (let (t1, t2, t3) = ts in
      case find_job db i of
        None \<Rightarrow> (False, db)
      | Some j \<Rightarrow>
          if jb_run_id j \<noteq> run \<or> \<not> owns worker t1 j then (False, db)
          else (case find_run db run of
                  None \<Rightarrow> (False, db)
                | Some r \<Rightarrow>
                    if rn_status r \<noteq> RUNNING \<or> \<not> owns worker t2 j then (False, db)
                    else if \<not> owns worker t3 j then (False, db)
                    else (True, upd_run run (\<lambda>x. x\<lparr>rn_status := FAILED, rn_error := Some err\<rparr>) db)))"

datatype finalization = Lost | Requeued | Finished

definition requeue_job :: "time \<Rightarrow> run_job \<Rightarrow> run_job" where
  "requeue_job now j =
     j\<lparr>jb_status := QUEUED, jb_available_at := now, jb_lease_owner := None,
       jb_lease_expires_at := None, jb_heartbeat_at := None\<rparr>"

definition finalize_run_job ::
  "uuid \<Rightarrow> uuid \<Rightarrow> string \<Rightarrow> string option \<Rightarrow> time \<Rightarrow> db \<Rightarrow> finalization \<times> db" where
  "finalize_run_job i run worker err now db =
     (case find_job db i of
        None \<Rightarrow> (Lost, db)
      | Some j \<Rightarrow>
          if jb_run_id j \<noteq> run \<or> jb_status j \<noteq> LEASED \<or> jb_lease_owner j \<noteq> Some worker
          then (Lost, db)
          else (case find_run db run of
                  None \<Rightarrow> (Lost, db)
                | Some r \<Rightarrow>
                    if rn_status r = PAUSED then (Requeued, upd_job i (requeue_job now) db)
                    else if \<not> owns worker now j then (Lost, db)
                    else (Finished, upd_job i (close_job err now) db)))"

definition release_run_job :: "uuid \<Rightarrow> string \<Rightarrow> time \<Rightarrow> db \<Rightarrow> bool \<times> db" where
  "release_run_job i worker now db =
     (case find_job db i of
        None \<Rightarrow> (False, db)
      | Some j \<Rightarrow>
          if jb_status j = LEASED \<and> jb_lease_owner j = Some worker
          then (True, upd_job i (requeue_job now) db)
          else (False, db))"

lemmas job_updates = reset_job_def lease_job_def renew_job_def close_job_def requeue_job_def

lemma job_updates_keys [simp]:
  "jb_id (reset_job ty now j) = jb_id j" "jb_run_id (reset_job ty now j) = jb_run_id j"
  "jb_id (lease_job w l now j) = jb_id j" "jb_run_id (lease_job w l now j) = jb_run_id j"
  "jb_id (renew_job l now j) = jb_id j" "jb_run_id (renew_job l now j) = jb_run_id j"
  "jb_id (close_job e now j) = jb_id j" "jb_run_id (close_job e now j) = jb_run_id j"
  "jb_id (requeue_job now j) = jb_id j" "jb_run_id (requeue_job now j) = jb_run_id j"
  by (simp_all add: job_updates)

lemma job_updates_lease [simp]:
  "lease_complete (reset_job ty now j)" "lease_complete (lease_job w l now j)"
  "lease_complete (close_job e now j)" "lease_complete (requeue_job now j)"
  "jb_status j = LEASED \<Longrightarrow> lease_complete j \<Longrightarrow> lease_complete (renew_job l now j)"
  by (simp_all add: lease_complete_def job_updates)

subsection \<open>The service contract\<close>

lemma oldest_mem: "oldest js = Some j \<Longrightarrow> j \<in> set js"
  by (induction js arbitrary: j) (auto split: option.splits if_splits)

lemma oldest_None: "oldest js = None \<longleftrightarrow> js = []"
  by (cases js) (auto split: option.splits)

lemma older_asym: "older a b \<Longrightarrow> \<not> older b a"
  unfolding older_def by linarith

lemma oldest_least: "oldest js = Some j \<Longrightarrow> k \<in> set js \<Longrightarrow> \<not> older k j"
proof (induction js arbitrary: j k)
  case (Cons a js)
  show ?case
  proof (cases "oldest js")
    case None
    then show ?thesis using Cons.prems by (auto simp: oldest_None older_def)
  next
    case (Some m)
    have m: "\<not> older x m" if "x \<in> set js" for x using Cons.IH [OF Some that] .
    show ?thesis
    proof (cases "older m a")
      case True
      then have "j = m" using Cons.prems Some by simp
      moreover have "\<not> older a m" using True by (rule older_asym)
      ultimately show ?thesis using m Cons.prems(2) by auto
    next
      case False
      then have "j = a" using Cons.prems Some by simp
      moreover have "\<not> older x a" if "x \<in> set js" for x
        using m [OF that] False unfolding older_def by linarith
      ultimately show ?thesis using Cons.prems(2) by (auto simp: older_def)
    qed
  qed
qed simp

lemma claim_cases:
  obtains (none) "claim_run_job locked w l now db = (None, db)" "claim_candidates locked now db = []"
  | (some) j where "oldest (claim_candidates locked now db) = Some j"
      "claim_run_job locked w l now db =
         (Some (lease_job w l now j), upd_job (jb_id j) (lease_job w l now) db)"
      "j \<in> set (db_jobs db)" "claimable now j" "run_active db (jb_run_id j)" "\<not> locked (jb_id j)"
proof (cases "oldest (claim_candidates locked now db)")
  case None
  then show thesis using none by (simp add: claim_run_job_def oldest_None)
next
  case (Some j)
  have "j \<in> set (claim_candidates locked now db)" by (rule oldest_mem [OF Some])
  then show thesis using some [OF Some] Some by (simp add: claim_run_job_def claim_candidates_def)
qed

interpretation claim: service_op "\<lambda>db. snd (claim_run_job locked w l now db)" for locked w l now
  by unfold_locales (simp add: claim_run_job_def job_update_contract split: option.split)

interpretation heartbeat: service_op "\<lambda>db. snd (heartbeat_run_job k w l now db)" for k w l now
proof unfold_locales
  fix db assume ok: "db_ok db"
  have "jb_status r = LEASED"
    if "holds_lease db k w now" "r \<in> set (db_jobs db)" "jb_id r = k" for r
    using that job_in_table [OF ok that(2)] by (simp add: holds_lease_def owns_iff)
  then show "db_evolves db (snd (heartbeat_run_job k w l now db))"
    using job_update_contract [OF ok, of "renew_job l now" k] ok by (simp add: heartbeat_run_job_def)
qed

interpretation finish: service_op "\<lambda>db. snd (finish_run_job k w err now db)" for k w err now
  by unfold_locales (simp add: finish_run_job_def job_update_contract)

interpretation release: service_op "\<lambda>db. snd (release_run_job k w now db)" for k w now
  by unfold_locales (simp add: release_run_job_def job_update_contract split: option.split)

interpretation finalize: service_op "\<lambda>db. snd (finalize_run_job k run w err now db)" for k run w err now
  by unfold_locales (simp add: finalize_run_job_def job_update_contract split: option.split)

interpretation mark_failed: service_op "\<lambda>db. snd (mark_run_failed_if_owned k run w err ts db)"
  for k run w err ts
proof unfold_locales
  fix db assume ok: "db_ok db"
  have "run_evolves r (r\<lparr>rn_status := FAILED, rn_error := Some err\<rparr>)" if "rn_status r = RUNNING" for r
    using that by (simp add: run_evolves_def status_step_def legal_step_def)
  then show "db_evolves db (snd (mark_run_failed_if_owned k run w err ts db))"
    using run_update_contract [OF ok, of "\<lambda>x. x\<lparr>rn_status := FAILED, rn_error := Some err\<rparr>" run] ok
    by (auto simp: mark_run_failed_if_owned_def split: option.split prod.split)
qed

subsection \<open>Adding jobs\<close>

lemma add_job_ok:
  assumes "db_ok db" "run \<in> rn_id ` set (db_runs db)" "run \<notin> jb_run_id ` set (db_jobs db)"
  shows "db_ok (add_job run ty now db)"
  using assms unfolding db_ok_def add_job_def
  by (auto simp: new_job_def lease_complete_def less_Suc_eq)

lemma find_run_add_job [db_simps]: "find_run (add_job run ty now db) i = find_run db i"
  by (simp add: find_run_def add_job_def)

lemma job_of_run_None: "job_of_run db run = None \<longleftrightarrow> run \<notin> jb_run_id ` set (db_jobs db)"
  by (simp add: job_of_run_def get_row_None)

lemma enqueue_contract:
  assumes "db_ok db" "find_run db run \<noteq> None"
  shows "db_ok (enqueue_run_job run ty now db)"
    and "find_run (enqueue_run_job run ty now db) i = find_run db i"
proof -
  have "run \<in> rn_id ` set (db_runs db)" using assms(2) find_run_Some by blast
  with assms(1) show "db_ok (enqueue_run_job run ty now db)"
    by (auto simp: enqueue_run_job_def job_of_run_None intro: add_job_ok db_ok_upd_job
        split: option.split)
  show "find_run (enqueue_run_job run ty now db) i = find_run db i"
    by (simp add: enqueue_run_job_def db_simps split: option.split)
qed

lemma enqueued_job:
  assumes "db_ok db"
  shows "\<exists>j. job_of_run (enqueue_run_job run ty now db) run = Some j \<and> jb_type j = ty \<and>
    jb_status j = QUEUED \<and> jb_available_at j = now \<and> jb_lease_owner j = None"
proof (cases "job_of_run db run")
  case None
  then show ?thesis
    by (simp add: enqueue_run_job_def add_job_def job_of_run_def get_row_append new_job_def)
next
  case (Some j)
  then show ?thesis
    by (simp add: enqueue_run_job_def job_of_run_def upd_job_def get_row_upd_other reset_job_def)
qed

subsection \<open>Recovery\<close>

lemma recover_one_run:
  "find_run (recover_one now x db) i =
     (if i = rn_id x then map_option (\<lambda>r. r\<lparr>rn_status := PENDING, rn_error := None\<rparr>) (find_run db i)
      else find_run db i)"
  by (simp add: recover_one_def db_simps)

lemma recover_fold_run:
  "find_run (fold (recover_one now) xs db) i =
     (if i \<in> rn_id ` set xs
      then map_option (\<lambda>r. r\<lparr>rn_status := PENDING, rn_error := None\<rparr>) (find_run db i)
      else find_run db i)"
  by (induction xs arbitrary: db) (auto simp: recover_one_run map_option.compositionality o_def)

lemma recover_one_jobs:
  "jb_run_id ` set (db_jobs (recover_one now x db)) = insert (rn_id x) (jb_run_id ` set (db_jobs db))"
  "rn_id ` set (db_runs (recover_one now x db)) = rn_id ` set (db_runs db)"
proof -
  show "jb_run_id ` set (db_jobs (recover_one now x db)) = insert (rn_id x) (jb_run_id ` set (db_jobs db))"
    by (auto simp: recover_one_def add_job_def upd_run_def new_job_def)
  have "map rn_id (db_runs (recover_one now x db)) = map rn_id (db_runs db)"
    by (simp add: recover_one_def add_job_def upd_run_def upd_row_keys)
  then show "rn_id ` set (db_runs (recover_one now x db)) = rn_id ` set (db_runs db)"
    by (metis list.set_map)
qed

lemma recover_fold_ok:
  assumes "db_ok db" "distinct (map rn_id xs)" "rn_id ` set xs \<subseteq> rn_id ` set (db_runs db)"
    "rn_id ` set xs \<inter> jb_run_id ` set (db_jobs db) = {}"
  shows "db_ok (fold (recover_one now) xs db)"
  using assms
proof (induction xs arbitrary: db)
  case (Cons x xs)
  have "db_ok (recover_one now x db)"
    unfolding recover_one_def
    using Cons.prems recover_one_jobs(2) [of now x db]
    by (intro add_job_ok db_ok_upd_run)
       (auto simp: upd_run_def recover_one_def add_job_def)
  then show ?case
    using Cons.prems by (simp, intro Cons.IH) (auto simp: recover_one_jobs)
qed simp

interpretation recover: service_op "\<lambda>db. snd (recover_orphaned_runs locked now db)" for locked now
proof unfold_locales
  fix db assume ok: "db_ok db"
  let ?xs = "filter (orphaned locked db) (db_runs db)"
  have "distinct (map rn_id ?xs)" using ok by (simp add: db_ok_def distinct_map_filter)
  moreover have "rn_id ` set ?xs \<inter> jb_run_id ` set (db_jobs db) = {}"
    by (auto simp: orphaned_def job_of_run_None)
  ultimately have k: "db_ok (fold (recover_one now) ?xs db)"
    by (intro recover_fold_ok ok) auto
  have "run_evolves r (r\<lparr>rn_status := PENDING, rn_error := None\<rparr>)"
    if r: "find_run db i = Some r" and i: "i \<in> rn_id ` set ?xs" for i r
  proof -
    obtain x where x: "x \<in> set (db_runs db)" "orphaned locked db x" "rn_id x = i" using i by auto
    then have "r = x" using run_in_table [OF ok x(1)] r by simp
    with x show ?thesis by (auto simp: orphaned_def run_evolves_def status_step_def legal_step_def)
  qed
  with k show "db_evolves db (snd (recover_orphaned_runs locked now db))"
    by (simp add: recover_orphaned_runs_def Let_def recover_fold_run db_evolves_def)
qed

subsection \<open>Leases exclude other workers\<close>

text \<open>What a worker asks of the queue, by worker name.\<close>

datatype queue_call =
    Claim string int time
  | Heartbeat uuid string int time
  | Finish uuid string "string option" time
  | MarkFailed uuid uuid string string "time \<times> time \<times> time"
  | Finalize uuid uuid string "string option" time
  | Release uuid string time

primrec caller :: "queue_call \<Rightarrow> string" where
  "caller (Claim w l t) = w"
| "caller (Heartbeat i w l t) = w"
| "caller (Finish i w e t) = w"
| "caller (MarkFailed i r w e ts) = w"
| "caller (Finalize i r w e t) = w"
| "caller (Release i w t) = w"

text \<open>Only a claim can take a job away, so only its clock matters.\<close>

primrec claim_clock_before :: "time \<Rightarrow> queue_call \<Rightarrow> bool" where
  "claim_clock_before b (Claim w l t) = (t < b)"
| "claim_clock_before b (Heartbeat i w l t) = True"
| "claim_clock_before b (Finish i w e t) = True"
| "claim_clock_before b (MarkFailed i r w e ts) = True"
| "claim_clock_before b (Finalize i r w e t) = True"
| "claim_clock_before b (Release i w t) = True"

primrec queue_call_step :: "queue_call \<Rightarrow> db \<Rightarrow> db" where
  "queue_call_step (Claim w l t) db = snd (claim_run_job (\<lambda>_. False) w l t db)"
| "queue_call_step (Heartbeat i w l t) db = snd (heartbeat_run_job i w l t db)"
| "queue_call_step (Finish i w e t) db = snd (finish_run_job i w e t db)"
| "queue_call_step (MarkFailed i r w e ts) db = snd (mark_run_failed_if_owned i r w e ts db)"
| "queue_call_step (Finalize i r w e t) db = snd (finalize_run_job i r w e t db)"
| "queue_call_step (Release i w t) db = snd (release_run_job i w t db)"

lemma find_job_upd_job_id [simp]:
  "find_job (upd_job k (reset_job ty now) db) i =
     (if i = k then map_option (reset_job ty now) (find_job db i) else find_job db i)"
  "find_job (upd_job k (lease_job w l now) db) i =
     (if i = k then map_option (lease_job w l now) (find_job db i) else find_job db i)"
  "find_job (upd_job k (renew_job l now) db) i =
     (if i = k then map_option (renew_job l now) (find_job db i) else find_job db i)"
  "find_job (upd_job k (close_job e now) db) i =
     (if i = k then map_option (close_job e now) (find_job db i) else find_job db i)"
  "find_job (upd_job k (requeue_job now) db) i =
     (if i = k then map_option (requeue_job now) (find_job db i) else find_job db i)"
  by (simp_all add: db_simps)

lemma claim_passes_over:
  assumes ok: "db_ok db" and j: "find_job db i = Some j" and nc: "\<not> claimable now j"
  shows "find_job (snd (claim_run_job locked w l now db)) i = Some j"
proof (cases "oldest (claim_candidates locked now db)")
  case (Some k)
  then have k: "k \<in> set (db_jobs db)" "claimable now k"
    using oldest_mem [OF Some] by (simp_all add: claim_candidates_def)
  have "jb_id k \<noteq> i" using job_in_table [OF ok k(1)] j k(2) nc by auto
  then show ?thesis by (simp add: claim_run_job_def Some j)
qed (simp add: claim_run_job_def j)

lemma rival_call_keeps_job:
  assumes ok: "db_ok db" and j: "find_job db i = Some j"
    and l: "jb_status j = LEASED" "jb_lease_owner j = Some w" "jb_lease_expires_at j = Some b"
    and c: "caller q \<noteq> w" "claim_clock_before b q"
  shows "find_job (queue_call_step q db) i = Some j"
proof (cases q)
  case (Claim w' l' t)
  then have "\<not> claimable t j" using l c by (simp add: claimable_iff)
  then show ?thesis by (simp add: Claim claim_passes_over [OF ok j])
next
  case (MarkFailed k r w' e ts)
  then show ?thesis
    by (cases ts) (simp add: mark_run_failed_if_owned_def j db_simps split: option.split)
qed (use j l c in \<open>auto simp: heartbeat_run_job_def finish_run_job_def finalize_run_job_def
    release_run_job_def holds_lease_def owns_iff split: option.splits\<close>)

lemma queue_call_ok: "db_ok db \<Longrightarrow> db_ok (queue_call_step q db)"
  by (cases q) (simp_all add: claim.keeps_ok heartbeat.keeps_ok finish.keeps_ok mark_failed.keeps_ok
      finalize.keeps_ok release.keeps_ok)

text \<open>C7. Mutual exclusion: while a worker's lease lasts, no sequence of claims, heartbeats,
  acknowledgements, failures or releases issued by other workers touches its job row, so two
  workers never hold the same job.\<close>

theorem leased_job_undisturbed:
  assumes "db_ok db" "find_job db i = Some j" "jb_status j = LEASED" "jb_lease_owner j = Some w"
    "jb_lease_expires_at j = Some b" "\<forall>q \<in> set qs. caller q \<noteq> w \<and> claim_clock_before b q"
  shows "find_job (fold queue_call_step qs db) i = Some j"
  using assms
proof (induction qs arbitrary: db)
  case (Cons q qs)
  then have "find_job (queue_call_step q db) i = Some j" by (intro rival_call_keeps_job) auto
  with Cons show ?case by (auto intro: queue_call_ok)
qed simp

text \<open>C26. Fencing: a worker whose lease is gone cannot renew it, complete the job or fail the
  run, and can finalize it only to requeue a paused run; the state stays as it was.\<close>

theorem stale_worker_fenced:
  assumes "\<not> holds_lease db i w now"
  shows "heartbeat_run_job i w lease now db = (False, db) \<and>
    finish_run_job i w err now db = (False, db) \<and>
    mark_run_failed_if_owned i run w msg (now, t2, t3) db = (False, db) \<and>
    (finalize_run_job i run w err now db = (Lost, db) \<or>
      (\<exists>r. find_run db run = Some r \<and> rn_status r = PAUSED \<and>
        finalize_run_job i run w err now db = (Requeued, upd_job i (requeue_job now) db)))"
  using assms
  by (auto simp: heartbeat_run_job_def finish_run_job_def mark_run_failed_if_owned_def
      finalize_run_job_def holds_lease_def split: option.splits)

text \<open>A claim hands out an available job: one of a pending or running run that nobody holds
  and that no other available job precedes. The caller then holds it for the lease period, and
  no other job changes.\<close>

theorem claim_run_job_sound:
  assumes ok: "db_ok db" and c: "claim_run_job locked w lease now db = (Some j', db')"
  shows "(\<exists>j. find_job db (jb_id j') = Some j \<and> (\<forall>v. \<not> owns v now j) \<and> j' = lease_job w lease now j) \<and>
    run_active db (jb_run_id j') \<and>
    (\<forall>k \<in> set (claim_candidates locked now db). jb_available_at j' \<le> jb_available_at k) \<and>
    (\<forall>t. t < now + seconds lease \<longrightarrow> holds_lease db' (jb_id j') w t) \<and>
    (\<forall>i. i \<noteq> jb_id j' \<longrightarrow> find_job db' i = find_job db i)"
proof -
  obtain j where j: "oldest (claim_candidates locked now db) = Some j" "j' = lease_job w lease now j"
      "db' = upd_job (jb_id j) (lease_job w lease now) db"
      "j \<in> set (db_jobs db)" "claimable now j" "run_active db (jb_run_id j)"
    using c by (cases rule: claim_cases [of locked w lease now db]) auto
  have f: "find_job db (jb_id j) = Some j" by (rule job_in_table [OF ok j(4)])
  have "\<forall>k \<in> set (claim_candidates locked now db). jb_available_at j' \<le> jb_available_at k"
    using oldest_least [OF j(1)] by (force simp: j(2) older_def lease_job_def)
  moreover have "\<forall>t. t < now + seconds lease \<longrightarrow> holds_lease db' (jb_id j') w t"
    using f by (simp add: j holds_lease_def owns_iff lease_job_def [of w lease now j])
  moreover have "\<forall>v. \<not> owns v now j" using j(5) by (auto simp: owns_iff claimable_iff)
  ultimately show ?thesis using f j by simp
qed

text \<open>C27. No work is lost: whenever an unlocked job of a pending or running run is queued and
  due, or its worker let the lease expire, a claim succeeds.\<close>

theorem claim_run_job_progress:
  assumes "j \<in> set (db_jobs db)" "run_active db (jb_run_id j)" "\<not> locked (jb_id j)"
    and "(jb_status j = QUEUED \<and> jb_available_at j \<le> now) \<or>
      (jb_status j = LEASED \<and> jb_lease_expires_at j = Some b \<and> b \<le> now)"
  shows "\<exists>k. fst (claim_run_job locked w lease now db) = Some k"
proof -
  have "j \<in> set (claim_candidates locked now db)"
    using assms by (auto simp: claim_candidates_def claimable_iff)
  then have "oldest (claim_candidates locked now db) \<noteq> None" by (auto simp: oldest_None)
  then show ?thesis by (auto simp: claim_run_job_def)
qed

subsection \<open>Enqueueing and recovery\<close>

text \<open>Enqueueing leaves a run with exactly one job: queued, unleased, of the requested type
  and due now. An existing row is reused, so its identity and attempt count survive.\<close>

theorem enqueue_single_job:
  assumes "db_ok db" "find_run db run \<noteq> None"
  shows "db_ok (enqueue_run_job run ty now db) \<and>
    (\<exists>j. filter (\<lambda>x. jb_run_id x = run) (db_jobs (enqueue_run_job run ty now db)) = [j] \<and>
       jb_type j = ty \<and> jb_status j = QUEUED \<and> jb_available_at j = now \<and> jb_lease_owner j = None \<and>
       (\<forall>k. job_of_run db run = Some k \<longrightarrow>
          jb_id j = jb_id k \<and> jb_attempt_count j = jb_attempt_count k))"
proof -
  let ?db' = "enqueue_run_job run ty now db"
  have ok: "db_ok ?db'" using enqueue_contract(1) [OF assms] .
  obtain j where j: "job_of_run ?db' run = Some j" "jb_type j = ty" "jb_status j = QUEUED"
      "jb_available_at j = now" "jb_lease_owner j = None"
    using enqueued_job [OF assms(1)] by blast
  have "filter (\<lambda>x. jb_run_id x = run) (db_jobs ?db') = [j]"
    using ok job_of_run_Some [OF j(1)] filter_key_unique [of jb_run_id "db_jobs ?db'" j]
    by (simp add: db_ok_def)
  moreover have "jb_id j = jb_id k \<and> jb_attempt_count j = jb_attempt_count k"
    if k: "job_of_run db run = Some k" for k
    using j(1) k
    by (auto simp: enqueue_run_job_def job_of_run_def upd_job_def get_row_upd_other reset_job_def)
  ultimately show ?thesis using ok j by blast
qed

lemma recover_one_job:
  "job_of_run (recover_one now x d) i =
     (case job_of_run d i of Some j \<Rightarrow> Some j
      | None \<Rightarrow> if i = rn_id x then Some (new_job (db_next d) i FULL now) else None)"
  by (simp add: recover_one_def add_job_def upd_run_def job_of_run_def get_row_append new_job_def
      split: option.split)

lemma recovered_job:
  "job_of_run (fold (recover_one now) xs db) i = None \<longleftrightarrow>
     job_of_run db i = None \<and> i \<notin> rn_id ` set xs"
  by (induction xs arbitrary: db) (auto simp: recover_one_job split: option.splits)

lemma recover_keeps_job:
  "job_of_run db i = Some j \<Longrightarrow> job_of_run (fold (recover_one now) xs db) i = Some j"
  by (induction xs arbitrary: db) (auto simp: recover_one_job)

lemma recover_fold_ids:
  "rn_id ` set (db_runs (fold (recover_one now) xs db)) = rn_id ` set (db_runs db)"
  by (induction xs arbitrary: db) (simp_all add: recover_one_jobs(2))

text \<open>Recovery after an upgrade: every unlocked, versioned run that was pending or running
  without a job gets one and is pending again, jobs that existed are kept, and running recovery
  again finds nothing to do.\<close>

theorem recover_orphaned_runs_sound:
  assumes "db_ok db"
  shows "(let db' = snd (recover_orphaned_runs locked now db) in
    db_ok db' \<and>
    (\<forall>r \<in> set (db_runs db). orphaned locked db r \<longrightarrow>
       job_of_run db' (rn_id r) \<noteq> None \<and>
       find_run db' (rn_id r) = Some (r\<lparr>rn_status := PENDING, rn_error := None\<rparr>)) \<and>
    (\<forall>r \<in> set (db_runs db). \<not> orphaned locked db r \<longrightarrow> find_run db' (rn_id r) = Some r) \<and>
    (\<forall>i j. job_of_run db i = Some j \<longrightarrow> job_of_run db' i = Some j) \<and>
    (\<forall>later. fst (recover_orphaned_runs locked later db') = 0))"
proof -
  let ?xs = "filter (orphaned locked db) (db_runs db)"
  let ?db' = "fold (recover_one now) ?xs db"
  have in_xs: "rn_id r \<in> rn_id ` set ?xs \<longleftrightarrow> orphaned locked db r" if r: "r \<in> set (db_runs db)" for r
  proof
    assume "rn_id r \<in> rn_id ` set ?xs"
    then obtain x where "x \<in> set (db_runs db)" "orphaned locked db x" "rn_id x = rn_id r" by auto
    then show "orphaned locked db r"
      using run_in_table [OF assms r] run_in_table [OF assms, of x] by simp
  qed (use r in simp)
  have runs: "find_run ?db' (rn_id r) = Some (if orphaned locked db r
      then r\<lparr>rn_status := PENDING, rn_error := None\<rparr> else r)" if "r \<in> set (db_runs db)" for r
    using in_xs [OF that] run_in_table [OF assms that]
    by (cases "orphaned locked db r")
       (simp_all only: recover_fold_run if_True if_False option.map simp_thms)
  have ids: "rn_id ` set (db_runs ?db') = rn_id ` set (db_runs db)"
    by (rule recover_fold_ids)
  have ok: "db_ok ?db'"
    using recover.keeps_ok [OF assms, of locked now] by (simp add: recover_orphaned_runs_def Let_def)
  have idle: "\<not> orphaned locked ?db' x" if x: "x \<in> set (db_runs ?db')" for x
  proof -
    obtain r where r: "r \<in> set (db_runs db)" "rn_id r = rn_id x" using x ids by (metis imageE imageI)
    have xr: "x = (if orphaned locked db r then r\<lparr>rn_status := PENDING, rn_error := None\<rparr> else r)"
      using runs [OF r(1)] run_in_table [OF ok x] unfolding r(2) by (simp only: option.inject)
    have free: "job_of_run ?db' (rn_id x) = None \<longleftrightarrow>
        job_of_run db (rn_id r) = None \<and> \<not> orphaned locked db r"
      unfolding recovered_job r(2) [symmetric] using in_xs [OF r(1)] by blast
    show ?thesis
    proof
      assume o: "orphaned locked ?db' x"
      then have "job_of_run ?db' (rn_id x) = None" unfolding orphaned_def by blast
      with free have n: "job_of_run db (rn_id r) = None" "\<not> orphaned locked db r" by blast+
      then have "x = r" using xr by (simp only: if_False)
      with o n show False unfolding orphaned_def by blast
    qed
  qed
  have queued: "job_of_run ?db' (rn_id r) \<noteq> None"
    if "r \<in> set (db_runs db)" "orphaned locked db r" for r
    unfolding recovered_job using in_xs [OF that(1)] that(2) by blast
  have "filter (orphaned locked ?db') (db_runs ?db') = []" using idle by (simp add: filter_empty_conv)
  then have again: "fst (recover_orphaned_runs locked later ?db') = 0" for later
    by (simp add: recover_orphaned_runs_def Let_def)
  have "snd (recover_orphaned_runs locked now db) = ?db'"
    by (simp add: recover_orphaned_runs_def Let_def)
  then show ?thesis
    unfolding Let_def using ok runs recover_keeps_job [of db] queued again by (simp only: simp_thms) simp
qed

subsection \<open>One run on the queue\<close>

definition queued_db :: db where
  "queued_db = enqueue_run_job 50 FULL 0 (one_graph_db\<lparr>db_runs :=
     [\<lparr>rn_id = 50, rn_graph_id = 1, rn_version_id = Some 2, rn_trigger_type = ''manual'',
       rn_triggered_by = Some 7, rn_status = RUNNING, rn_error = None, rn_payload = None,
       rn_created_at = 0\<rparr>]\<rparr>)"

definition leased_db :: db where
  "leased_db = snd (claim_run_job (\<lambda>_. False) ''w1'' 60 1000 queued_db)"

definition leased_job :: run_job where
  "leased_job = lease_job ''w1'' 60 1000 (new_job 100 50 FULL 0)"

lemma queued_db_ok: "db_ok queued_db" "db_ok leased_db"
proof -
  show "db_ok queued_db"
    unfolding queued_db_def
    by (rule enqueue_contract(1)) (simp_all add: db_ok_def one_graph_db_def empty_db_def find_run_def get_row_def)
  then show "db_ok leased_db" unfolding leased_db_def by (rule claim.keeps_ok)
qed

theorem leased_job_undisturbed_witness:
  "find_job (fold queue_call_step [Claim ''w2'' 60 2000, Release 100 ''w2'' 3000,
      Finish 100 ''w2'' None 4000] leased_db) 100 = Some leased_job"
  by (rule leased_job_undisturbed [OF queued_db_ok(2), where w = "''w1''" and b = 60001000])
     (code_simp, code_simp, code_simp, code_simp, simp)

theorem stale_worker_fenced_witness:
  "heartbeat_run_job 100 ''w1'' 60 60001000 leased_db = (False, leased_db) \<and>
   finish_run_job 100 ''w1'' None 60001000 leased_db = (False, leased_db)"
proof -
  have "\<not> holds_lease leased_db 100 ''w1'' 60001000" by code_simp
  from stale_worker_fenced [OF this] show ?thesis by blast
qed

theorem claim_run_job_sound_witness:
  "find_job queued_db 100 = Some (new_job 100 50 FULL 0) \<and> run_active queued_db 50 \<and>
   holds_lease leased_db 100 ''w1'' 60000999"
proof -
  have "claim_run_job (\<lambda>_. False) ''w1'' 60 1000 queued_db = (Some leased_job, leased_db)" by code_simp
  note claim_run_job_sound [OF queued_db_ok(1) this]
  moreover have "jb_id leased_job = 100" "jb_run_id leased_job = 50" by code_simp+
  moreover have "find_job queued_db 100 = Some (new_job 100 50 FULL 0)" by code_simp
  ultimately show ?thesis by (simp add: seconds_def)
qed

theorem claim_run_job_progress_witness:
  "\<exists>k. fst (claim_run_job (\<lambda>_. False) ''w2'' 60 60001000 leased_db) = Some k"
proof (rule claim_run_job_progress [where j = leased_job and b = 60001000])
  show "leased_job \<in> set (db_jobs leased_db)" by code_simp
  show "run_active leased_db (jb_run_id leased_job)" by code_simp
  have "jb_status leased_job = LEASED" "jb_lease_expires_at leased_job = Some 60001000" by code_simp+
  then show "jb_status leased_job = QUEUED \<and> jb_available_at leased_job \<le> 60001000 \<or>
      jb_status leased_job = LEASED \<and> jb_lease_expires_at leased_job = Some 60001000 \<and>
      (60001000 :: time) \<le> 60001000" by simp
qed simp

theorem enqueue_single_job_witness:
  "\<exists>j. filter (\<lambda>x. jb_run_id x = 50) (db_jobs (enqueue_run_job 50 RETRY_FAILED 5 leased_db)) = [j] \<and>
     jb_type j = RETRY_FAILED \<and> jb_attempt_count j = 1"
proof -
  have "find_run leased_db 50 \<noteq> None" by code_simp
  note enqueue_single_job [OF queued_db_ok(2) this, of RETRY_FAILED 5]
  moreover have "job_of_run leased_db 50 = Some leased_job" by code_simp
  moreover have "jb_attempt_count leased_job = 1" by code_simp
  ultimately show ?thesis by auto
qed

theorem recover_orphaned_runs_sound_witness:
  "job_of_run (snd (recover_orphaned_runs (\<lambda>_. False) 9 (queued_db\<lparr>db_jobs := []\<rparr>))) 50 \<noteq> None"
proof -
  let ?db = "queued_db\<lparr>db_jobs := []\<rparr>"
  have ok: "db_ok ?db" using queued_db_ok(1) by (simp add: db_ok_def)
  have "\<exists>r \<in> set (db_runs ?db). orphaned (\<lambda>_. False) ?db r \<and> rn_id r = 50"
    by code_simp
  then obtain r where r: "r \<in> set (db_runs ?db)" "orphaned (\<lambda>_. False) ?db r" "rn_id r = 50"
    by blast
  have "job_of_run (snd (recover_orphaned_runs (\<lambda>_. False) 9 ?db)) (rn_id r) \<noteq> None"
    using recover_orphaned_runs_sound [OF ok, of "\<lambda>_. False" 9] r(1,2) unfolding Let_def by blast
  then show ?thesis unfolding r(3) .
qed

end
