(* ===== verification/ExecutionService.thy ===== *)
theory ExecutionService
  imports RunQueue
begin

text \<open>
  Creating and controlling runs: \<open>backend/app/services/execution_service.py\<close> and the routes of
  \<open>backend/app/api/executions.py\<close>. A call returns its value or the exception it raises, with the
  committed state; an exception always comes after a rollback. An HTTP error is its status code.
\<close>

datatype control_error =
    InvalidTransition string string
  | FailureLeaseLost
  | FailureLeaseNeedsJob
  | HttpError nat

type_synonym 'a call = "(control_error + 'a) \<times> db"

subsection \<open>Source-state candidates of a run\<close>

definition candidate_of :: "db \<Rightarrow> uuid \<Rightarrow> uuid list \<Rightarrow> state_candidate \<Rightarrow> bool" where
  "candidate_of db graph runs c \<longleftrightarrow> cd_graph_id c = graph \<and>
     graph_owner db graph = Some (cd_owner_id c) \<and> cd_run_id c \<in> set runs"

definition delete_run_candidates :: "run \<Rightarrow> db \<Rightarrow> db" where
  "delete_run_candidates r db =
     db\<lparr>db_candidates := filter (\<lambda>c. \<not> candidate_of db (rn_graph_id r) [rn_id r] c) (db_candidates db)\<rparr>"

subsection \<open>Superseding earlier failures and creating runs\<close>

definition inactive_failed :: "db \<Rightarrow> uuid \<Rightarrow> run \<Rightarrow> bool" where
  "inactive_failed db graph r \<longleftrightarrow> rn_graph_id r = graph \<and> rn_status r = FAILED \<and>
     (case job_of_run db (rn_id r) of None \<Rightarrow> True | Some j \<Rightarrow> jb_status j \<notin> {QUEUED, LEASED})"

definition supersede_inactive_failed_runs :: "uuid \<Rightarrow> db \<Rightarrow> db" where
  "supersede_inactive_failed_runs graph db =
     (let ids = map rn_id (filter (inactive_failed db graph) (db_runs db)) in
      if ids = [] then db
      else db\<lparr>db_runs := map (\<lambda>r. if inactive_failed db graph r then r\<lparr>rn_status := SUPERSEDED\<rparr> else r)
                           (db_runs db),
              db_candidates := filter (\<lambda>c. \<not> candidate_of db graph ids c) (db_candidates db)\<rparr>)"

definition new_run ::
  "uuid \<Rightarrow> uuid \<Rightarrow> uuid option \<Rightarrow> string \<Rightarrow> uuid option \<Rightarrow> obj option \<Rightarrow> time \<Rightarrow> run" where
  "new_run i graph version ttype by_user payload now =
     \<lparr>rn_id = i, rn_graph_id = graph, rn_version_id = version, rn_trigger_type = ttype,
      rn_triggered_by = by_user, rn_status = PENDING, rn_error = None, rn_payload = payload,
      rn_created_at = now\<rparr>"

definition add_run :: "run \<Rightarrow> db \<Rightarrow> db" where
  "add_run r db = db\<lparr>db_runs := db_runs db @ [r], db_next := Suc (db_next db)\<rparr>"

definition create_run ::
  "uuid \<Rightarrow> uuid option \<Rightarrow> string \<Rightarrow> uuid option \<Rightarrow> job_type option \<Rightarrow> obj option \<Rightarrow> time \<Rightarrow> db
     \<Rightarrow> run \<times> db" where
  "create_run graph by_user ttype version job payload now db =
     (let db1 = (if job = Some FULL then supersede_inactive_failed_runs graph db else db);
          r = new_run (db_next db1) graph version ttype by_user payload now;
          db2 = add_run r db1
      in (r, case job of None \<Rightarrow> db2 | Some ty \<Rightarrow> enqueue_run_job (rn_id r) ty now db2))"

subsection \<open>Reading runs\<close>

definition get_run :: "db \<Rightarrow> uuid \<Rightarrow> run option" where
  "get_run db i = find_run db i"

definition run_nodes_of :: "db \<Rightarrow> uuid \<Rightarrow> run_node list" where
  "run_nodes_of db i = filter (\<lambda>n. nr_run_id n = i) (db_run_nodes db)"

text \<open>Filters, newest first, one page, and the total over all pages.\<close>

definition run_matches :: "db \<Rightarrow> uuid option \<Rightarrow> string option \<Rightarrow> uuid option \<Rightarrow> run \<Rightarrow> bool" where
  "run_matches db graph st owner r \<longleftrightarrow>
     (case owner of None \<Rightarrow> True | Some u \<Rightarrow> graph_owner db (rn_graph_id r) = Some u) \<and>
     (case graph of None \<Rightarrow> True | Some g \<Rightarrow> rn_graph_id r = g) \<and>
     (case st of None \<Rightarrow> True | Some v \<Rightarrow> v = [] \<or> run_status_value (rn_status r) = v)"

definition list_runs ::
  "db \<Rightarrow> uuid option \<Rightarrow> string option \<Rightarrow> nat \<Rightarrow> nat \<Rightarrow> uuid option \<Rightarrow> run list \<times> nat" where
  "list_runs db graph st offset limit owner =
     (let runs = filter (run_matches db graph st owner) (db_runs db)
      in (take limit (drop offset (sort_key (\<lambda>r. - rn_created_at r) runs)), length runs))"

subsection \<open>Status changes\<close>

definition update_run_status :: "uuid \<Rightarrow> string \<Rightarrow> db \<Rightarrow> run option call" where
  "update_run_status i new_status db =
     (case find_run db i of
        None \<Rightarrow> (Inr None, db)
      | Some r \<Rightarrow>
          if \<not> can_transition (run_status_value (rn_status r)) new_status
          then (Inl (InvalidTransition (run_status_value (rn_status r)) new_status), db)
          else (case parse_run_status new_status of
                  None \<Rightarrow> (Inr None, db)
                | Some s \<Rightarrow>
                    let db1 = upd_run i (\<lambda>x. x\<lparr>rn_status := s\<rparr>) db;
                        db2 = (if s = CANCELLED then delete_run_candidates r db1 else db1)
                    in (Inr (find_run db2 i), db2)))"

definition owned_unexpired_job ::
  "run_job \<Rightarrow> uuid \<Rightarrow> uuid \<Rightarrow> string option \<Rightarrow> time \<Rightarrow> bool" where
  "owned_unexpired_job j job run owner now \<longleftrightarrow> jb_id j = job \<and> jb_run_id j = run \<and>
     (case owner of None \<Rightarrow> False | Some w \<Rightarrow> owns w now j)"

text \<open>The transition once the run is locked; \<open>fence\<close> re-reads the clock before the commit.\<close>

definition fail_locked_run :: "uuid \<Rightarrow> string \<Rightarrow> (nat \<Rightarrow> bool) \<Rightarrow> db \<Rightarrow> (run option \<times> bool) call" where
  "fail_locked_run run msg fence db =
     (case find_run db run of
        None \<Rightarrow> (Inr (None, False), db)
      | Some r \<Rightarrow>
          if \<not> fence 0 then (Inl FailureLeaseLost, db)
          else
            let fails = (rn_status r = RUNNING);
                db1 = (if fails then upd_run run (\<lambda>x. x\<lparr>rn_status := FAILED, rn_error := Some msg\<rparr>) db
                       else db)
            in if \<not> fence 1 then (Inl FailureLeaseLost, db)
               else (Inr (find_run db1 run, fails), db1))"

definition fail_run_if_running ::
  "uuid \<Rightarrow> string \<Rightarrow> uuid option \<Rightarrow> string option \<Rightarrow> time \<times> time \<times> time \<Rightarrow> db
     \<Rightarrow> (run option \<times> bool) call" where
  "fail_run_if_running run msg job owner ts db =
     (let (t1, t2, t3) = ts in
      case job of
        None \<Rightarrow> if owner \<noteq> None then (Inl FailureLeaseNeedsJob, db)
                else fail_locked_run run msg (\<lambda>_. True) db
      | Some i \<Rightarrow> (case find_job db i of
            None \<Rightarrow> (Inl FailureLeaseLost, db)
          | Some j \<Rightarrow>
              if \<not> owned_unexpired_job j i run owner t1 then (Inl FailureLeaseLost, db)
              else fail_locked_run run msg
                     (\<lambda>k. owned_unexpired_job j i run owner (if k = 0 then t2 else t3)) db))"

definition cancel_run :: "uuid \<Rightarrow> db \<Rightarrow> run option call" where
  "cancel_run i db = update_run_status i (run_status_value CANCELLED) db"

definition pause_run :: "uuid \<Rightarrow> db \<Rightarrow> run option call" where
  "pause_run i db =
     (case find_run db i of
        None \<Rightarrow> (Inr None, db)
      | Some r \<Rightarrow>
          if \<not> can_transition (run_status_value (rn_status r)) (run_status_value PAUSED)
          then (Inl (InvalidTransition (run_status_value (rn_status r)) (run_status_value PAUSED)), db)
          else let db1 = upd_run i (\<lambda>x. x\<lparr>rn_status := PAUSED\<rparr>) db in (Inr (find_run db1 i), db1))"

definition resume_job :: "time \<Rightarrow> run_job \<Rightarrow> run_job" where
  "resume_job now j =
     j\<lparr>jb_status := QUEUED, jb_available_at := now, jb_lease_owner := None,
       jb_lease_expires_at := None, jb_heartbeat_at := None, jb_last_error := None\<rparr>"

definition resume_run :: "uuid \<Rightarrow> time \<Rightarrow> db \<Rightarrow> run option call" where
  "resume_run i now db =
     (case find_run db i of
        None \<Rightarrow> (Inr None, db)
      | Some r \<Rightarrow>
          if \<not> can_transition (run_status_value (rn_status r)) (run_status_value RUNNING)
          then (Inl (InvalidTransition (run_status_value (rn_status r)) (run_status_value RUNNING)), db)
          else let db1 = upd_run i (\<lambda>x. x\<lparr>rn_status := RUNNING\<rparr>) db;
                   db2 = (case job_of_run db i of None \<Rightarrow> db1
                          | Some j \<Rightarrow> upd_job (jb_id j) (resume_job now) db1)
               in (Inr (find_run db2 i), db2))"

subsection \<open>Routes\<close>

record user =
  us_id :: uuid
  us_role :: string

definition is_admin :: "user \<Rightarrow> bool" where
  "is_admin u = (us_role u = ''admin'')"

definition check_run_access :: "run \<Rightarrow> user \<Rightarrow> db \<Rightarrow> control_error + unit" where
  "check_run_access r u db =
     (if is_admin u then Inr ()
      else case graph_owner db (rn_graph_id r) of
             None \<Rightarrow> Inl (HttpError 404)
           | Some o' \<Rightarrow> if o' = us_id u then Inr () else Inl (HttpError 404))"

text \<open>Fetch the run, check access, then act.\<close>

definition with_run :: "uuid \<Rightarrow> user \<Rightarrow> db \<Rightarrow> (run \<Rightarrow> 'a call) \<Rightarrow> 'a call" where
  "with_run i u db act =
     (case get_run db i of
        None \<Rightarrow> (Inl (HttpError 404), db)
      | Some r \<Rightarrow> (case check_run_access r u db of
            Inl e \<Rightarrow> (Inl e, db)
          | Inr _ \<Rightarrow> act r))"

definition cancel_run_endpoint :: "uuid \<Rightarrow> user \<Rightarrow> db \<Rightarrow> run option call" where
  "cancel_run_endpoint i u db = with_run i u db (\<lambda>_. cancel_run i db)"

definition pause_run_endpoint :: "uuid \<Rightarrow> user \<Rightarrow> db \<Rightarrow> run option call" where
  "pause_run_endpoint i u db = with_run i u db (\<lambda>_. pause_run i db)"

definition resume_run_endpoint :: "uuid \<Rightarrow> user \<Rightarrow> time \<Rightarrow> db \<Rightarrow> run option call" where
  "resume_run_endpoint i u now db = with_run i u db (\<lambda>_. resume_run i now db)"

definition get_run_detail :: "uuid \<Rightarrow> user \<Rightarrow> db \<Rightarrow> (run \<times> run_node list) call" where
  "get_run_detail i u db = with_run i u db (\<lambda>r. (Inr (r, run_nodes_of db i), db))"

definition list_executions ::
  "uuid option \<Rightarrow> string option \<Rightarrow> nat \<Rightarrow> nat \<Rightarrow> user \<Rightarrow> db \<Rightarrow> run list \<times> nat" where
  "list_executions graph st offset limit u db =
     list_runs db graph st offset limit (if is_admin u then None else Some (us_id u))"

definition retry_failed_run :: "uuid \<Rightarrow> user \<Rightarrow> time \<Rightarrow> db \<Rightarrow> run option call" where
  "retry_failed_run i u now db = with_run i u db (\<lambda>_.
     case find_run db i of
       None \<Rightarrow> (Inl (HttpError 404), db)
     | Some r \<Rightarrow>
         if rn_status r \<noteq> FAILED then (Inl (HttpError 400), db)
         else if rn_version_id r = None then (Inl (HttpError 400), db)
         else let db1 = upd_run i (\<lambda>x. x\<lparr>rn_status := PENDING, rn_error := None\<rparr>) db;
                  db2 = enqueue_run_job i RETRY_FAILED now db1
              in (Inr (find_run db2 i), db2))"

definition replay_run :: "uuid \<Rightarrow> user \<Rightarrow> time \<Rightarrow> db \<Rightarrow> run call" where
  "replay_run i u now db = with_run i u db (\<lambda>r.
     if rn_version_id r = None then (Inl (HttpError 400), db)
     else let (new, db1) = create_run (rn_graph_id r) (Some (us_id u)) ''manual'' (rn_version_id r)
                             (Some FULL) None now db
          in (Inr new, db1))"

text \<open>\<open>ORDER BY version_number DESC LIMIT 1\<close>.\<close>

fun latest_version :: "graph_version list \<Rightarrow> graph_version option" where
  "latest_version [] = None"
| "latest_version (v # vs) =
     (case latest_version vs of None \<Rightarrow> Some v
      | Some w \<Rightarrow> if gv_number v < gv_number w then Some w else Some v)"

definition versions_of :: "db \<Rightarrow> uuid \<Rightarrow> graph_version list" where
  "versions_of db g = filter (\<lambda>v. gv_graph_id v = g) (db_versions db)"

definition pick_version :: "db \<Rightarrow> uuid \<Rightarrow> uuid option \<Rightarrow> control_error + uuid" where
  "pick_version db g requested =
     (case requested of
        Some v \<Rightarrow> if \<exists>x \<in> set (versions_of db g). gv_id x = v then Inr v else Inl (HttpError 404)
      | None \<Rightarrow> (case latest_version (versions_of db g) of
            None \<Rightarrow> Inl (HttpError 400)
          | Some v \<Rightarrow> Inr (gv_id v)))"

text \<open>\<open>request\<close> is the optional body: a version and a trigger type.\<close>

definition start_run ::
  "uuid \<Rightarrow> (uuid option \<times> string) option \<Rightarrow> user \<Rightarrow> time \<Rightarrow> db \<Rightarrow> run call" where
  "start_run g request u now db =
     (case graph_owner db g of
        None \<Rightarrow> (Inl (HttpError 404), db)
      | Some o' \<Rightarrow>
          if \<not> is_admin u \<and> o' \<noteq> us_id u then (Inl (HttpError 403), db)
          else (case pick_version db g (case request of None \<Rightarrow> None | Some (v, _) \<Rightarrow> v) of
                  Inl e \<Rightarrow> (Inl e, db)
                | Inr v \<Rightarrow>
                    let ttype = (case request of None \<Rightarrow> ''manual'' | Some (_, t) \<Rightarrow> t);
                        (r, db1) = create_run g (Some (us_id u)) ttype (Some v) (Some FULL) None now db
                    in (Inr r, db1)))"

subsection \<open>The service contract\<close>

lemma find_run_candidates [db_simps]:
  "find_run (db\<lparr>db_candidates := cs\<rparr>) i = find_run db i"
  "job_of_run (db\<lparr>db_candidates := cs\<rparr>) i = job_of_run db i"
  "db_ok (db\<lparr>db_candidates := cs\<rparr>) = db_ok db"
  by (simp_all add: find_run_def job_of_run_def db_ok_def)

lemma delete_run_candidates_simps [db_simps]:
  "find_run (delete_run_candidates r db) i = find_run db i"
  "db_ok (delete_run_candidates r db) = db_ok db"
  "db_jobs (delete_run_candidates r db) = db_jobs db"
  by (simp_all add: delete_run_candidates_def db_simps)

lemma get_row_map:
  "(\<And>r. key (f r) = key r) \<Longrightarrow> get_row key k (map f rows) = map_option f (get_row key k rows)"
  by (induction rows) (auto simp: get_row_def)

definition supersede_row :: "db \<Rightarrow> uuid \<Rightarrow> run \<Rightarrow> run" where
  "supersede_row db g r = (if inactive_failed db g r then r\<lparr>rn_status := SUPERSEDED\<rparr> else r)"

lemma supersede_row_id [simp]: "rn_id (supersede_row db g r) = rn_id r"
  by (simp add: supersede_row_def)

lemma supersede_runs: "db_runs (supersede_inactive_failed_runs g db) = map (supersede_row db g) (db_runs db)"
proof (cases "filter (inactive_failed db g) (db_runs db) = []")
  case True
  then have "map (supersede_row db g) (db_runs db) = db_runs db"
    by (intro map_idI) (simp add: supersede_row_def filter_empty_conv)
  with True show ?thesis by (simp add: supersede_inactive_failed_runs_def)
qed (simp add: supersede_inactive_failed_runs_def supersede_row_def Let_def)

lemma supersede_other [simp]:
  "db_jobs (supersede_inactive_failed_runs g db) = db_jobs db"
  "db_next (supersede_inactive_failed_runs g db) = db_next db"
  "db_graphs (supersede_inactive_failed_runs g db) = db_graphs db"
  by (simp_all add: supersede_inactive_failed_runs_def Let_def)

lemma find_run_supersede [db_simps]:
  "find_run (supersede_inactive_failed_runs g db) i = map_option (supersede_row db g) (find_run db i)"
  by (simp add: find_run_def supersede_runs get_row_map)

lemma supersede_ok: "db_ok db \<Longrightarrow> db_ok (supersede_inactive_failed_runs g db)"
  by (simp add: db_ok_def supersede_runs o_def image_image)

lemma supersede_evolves: "run_evolves r (supersede_row db g r)"
  by (simp add: run_evolves_def supersede_row_def inactive_failed_def status_step_def legal_step_def)

lemma add_run_ok: "db_ok db \<Longrightarrow> rn_id r = db_next db \<Longrightarrow> db_ok (add_run r db)"
  unfolding db_ok_def add_run_def by (auto simp: less_Suc_eq)

lemma find_run_add_run:
  "find_run (add_run r db) i = (case find_run db i of Some x \<Rightarrow> Some x
     | None \<Rightarrow> if rn_id r = i then Some r else None)"
  by (simp add: find_run_def add_run_def get_row_append)

lemma fresh_id: "db_ok db \<Longrightarrow> db_next db \<le> i \<Longrightarrow> find_run db i = None"
  by (auto simp: find_run_def get_row_None db_ok_def)

definition create_base :: "uuid \<Rightarrow> job_type option \<Rightarrow> db \<Rightarrow> db" where
  "create_base g job db = (if job = Some FULL then supersede_inactive_failed_runs g db else db)"

lemma create_base_simps [simp]: "db_next (create_base g job db) = db_next db"
  "db_jobs (create_base g job db) = db_jobs db" "db_graphs (create_base g job db) = db_graphs db"
  by (simp_all add: create_base_def)

lemma find_run_create_base: "find_run (create_base g job db) i =
    map_option (if job = Some FULL then supersede_row db g else (\<lambda>r. r)) (find_run db i)"
  by (simp add: create_base_def db_simps option.map_ident)

lemma create_run_eq:
  "create_run g u ty v job p now db =
     (let r = new_run (db_next db) g v ty u p now; d = add_run r (create_base g job db)
      in (r, case job of None \<Rightarrow> d | Some jt \<Rightarrow> enqueue_run_job (db_next db) jt now d))"
  by (simp add: create_run_def create_base_def Let_def new_run_def split: option.split)

lemma create_run_contract:
  assumes ok: "db_ok db"
  shows "db_ok (snd (create_run g u ty v job p now db))"
    and "find_run (snd (create_run g u ty v job p now db)) i =
      (if i = db_next db then Some (new_run (db_next db) g v ty u p now)
       else find_run (create_base g job db) i)"
proof -
  let ?r = "new_run (db_next db) g v ty u p now"
  let ?d = "add_run ?r (create_base g job db)"
  have r: "rn_id ?r = db_next db" by (simp add: new_run_def)
  have d: "db_ok ?d"
    by (rule add_run_ok) (simp_all add: create_base_def supersede_ok ok r)
  have f: "find_run ?d i = (if i = db_next db then Some ?r else find_run (create_base g job db) i)" for i
    using fresh_id [OF ok, of i] by (auto simp: find_run_add_run find_run_create_base r split: option.split)
  then have "find_run ?d (db_next db) \<noteq> None" by simp
  note e = enqueue_contract [OF d this]
  show "db_ok (snd (create_run g u ty v job p now db))"
    using d e(1) by (cases job) (simp_all add: create_run_eq Let_def)
  show "find_run (snd (create_run g u ty v job p now db)) i =
      (if i = db_next db then Some ?r else find_run (create_base g job db) i)"
    using f e(2) by (cases job) (simp_all add: create_run_eq Let_def)
qed

interpretation create: service_op "\<lambda>db. snd (create_run g u ty v job p now db)" for g u ty v job p now
proof unfold_locales
  fix db assume ok: "db_ok db"
  have "i \<noteq> db_next db" if "find_run db i = Some r" for i r
    using that fresh_id [OF ok, of i] by auto
  then show "db_evolves db (snd (create_run g u ty v job p now db))"
    using create_run_contract [OF ok]
    by (simp add: db_evolves_def find_run_create_base supersede_evolves)
qed

text \<open>A status change that the transition table allows.\<close>

lemma status_change_contract:
  assumes ok: "db_ok db" and r: "find_run db k = Some r" and st: "status_step (rn_status r) s"
    and f: "\<And>x. f x = x\<lparr>rn_status := s\<rparr> \<or> f x = x\<lparr>rn_status := s, rn_error := e\<rparr>"
  shows "db_evolves db (upd_run k f db)"
proof (rule run_update_contract [OF ok])
  show "rn_id (f x) = rn_id x" for x using f [of x] by (auto simp del: not_None_eq)
  show "find_run db k = Some x \<Longrightarrow> run_evolves x (f x)" for x
    using f [of x] st r by (auto simp: run_evolves_def)
qed

lemma table_step: "can_transition (run_status_value s) (run_status_value t) \<Longrightarrow> status_step s t"
  by (simp add: status_step_def legal_step_def)

lemma evolves_other [simp]:
  "db_evolves db (delete_run_candidates r d) = db_evolves db d"
  by (simp add: db_evolves_def db_simps)

lemma evolves_job: "db_evolves db d \<Longrightarrow> (\<And>r. jb_id (f r) = jb_id r) \<Longrightarrow>
    (\<And>r. jb_run_id (f r) = jb_run_id r) \<Longrightarrow> (\<And>r. lease_complete (f r)) \<Longrightarrow> db_evolves db (upd_job k f d)"
  by (auto simp: db_evolves_def db_simps intro: db_ok_upd_job)

interpretation update_status: service_op "\<lambda>db. snd (update_run_status k t db)" for k t
proof unfold_locales
  fix db assume ok: "db_ok db"
  show "db_evolves db (snd (update_run_status k t db))"
  proof (cases "find_run db k")
    case (Some r)
    show ?thesis
    proof (cases "can_transition (run_status_value (rn_status r)) t")
      case True
      then obtain s where s: "t = run_status_value s"
        by (auto simp: can_transition_def parse_run_status_Some split: option.splits)
      have "status_step (rn_status r) s" using True unfolding s by (rule table_step)
      from status_change_contract [OF ok Some this, of "\<lambda>x. x\<lparr>rn_status := s\<rparr>"]
      show ?thesis using Some True s by (auto simp: update_run_status_def Let_def)
    qed (simp add: update_run_status_def Some ok)
  qed (simp add: update_run_status_def ok)
qed

interpretation cancel: service_op "\<lambda>db. snd (cancel_run k db)" for k
  unfolding cancel_run_def by (rule update_status.service_op_axioms)

lemma fail_locked_contract:
  assumes ok: "db_ok db"
  shows "db_evolves db (snd (fail_locked_run k msg fence db))"
proof (cases "find_run db k")
  case (Some r)
  show ?thesis
  proof (cases "rn_status r = RUNNING")
    case True
    then have "status_step (rn_status r) FAILED" by (simp add: status_step_def legal_step_def)
    from status_change_contract [OF ok Some this, of "\<lambda>x. x\<lparr>rn_status := FAILED, rn_error := Some msg\<rparr>"]
    show ?thesis using Some True ok by (auto simp: fail_locked_run_def Let_def)
  qed (simp add: fail_locked_run_def Some ok)
qed (simp add: fail_locked_run_def ok)

interpretation fail_running: service_op "\<lambda>db. snd (fail_run_if_running k msg job w ts db)"
  for k msg job w ts
  by (unfold_locales, cases ts) (simp add: fail_run_if_running_def fail_locked_contract split: option.split)

interpretation pause: service_op "\<lambda>db. snd (pause_run k db)" for k
proof unfold_locales
  fix db assume ok: "db_ok db"
  show "db_evolves db (snd (pause_run k db))"
    using status_change_contract [OF ok, of k _ PAUSED "\<lambda>x. x\<lparr>rn_status := PAUSED\<rparr>"] table_step ok
    by (cases "find_run db k") (auto simp: pause_run_def Let_def simp del: can_transition_values)
qed

lemma resume_job_simps [simp]:
  "jb_id (resume_job now j) = jb_id j" "jb_run_id (resume_job now j) = jb_run_id j"
  "lease_complete (resume_job now j)"
  by (simp_all add: resume_job_def lease_complete_def)

interpretation resume: service_op "\<lambda>db. snd (resume_run k now db)" for k now
proof unfold_locales
  fix db assume ok: "db_ok db"
  show "db_evolves db (snd (resume_run k now db))"
  proof (cases "find_run db k")
    case (Some r)
    show ?thesis
    proof (cases "can_transition (run_status_value (rn_status r)) (run_status_value RUNNING)")
      case True
      note c = status_change_contract [OF ok Some table_step [OF True], of "\<lambda>x. x\<lparr>rn_status := RUNNING\<rparr>"]
      have "db_evolves db (upd_run k (\<lambda>x. x\<lparr>rn_status := RUNNING\<rparr>) db)" by (rule c) simp
      then show ?thesis
        using Some True evolves_job
        by (simp add: resume_run_def Let_def del: can_transition_values split: option.split)
    qed (simp add: resume_run_def Some ok del: can_transition_values)
  qed (simp add: resume_run_def ok)
qed

text \<open>Access checks do not leave the contract.\<close>

lemma with_run_cases:
  obtains (denied) c where "with_run i u db act = (Inl (HttpError c), db)"
  | (granted) r where "find_run db i = Some r" "check_run_access r u db = Inr ()" "with_run i u db act = act r"
proof (cases "find_run db i")
  case None
  then show thesis by (intro denied [of 404]) (simp add: with_run_def get_run_def)
next
  case (Some r)
  show thesis
  proof (cases "check_run_access r u db")
    case (Inl e)
    then have "e = HttpError 404" by (simp add: check_run_access_def split: if_splits option.splits)
    then show thesis using Some Inl by (intro denied [of 404]) (simp add: with_run_def get_run_def)
  next
    case (Inr x)
    then show thesis using Some by (intro granted [of r]) (simp_all add: with_run_def get_run_def)
  qed
qed

lemma with_run_contract:
  assumes "db_ok db" "\<And>r. find_run db i = Some r \<Longrightarrow> db_evolves db (snd (act r))"
  shows "db_evolves db (snd (with_run i u db act))"
  by (rule with_run_cases [of i u db act]) (use assms in auto)

interpretation cancel_route: service_op "\<lambda>db. snd (cancel_run_endpoint k u db)" for k u
  by unfold_locales (simp add: cancel_run_endpoint_def with_run_contract cancel.step)

interpretation pause_route: service_op "\<lambda>db. snd (pause_run_endpoint k u db)" for k u
  by unfold_locales (simp add: pause_run_endpoint_def with_run_contract pause.step)

interpretation resume_route: service_op "\<lambda>db. snd (resume_run_endpoint k u now db)" for k u now
  by unfold_locales (simp add: resume_run_endpoint_def with_run_contract resume.step)

interpretation retry_route: service_op "\<lambda>db. snd (retry_failed_run k u now db)" for k u now
proof unfold_locales
  fix db assume ok: "db_ok db"
  show "db_evolves db (snd (retry_failed_run k u now db))"
    unfolding retry_failed_run_def
  proof (rule with_run_contract [OF ok])
    fix r0 assume "find_run db k = Some r0"
    let ?d = "upd_run k (\<lambda>x. x\<lparr>rn_status := PENDING, rn_error := None\<rparr>) db"
    have "db_evolves db ?d" if "rn_status r0 = FAILED"
      using that \<open>find_run db k = Some r0\<close>
      by (intro status_change_contract [OF ok, of _ r0]) (auto simp: status_step_def)
    moreover have "find_run ?d k \<noteq> None" using \<open>find_run db k = Some r0\<close> by (simp add: db_simps)
    ultimately have "db_evolves db (enqueue_run_job k RETRY_FAILED now ?d)" if "rn_status r0 = FAILED"
      using that enqueue_contract [of ?d k] by (simp add: db_evolves_def)
    then show "db_evolves db (snd (case find_run db k of None \<Rightarrow> (Inl (HttpError 404) :: control_error + run option, db)
       | Some r \<Rightarrow> if rn_status r \<noteq> FAILED then (Inl (HttpError 400), db)
           else if rn_version_id r = None then (Inl (HttpError 400), db)
           else let db1 = upd_run k (\<lambda>x. x\<lparr>rn_status := PENDING, rn_error := None\<rparr>) db;
                    db2 = enqueue_run_job k RETRY_FAILED now db1
                in (Inr (find_run db2 k), db2)))"
      using ok \<open>find_run db k = Some r0\<close> by (simp add: Let_def)
  qed
qed

interpretation replay_route: service_op "\<lambda>db. snd (replay_run k u now db)" for k u now
  by unfold_locales (simp add: replay_run_def with_run_contract create.step case_prod_beta)

interpretation start_route: service_op "\<lambda>db. snd (start_run g req u now db)" for g req u now
  by unfold_locales (simp add: start_run_def create.step case_prod_beta Let_def split: option.split sum.split)

subsection \<open>What the operations guarantee\<close>

lemma job_of_run_base [simp]: "job_of_run (add_run r (create_base g job db)) i = job_of_run db i"
  by (simp add: job_of_run_def add_run_def)

lemma enqueue_other_jobs:
  assumes "db_ok db" "i \<noteq> k"
  shows "job_of_run (enqueue_run_job k ty now db) i = job_of_run db i"
proof (cases "job_of_run db k")
  case None
  then show ?thesis using assms(2)
    by (simp add: enqueue_run_job_def add_job_def job_of_run_def get_row_append new_job_def split: option.split)
next
  case (Some j)
  have "jb_id x \<noteq> jb_id j" if x: "job_of_run db i = Some x" for x
  proof
    assume "jb_id x = jb_id j"
    then have "x = j"
      using job_in_table [OF assms(1)] job_of_run_Some [OF x] job_of_run_Some [OF Some]
      by (metis option.inject)
    then show False using job_of_run_Some [OF x] job_of_run_Some [OF Some] assms(2) by simp
  qed
  then show ?thesis using Some
    by (cases "job_of_run db i")
       (simp_all add: enqueue_run_job_def job_of_run_def upd_job_def get_row_upd_other)
qed

lemma upd_job_tables [simp]:
  "db_candidates (upd_job k f db) = db_candidates db" "db_candidates (upd_run k h db) = db_candidates db"
  "db_candidates (add_job r ty now db) = db_candidates db" "db_candidates (add_run x db) = db_candidates db"
  "db_graphs (upd_job k f db) = db_graphs db" "db_graphs (upd_run k h db) = db_graphs db"
  by (simp_all add: upd_job_def upd_run_def add_job_def add_run_def)

lemma enqueue_candidates [simp]: "db_candidates (enqueue_run_job k ty now db) = db_candidates db"
  by (simp add: enqueue_run_job_def split: option.split)

lemma supersede_candidates:
  "db_candidates (supersede_inactive_failed_runs g db) =
     filter (\<lambda>c. \<not> candidate_of db g (map rn_id (filter (inactive_failed db g) (db_runs db))) c) (db_candidates db)"
proof (cases "filter (inactive_failed db g) (db_runs db) = []")
  case True
  then show ?thesis
    unfolding supersede_inactive_failed_runs_def True by (simp add: candidate_of_def)
qed (simp add: supersede_inactive_failed_runs_def Let_def)

text \<open>Starting a full run: the new run is fresh, pending and queued, every earlier failed run of
  the graph without an active job is superseded and its staged source state is dropped, no such
  run is left, and all other runs are as before.\<close>

theorem create_full_run:
  assumes ok: "db_ok db" and c: "create_run g u ty v (Some FULL) p now db = (r, db')"
  shows "db_ok db' \<and> find_run db (rn_id r) = None \<and> find_run db' (rn_id r) = Some r \<and>
    rn_status r = PENDING \<and> rn_graph_id r = g \<and>
    (\<exists>j. job_of_run db' (rn_id r) = Some j \<and> jb_type j = FULL \<and> jb_status j = QUEUED) \<and>
    (\<forall>i x. find_run db i = Some x \<longrightarrow> find_run db' i = Some
       (if inactive_failed db g x then x\<lparr>rn_status := SUPERSEDED\<rparr> else x)) \<and>
    (\<forall>x \<in> set (db_runs db'). \<not> inactive_failed db' g x) \<and>
    db_candidates db' = filter (\<lambda>x. \<not> candidate_of db g
       (map rn_id (filter (inactive_failed db g) (db_runs db))) x) (db_candidates db)"
proof -
  let ?n = "db_next db"
  let ?d = "add_run (new_run ?n g v ty u p now) (create_base g (Some FULL) db)"
  have r: "r = new_run ?n g v ty u p now" and d': "db' = enqueue_run_job ?n FULL now ?d"
    using c unfolding create_run_eq Let_def by auto
  have id: "rn_id r = ?n" by (simp add: r new_run_def)
  have ok': "db_ok db'" using create_run_contract(1) [OF ok, of g u ty v "Some FULL" p now] c by simp
  have runs: "find_run db' i = (if i = ?n then Some r else map_option (supersede_row db g) (find_run db i))" for i
    using create_run_contract(2) [OF ok, of g u ty v "Some FULL" p now i] c
    by (simp add: r find_run_create_base)
  have none: "find_run db ?n = None" by (rule fresh_id [OF ok]) simp
  have d: "db_ok ?d" by (rule add_run_ok) (simp_all add: create_base_def supersede_ok ok new_run_def)
  then have job: "\<exists>j. job_of_run db' ?n = Some j \<and> jb_type j = FULL \<and> jb_status j = QUEUED"
    using enqueued_job [of ?d ?n FULL now] unfolding d' by blast
  have left: "\<not> inactive_failed db' g x" if x: "x \<in> set (db_runs db')" for x
  proof (cases "rn_id x = ?n")
    case True
    then have "x = r" using run_in_table [OF ok' x] runs [of ?n] by simp
    then show ?thesis by (simp add: inactive_failed_def r new_run_def)
  next
    case False
    then obtain y where y: "find_run db (rn_id x) = Some y" "x = supersede_row db g y"
      using run_in_table [OF ok' x] runs [of "rn_id x"] by auto
    have "job_of_run db' (rn_id x) = job_of_run db (rn_id x)"
      using False enqueue_other_jobs [OF d] by (simp add: d')
    then show ?thesis by (auto simp: y(2) inactive_failed_def supersede_row_def)
  qed
  have cand: "db_candidates db' = filter (\<lambda>x. \<not> candidate_of db g
       (map rn_id (filter (inactive_failed db g) (db_runs db))) x) (db_candidates db)"
    by (simp only: d' enqueue_candidates upd_job_tables create_base_def if_True simp_thms supersede_candidates)
  have keep: "find_run db' i = Some (if inactive_failed db g x then x\<lparr>rn_status := SUPERSEDED\<rparr> else x)"
    if "find_run db i = Some x" for i x
    using runs [of i] that none by (auto simp: supersede_row_def)
  have st: "find_run db' ?n = Some r" "rn_status r = PENDING" "rn_graph_id r = g"
    using runs by (simp_all add: r new_run_def)
  show ?thesis unfolding id by (intro conjI allI impI ballI ok' none job left cand keep st)
qed

text \<open>Cancelling is possible exactly for pending, running and paused runs, and then no staged
  source state of the run is left; any other run keeps its status and the caller gets an error.\<close>

theorem cancel_run_effect:
  assumes "find_run db i = Some r"
  shows "(if rn_status r \<in> {PENDING, RUNNING, PAUSED}
      then fst (cancel_run i db) = Inr (Some (r\<lparr>rn_status := CANCELLED\<rparr>)) \<and>
        find_run (snd (cancel_run i db)) i = Some (r\<lparr>rn_status := CANCELLED\<rparr>) \<and>
        (\<forall>c \<in> set (db_candidates (snd (cancel_run i db))). \<not> candidate_of db (rn_graph_id r) [i] c)
      else cancel_run i db =
        (Inl (InvalidTransition (run_status_value (rn_status r)) (run_status_value CANCELLED)), db))"
proof -
  have id: "rn_id r = i" using find_run_Some [OF assms] by simp
  have own: "graph_owner (upd_run i f db) g = graph_owner db g" for f g
    by (simp add: graph_owner_def)
  have "rn_status r \<in> {PENDING, RUNNING, PAUSED} \<longleftrightarrow>
      can_transition (run_status_value (rn_status r)) (run_status_value CANCELLED)"
    by (cases "rn_status r") (simp_all del: run_status_value.simps)
  then show ?thesis
    unfolding cancel_run_def update_run_status_def
    by (simp add: assms Let_def db_simps id delete_run_candidates_def candidate_of_def own
        del: run_status_value.simps)
qed

text \<open>Failing a run is fenced and conditional: a durable worker whose lease is not valid when
  the job is locked fails with no effect, and otherwise the run becomes failed only if it was
  still running, so a cancelled, paused or completed run is never overwritten.\<close>

theorem fail_run_fenced:
  "(if job = None \<and> w = None \<or>
       (\<exists>k v. job = Some k \<and> w = Some v \<and> holds_lease db k v t1 \<and> holds_lease db k v t2 \<and>
          holds_lease db k v t3 \<and> map_option jb_run_id (find_job db k) = Some i)
    then (case find_run db i of
        None \<Rightarrow> fail_run_if_running i msg job w (t1, t2, t3) db = (Inr (None, False), db)
      | Some r \<Rightarrow> if rn_status r = RUNNING
          then fail_run_if_running i msg job w (t1, t2, t3) db =
            (Inr (Some (r\<lparr>rn_status := FAILED, rn_error := Some msg\<rparr>), True),
             upd_run i (\<lambda>x. x\<lparr>rn_status := FAILED, rn_error := Some msg\<rparr>) db)
          else fail_run_if_running i msg job w (t1, t2, t3) db = (Inr (Some r, False), db))
    else snd (fail_run_if_running i msg job w (t1, t2, t3) db) = db)"
proof (cases job)
  case None
  then show ?thesis
    by (auto simp: fail_run_if_running_def fail_locked_run_def Let_def db_simps split: option.split)
next
  case (Some k)
  show ?thesis
  proof (cases "find_job db k")
    case (Some j)
    then have "jb_id j = k" using find_job_Some by blast
    then show ?thesis
      using Some \<open>job = Some k\<close>
      by (cases w) (auto simp: fail_run_if_running_def fail_locked_run_def owned_unexpired_job_def
          holds_lease_def Let_def db_simps split: option.split)
  qed (use Some in \<open>simp add: fail_run_if_running_def holds_lease_def split: option.split\<close>)
qed

lemma job_of_run_upd_run [db_simps]: "job_of_run (upd_run i f db) k = job_of_run db k"
  by (simp add: job_of_run_def upd_run_def)

lemma resumed_not_leased: "\<not> owns w t (resume_job now j)"
  by (simp add: owns_iff resume_job_def)

text \<open>C28. Resuming hands the run to whichever worker claims next: the run is running, its job is
  queued and due, the lease of the paused worker is void at once, and a claim finds work.\<close>

theorem resume_run_effect:
  assumes ok: "db_ok db" and r: "find_run db i = Some r" and j: "job_of_run db i = Some j"
    and st: "rn_status r \<in> {PENDING, PAUSED, FAILED}"
  shows "(let db' = snd (resume_run i now db) in
    fst (resume_run i now db) = Inr (Some (r\<lparr>rn_status := RUNNING\<rparr>)) \<and>
    find_run db' i = Some (r\<lparr>rn_status := RUNNING\<rparr>) \<and>
    find_job db' (jb_id j) = Some (resume_job now j) \<and>
    (\<forall>w t. \<not> holds_lease db' (jb_id j) w t) \<and>
    (\<forall>w lease t. now \<le> t \<longrightarrow> fst (claim_run_job (\<lambda>_. False) w lease t db') \<noteq> None))"
proof -
  let ?d = "upd_job (jb_id j) (resume_job now) (upd_run i (\<lambda>x. x\<lparr>rn_status := RUNNING\<rparr>) db)"
  have j': "find_job db (jb_id j) = Some j" "jb_run_id j = i"
    using job_in_table [OF ok, of j] job_of_run_Some [OF j] by simp_all
  have c: "can_transition (run_status_value (rn_status r)) (run_status_value RUNNING)"
    using st by (auto simp del: run_status_value.simps)
  have res: "resume_run i now db = (Inr (find_run ?d i), ?d)"
    by (simp add: resume_run_def r j c Let_def del: run_status_value.simps can_transition_values)
  have run: "find_run ?d i = Some (r\<lparr>rn_status := RUNNING\<rparr>)"
    by (simp add: db_simps r)
  have job: "find_job ?d (jb_id j) = Some (resume_job now j)"
    by (simp add: db_simps j')
  have "fst (claim_run_job (\<lambda>_. False) w lease t ?d) \<noteq> None" if "now \<le> t" for w lease t
  proof -
    have "resume_job now j \<in> set (db_jobs ?d)" using job find_job_Some by blast
    moreover have "run_active ?d (jb_run_id (resume_job now j))"
      using run j'(2) by (simp add: run_active_def)
    moreover have "jb_status (resume_job now j) = QUEUED" "jb_available_at (resume_job now j) \<le> t"
      using that by (simp_all add: resume_job_def)
    ultimately have "resume_job now j \<in> set (claim_candidates (\<lambda>_. False) t ?d)"
      by (simp add: claim_candidates_def claimable_iff)
    then show ?thesis by (cases "oldest (claim_candidates (\<lambda>_. False) t ?d)")
        (auto simp: claim_run_job_def oldest_None)
  qed
  then show ?thesis using run job by (simp add: res holds_lease_def resumed_not_leased)
qed

text \<open>Retrying reuses the run: allowed for failed runs with a version only, it makes the run
  pending again with one queued job that re-executes failed nodes; otherwise nothing changes and
  the caller gets status 400.\<close>

theorem retry_failed_run_effect:
  assumes ok: "db_ok db" and r: "find_run db i = Some r" and acc: "check_run_access r u db = Inr ()"
  shows "(if rn_status r = FAILED \<and> rn_version_id r \<noteq> None
    then fst (retry_failed_run i u now db) = Inr (Some (r\<lparr>rn_status := PENDING, rn_error := None\<rparr>)) \<and>
      find_run (snd (retry_failed_run i u now db)) i = Some (r\<lparr>rn_status := PENDING, rn_error := None\<rparr>) \<and>
      (\<exists>j. job_of_run (snd (retry_failed_run i u now db)) i = Some j \<and> jb_type j = RETRY_FAILED \<and>
         jb_status j = QUEUED \<and> jb_available_at j = now \<and> jb_lease_owner j = None)
    else retry_failed_run i u now db = (Inl (HttpError 400), db))"
proof -
  let ?f = "\<lambda>x. x\<lparr>rn_status := PENDING, rn_error := None\<rparr>"
  let ?d = "upd_run i ?f db"
  have e: "retry_failed_run i u now db = (if rn_status r = FAILED \<and> rn_version_id r \<noteq> None
      then (Inr (find_run (enqueue_run_job i RETRY_FAILED now ?d) i), enqueue_run_job i RETRY_FAILED now ?d)
      else (Inl (HttpError 400), db))"
    by (simp add: retry_failed_run_def with_run_def get_run_def r acc Let_def)
  have d: "db_ok ?d" "find_run ?d i = Some (?f r)"
    using ok r by (simp_all add: db_simps db_ok_upd_run)
  then have "find_run (enqueue_run_job i RETRY_FAILED now ?d) i = Some (?f r)"
    using enqueue_contract(2) [OF d(1), of i] by simp
  with e enqueued_job [OF d(1), of i RETRY_FAILED now] show ?thesis by simp
qed


lemma concat_pages:
  "0 < n \<Longrightarrow> concat (map (\<lambda>k. take n (drop (k * n) xs)) [0..<m]) = take (m * n) xs"
proof (induction m)
  case (Suc m)
  have "take (m * n + n) xs = take (m * n) xs @ take n (drop (m * n) xs)" by (rule take_add)
  with Suc show ?case by (simp add: add.commute)
qed simp

text \<open>Paging through runs loses and repeats nothing: the pages of any positive size, put
  together, are all matching runs, newest first, and every page reports their number.\<close>

theorem list_runs_pages:
  assumes "0 < limit" "length (filter (run_matches db g st owner) (db_runs db)) \<le> pages * limit"
  shows "(let all = concat (map (\<lambda>k. fst (list_runs db g st (k * limit) limit owner)) [0..<pages]) in
    mset all = filter_mset (run_matches db g st owner) (mset (db_runs db)) \<and>
    sorted_wrt (\<lambda>x y. rn_created_at y \<le> rn_created_at x) all \<and>
    (\<forall>off lim. snd (list_runs db g st off lim owner) = length all))"
proof -
  let ?runs = "filter (run_matches db g st owner) (db_runs db)"
  let ?s = "sort_key (\<lambda>r. - rn_created_at r) ?runs"
  have len: "length ?s \<le> pages * limit" using assms(2) by simp
  have all: "concat (map (\<lambda>k. fst (list_runs db g st (k * limit) limit owner)) [0..<pages]) = ?s"
    unfolding list_runs_def Let_def fst_conv concat_pages [OF assms(1)] using len by simp
  have "sorted (map (\<lambda>r. - rn_created_at r) ?s)" by (rule sorted_sort_key)
  then have "sorted_wrt (\<lambda>x y. rn_created_at y \<le> rn_created_at x) ?s"
    by (simp add: sorted_map)
  then show ?thesis unfolding Let_def all by (simp add: list_runs_def Let_def)
qed

subsection \<open>One failed, one paused and one foreign run\<close>

definition control_db :: db where
  "control_db = queued_db\<lparr>
     db_graphs := db_graphs queued_db @ [\<lparr>gr_id = 9, gr_owner_id = 8, gr_name = ''h'', gr_description = None, gr_status = ''draft'', gr_tags = [],
       gr_updated_at = 0\<rparr>],
     db_runs := [(new_run 50 1 (Some 2) ''manual'' (Some 7) None 0)\<lparr>rn_status := PAUSED\<rparr>,
       (new_run 51 1 (Some 2) ''manual'' (Some 7) None 1)\<lparr>rn_status := FAILED\<rparr>,
       new_run 52 9 None ''manual'' (Some 8) None 2],
     db_jobs := [lease_job ''w1'' 60 1000 (new_job 70 50 FULL 0),
       close_job (Some ''boom'') 5 (new_job 71 51 FULL 0)]\<rparr>"

definition control_user :: user where
  "control_user = \<lparr>us_id = 7, us_role = ''editor''\<rparr>"

lemma control_db_ok: "db_ok control_db"
  by code_simp

theorem create_full_run_witness:
  "find_run (snd (create_run 1 (Some 7) ''manual'' (Some 2) (Some FULL) None 9 control_db)) 51 =
     Some ((new_run 51 1 (Some 2) ''manual'' (Some 7) None 1)\<lparr>rn_status := SUPERSEDED\<rparr>)"
proof -
  obtain r db' where c: "create_run 1 (Some 7) ''manual'' (Some 2) (Some FULL) None 9 control_db = (r, db')"
    by fastforce
  have "find_run control_db 51 = Some ((new_run 51 1 (Some 2) ''manual'' (Some 7) None 1)\<lparr>rn_status := FAILED\<rparr>)"
    and "inactive_failed control_db 1 ((new_run 51 1 (Some 2) ''manual'' (Some 7) None 1)\<lparr>rn_status := FAILED\<rparr>)"
    by code_simp+
  then show ?thesis using create_full_run [OF control_db_ok c] c by simp
qed

theorem cancel_run_effect_witness:
  "fst (cancel_run 50 control_db) =
     Inr (Some ((new_run 50 1 (Some 2) ''manual'' (Some 7) None 0)\<lparr>rn_status := CANCELLED\<rparr>))"
proof -
  have "find_run control_db 50 = Some ((new_run 50 1 (Some 2) ''manual'' (Some 7) None 0)\<lparr>rn_status := PAUSED\<rparr>)"
    by code_simp
  from cancel_run_effect [OF this] show ?thesis by simp
qed

theorem resume_run_effect_witness:
  "\<forall>t. \<not> holds_lease (snd (resume_run 50 2000 control_db)) 70 ''w1'' t"
proof -
  have f: "find_run control_db 50 = Some ((new_run 50 1 (Some 2) ''manual'' (Some 7) None 0)\<lparr>rn_status := PAUSED\<rparr>)"
    and j: "job_of_run control_db 50 = Some (lease_job ''w1'' 60 1000 (new_job 70 50 FULL 0))"
    by code_simp+
  show ?thesis
    using resume_run_effect [OF control_db_ok f j, of 2000]
    by (simp add: Let_def new_job_def)
qed

theorem retry_failed_run_effect_witness:
  "\<exists>j. job_of_run (snd (retry_failed_run 51 control_user 2000 control_db)) 51 = Some j \<and>
     jb_type j = RETRY_FAILED"
proof -
  let ?r = "(new_run 51 1 (Some 2) ''manual'' (Some 7) None 1)\<lparr>rn_status := FAILED\<rparr>"
  have f: "find_run control_db 51 = Some ?r" by code_simp
  have a: "check_run_access ?r control_user control_db = Inr ()" by code_simp
  have "rn_status ?r = FAILED \<and> rn_version_id ?r \<noteq> None" by (simp add: new_run_def)
  then show ?thesis using retry_failed_run_effect [OF control_db_ok f a, of 2000] by auto
qed


theorem list_runs_pages_witness:
  "snd (list_runs control_db None None 0 2 (Some 7)) =
     length (concat (map (\<lambda>k. fst (list_runs control_db None None (k * 2) 2 (Some 7))) [0..<1]))"
proof -
  have "length (filter (run_matches control_db None None (Some 7)) (db_runs control_db)) \<le> 1 * 2"
    by code_simp
  from list_runs_pages [OF _ this] show ?thesis by (simp only: Let_def)
qed

theorem fail_run_fenced_witness:
  "snd (fail_run_if_running 50 ''late'' (Some 70) (Some ''w1'') (60001000, 60001001, 60001002) control_db) = control_db"
proof -
  have "\<not> holds_lease control_db 70 ''w1'' 60001000" by code_simp
  then show ?thesis
    using fail_run_fenced [of "Some 70" "Some ''w1''" control_db 60001000 60001001 60001002 50 "''late''"]
    by simp
qed

end
