(* ===== verification/SourceState.thy ===== *)
theory SourceState
  imports ExecutionService "HOL-Library.List_Lexorder" "HOL-Library.Char_ord" "HOL-Library.Product_Lexorder"
begin

text \<open>
  Checkpoints of SDK sources: \<open>backend/app/services/sdk_source_state_service.py\<close>. A source node
  stages candidates while its run executes; the transaction that completes the run promotes them.
  Advisory locks belong to PostgreSQL: whether they are granted in time is an argument, and so are
  the clock readings, numbered in the order in which the code takes them. A JSONB dict is kept in
  PostgreSQL's canonical key order, so Python's equality of two stored dicts is equality.
\<close>

datatype state_error =
    StateLeaseLost
  | LeaseOwnerNeedsJob
  | LockTimeout
  | InactiveRun
  | WrongPipeline
  | StaleCandidate
  | CompletionLeaseLost
  | RunMissing
  | CannotComplete run_status

definition save_operation :: string where
  "save_operation = ''save''"

definition delete_operation :: string where
  "delete_operation = ''delete''"

definition pipeline_key :: "uuid \<Rightarrow> uuid \<Rightarrow> string \<Rightarrow> string" where
  "pipeline_key owner graph node =
     ''studio:'' @ nat_str owner @ '':'' @ nat_str graph @ '':'' @ node"

definition valid_job_lease :: "run_job option \<Rightarrow> uuid \<Rightarrow> uuid \<Rightarrow> string option \<Rightarrow> time \<Rightarrow> bool" where
  "valid_job_lease job i run owner now =
     (case job of None \<Rightarrow> False | Some j \<Rightarrow> owned_unexpired_job j i run owner now)"

text \<open>Both the locking check and the snapshot check read the committed job row.\<close>

definition check_job_lease ::
  "state_error \<Rightarrow> uuid \<Rightarrow> uuid \<Rightarrow> string option \<Rightarrow> time \<Rightarrow> db \<Rightarrow> state_error + unit" where
  "check_job_lease err i run owner now db =
     (if valid_job_lease (find_job db i) i run owner now then Inr () else Inl err)"

text \<open>\<open>_acquire_advisory_lock\<close>: the answers of \<open>pg_try_advisory_xact_lock\<close>, each with the clock after it.
  \<open>None\<close> means that the loop is still polling.\<close>

fun acquire_advisory_lock :: "time \<Rightarrow> (bool \<times> time) list \<Rightarrow> (state_error + unit) option" where
  "acquire_advisory_lock deadline [] = None"
| "acquire_advisory_lock deadline ((granted, now) # polls) =
     (if granted then Some (Inr ())
      else if deadline - now \<le> 0 then Some (Inl LockTimeout)
      else acquire_advisory_lock deadline polls)"

subsection \<open>The store of one source node\<close>

record studio_store =
  sx_run :: uuid
  sx_owner :: uuid
  sx_graph :: uuid
  sx_node :: string
  sx_job :: "uuid option"
  sx_lease_owner :: "string option"
  sx_fenced :: bool
  sx_rows_locked :: bool

definition store_key :: "studio_store \<Rightarrow> string" where
  "store_key sx = pipeline_key (sx_owner sx) (sx_graph sx) (sx_node sx)"

text \<open>\<open>revalidate_lease\<close> and \<open>_validate_lease_snapshot\<close>.\<close>

definition revalidate_lease :: "studio_store \<Rightarrow> time \<Rightarrow> db \<Rightarrow> state_error + unit" where
  "revalidate_lease sx now db =
     (case sx_job sx of
        None \<Rightarrow> if sx_lease_owner sx \<noteq> None then Inl LeaseOwnerNeedsJob else Inr ()
      | Some i \<Rightarrow> check_job_lease StateLeaseLost i (sx_run sx) (sx_lease_owner sx) now db)"

text \<open>\<open>fences\<close> is the outcome of polling for the run fence and for the pipeline fence.\<close>

definition acquire_lock ::
  "studio_store \<Rightarrow> (state_error + unit) \<times> (state_error + unit) \<Rightarrow> (nat \<Rightarrow> time) \<Rightarrow> db
     \<Rightarrow> state_error + studio_store" where
  "acquire_lock sx fences clock db =
     (if sx_fenced sx then Inr sx
      else bind_res (revalidate_lease sx (clock 0) db) (\<lambda>_.
           bind_res (fst fences) (\<lambda>_.
           bind_res (snd fences) (\<lambda>_.
           bind_res (case sx_job sx of None \<Rightarrow> Inr () | Some _ \<Rightarrow> revalidate_lease sx (clock 1) db) (\<lambda>_.
           Inr (sx\<lparr>sx_fenced := True\<rparr>))))))"

definition lock_active_run :: "studio_store \<Rightarrow> db \<Rightarrow> state_error + unit" where
  "lock_active_run sx db =
     (case find_run db (sx_run sx) of
        None \<Rightarrow> Inl InactiveRun
      | Some r \<Rightarrow> if rn_graph_id r \<noteq> sx_graph sx \<or> rn_status r \<noteq> RUNNING then Inl InactiveRun else Inr ())"

definition lock_staging_rows :: "studio_store \<Rightarrow> (nat \<Rightarrow> time) \<Rightarrow> db \<Rightarrow> state_error + studio_store" where
  "lock_staging_rows sx clock db =
     (if sx_rows_locked sx then bind_res (revalidate_lease sx (clock 2) db) (\<lambda>_. Inr sx)
      else bind_res (revalidate_lease sx (clock 2) db) (\<lambda>_.
           bind_res (lock_active_run sx db) (\<lambda>_.
           bind_res (revalidate_lease sx (clock 3) db) (\<lambda>_.
           Inr (sx\<lparr>sx_rows_locked := True\<rparr>)))))"

definition require_pipeline :: "studio_store \<Rightarrow> string \<Rightarrow> state_error + unit" where
  "require_pipeline sx pipeline = (if pipeline \<noteq> store_key sx then Inl WrongPipeline else Inr ())"

type_synonym state_key = "uuid \<times> uuid \<times> string \<times> string \<times> string"

definition ss_key :: "source_state \<Rightarrow> state_key" where
  "ss_key s = (ss_owner_id s, ss_graph_id s, ss_node_id s, ss_source s, ss_stream s)"

definition cd_key :: "state_candidate \<Rightarrow> state_key" where
  "cd_key c = (cd_owner_id c, cd_graph_id c, cd_node_id c, cd_source c, cd_stream c)"

definition scope_key :: "studio_store \<Rightarrow> string \<Rightarrow> string \<Rightarrow> state_key" where
  "scope_key sx source stream = (sx_owner sx, sx_graph sx, sx_node sx, source, stream)"

definition committed_state :: "db \<Rightarrow> state_key \<Rightarrow> source_state option" where
  "committed_state db k = get_row ss_key k (db_states db)"

definition find_candidate :: "db \<Rightarrow> uuid \<Rightarrow> state_key \<Rightarrow> state_candidate option" where
  "find_candidate db run k = get_row (\<lambda>c. (cd_run_id c, cd_key c)) (run, k) (db_candidates db)"

definition visible_state :: "source_state option \<Rightarrow> obj option" where
  "visible_state item =
     (case item of None \<Rightarrow> None | Some s \<Rightarrow> if ss_is_deleted s then None else Some (ss_state_data s))"

definition base_revision :: "source_state option \<Rightarrow> int" where
  "base_revision item = (case item of None \<Rightarrow> 0 | Some s \<Rightarrow> ss_revision s)"

definition store_load :: "studio_store \<Rightarrow> string \<Rightarrow> string \<Rightarrow> string \<Rightarrow> db \<Rightarrow> state_error + obj" where
  "store_load sx pipeline source stream db =
     bind_res (require_pipeline sx pipeline) (\<lambda>_.
       Inr (case visible_state (committed_state db (scope_key sx source stream)) of
              None \<Rightarrow> [] | Some d \<Rightarrow> d))"

definition store_list_streams :: "studio_store \<Rightarrow> string \<Rightarrow> string \<Rightarrow> db \<Rightarrow> state_error + string list" where
  "store_list_streams sx pipeline source db =
     bind_res (require_pipeline sx pipeline) (\<lambda>_.
       Inr (map ss_stream (filter (\<lambda>s. ss_owner_id s = sx_owner sx \<and> ss_graph_id s = sx_graph sx \<and>
              ss_node_id s = sx_node sx \<and> ss_source s = source \<and> \<not> ss_is_deleted s) (db_states db))))"

subsection \<open>Staging\<close>

definition new_candidate ::
  "studio_store \<Rightarrow> string \<Rightarrow> string \<Rightarrow> string \<Rightarrow> obj option \<Rightarrow> source_state option \<Rightarrow> state_candidate" where
  "new_candidate sx source stream operation state committed =
     \<lparr>cd_run_id = sx_run sx, cd_owner_id = sx_owner sx, cd_graph_id = sx_graph sx,
      cd_node_id = sx_node sx, cd_source = source, cd_stream = stream, cd_operation = operation,
      cd_state_data = state, cd_base_state_data = visible_state committed,
      cd_base_revision = base_revision committed\<rparr>"

definition add_candidate :: "state_candidate \<Rightarrow> db \<Rightarrow> db" where
  "add_candidate c db = db\<lparr>db_candidates := db_candidates db @ [c]\<rparr>"

definition upd_candidate :: "uuid \<Rightarrow> state_key \<Rightarrow> (state_candidate \<Rightarrow> state_candidate) \<Rightarrow> db \<Rightarrow> db" where
  "upd_candidate run k f db =
     db\<lparr>db_candidates := upd_row (\<lambda>c. (cd_run_id c, cd_key c)) (run, k) f (db_candidates db)\<rparr>"

definition del_candidate :: "uuid \<Rightarrow> state_key \<Rightarrow> db \<Rightarrow> db" where
  "del_candidate run k db =
     db\<lparr>db_candidates := filter (\<lambda>c. (cd_run_id c, cd_key c) \<noteq> (run, k)) (db_candidates db)\<rparr>"

definition restage :: "string \<Rightarrow> obj option \<Rightarrow> source_state option \<Rightarrow> state_candidate \<Rightarrow> state_candidate" where
  "restage operation state committed c =
     c\<lparr>cd_operation := operation, cd_state_data := state,
       cd_base_state_data := visible_state committed, cd_base_revision := base_revision committed\<rparr>"

text \<open>The common prefix of \<open>save\<close> and \<open>delete\<close>: locks, rows, and a last look at the lease.\<close>

definition staging_guard ::
  "studio_store \<Rightarrow> string \<Rightarrow> (state_error + unit) \<times> (state_error + unit) \<Rightarrow> (nat \<Rightarrow> time) \<Rightarrow> db
     \<Rightarrow> state_error + studio_store" where
  "staging_guard sx pipeline fences clock db =
     bind_res (require_pipeline sx pipeline) (\<lambda>_.
     bind_res (acquire_lock sx fences clock db) (\<lambda>sx1.
     bind_res (lock_staging_rows sx1 clock db) (\<lambda>sx2.
     bind_res (revalidate_lease sx2 (clock 4) db) (\<lambda>_. Inr sx2))))"

definition stage_save :: "studio_store \<Rightarrow> string \<Rightarrow> string \<Rightarrow> obj \<Rightarrow> db \<Rightarrow> db" where
  "stage_save sx source stream state db =
     (let k = scope_key sx source stream; committed = committed_state db k in
      case find_candidate db (sx_run sx) k of
        None \<Rightarrow> add_candidate (new_candidate sx source stream save_operation (Some state) committed) db
      | Some _ \<Rightarrow> upd_candidate (sx_run sx) k (restage save_operation (Some state) committed) db)"

definition store_save ::
  "studio_store \<Rightarrow> string \<Rightarrow> string \<Rightarrow> string \<Rightarrow> obj \<Rightarrow> (state_error + unit) \<times> (state_error + unit)
     \<Rightarrow> (nat \<Rightarrow> time) \<Rightarrow> db \<Rightarrow> (state_error + studio_store) \<times> db" where
  "store_save sx pipeline source stream state fences clock db =
     (case staging_guard sx pipeline fences clock db of
        Inl e \<Rightarrow> (Inl e, db)
      | Inr sx' \<Rightarrow> (Inr sx', stage_save sx source stream state db))"

definition stage_delete :: "studio_store \<Rightarrow> string \<Rightarrow> string \<Rightarrow> db \<Rightarrow> db" where
  "stage_delete sx source stream db =
     (let k = scope_key sx source stream; committed = committed_state db k in
      case find_candidate db (sx_run sx) k of
        Some _ \<Rightarrow>
          if visible_state committed = None then del_candidate (sx_run sx) k db
          else upd_candidate (sx_run sx) k (restage delete_operation None committed) db
      | None \<Rightarrow>
          if visible_state committed = None then db
          else add_candidate (new_candidate sx source stream delete_operation None committed) db)"

definition store_delete ::
  "studio_store \<Rightarrow> string \<Rightarrow> string \<Rightarrow> string \<Rightarrow> (state_error + unit) \<times> (state_error + unit)
     \<Rightarrow> (nat \<Rightarrow> time) \<Rightarrow> db \<Rightarrow> (state_error + studio_store) \<times> db" where
  "store_delete sx pipeline source stream fences clock db =
     (case staging_guard sx pipeline fences clock db of
        Inl e \<Rightarrow> (Inl e, db)
      | Inr sx' \<Rightarrow> (Inr sx', stage_delete sx source stream db))"

text \<open>The last check before the \<open>POST_EXEC\<close> commit.\<close>

definition revalidate_source_state_staging_lease ::
  "uuid \<Rightarrow> uuid option \<Rightarrow> string option \<Rightarrow> time \<Rightarrow> db \<Rightarrow> state_error + unit" where
  "revalidate_source_state_staging_lease run job owner now db =
     (case job of
        None \<Rightarrow> if owner \<noteq> None then Inl LeaseOwnerNeedsJob else Inr ()
      | Some i \<Rightarrow> check_job_lease StateLeaseLost i run owner now db)"

subsection \<open>Promotion and completion\<close>

definition cd_pipeline :: "state_candidate \<Rightarrow> string" where
  "cd_pipeline c = pipeline_key (cd_owner_id c) (cd_graph_id c) (cd_node_id c)"

definition candidates_of_run :: "db \<Rightarrow> uuid \<Rightarrow> state_candidate list" where
  "candidates_of_run db run = filter (\<lambda>c. cd_run_id c = run) (db_candidates db)"

definition lock_candidate_scopes :: "db \<Rightarrow> uuid \<Rightarrow> string list" where
  "lock_candidate_scopes db run = sort (remdups (map cd_pipeline (candidates_of_run db run)))"

text \<open>One candidate against the committed rows: optimistic check, then the write.\<close>

definition promote_one :: "state_candidate \<Rightarrow> source_state list \<Rightarrow> state_error + source_state list" where
  "promote_one c states =
     (let committed = get_row ss_key (cd_key c) states in
      if base_revision committed \<noteq> cd_base_revision c \<or> visible_state committed \<noteq> cd_base_state_data c
      then Inl StaleCandidate
      else case committed of
        None \<Rightarrow> (case cd_state_data c of
            None \<Rightarrow> Inl StaleCandidate
          | Some d \<Rightarrow>
              if cd_operation c \<noteq> save_operation then Inl StaleCandidate
              else Inr (states @ [\<lparr>ss_owner_id = cd_owner_id c, ss_graph_id = cd_graph_id c,
                     ss_node_id = cd_node_id c, ss_source = cd_source c, ss_stream = cd_stream c,
                     ss_state_data = d, ss_revision = 1, ss_is_deleted = False\<rparr>]))
      | Some _ \<Rightarrow>
          if cd_operation c = save_operation \<and> cd_state_data c \<noteq> None
          then Inr (upd_row ss_key (cd_key c) (\<lambda>s. s\<lparr>ss_state_data := the (cd_state_data c),
                      ss_revision := ss_revision s + 1, ss_is_deleted := False\<rparr>) states)
          else if cd_operation c = delete_operation
          then Inr (upd_row ss_key (cd_key c) (\<lambda>s. s\<lparr>ss_state_data := [],
                      ss_revision := ss_revision s + 1, ss_is_deleted := True\<rparr>) states)
          else Inl StaleCandidate)"

fun promote_all :: "state_candidate list \<Rightarrow> source_state list \<Rightarrow> state_error + source_state list" where
  "promote_all [] states = Inr states"
| "promote_all (c # cs) states = bind_res (promote_one c states) (promote_all cs)"

definition promote_sdk_source_state_candidates ::
  "uuid \<Rightarrow> string list option \<Rightarrow> db \<Rightarrow> state_error + nat \<times> db" where
  "promote_sdk_source_state_candidates run locked db =
     (let keys = (case locked of None \<Rightarrow> lock_candidate_scopes db run | Some ks \<Rightarrow> ks);
          cs = sort_key cd_key (candidates_of_run db run)
      in if \<exists>c \<in> set cs. cd_pipeline c \<notin> set keys then Inl StaleCandidate
         else bind_res (promote_all cs (db_states db)) (\<lambda>states.
           Inr (length cs, db\<lparr>db_states := states,
             db_candidates := filter (\<lambda>c. cd_run_id c \<noteq> run) (db_candidates db)\<rparr>)))"

definition completion_fence ::
  "uuid \<Rightarrow> uuid option \<Rightarrow> string option \<Rightarrow> time \<Rightarrow> db \<Rightarrow> state_error + unit" where
  "completion_fence run job owner now db =
     (case job of None \<Rightarrow> Inr () | Some i \<Rightarrow> check_job_lease CompletionLeaseLost i run owner now db)"

definition complete_run_with_source_state_promotion ::
  "uuid \<Rightarrow> uuid option \<Rightarrow> string option \<Rightarrow> (nat \<Rightarrow> time) \<Rightarrow> db \<Rightarrow> (state_error + bool) \<times> db" where
  "complete_run_with_source_state_promotion run job owner clock db =
     (if job = None \<and> owner \<noteq> None then (Inl CompletionLeaseLost, db)
      else
        let keys = lock_candidate_scopes db run in
        case completion_fence run job owner (clock 0) db of
          Inl e \<Rightarrow> (Inl e, db)
        | Inr _ \<Rightarrow> (case find_run db run of
            None \<Rightarrow> (Inl RunMissing, db)
          | Some r \<Rightarrow>
              if rn_status r \<noteq> RUNNING then
                (if rn_status r \<in> {CANCELLED, PAUSED} then (Inr False, db)
                 else (Inl (CannotComplete (rn_status r)), db))
              else
                (case bind_res (completion_fence run job owner (clock 1) db) (\<lambda>_.
                      bind_res (promote_sdk_source_state_candidates run (Some keys) db) (\<lambda>(_, db1).
                      bind_res (completion_fence run job owner (clock 2) db) (\<lambda>_.
                      Inr (upd_run run (\<lambda>x. x\<lparr>rn_status := COMPLETED, rn_error := None\<rparr>) db1)))) of
                   Inl e \<Rightarrow> (Inl e, db)
                 | Inr db2 \<Rightarrow> (Inr True, db2))))"

subsection \<open>Invariant\<close>

text \<open>The unique constraints of the two tables.\<close>

definition cd_row :: "state_candidate \<Rightarrow> uuid \<times> state_key" where
  "cd_row c = (cd_run_id c, cd_key c)"

definition states_ok :: "db \<Rightarrow> bool" where
  "states_ok db \<longleftrightarrow> distinct (map ss_key (db_states db)) \<and> distinct (map cd_row (db_candidates db))"

lemma cd_row_eta: "(\<lambda>c. (cd_run_id c, cd_key c)) = cd_row"
  by (simp add: cd_row_def fun_eq_iff)

lemma candidate_updates [simp]:
  "cd_row (restage operation state s c) = cd_row c"
  "cd_row (new_candidate sx source stream operation state s) = (sx_run sx, scope_key sx source stream)"
  by (simp_all add: cd_row_def cd_key_def restage_def new_candidate_def scope_key_def)

lemma states_ok_candidates:
  assumes "states_ok db"
  shows "find_candidate db (sx_run sx) (scope_key sx source stream) = None \<Longrightarrow>
      states_ok (add_candidate (new_candidate sx source stream operation state s) db)"
    and "states_ok (upd_candidate run k (restage operation state s) db)"
    and "states_ok (del_candidate run k db)"
  using assms
  by (auto simp: states_ok_def add_candidate_def upd_candidate_def del_candidate_def find_candidate_def
      cd_row_eta get_row_None upd_row_keys distinct_map_filter image_iff)

lemma stage_save_ok: "states_ok db \<Longrightarrow> states_ok (stage_save sx source stream d db)"
  by (simp add: stage_save_def Let_def states_ok_candidates split: option.split)

lemma stage_delete_ok: "states_ok db \<Longrightarrow> states_ok (stage_delete sx source stream db)"
  by (simp add: stage_delete_def Let_def states_ok_candidates split: option.split)

lemma staging_only_candidates:
  "db_states (stage_save sx source stream d db) = db_states db"
  "db_runs (stage_save sx source stream d db) = db_runs db"
  "db_jobs (stage_save sx source stream d db) = db_jobs db"
  "db_next (stage_save sx source stream d db) = db_next db"
  "db_states (stage_delete sx source stream db) = db_states db"
  "db_runs (stage_delete sx source stream db) = db_runs db"
  "db_jobs (stage_delete sx source stream db) = db_jobs db"
  "db_next (stage_delete sx source stream db) = db_next db"
  by (simp_all add: stage_save_def stage_delete_def Let_def add_candidate_def upd_candidate_def
      del_candidate_def split: option.split)

lemma same_control_evolves:
  assumes "db_ok db" "db_runs d = db_runs db" "db_jobs d = db_jobs db" "db_next d = db_next db"
  shows "db_evolves db d"
proof -
  have "db_ok d" using assms by (simp add: db_ok_def)
  moreover have "find_run d i = find_run db i" for i using assms by (simp add: find_run_def)
  ultimately show ?thesis by (simp add: db_evolves_def)
qed

interpretation save: service_op "\<lambda>db. snd (store_save sx pl source stream d fences clock db)"
  for sx pl source stream d fences clock
  by unfold_locales
     (simp add: store_save_def same_control_evolves staging_only_candidates split: sum.split)

interpretation unsave: service_op "\<lambda>db. snd (store_delete sx pl source stream fences clock db)"
  for sx pl source stream fences clock
  by unfold_locales
     (simp add: store_delete_def same_control_evolves staging_only_candidates split: sum.split)

subsection \<open>Promotion\<close>

text \<open>The state a candidate asks for, and whether it can be promoted on the committed rows.\<close>

definition candidate_result :: "state_candidate \<Rightarrow> obj option" where
  "candidate_result c = (if cd_operation c = save_operation then cd_state_data c else None)"

definition promotable :: "source_state list \<Rightarrow> state_candidate \<Rightarrow> bool" where
  "promotable states c \<longleftrightarrow> is_ok (promote_one c states)"

lemma op_distinct [simp]: "delete_operation \<noteq> save_operation" "save_operation \<noteq> delete_operation"
  by (simp_all add: save_operation_def delete_operation_def)

lemma promote_one_effect:
  assumes p: "promote_one c states = Inr states'" and d: "distinct (map ss_key states)"
  shows "distinct (map ss_key states')"
    and "base_revision (get_row ss_key (cd_key c) states) = cd_base_revision c"
    and "k \<noteq> cd_key c \<Longrightarrow> get_row ss_key k states' = get_row ss_key k states"
    and "visible_state (get_row ss_key (cd_key c) states') = candidate_result c"
    and "base_revision (get_row ss_key (cd_key c) states') = cd_base_revision c + 1"
proof -
  let ?m = "get_row ss_key (cd_key c) states"
  have b: "base_revision ?m = cd_base_revision c" "visible_state ?m = cd_base_state_data c"
    using p by (simp_all add: promote_one_def Let_def split: if_splits)
  show "base_revision ?m = cd_base_revision c" by (rule b)
  have "distinct (map ss_key states') \<and> (\<forall>k. k \<noteq> cd_key c \<longrightarrow> get_row ss_key k states' = get_row ss_key k states) \<and>
    visible_state (get_row ss_key (cd_key c) states') = candidate_result c \<and>
    base_revision (get_row ss_key (cd_key c) states') = cd_base_revision c + 1"
  proof (cases ?m)
    case None
    then obtain x where x: "cd_state_data c = Some x" "cd_operation c = save_operation"
        and s': "states' = states @ [\<lparr>ss_owner_id = cd_owner_id c, ss_graph_id = cd_graph_id c,
                     ss_node_id = cd_node_id c, ss_source = cd_source c, ss_stream = cd_stream c,
                     ss_state_data = x, ss_revision = 1, ss_is_deleted = False\<rparr>]"
      using p b by (auto simp: promote_one_def Let_def split: option.splits if_splits)
    obtain n where s: "states' = states @ [n]"
        and n: "ss_key n = cd_key c" "ss_state_data n = x" "ss_revision n = 1" "\<not> ss_is_deleted n"
      by (intro that [OF s']) (simp_all add: ss_key_def cd_key_def)
    have "cd_base_revision c = 0" using b None by (simp add: base_revision_def)
    have "get_row ss_key k states' = (if k = cd_key c then Some n else get_row ss_key k states)" for k
      using None n(1) by (simp add: s get_row_append split: option.split)
    moreover have "distinct (map ss_key states')"
      using None d n(1) by (simp add: s get_row_None)
    ultimately show ?thesis
      using x n \<open>cd_base_revision c = 0\<close>
      by (simp del: split_paired_All add: visible_state_def base_revision_def candidate_result_def)
  next
    case (Some m)
    have r: "ss_revision m = cd_base_revision c" using b Some by (simp add: base_revision_def)
    obtain f where f: "states' = upd_row ss_key (cd_key c) f states" "\<And>s. ss_key (f s) = ss_key s"
        "visible_state (Some (f m)) = candidate_result c" "ss_revision (f m) = ss_revision m + 1"
    proof (cases "cd_operation c = save_operation \<and> cd_state_data c \<noteq> None")
      case True
      then show ?thesis using p b Some
        by (intro that [of "\<lambda>s. s\<lparr>ss_state_data := the (cd_state_data c),
                ss_revision := ss_revision s + 1, ss_is_deleted := False\<rparr>"])
           (auto simp: promote_one_def Let_def visible_state_def candidate_result_def ss_key_def)
    next
      case False
      then show ?thesis using p b Some
        by (intro that [of "\<lambda>s. s\<lparr>ss_state_data := [], ss_revision := ss_revision s + 1,
                ss_is_deleted := True\<rparr>"])
           (auto simp: promote_one_def Let_def visible_state_def candidate_result_def ss_key_def
            split: if_splits)
    qed
    then show ?thesis
      using Some d r
      by (simp add: get_row_upd_row upd_row_keys base_revision_def del: split_paired_All)
  qed
  then show "distinct (map ss_key states')"
    and "k \<noteq> cd_key c \<Longrightarrow> get_row ss_key k states' = get_row ss_key k states"
    and "visible_state (get_row ss_key (cd_key c) states') = candidate_result c"
    and "base_revision (get_row ss_key (cd_key c) states') = cd_base_revision c + 1"
    by blast+
qed

lemma promote_all_effect:
  assumes "promote_all cs states = Inr states'" "distinct (map ss_key states)" "distinct (map cd_key cs)"
  shows "distinct (map ss_key states') \<and>
    (\<forall>k. k \<notin> cd_key ` set cs \<longrightarrow> get_row ss_key k states' = get_row ss_key k states) \<and>
    (\<forall>c \<in> set cs. base_revision (get_row ss_key (cd_key c) states) = cd_base_revision c \<and>
       visible_state (get_row ss_key (cd_key c) states') = candidate_result c \<and>
       base_revision (get_row ss_key (cd_key c) states') = cd_base_revision c + 1)"
  using assms
proof (induction cs arbitrary: states)
  case (Cons c cs)
  obtain s1 where s1: "promote_one c states = Inr s1" "promote_all cs s1 = Inr states'"
    using Cons.prems(1) by (auto simp: bind_res_Inr)
  note one = promote_one_effect [OF s1(1) Cons.prems(2)]
  have c: "cd_key c \<notin> cd_key ` set cs" and "distinct (map cd_key cs)" using Cons.prems(3) by auto
  note ih = Cons.IH [OF s1(2) one(1) this(2)]
  have s1_same: "get_row ss_key (cd_key x) s1 = get_row ss_key (cd_key x) states" if "x \<in> set cs" for x
    using one(3) c that by (metis imageI)
  have "get_row ss_key (cd_key c) states' = get_row ss_key (cd_key c) s1" using ih c by blast
  then have first: "base_revision (get_row ss_key (cd_key c) states) = cd_base_revision c \<and>
      visible_state (get_row ss_key (cd_key c) states') = candidate_result c \<and>
      base_revision (get_row ss_key (cd_key c) states') = cd_base_revision c + 1"
    using one(2,4,5) by simp
  have other: "get_row ss_key k states' = get_row ss_key k states" if "k \<notin> cd_key ` set (c # cs)" for k
    using ih one(3) [of k] that by (simp del: split_paired_All)
  show ?case
    using ih first other s1_same 
    by (simp only: list.set ball_simps) (simp del: split_paired_All)
qed simp

lemma promotable_iff: "promotable states c \<longleftrightarrow>
    (let m = get_row ss_key (cd_key c) states in
     base_revision m = cd_base_revision c \<and> visible_state m = cd_base_state_data c \<and>
     (if m = None then cd_state_data c \<noteq> None \<and> cd_operation c = save_operation
      else cd_operation c = save_operation \<and> cd_state_data c \<noteq> None \<or> cd_operation c = delete_operation))"
  by (auto simp: promotable_def promote_one_def Let_def split: option.split)

lemma promote_all_total:
  assumes "distinct (map ss_key states)" "distinct (map cd_key cs)" "\<forall>c \<in> set cs. promotable states c"
  shows "\<exists>states'. promote_all cs states = Inr states'"
  using assms
proof (induction cs arbitrary: states)
  case (Cons c cs)
  obtain s1 where s1: "promote_one c states = Inr s1"
    using Cons.prems(3) by (cases "promote_one c states") (auto simp: promotable_def)
  note one = promote_one_effect [OF s1 Cons.prems(1)]
  have "promotable s1 x" if "x \<in> set cs" for x
  proof -
    have "cd_key x \<noteq> cd_key c" using that Cons.prems(2) by (metis distinct.simps(2) imageI list.map(2) list.set_map)
    then have "get_row ss_key (cd_key x) s1 = get_row ss_key (cd_key x) states" by (rule one(3))
    moreover have "promotable states x" using Cons.prems(3) that by simp
    ultimately show ?thesis unfolding promotable_iff by simp
  qed
  then have "\<exists>states'. promote_all cs s1 = Inr states'"
    using Cons.prems(2) by (intro Cons.IH one(1)) auto
  then show ?case by (simp add: s1)
qed simp

lemma run_candidates_distinct:
  assumes "states_ok db"
  shows "distinct (map cd_key (sort_key cd_key (candidates_of_run db run)))"
proof -
  have "distinct (map cd_row (candidates_of_run db run))"
    using assms by (simp add: states_ok_def candidates_of_run_def distinct_map_filter)
  then have "inj_on cd_key (set (candidates_of_run db run)) \<and> distinct (candidates_of_run db run)"
    by (auto simp: distinct_map inj_on_def cd_row_def candidates_of_run_def)
  then show ?thesis by (simp add: distinct_map)
qed

lemma scopes_cover:
  "c \<in> set (sort_key cd_key (candidates_of_run db run)) \<Longrightarrow> cd_pipeline c \<in> set (lock_candidate_scopes db run)"
  by (simp add: lock_candidate_scopes_def)

lemma promote_run_eq:
  "promote_sdk_source_state_candidates run (Some (lock_candidate_scopes db run)) db =
     bind_res (promote_all (sort_key cd_key (candidates_of_run db run)) (db_states db)) (\<lambda>states.
       Inr (length (candidates_of_run db run), db\<lparr>db_states := states,
         db_candidates := filter (\<lambda>c. cd_run_id c \<noteq> run) (db_candidates db)\<rparr>))"
proof -
  have "\<not> (\<exists>c \<in> set (sort_key cd_key (candidates_of_run db run)).
      cd_pipeline c \<notin> set (lock_candidate_scopes db run))" using scopes_cover by blast
  then show ?thesis
    unfolding promote_sdk_source_state_candidates_def Let_def option.case
    by (simp only: if_False length_sort)
qed

lemma completion_fence_ok: "completion_fence run job owner now db = Inr () \<longleftrightarrow>
    (case job of None \<Rightarrow> True | Some i \<Rightarrow> \<exists>w. owner = Some w \<and> holds_lease db i w now \<and>
       map_option jb_run_id (find_job db i) = Some run)"
  by (auto simp: completion_fence_def check_job_lease_def valid_job_lease_def owned_unexpired_job_def
      holds_lease_def dest: find_job_Some split: option.splits)

text \<open>What a successful completion did, and the converse: what makes it succeed.\<close>

lemma complete_True:
  "complete_run_with_source_state_promotion run job owner clock db = (Inr True, db') \<longleftrightarrow>
     \<not> (job = None \<and> owner \<noteq> None) \<and>
     (\<forall>k \<in> {0, 1, 2}. completion_fence run job owner (clock k) db = Inr ()) \<and>
     (\<exists>r states. find_run db run = Some r \<and> rn_status r = RUNNING \<and>
        promote_all (sort_key cd_key (candidates_of_run db run)) (db_states db) = Inr states \<and>
        db' = upd_run run (\<lambda>x. x\<lparr>rn_status := COMPLETED, rn_error := None\<rparr>)
          (db\<lparr>db_states := states, db_candidates := filter (\<lambda>c. cd_run_id c \<noteq> run) (db_candidates db)\<rparr>))"
proof -
  let ?p = "promote_all (sort_key cd_key (candidates_of_run db run)) (db_states db)"
  show ?thesis
    by (cases "find_run db run"; cases "completion_fence run job owner (clock 0) db";
        cases "completion_fence run job owner (clock 1) db";
        cases "completion_fence run job owner (clock 2) db"; cases ?p)
       (auto simp: complete_run_with_source_state_promotion_def Let_def promote_run_eq
         simp del: split_paired_All split_paired_Ex)
qed

lemma complete_other:
  "fst (complete_run_with_source_state_promotion run job owner clock db) \<noteq> Inr True \<Longrightarrow>
     snd (complete_run_with_source_state_promotion run job owner clock db) = db"
  by (auto simp: complete_run_with_source_state_promotion_def Let_def split: option.split sum.split)

interpretation complete: service_op "\<lambda>db. snd (complete_run_with_source_state_promotion k job w clock db)"
  for k job w clock
proof unfold_locales
  fix db assume ok: "db_ok db"
  let ?c = "complete_run_with_source_state_promotion k job w clock db"
  show "db_evolves db (snd ?c)"
  proof (cases "fst ?c = Inr True")
    case True
    obtain r states where r: "find_run db k = Some r" "rn_status r = RUNNING"
        and d: "snd ?c = upd_run k (\<lambda>x. x\<lparr>rn_status := COMPLETED, rn_error := None\<rparr>)
          (db\<lparr>db_states := states, db_candidates := filter (\<lambda>c. cd_run_id c \<noteq> k) (db_candidates db)\<rparr>)"
      using True complete_True [of k job w clock db "snd ?c"] by (cases ?c) auto
    let ?d = "db\<lparr>db_states := states, db_candidates := filter (\<lambda>c. cd_run_id c \<noteq> k) (db_candidates db)\<rparr>"
    have same: "find_run ?d i = find_run db i" "db_ok ?d" for i
      using ok by (simp_all add: find_run_def db_ok_def)
    have "status_step RUNNING COMPLETED" by (simp add: status_step_def legal_step_def)
    then have "db_evolves ?d (upd_run k (\<lambda>x. x\<lparr>rn_status := COMPLETED, rn_error := None\<rparr>) ?d)"
      using r same by (intro status_change_contract [where e = None]) auto
    then show ?thesis unfolding d db_evolves_def same .
  qed (simp add: complete_other ok)
qed

lemma promoted_states:
  assumes ok: "states_ok db"
    and c: "complete_run_with_source_state_promotion run job owner clock db = (Inr True, db')"
  shows "x \<in> set (candidates_of_run db run) \<Longrightarrow> visible_state (committed_state db' (cd_key x)) = candidate_result x"
    and "k \<notin> cd_key ` set (candidates_of_run db run) \<Longrightarrow> committed_state db' k = committed_state db k"
    and "x \<in> set (candidates_of_run db run) \<Longrightarrow> base_revision (committed_state db (cd_key x)) = cd_base_revision x \<and>
      base_revision (committed_state db' (cd_key x)) = cd_base_revision x + 1"
    and "db_candidates db' = filter (\<lambda>c. cd_run_id c \<noteq> run) (db_candidates db)"
    and "states_ok db'"
proof -
  let ?cs = "sort_key cd_key (candidates_of_run db run)"
  obtain states where p: "promote_all ?cs (db_states db) = Inr states"
      and db': "db' = upd_run run (\<lambda>x. x\<lparr>rn_status := COMPLETED, rn_error := None\<rparr>)
          (db\<lparr>db_states := states, db_candidates := filter (\<lambda>c. cd_run_id c \<noteq> run) (db_candidates db)\<rparr>)"
    using c unfolding complete_True by blast
  have "distinct (map ss_key (db_states db))" using ok by (simp add: states_ok_def)
  note e = promote_all_effect [OF p this run_candidates_distinct [OF ok]]
  have st: "db_states db' = states" by (simp add: db' upd_run_def)
  show cd: "db_candidates db' = filter (\<lambda>c. cd_run_id c \<noteq> run) (db_candidates db)"
    by (simp add: db' upd_run_def)
  have keys: "set ?cs = set (candidates_of_run db run)" by simp
  show "states_ok db'" using ok e by (simp add: states_ok_def st cd distinct_map_filter)
  show "x \<in> set (candidates_of_run db run) \<Longrightarrow> visible_state (committed_state db' (cd_key x)) = candidate_result x"
    and "k \<notin> cd_key ` set (candidates_of_run db run) \<Longrightarrow> committed_state db' k = committed_state db k"
    and "x \<in> set (candidates_of_run db run) \<Longrightarrow> base_revision (committed_state db (cd_key x)) = cd_base_revision x \<and>
      base_revision (committed_state db' (cd_key x)) = cd_base_revision x + 1"
    using e unfolding committed_state_def st keys by blast+
qed

text \<open>C15. Completing a run is one atomic step: it reports success only for a run that was running,
  under a lease valid at all three checks; then the run is completed, every checkpoint it staged
  is the visible one with the next revision, no other checkpoint moved, and nothing stays staged.\<close>

theorem complete_promotes:
  assumes ok: "states_ok db"
    and c: "complete_run_with_source_state_promotion run job owner clock db = (Inr True, db')"
  shows "(\<exists>r. find_run db run = Some r \<and> rn_status r = RUNNING \<and>
      find_run db' run = Some (r\<lparr>rn_status := COMPLETED, rn_error := None\<rparr>)) \<and>
    (\<forall>i. job = Some i \<longrightarrow> (\<exists>w. owner = Some w \<and>
      holds_lease db i w (clock 0) \<and> holds_lease db i w (clock 1) \<and> holds_lease db i w (clock 2))) \<and>
    (\<forall>x \<in> set (candidates_of_run db run).
      base_revision (committed_state db (cd_key x)) = cd_base_revision x \<and>
      visible_state (committed_state db' (cd_key x)) = candidate_result x \<and>
      base_revision (committed_state db' (cd_key x)) = cd_base_revision x + 1) \<and>
    (\<forall>k. k \<notin> cd_key ` set (candidates_of_run db run) \<longrightarrow> committed_state db' k = committed_state db k) \<and>
    candidates_of_run db' run = [] \<and> states_ok db'"
proof -
  obtain r states where r: "find_run db run = Some r" "rn_status r = RUNNING"
      and db': "db' = upd_run run (\<lambda>x. x\<lparr>rn_status := COMPLETED, rn_error := None\<rparr>)
          (db\<lparr>db_states := states, db_candidates := filter (\<lambda>c. cd_run_id c \<noteq> run) (db_candidates db)\<rparr>)"
      and f: "\<forall>k \<in> {0, 1, 2}. completion_fence run job owner (clock k) db = Inr ()"
    using c unfolding complete_True by blast
  note e = promoted_states [OF ok c]
  have "find_run db' run = Some (r\<lparr>rn_status := COMPLETED, rn_error := None\<rparr>)"
    using r by (simp add: db' db_simps find_run_def [of "db\<lparr>db_states := states, db_candidates := _\<rparr>"])
       (simp add: find_run_def)
  then have run: "\<exists>r. find_run db run = Some r \<and> rn_status r = RUNNING \<and>
      find_run db' run = Some (r\<lparr>rn_status := COMPLETED, rn_error := None\<rparr>)" using r by blast
  have lease: "\<exists>w. owner = Some w \<and> holds_lease db i w (clock 0) \<and> holds_lease db i w (clock 1) \<and>
      holds_lease db i w (clock 2)" if "job = Some i" for i
    using f that by (auto simp: completion_fence_ok)
  have none: "candidates_of_run db' run = []"
    by (simp add: candidates_of_run_def e(4) filter_empty_conv)
  have "\<forall>x \<in> set (candidates_of_run db run).
      base_revision (committed_state db (cd_key x)) = cd_base_revision x \<and>
      visible_state (committed_state db' (cd_key x)) = candidate_result x \<and>
      base_revision (committed_state db' (cd_key x)) = cd_base_revision x + 1"
    using e(1,3) by simp
  with run lease none e(2,5) show ?thesis by blast
qed

text \<open>A completion that does not report success leaves every table as it was; the answer is
  \<open>False\<close> exactly when the fence held and the run had been cancelled or paused.\<close>

theorem complete_all_or_nothing:
  "(fst (complete_run_with_source_state_promotion run job owner clock db) = Inr True \<or>
     snd (complete_run_with_source_state_promotion run job owner clock db) = db) \<and>
   (fst (complete_run_with_source_state_promotion run job owner clock db) = Inr False \<longleftrightarrow>
     \<not> (job = None \<and> owner \<noteq> None) \<and> completion_fence run job owner (clock 0) db = Inr () \<and>
     (\<exists>r. find_run db run = Some r \<and> rn_status r \<in> {CANCELLED, PAUSED}))"
proof -
  have "fst (complete_run_with_source_state_promotion run job owner clock db) = Inr False \<longleftrightarrow>
     \<not> (job = None \<and> owner \<noteq> None) \<and> completion_fence run job owner (clock 0) db = Inr () \<and>
     (\<exists>r. find_run db run = Some r \<and> rn_status r \<in> {CANCELLED, PAUSED})"
    by (cases "find_run db run"; cases "completion_fence run job owner (clock 0) db")
       (auto simp: complete_run_with_source_state_promotion_def Let_def split: sum.split)
  then show ?thesis using complete_other by blast
qed


lemma stage_save_fresh:
  assumes none: "candidates_of_run db (sx_run sx) = []"
  shows "stage_save sx source stream d db = add_candidate (new_candidate sx source stream save_operation
      (Some d) (committed_state db (scope_key sx source stream))) db"
proof -
  have "find_candidate db (sx_run sx) k = None" for k
    using none by (auto simp: find_candidate_def get_row_None candidates_of_run_def filter_empty_conv)
  then show ?thesis by (simp add: stage_save_def Let_def)
qed

lemma new_candidate_promotable:
  "promotable (db_states db)
     (new_candidate sx source stream save_operation (Some d) (committed_state db (scope_key sx source stream)))"
proof -
  have "cd_key (new_candidate sx source stream operation x m) = scope_key sx source stream" for operation x m
    by (simp add: new_candidate_def cd_key_def scope_key_def)
  then show ?thesis
    by (simp add: promotable_iff Let_def committed_state_def) (simp add: new_candidate_def)
qed

lemma acquire_lock_same:
  "acquire_lock sx fences clock db = Inr sx1 \<Longrightarrow>
     sx_job sx1 = sx_job sx \<and> sx_lease_owner sx1 = sx_lease_owner sx"
  by (auto simp: acquire_lock_def bind_res_Inr split: if_splits)

lemma lock_staging_rows_same:
  "lock_staging_rows sx clock db = Inr sx1 \<Longrightarrow>
     sx_job sx1 = sx_job sx \<and> sx_lease_owner sx1 = sx_lease_owner sx"
  by (auto simp: lock_staging_rows_def bind_res_Inr split: if_splits)

lemma staging_guard_owner:
  assumes "staging_guard sx pl fences clock db = Inr sx2"
  shows "\<not> (sx_job sx = None \<and> sx_lease_owner sx \<noteq> None)"
proof -
  obtain sx1 where "acquire_lock sx fences clock db = Inr sx1" "lock_staging_rows sx1 clock db = Inr sx2"
      and r: "revalidate_lease sx2 (clock 4) db = Inr ()"
    using assms by (auto simp: staging_guard_def bind_res_Inr)
  then have "sx_job sx2 = sx_job sx \<and> sx_lease_owner sx2 = sx_lease_owner sx"
    using acquire_lock_same lock_staging_rows_same by metis
  then show ?thesis using r by (auto simp: revalidate_lease_def split: option.splits if_splits)
qed

text \<open>A checkpoint saved by a running source is invisible to every reader until its run completes;
  if the run has staged nothing else and keeps its lease, completion succeeds and then exactly
  this checkpoint reads back as saved.\<close>

theorem saved_checkpoint_commits:
  assumes ok: "states_ok db"
    and s: "store_save sx pl source stream d fences clock db = (Inr sx', db1)"
    and none: "candidates_of_run db (sx_run sx) = []"
    and r: "find_run db (sx_run sx) = Some r" "rn_status r = RUNNING"
    and f: "\<forall>k \<in> {0, 1, 2}. completion_fence (sx_run sx) (sx_job sx) (sx_lease_owner sx) (clock' k) db = Inr ()"
  shows "(\<forall>sy p so st. store_load sy p so st db1 = store_load sy p so st db) \<and>
    (\<exists>db2. complete_run_with_source_state_promotion (sx_run sx) (sx_job sx) (sx_lease_owner sx) clock' db1 =
         (Inr True, db2) \<and>
       store_load sx pl source stream db2 = Inr d \<and>
       (\<forall>k. k \<noteq> scope_key sx source stream \<longrightarrow> committed_state db2 k = committed_state db k))"
proof -
  let ?c = "new_candidate sx source stream save_operation (Some d) (committed_state db (scope_key sx source stream))"
  have key: "cd_key ?c = scope_key sx source stream" "cd_run_id ?c = sx_run sx"
      "candidate_result ?c = Some d"
    by (simp_all add: new_candidate_def cd_key_def scope_key_def candidate_result_def)
  obtain sx2 where g: "staging_guard sx pl fences clock db = Inr sx2" "db1 = stage_save sx source stream d db"
    using s by (cases "staging_guard sx pl fences clock db") (simp_all add: store_save_def)
  have db1: "db1 = add_candidate ?c db" unfolding g(2) by (rule stage_save_fresh [OF none])
  have pl: "require_pipeline sx pl = Inr ()"
    using g(1) by (cases "require_pipeline sx pl") (simp_all add: staging_guard_def)
  have owner: "\<not> (sx_job sx = None \<and> sx_lease_owner sx \<noteq> None)"
    by (rule staging_guard_owner [OF g(1)])
  have same: "db_states db1 = db_states db" "db_runs db1 = db_runs db" "db_jobs db1 = db_jobs db"
    by (simp_all add: db1 add_candidate_def)
  have cs: "candidates_of_run db1 (sx_run sx) = [?c]"
    using none key(2) by (simp add: db1 add_candidate_def candidates_of_run_def)
  have load: "committed_state db1 k = committed_state db k" for k
    by (simp add: committed_state_def same)
  have ok1: "states_ok db1" unfolding g(2) by (rule stage_save_ok [OF ok])
  have f1: "completion_fence (sx_run sx) (sx_job sx) (sx_lease_owner sx) t db1 =
      completion_fence (sx_run sx) (sx_job sx) (sx_lease_owner sx) t db" for t
    by (simp add: completion_fence_def check_job_lease_def find_job_def same split: option.split)
  obtain states where p: "promote_all (sort_key cd_key (candidates_of_run db1 (sx_run sx))) (db_states db1) = Inr states"
    using promote_all_total [of "db_states db1" "[?c]"] ok1 new_candidate_promotable
    unfolding cs by (auto simp: states_ok_def same)
  have "find_run db1 (sx_run sx) = Some r" using r by (simp add: find_run_def same)
  then obtain db2 where c: "complete_run_with_source_state_promotion (sx_run sx) (sx_job sx)
      (sx_lease_owner sx) clock' db1 = (Inr True, db2)"
    using complete_True [of "sx_run sx" "sx_job sx" "sx_lease_owner sx" clock' db1] owner f p r(2)
    unfolding f1 by blast
  note e = promoted_states [OF ok1 c, unfolded cs]
  have "visible_state (committed_state db2 (scope_key sx source stream)) = Some d"
    using e(1) [of ?c] key by simp
  then have "store_load sx pl source stream db2 = Inr d" by (simp add: store_load_def pl)
  moreover have "committed_state db2 k = committed_state db k" if "k \<noteq> scope_key sx source stream" for k
    using e(2) [of k] key(1) that load by (simp del: split_paired_All)
  ultimately show ?thesis using c load by (auto simp: store_load_def)
qed

subsection \<open>A source that saves a cursor\<close>

definition demo_store :: studio_store where
  "demo_store = \<lparr>sx_run = 50, sx_owner = 7, sx_graph = 1, sx_node = ''n1'', sx_job = Some 100,
     sx_lease_owner = Some ''w1'', sx_fenced = False, sx_rows_locked = False\<rparr>"

definition cursor :: obj where
  "cursor = [(''cursor'', JInt 5)]"

definition staged_db :: db where
  "staged_db = snd (store_save demo_store (store_key demo_store) ''src'' ''events'' cursor
     (Inr (), Inr ()) (\<lambda>_. 2000) leased_db)"

definition rival_db :: db where
  "rival_db = staged_db\<lparr>db_candidates := db_candidates staged_db @
     map (\<lambda>c. c\<lparr>cd_run_id := 51\<rparr>) (db_candidates staged_db)\<rparr>"

lemma demo_states_ok: "states_ok leased_db" "states_ok staged_db" "states_ok rival_db"
  by code_simp+

lemma demo_save: "store_save demo_store (store_key demo_store) ''src'' ''events'' cursor
     (Inr (), Inr ()) (\<lambda>_. 2000) leased_db =
     (Inr (demo_store\<lparr>sx_fenced := True, sx_rows_locked := True\<rparr>), staged_db)"
  unfolding staged_db_def by code_simp

lemma demo_complete:
  "\<exists>d. complete_run_with_source_state_promotion 50 (Some 100) (Some ''w1'') (\<lambda>_. 3000) staged_db = (Inr True, d)"
  "\<exists>d. complete_run_with_source_state_promotion 50 (Some 100) (Some ''w1'') (\<lambda>_. 3000) rival_db = (Inr True, d)"
proof -
  have "fst (complete_run_with_source_state_promotion 50 (Some 100) (Some ''w1'') (\<lambda>_. 3000) staged_db) = Inr True"
    "fst (complete_run_with_source_state_promotion 50 (Some 100) (Some ''w1'') (\<lambda>_. 3000) rival_db) = Inr True"
    by code_simp+
  then show "\<exists>d. complete_run_with_source_state_promotion 50 (Some 100) (Some ''w1'') (\<lambda>_. 3000) staged_db = (Inr True, d)"
    "\<exists>d. complete_run_with_source_state_promotion 50 (Some 100) (Some ''w1'') (\<lambda>_. 3000) rival_db = (Inr True, d)"
    by (metis prod.collapse)+
qed

theorem complete_promotes_witness:
  "\<exists>d r. find_run d 50 = Some r \<and> rn_status r = COMPLETED \<and> candidates_of_run d 50 = []"
proof -
  obtain d where "complete_run_with_source_state_promotion 50 (Some 100) (Some ''w1'') (\<lambda>_. 3000) staged_db = (Inr True, d)"
    using demo_complete(1) by blast
  from complete_promotes [OF demo_states_ok(2) this] show ?thesis by fastforce
qed


theorem saved_checkpoint_commits_witness:
  "\<exists>db2. store_load demo_store (store_key demo_store) ''src'' ''events'' db2 = Inr cursor"
proof -
  obtain r where r: "find_run leased_db (sx_run demo_store) = Some r" "rn_status r = RUNNING"
  proof
    show "find_run leased_db (sx_run demo_store) = Some (the (find_run leased_db 50))" by code_simp
    show "rn_status (the (find_run leased_db 50)) = RUNNING" by code_simp
  qed
  have n: "candidates_of_run leased_db (sx_run demo_store) = []" by code_simp
  have f: "\<forall>k \<in> {0::nat, 1, 2}. completion_fence (sx_run demo_store) (sx_job demo_store)
      (sx_lease_owner demo_store) ((\<lambda>_. 3000) k) leased_db = Inr ()"
    by code_simp
  from saved_checkpoint_commits [OF demo_states_ok(1) demo_save n r f] show ?thesis by blast
qed

end
