(* ===== verification/Triggers.thy ===== *)
theory Triggers
  imports ExecutionService PyText
begin

text \<open>
  Triggers of graphs: schedules and their dispatch (\<open>services/trigger_schedule.py\<close>,
  \<open>trigger_scheduler.py\<close>), their management (\<open>trigger_service.py\<close>, \<open>schemas/trigger.py\<close>,
  \<open>api/triggers.py\<close>), and signed webhooks (\<open>webhook_service.py\<close>). Times are microseconds. Time zones,
  cron expressions, HMAC, SHA-256, encryption and JSON parsing are library functions, gathered in one
  record; secrets that the service generates are arguments. A row lock makes one call one step.
\<close>

datatype trigger_error =
    TriggerValueError string
  | TriggerConflict
  | TriggerHttp nat string

record trigger_env =
  te_zone :: "string \<Rightarrow> bool"
  te_cron_valid :: "string \<Rightarrow> bool"
  te_cron_next :: "string \<Rightarrow> string \<Rightarrow> time \<Rightarrow> time option"
  te_uuid :: "uuid \<Rightarrow> string"
  te_iso :: "time \<Rightarrow> string"
  te_encrypt :: "obj \<Rightarrow> obj"
  te_decrypt :: "obj option \<Rightarrow> obj option"
  te_hmac :: "string \<Rightarrow> string \<Rightarrow> string"
  te_sha256 :: "string \<Rightarrow> string"
  te_json :: "string \<Rightarrow> json option"
  te_int :: "string \<Rightarrow> int option"

definition seconds :: "int \<Rightarrow> time" where
  "seconds n = n * 1000000"

subsection \<open>Schedules\<close>

definition min_interval_seconds :: int where "min_interval_seconds = 60"
definition max_interval_seconds :: int where "max_interval_seconds = 31536000"

definition validate_timezone :: "trigger_env \<Rightarrow> string \<Rightarrow> trigger_error + string" where
  "validate_timezone env tz =
     (let s = strip tz in
      if s = [] then Inl (TriggerValueError ''timezone must not be empty'')
      else if \<not> te_zone env s then Inl (TriggerValueError (''Unknown timezone: '' @ s))
      else Inr s)"

definition validate_cron_expression :: "trigger_env \<Rightarrow> string \<Rightarrow> trigger_error + string" where
  "validate_cron_expression env e =
     (let s = join_on CHR '' '' (space_words (strip e) []) in
      if length (split_on CHR '' '' s) \<noteq> 5
      then Inl (TriggerValueError ''cron_expression must contain exactly five fields'')
      else if \<not> te_cron_valid env s then Inl (TriggerValueError ''cron_expression is invalid'')
      else Inr s)"

type_synonym schedule = "string \<times> int option \<times> string option \<times> string"

definition validate_schedule_configuration ::
  "trigger_env \<Rightarrow> string option \<Rightarrow> int option \<Rightarrow> string option \<Rightarrow> string \<Rightarrow> trigger_error + schedule" where
  "validate_schedule_configuration env kind secs cron tz =
     bind_res (validate_timezone env tz) (\<lambda>zone.
       if kind = Some ''interval'' then
         (case secs of
            None \<Rightarrow> Inl (TriggerValueError ''interval_seconds is required for an interval schedule'')
          | Some n \<Rightarrow>
              if \<not> (min_interval_seconds \<le> n \<and> n \<le> max_interval_seconds)
              then Inl (TriggerValueError (''interval_seconds must be between '' @ int_str min_interval_seconds @ '' and '' @
                int_str max_interval_seconds))
              else if cron \<noteq> None then Inl (TriggerValueError ''cron_expression is only valid for a cron schedule'')
              else Inr (''interval'', Some n, None, zone))
       else if kind = Some ''cron'' then
         (if secs \<noteq> None then Inl (TriggerValueError ''interval_seconds is only valid for an interval schedule'')
          else case cron of
            None \<Rightarrow> Inl (TriggerValueError ''cron_expression is required for a cron schedule'')
          | Some e \<Rightarrow> bind_res (validate_cron_expression env e) (\<lambda>x. Inr (''cron'', None, Some x, zone)))
       else Inl (TriggerValueError (''schedule_kind must be '' @ py_quote ''interval'' @ '' or '' @ py_quote ''cron'')))"

definition compute_next_run_at ::
  "trigger_env \<Rightarrow> string option \<Rightarrow> int option \<Rightarrow> string option \<Rightarrow> string \<Rightarrow> time \<Rightarrow> time option \<Rightarrow> trigger_error + time" where
  "compute_next_run_at env kind secs cron tz now previous =
     bind_res (validate_schedule_configuration env kind secs cron tz) (\<lambda>(k, n, e, zone).
       case n of
         Some s \<Rightarrow> (case previous of
             None \<Rightarrow> Inr (now + seconds s)
           | Some anchor \<Rightarrow>
               if now < anchor then Inr anchor
               else Inr (anchor + ((now - anchor) div seconds s + 1) * seconds s))
       | None \<Rightarrow> (case te_cron_next env (opt_or e []) zone now of
             None \<Rightarrow> Inl (TriggerValueError ''cron_expression could not produce a next run'')
           | Some t \<Rightarrow> Inr t))"

subsection \<open>Requests\<close>

record trigger_create =
  tc_name :: string
  tc_type :: trigger_kind
  tc_version :: "uuid option"
  tc_enabled :: bool
  tc_schedule_kind :: "string option"
  tc_interval_seconds :: "int option"
  tc_cron_expression :: "string option"
  tc_timezone :: string
  tc_rate_limit :: int

text \<open>The request model: strings are stripped, then the field constraints hold, then the validator runs.\<close>

definition text_field :: "string \<Rightarrow> bool" where
  "text_field s \<longleftrightarrow> 1 \<le> length s \<and> length s \<le> 255"

definition rate_field :: "int \<Rightarrow> bool" where
  "rate_field n \<longleftrightarrow> 1 \<le> n \<and> n \<le> 10000"

definition schedule_fields_ok :: "string option \<Rightarrow> int option \<Rightarrow> string option \<Rightarrow> bool" where
  "schedule_fields_ok kind secs cron \<longleftrightarrow>
     (case kind of None \<Rightarrow> True | Some k \<Rightarrow> k \<in> {''interval'', ''cron''}) \<and>
     (case secs of None \<Rightarrow> True | Some n \<Rightarrow> min_interval_seconds \<le> n \<and> n \<le> max_interval_seconds) \<and>
     (case cron of None \<Rightarrow> True | Some e \<Rightarrow> text_field e)"

definition stripped_create :: "trigger_create \<Rightarrow> trigger_create" where
  "stripped_create r = r\<lparr>tc_name := strip (tc_name r), tc_cron_expression := map_option strip (tc_cron_expression r),
     tc_timezone := strip (tc_timezone r)\<rparr>"

definition validate_trigger_create :: "trigger_env \<Rightarrow> trigger_create \<Rightarrow> trigger_error + trigger_create" where
  "validate_trigger_create env request =
     (let r = stripped_create request in
      if \<not> text_field (tc_name r) \<or> \<not> text_field (tc_timezone r) \<or> \<not> rate_field (tc_rate_limit r) \<or>
         \<not> schedule_fields_ok (tc_schedule_kind r) (tc_interval_seconds r) (tc_cron_expression r)
      then Inl (TriggerHttp 422 ''Unprocessable'')
      else if tc_type r = WEBHOOK then
        (if tc_schedule_kind r \<noteq> None \<or> tc_interval_seconds r \<noteq> None \<or> tc_cron_expression r \<noteq> None
         then Inl (TriggerValueError ''schedule fields are not valid for a webhook trigger'')
         else bind_res (validate_timezone env (tc_timezone r)) (\<lambda>z. Inr (r\<lparr>tc_timezone := z\<rparr>)))
      else bind_res (validate_schedule_configuration env (tc_schedule_kind r) (tc_interval_seconds r)
          (tc_cron_expression r) (tc_timezone r)) (\<lambda>(k, n, e, z).
        Inr (r\<lparr>tc_schedule_kind := Some k, tc_interval_seconds := n, tc_cron_expression := e, tc_timezone := z\<rparr>)))"

text \<open>A patch: an outer \<open>None\<close> is a field that was not sent, an inner one a null.\<close>

record trigger_update =
  tu_name :: "string option"
  tu_version :: "uuid option option"
  tu_enabled :: "bool option"
  tu_schedule_kind :: "string option option"
  tu_interval_seconds :: "int option option"
  tu_cron_expression :: "string option option"
  tu_timezone :: "string option"
  tu_rate_limit :: "int option"

text \<open>A null for name, enabled, timezone or rate limit is refused with 422 and is no value here.\<close>

definition validate_trigger_update :: "trigger_env \<Rightarrow> trigger_update \<Rightarrow> trigger_error + trigger_update" where
  "validate_trigger_update env request =
     (let r = request\<lparr>tu_name := map_option strip (tu_name request), tu_timezone := map_option strip (tu_timezone request),
           tu_cron_expression := map_option (map_option strip) (tu_cron_expression request)\<rparr>
      in if \<not> text_field (opt_or (tu_name r) ''n'') \<or> \<not> text_field (opt_or (tu_timezone r) ''n'') \<or>
            \<not> rate_field (opt_or (tu_rate_limit r) 1) \<or>
            \<not> schedule_fields_ok (opt_or (tu_schedule_kind r) None) (opt_or (tu_interval_seconds r) None)
                (opt_or (tu_cron_expression r) None)
         then Inl (TriggerHttp 422 ''Unprocessable'')
         else case tu_timezone r of None \<Rightarrow> Inr r
           | Some z \<Rightarrow> bind_res (validate_timezone env z) (\<lambda>z'. Inr (r\<lparr>tu_timezone := Some z'\<rparr>)))"

subsection \<open>Management\<close>

definition get_accessible_graph :: "db \<Rightarrow> uuid \<Rightarrow> user \<Rightarrow> graph_row option" where
  "get_accessible_graph db g u =
     (case get_row gr_id g (db_graphs db) of
        None \<Rightarrow> None
      | Some r \<Rightarrow> if is_admin u \<or> gr_owner_id r = us_id u then Some r else None)"

definition find_trigger :: "db \<Rightarrow> uuid \<Rightarrow> graph_trigger option" where
  "find_trigger db i = get_row tg_id i (db_triggers db)"

definition get_accessible_trigger :: "db \<Rightarrow> uuid \<Rightarrow> user \<Rightarrow> graph_trigger option" where
  "get_accessible_trigger db i u =
     (case find_trigger db i of
        None \<Rightarrow> None
      | Some t \<Rightarrow> (case get_row gr_id (tg_graph_id t) (db_graphs db) of
            None \<Rightarrow> None
          | Some g \<Rightarrow> if is_admin u \<or> gr_owner_id g = us_id u then Some t else None))"

definition resolve_graph_version :: "db \<Rightarrow> uuid \<Rightarrow> uuid option \<Rightarrow> graph_version option" where
  "resolve_graph_version db g requested =
     (case requested of
        Some v \<Rightarrow> find (\<lambda>x. gv_id x = v) (versions_of db g)
      | None \<Rightarrow> latest_version (versions_of db g))"

definition upd_trigger :: "uuid \<Rightarrow> (graph_trigger \<Rightarrow> graph_trigger) \<Rightarrow> db \<Rightarrow> db" where
  "upd_trigger i f db = db\<lparr>db_triggers := upd_row tg_id i f (db_triggers db)\<rparr>"

text \<open>The unique constraint on graph and name, for a row that is added or renamed.\<close>

definition name_taken :: "db \<Rightarrow> uuid \<Rightarrow> uuid \<Rightarrow> string \<Rightarrow> bool" where
  "name_taken db i g name = list_ex (\<lambda>t. tg_id t \<noteq> i \<and> tg_graph_id t = g \<and> tg_name t = name) (db_triggers db)"

definition create_trigger ::
  "trigger_env \<Rightarrow> uuid \<Rightarrow> uuid \<Rightarrow> trigger_create \<Rightarrow> string \<Rightarrow> time \<Rightarrow> db \<Rightarrow> (trigger_error + (graph_trigger \<times> string option)) \<times> db" where
  "create_trigger env g by_user r fresh_secret now db =
     (case resolve_graph_version db g (tc_version r) of
        None \<Rightarrow> (Inl (TriggerValueError ''Graph has no matching saved version''), db)
      | Some v \<Rightarrow>
          (case (if tc_type r = WEBHOOK \<or> \<not> tc_enabled r then Inr None
                 else map_sum id Some (compute_next_run_at env (tc_schedule_kind r) (tc_interval_seconds r)
                        (tc_cron_expression r) (tc_timezone r) now None)) of
             Inl e \<Rightarrow> (Inl e, db)
           | Inr next_run \<Rightarrow>
               let secret = (if tc_type r = WEBHOOK then Some fresh_secret else None);
                   t = \<lparr>tg_id = db_next db, tg_graph_id = g, tg_version_id = gv_id v, tg_created_by = by_user,
                     tg_name = tc_name r, tg_type = tc_type r, tg_enabled = tc_enabled r,
                     tg_schedule_kind = tc_schedule_kind r, tg_interval_seconds = tc_interval_seconds r,
                     tg_cron_expression = tc_cron_expression r, tg_timezone = tc_timezone r, tg_next_run_at = next_run,
                     tg_last_run_at = None, tg_last_run_id = None,
                     tg_webhook_secret = map_option (\<lambda>s. te_encrypt env [(''secret'', JStr s)]) secret,
                     tg_rate_limit = tc_rate_limit r, tg_created_at = now\<rparr>
               in if name_taken db (db_next db) g (tc_name r) then (Inl TriggerConflict, db)
                  else (Inr (t, secret), db\<lparr>db_triggers := db_triggers db @ [t], db_next := Suc (db_next db)\<rparr>)))"

text \<open>\<open>ORDER BY created_at DESC, id DESC\<close>, one page, and the total.\<close>

definition list_triggers :: "db \<Rightarrow> uuid \<Rightarrow> nat \<Rightarrow> nat \<Rightarrow> graph_trigger list \<times> nat" where
  "list_triggers db g offset limit =
     (let ts = filter (\<lambda>t. tg_graph_id t = g) (db_triggers db)
      in (take limit (drop offset (rev (sort_key tg_created_at (sort_key tg_id ts)))), length ts))"

text \<open>The schedule a patch leads to: switching the kind drops the other kind's field unless it is sent.\<close>

definition patched_schedule :: "trigger_env \<Rightarrow> graph_trigger \<Rightarrow> trigger_update \<Rightarrow> trigger_error + schedule" where
  "patched_schedule env t r =
     (let kind = opt_or (tu_schedule_kind r) (tg_schedule_kind t);
          secs = (if tu_schedule_kind r = Some (Some ''cron'') then opt_or (tu_interval_seconds r) None
                  else opt_or (tu_interval_seconds r) (tg_interval_seconds t));
          cron = (if tu_schedule_kind r = Some (Some ''interval'') then opt_or (tu_cron_expression r) None
                  else opt_or (tu_cron_expression r) (tg_cron_expression t))
      in validate_schedule_configuration env kind secs cron (opt_or (tu_timezone r) (tg_timezone t)))"

definition schedule_changed :: "trigger_update \<Rightarrow> bool" where
  "schedule_changed r \<longleftrightarrow> tu_schedule_kind r \<noteq> None \<or> tu_interval_seconds r \<noteq> None \<or> tu_cron_expression r \<noteq> None \<or>
     tu_timezone r \<noteq> None"

definition patch_fields :: "trigger_update \<Rightarrow> graph_trigger \<Rightarrow> graph_trigger" where
  "patch_fields r t = t\<lparr>tg_name := opt_or (tu_name r) (tg_name t), tg_enabled := opt_or (tu_enabled r) (tg_enabled t),
     tg_rate_limit := opt_or (tu_rate_limit r) (tg_rate_limit t)\<rparr>"

definition patched_trigger :: "trigger_env \<Rightarrow> graph_trigger \<Rightarrow> trigger_update \<Rightarrow> time \<Rightarrow> trigger_error + graph_trigger" where
  "patched_trigger env t r now =
     (if tg_type t = WEBHOOK then
        (if schedule_changed r then Inl (TriggerValueError ''Schedule fields cannot be changed on a webhook trigger'')
         else Inr ((patch_fields r t)\<lparr>tg_next_run_at := None\<rparr>))
      else bind_res (patched_schedule env t r) (\<lambda>(k, n, e, z).
        let t1 = (patch_fields r t)\<lparr>tg_schedule_kind := Some k, tg_interval_seconds := n, tg_cron_expression := e,
              tg_timezone := z\<rparr>
        in if \<not> (schedule_changed r \<or> tu_enabled r \<noteq> None) then Inr t1
           else if \<not> tg_enabled t1 then Inr (t1\<lparr>tg_next_run_at := None\<rparr>)
           else bind_res (compute_next_run_at env (Some k) n e z now None) (\<lambda>next.
             Inr (t1\<lparr>tg_next_run_at := Some next\<rparr>))))"

definition update_trigger ::
  "trigger_env \<Rightarrow> graph_trigger \<Rightarrow> trigger_update \<Rightarrow> time \<Rightarrow> db \<Rightarrow> (trigger_error + graph_trigger) \<times> db" where
  "update_trigger env t r now db =
     (case (case tu_version r of None \<Rightarrow> Inr t
            | Some requested \<Rightarrow> (case resolve_graph_version db (tg_graph_id t) requested of
                None \<Rightarrow> Inl (TriggerValueError ''Graph has no matching saved version'')
              | Some v \<Rightarrow> Inr (t\<lparr>tg_version_id := gv_id v\<rparr>))) of
        Inl e \<Rightarrow> (Inl e, db)
      | Inr t1 \<Rightarrow> (case patched_trigger env t1 r now of
          Inl e \<Rightarrow> (Inl e, db)
        | Inr t2 \<Rightarrow>
            if name_taken db (tg_id t) (tg_graph_id t) (tg_name t2) then (Inl TriggerConflict, db)
            else (Inr t2, upd_trigger (tg_id t) (\<lambda>_. t2) db)))"

text \<open>Deleting a trigger deletes its deliveries (\<open>ON DELETE CASCADE\<close>).\<close>

definition delete_trigger :: "uuid \<Rightarrow> db \<Rightarrow> db" where
  "delete_trigger i db =
     db\<lparr>db_triggers := filter (\<lambda>t. tg_id t \<noteq> i) (db_triggers db),
        db_deliveries := filter (\<lambda>d. wd_trigger_id d \<noteq> i) (db_deliveries db)\<rparr>"

definition rotate_webhook_secret ::
  "trigger_env \<Rightarrow> graph_trigger \<Rightarrow> string \<Rightarrow> db \<Rightarrow> (trigger_error + string) \<times> db" where
  "rotate_webhook_secret env t fresh_secret db =
     (if tg_type t \<noteq> WEBHOOK then (Inl (TriggerValueError ''Only webhook triggers have secrets''), db)
      else (Inr fresh_secret, upd_trigger (tg_id t)
        (\<lambda>x. x\<lparr>tg_webhook_secret := Some (te_encrypt env [(''secret'', JStr fresh_secret)])\<rparr>) db))"

definition decrypt_webhook_secret :: "trigger_env \<Rightarrow> graph_trigger \<Rightarrow> trigger_error + string" where
  "decrypt_webhook_secret env t =
     (case te_decrypt env (tg_webhook_secret t) of
        None \<Rightarrow> Inl (TriggerValueError ''Saved connection credentials could not be decrypted'')
      | Some d \<Rightarrow> (case obj_get d ''secret'' of
            JStr s \<Rightarrow> if s = [] then Inl (TriggerValueError ''Webhook secret is unavailable'') else Inr s
          | _ \<Rightarrow> Inl (TriggerValueError ''Webhook secret is unavailable'')))"

subsection \<open>Routes of management\<close>

definition value_error_status :: "trigger_error \<Rightarrow> trigger_error" where
  "value_error_status e = (case e of
     TriggerConflict \<Rightarrow> TriggerHttp 409 ''A trigger with this name already exists''
   | TriggerValueError m \<Rightarrow> TriggerHttp 400 m
   | TriggerHttp n m \<Rightarrow> TriggerHttp n m)"

definition create_graph_trigger ::
  "trigger_env \<Rightarrow> uuid \<Rightarrow> user \<Rightarrow> trigger_create \<Rightarrow> string \<Rightarrow> time \<Rightarrow> db \<Rightarrow> (trigger_error + (graph_trigger \<times> string option)) \<times> db" where
  "create_graph_trigger env g u r fresh_secret now db =
     (case validate_trigger_create env r of
        Inl e \<Rightarrow> (Inl (TriggerHttp 422 ''Unprocessable''), db)
      | Inr r' \<Rightarrow> (case get_accessible_graph db g u of
          None \<Rightarrow> (Inl (TriggerHttp 404 ''Graph not found''), db)
        | Some gr \<Rightarrow> map_prod (map_sum value_error_status id) id
            (create_trigger env (gr_id gr) (us_id u) r' fresh_secret now db)))"

definition list_graph_triggers :: "uuid \<Rightarrow> user \<Rightarrow> nat \<Rightarrow> nat \<Rightarrow> db \<Rightarrow> trigger_error + graph_trigger list" where
  "list_graph_triggers g u offset limit db =
     (case get_accessible_graph db g u of
        None \<Rightarrow> Inl (TriggerHttp 404 ''Graph not found'')
      | Some gr \<Rightarrow> Inr (fst (list_triggers db g offset limit)))"

definition trigger_or_404 :: "db \<Rightarrow> uuid \<Rightarrow> user \<Rightarrow> trigger_error + graph_trigger" where
  "trigger_or_404 db i u =
     (case get_accessible_trigger db i u of None \<Rightarrow> Inl (TriggerHttp 404 ''Trigger not found'') | Some t \<Rightarrow> Inr t)"

definition patch_trigger ::
  "trigger_env \<Rightarrow> uuid \<Rightarrow> user \<Rightarrow> trigger_update \<Rightarrow> time \<Rightarrow> db \<Rightarrow> (trigger_error + graph_trigger) \<times> db" where
  "patch_trigger env i u request now db =
     (case validate_trigger_update env request of
        Inl e \<Rightarrow> (Inl (TriggerHttp 422 ''Unprocessable''), db)
      | Inr r \<Rightarrow> (case trigger_or_404 db i u of
          Inl e \<Rightarrow> (Inl e, db)
        | Inr t \<Rightarrow> map_prod (map_sum value_error_status id) id (update_trigger env t r now db)))"

definition remove_trigger :: "uuid \<Rightarrow> user \<Rightarrow> db \<Rightarrow> (trigger_error + unit) \<times> db" where
  "remove_trigger i u db =
     (case trigger_or_404 db i u of Inl e \<Rightarrow> (Inl e, db) | Inr t \<Rightarrow> (Inr (), delete_trigger (tg_id t) db))"

definition rotate_trigger_secret ::
  "trigger_env \<Rightarrow> uuid \<Rightarrow> user \<Rightarrow> string \<Rightarrow> db \<Rightarrow> (trigger_error + string) \<times> db" where
  "rotate_trigger_secret env i u fresh_secret db =
     (case trigger_or_404 db i u of
        Inl e \<Rightarrow> (Inl e, db)
      | Inr t \<Rightarrow> map_prod (map_sum value_error_status id) id (rotate_webhook_secret env t fresh_secret db))"

subsection \<open>Dispatch of due schedules\<close>

definition due :: "time \<Rightarrow> graph_trigger \<Rightarrow> bool" where
  "due now t \<longleftrightarrow> tg_type t = SCHEDULE \<and> tg_enabled t \<and>
     (case tg_next_run_at t of None \<Rightarrow> False | Some n \<Rightarrow> n \<le> now)"

text \<open>The order of \<open>ORDER BY next_run_at, id\<close>.\<close>

datatype due_key = DueKey (dk_at: time) (dk_id: uuid)

instantiation due_key :: linorder
begin

definition less_eq_due_key :: "due_key \<Rightarrow> due_key \<Rightarrow> bool" where
  "less_eq_due_key a b \<longleftrightarrow> dk_at a < dk_at b \<or> (dk_at a = dk_at b \<and> dk_id a \<le> dk_id b)"

definition less_due_key :: "due_key \<Rightarrow> due_key \<Rightarrow> bool" where
  "less_due_key a b \<longleftrightarrow> dk_at a < dk_at b \<or> (dk_at a = dk_at b \<and> dk_id a < dk_id b)"

instance
  by standard (auto simp: less_eq_due_key_def less_due_key_def intro: due_key.expand)

end

text \<open>The batch: the due rows in that order, at most \<open>batch\<close>, skipping the rows others hold.\<close>

definition due_batch :: "(uuid \<Rightarrow> bool) \<Rightarrow> time \<Rightarrow> nat \<Rightarrow> db \<Rightarrow> graph_trigger list" where
  "due_batch locked now batch db =
     take batch (sort_key (\<lambda>t. DueKey (opt_or (tg_next_run_at t) 0) (tg_id t))
       (filter (\<lambda>t. due now t \<and> \<not> locked (tg_id t)) (db_triggers db)))"

text \<open>One trigger inside its savepoint: a failure rolls back the run that was created.\<close>

definition dispatch_one :: "trigger_env \<Rightarrow> time \<Rightarrow> time \<Rightarrow> graph_trigger \<Rightarrow> db \<Rightarrow> bool \<times> db" where
  "dispatch_one env now clock t db =
     (let scheduled_for = opt_or (tg_next_run_at t) now;
          payload = [(''trigger_id'', JStr (te_uuid env (tg_id t))), (''scheduled_for'', JStr (te_iso env scheduled_for))];
          (run, db1) = create_run (tg_graph_id t) (Some (tg_created_by t)) ''schedule'' (Some (tg_version_id t))
            (Some FULL) (Some payload) clock db
      in case compute_next_run_at env (tg_schedule_kind t) (tg_interval_seconds t) (tg_cron_expression t)
             (tg_timezone t) now (Some scheduled_for) of
           Inl _ \<Rightarrow> (False, db)
         | Inr n \<Rightarrow> (True, upd_trigger (tg_id t)
             (\<lambda>x. x\<lparr>tg_last_run_at := Some now, tg_last_run_id := Some (rn_id run), tg_next_run_at := Some n\<rparr>) db1))"

fun dispatch_all :: "trigger_env \<Rightarrow> time \<Rightarrow> time \<Rightarrow> graph_trigger list \<Rightarrow> db \<Rightarrow> (nat \<times> nat) \<times> db" where
  "dispatch_all env now clock [] db = ((0, 0), db)"
| "dispatch_all env now clock (t # ts) db =
     (let (ok, db1) = dispatch_one env now clock t db;
          ((n, f), db2) = dispatch_all env now clock ts db1
      in ((if ok then (Suc n, f) else (n, Suc f)), db2))"

definition dispatch_due_schedules ::
  "trigger_env \<Rightarrow> (uuid \<Rightarrow> bool) \<Rightarrow> time \<Rightarrow> time \<Rightarrow> nat \<Rightarrow> db \<Rightarrow> (nat \<times> nat) \<times> db" where
  "dispatch_due_schedules env locked now clock batch db =
     dispatch_all env now clock (due_batch locked now batch db) db"

definition prune_webhook_deliveries :: "time \<Rightarrow> int \<Rightarrow> db \<Rightarrow> nat \<times> db" where
  "prune_webhook_deliveries now retention_hours db =
     (let cutoff = now - seconds (retention_hours * 3600)
      in (length (filter (\<lambda>d. wd_received_at d < cutoff) (db_deliveries db)),
          db\<lparr>db_deliveries := filter (\<lambda>d. \<not> wd_received_at d < cutoff) (db_deliveries db)\<rparr>))"

text \<open>One turn of the scheduler's loop; the last pruning is the loop's state.\<close>

definition poll ::
  "trigger_env \<Rightarrow> (uuid \<Rightarrow> bool) \<Rightarrow> nat \<Rightarrow> int \<Rightarrow> int \<Rightarrow> time \<Rightarrow> time option \<times> db \<Rightarrow> time option \<times> db" where
  "poll env locked batch prune_interval retention now =
     (\<lambda>(last_prune, db).
       let db1 = snd (dispatch_due_schedules env locked now now batch db)
       in if (case last_prune of None \<Rightarrow> True | Some t \<Rightarrow> seconds prune_interval \<le> now - t)
          then (Some now, snd (prune_webhook_deliveries now retention db1))
          else (last_prune, db1))"

subsection \<open>Schedule lemmas\<close>

lemma validated_schedule:
  assumes "validate_schedule_configuration env kind secs cron tz = Inr (k, n, e, z)"
  shows "kind = Some k" "secs = n" "n = Some s \<Longrightarrow> k = ''interval'' \<and> 60 \<le> s \<and> s \<le> 31536000 \<and> e = None"
    "n = None \<Longrightarrow> k = ''cron'' \<and> e \<noteq> None"
  using assms
  by (auto simp: validate_schedule_configuration_def bind_res_Inr min_interval_seconds_def max_interval_seconds_def
      split: if_splits option.splits)

lemma next_multiple:
  fixes a now s :: int
  assumes "0 < s" "a \<le> now"
  shows "now < a + ((now - a) div s + 1) * s" "a + ((now - a) div s + 1) * s \<le> now + s"
proof -
  have "(now - a) div s * s = now - a - (now - a) mod s" by (simp add: minus_mod_eq_div_mult)
  moreover have "0 \<le> (now - a) mod s" "(now - a) mod s < s" using assms by simp_all
  ultimately show "now < a + ((now - a) div s + 1) * s" "a + ((now - a) div s + 1) * s \<le> now + s"
    by (simp_all add: distrib_right)
qed

subsection \<open>What schedules guarantee\<close>

text \<open>The next run of an interval schedule is the first instant of its cadence strictly after now:
  all missed occurrences are skipped, and it is never more than one interval away unless the anchor is.\<close>

theorem next_run_is_next_slot:
  assumes r: "compute_next_run_at env kind (Some s) cron tz now previous = Inr t"
  shows "now < t \<and> (case previous of
      None \<Rightarrow> t = now + seconds s
    | Some a \<Rightarrow> t \<le> max a (now + seconds s) \<and> (\<exists>k::nat. t = a + int k * seconds s) \<and>
        (\<forall>k::nat. now < a + int k * seconds s \<longrightarrow> t \<le> a + int k * seconds s))"
proof -
  obtain k n e z where v: "validate_schedule_configuration env kind (Some s) cron tz = Inr (k, n, e, z)"
    using r by (auto simp: compute_next_run_at_def bind_res_Inr)
  have n: "n = Some s" using validated_schedule(2) [OF v] by simp
  have s: "0 < seconds s" using validated_schedule(3) [OF v n] by (simp add: seconds_def)
  show ?thesis
  proof (cases previous)
    case None
    with r v n s show ?thesis by (simp add: compute_next_run_at_def)
  next
    case (Some a)
    show ?thesis
    proof (cases "now < a")
      case True
      with r v n Some have "t = a" by (simp add: compute_next_run_at_def)
      with True Some s show ?thesis by (auto intro: exI [of _ 0])
    next
      case False
      let ?q = "(now - a) div seconds s + 1"
      have t: "t = a + ?q * seconds s" using r v n Some False by (simp add: compute_next_run_at_def)
      note m = next_multiple [OF s, of a now]
      have q: "0 \<le> ?q" using False s by (simp add: pos_imp_zdiv_nonneg_iff)
      have least: "t \<le> a + int k * seconds s" if k: "now < a + int k * seconds s" for k
      proof -
        have "(now - a) div seconds s * seconds s \<le> now - a"
          using s by (simp add: minus_mod_eq_div_mult [symmetric])
        then have "(now - a) div seconds s * seconds s < int k * seconds s" using k by simp
        then have "(now - a) div seconds s < int k" using s by (simp add: mult_less_cancel_right)
        then have "?q * seconds s \<le> int k * seconds s" using s by (intro mult_right_mono) simp_all
        then show ?thesis by (simp add: t)
      qed
      have "t = a + int (nat ?q) * seconds s" using q by (simp add: t)
      then have "\<exists>k::nat. t = a + int k * seconds s" ..
      moreover have "now < t" "t \<le> max a (now + seconds s)" using m False by (simp_all add: t)
      ultimately show ?thesis using least by (simp add: Some)
    qed
  qed
qed

definition demo_env :: trigger_env where
  "demo_env = \<lparr>te_zone = (\<lambda>z. z = ''UTC''), te_cron_valid = (\<lambda>_. True), te_cron_next = (\<lambda>_ _ now. Some (now + 1)),
     te_uuid = (\<lambda>i. ''i''), te_iso = (\<lambda>t. ''t''), te_encrypt = (\<lambda>d. d), te_decrypt = (\<lambda>d. d),
     te_hmac = (\<lambda>k m. k @ m), te_sha256 = (\<lambda>m. m), te_json = (\<lambda>_. Some (JObj [])), te_int = (\<lambda>_. None)\<rparr>"

theorem next_run_is_next_slot_witness:
  "(250000000::int) < 310000000 \<and> (310000000::int) \<le> max 10000000 (250000000 + seconds 60) \<and>
     (310000000::int) \<le> 10000000 + int 7 * seconds 60"
proof -
  have "compute_next_run_at demo_env (Some ''interval'') (Some 60) None ''UTC'' 250000000 (Some 10000000) =
      Inr 310000000" by code_simp
  from next_run_is_next_slot [OF this] have "(250000000::int) < 310000000"
      "(310000000::int) \<le> max 10000000 (250000000 + seconds 60)"
      "250000000 < 10000000 + int 7 * seconds 60 \<longrightarrow> 310000000 \<le> 10000000 + int 7 * seconds 60"
    by (simp_all only: option.case) blast+
  then show ?thesis by (simp add: seconds_def)
qed

subsection \<open>Dispatch keeps the contract of the services\<close>

lemma triggers_of_create_run [simp]:
  "db_triggers (snd (create_run g u ty v job p now db)) = db_triggers db"
  "db_deliveries (snd (create_run g u ty v job p now db)) = db_deliveries db"
  by (simp_all add: create_run_eq Let_def create_base_def supersede_inactive_failed_runs_def add_run_def
      enqueue_run_job_def add_job_def upd_job_def split: option.split)

lemma create_run_runs:
  "length (db_runs (snd (create_run g u ty v job p now db))) = Suc (length (db_runs db))"
  by (simp add: create_run_eq Let_def create_base_def supersede_inactive_failed_runs_def add_run_def
      enqueue_run_job_def add_job_def upd_job_def split: option.split)

lemma upd_trigger_tables [simp]:
  "db_runs (upd_trigger i f db) = db_runs db" "db_jobs (upd_trigger i f db) = db_jobs db"
  "db_next (upd_trigger i f db) = db_next db" "db_deliveries (upd_trigger i f db) = db_deliveries db"
  by (simp_all add: upd_trigger_def)

text \<open>The contract speaks of runs and jobs only.\<close>

lemma evolves_same_runs:
  assumes "db_evolves db d" "db_runs d' = db_runs d" "db_jobs d' = db_jobs d" "db_next d \<le> db_next d'"
  shows "db_evolves db d'"
  using assms by (auto simp: db_evolves_def db_ok_def find_run_def intro: order.strict_trans2)

lemma evolves_untouched:
  "db_ok db \<Longrightarrow> db_runs d = db_runs db \<Longrightarrow> db_jobs d = db_jobs db \<Longrightarrow> db_next db \<le> db_next d \<Longrightarrow> db_evolves db d"
  by (rule evolves_same_runs [OF db_evolves_refl])

lemma evolves_upd_trigger: "db_evolves db d \<Longrightarrow> db_evolves db (upd_trigger i f d)"
  by (erule evolves_same_runs) simp_all

interpretation dispatch_one: service_op "\<lambda>db. snd (dispatch_one env now clock t db)" for env now clock t
proof unfold_locales
  fix db assume "db_ok db"
  from this create.step [OF this] show "db_evolves db (snd (dispatch_one env now clock t db))"
    by (simp add: dispatch_one_def Let_def case_prod_beta evolves_upd_trigger split: sum.split)
qed

interpretation prune: service_op "\<lambda>db. snd (prune_webhook_deliveries now hours db)" for now hours
  by unfold_locales
    (simp add: prune_webhook_deliveries_def Let_def evolves_untouched)

text \<open>Management touches no run and no job.\<close>

interpretation create_trigger_route: service_op "\<lambda>db. snd (create_graph_trigger env g u r secret now db)"
  for env g u r secret now
  by unfold_locales
    (simp add: create_graph_trigger_def create_trigger_def Let_def evolves_untouched split: sum.split option.split)

interpretation patch_trigger_route: service_op "\<lambda>db. snd (patch_trigger env i u r now db)" for env i u r now
  by unfold_locales
    (simp add: patch_trigger_def update_trigger_def evolves_upd_trigger split: sum.split option.split)

interpretation remove_trigger_route: service_op "\<lambda>db. snd (remove_trigger i u db)" for i u
  by unfold_locales
    (simp add: remove_trigger_def delete_trigger_def evolves_untouched split: sum.split)

interpretation rotate_secret_route: service_op "\<lambda>db. snd (rotate_trigger_secret env i u secret db)" for env i u secret
  by unfold_locales
    (simp add: rotate_trigger_secret_def rotate_webhook_secret_def evolves_upd_trigger split: sum.split)

subsection \<open>What a dispatch guarantees\<close>

text \<open>The row \<open>t'\<close> is the trigger \<open>t\<close> after its dispatch: a fresh pending run of its graph version was
  created for it, and it is no longer due.\<close>

definition dispatched :: "time \<Rightarrow> db \<Rightarrow> db \<Rightarrow> graph_trigger \<Rightarrow> graph_trigger \<Rightarrow> bool" where
  "dispatched now db db' t t' \<longleftrightarrow> \<not> due now t' \<and> tg_last_run_at t' = Some now \<and>
     (case tg_last_run_id t' of None \<Rightarrow> False
      | Some i \<Rightarrow> find_run db i = None \<and> (case find_run db' i of None \<Rightarrow> False
         | Some r \<Rightarrow> rn_status r = PENDING \<and> rn_trigger_type r = ''schedule'' \<and>
             rn_graph_id r = tg_graph_id t \<and> rn_version_id r = Some (tg_version_id t)))"

text \<open>Documented behaviour of \<open>croniter.get_next\<close>: it returns an instant after the start time.\<close>

definition cron_later :: "trigger_env \<Rightarrow> bool" where
  "cron_later env \<longleftrightarrow> (\<forall>e z n t. te_cron_next env e z n = Some t \<longrightarrow> n < t)"

lemma next_run_after_now:
  assumes cron: "cron_later env"
    and r: "compute_next_run_at env kind secs cr tz now previous = Inr t"
  shows "now < t"
proof -
  obtain k n e z where v: "validate_schedule_configuration env kind secs cr tz = Inr (k, n, e, z)"
    using r by (auto simp: compute_next_run_at_def bind_res_Inr)
  show ?thesis
  proof (cases n)
    case None
    with r v show ?thesis using cron by (auto simp: compute_next_run_at_def cron_later_def split: option.splits)
  next
    case (Some s)
    have s: "0 < seconds s" using validated_schedule(3) [OF v Some] by (simp add: seconds_def)
    with r v Some next_multiple(1) [OF s] show ?thesis
      by (auto simp: compute_next_run_at_def split: option.splits if_splits)
  qed
qed

lemma find_trigger_upd:
  "(\<And>x. tg_id (f x) = tg_id x) \<Longrightarrow>
     find_trigger (upd_trigger i f db) k = (if k = i then map_option f (find_trigger db k) else find_trigger db k)"
  by (simp add: find_trigger_def upd_trigger_def get_row_upd_row)

lemma find_trigger_create_run [simp]:
  "find_trigger (snd (create_run g u ty v job p now db)) i = find_trigger db i"
  by (simp add: find_trigger_def)

lemma pending_kept_by_create:
  assumes ok: "db_ok db" and r: "find_run db i = Some r" "rn_status r = PENDING"
  shows "find_run (snd (create_run g u ty v job p now db)) i = Some r"
proof -
  have "i \<noteq> db_next db" using r fresh_id [OF ok, of i] by auto
  then show ?thesis using r
    by (simp add: create_run_contract(2) [OF ok] find_run_create_base supersede_row_def inactive_failed_def)
qed

lemma find_run_upd_trigger [simp]: "find_run (upd_trigger k f db) i = find_run db i"
  by (simp add: find_run_def)

lemma dispatch_one_effect:
  assumes cron: "cron_later env"
    and ok: "db_ok db" and t: "find_trigger db (tg_id t) = Some t"
    and d: "dispatch_one env now clock t db = (done_ok, db')"
  shows "if done_ok then length (db_runs db') = Suc (length (db_runs db)) \<and>
      (\<exists>t'. find_trigger db' (tg_id t) = Some t' \<and> dispatched now db db' t t') else db' = db"
proof -
  let ?p = "Some [(''trigger_id'', JStr (te_uuid env (tg_id t))),
      (''scheduled_for'', JStr (te_iso env (opt_or (tg_next_run_at t) now)))]"
  let ?c = "create_run (tg_graph_id t) (Some (tg_created_by t)) ''schedule'' (Some (tg_version_id t)) (Some FULL) ?p clock db"
  have new: "fst ?c = new_run (db_next db) (tg_graph_id t) (Some (tg_version_id t)) ''schedule'' (Some (tg_created_by t)) ?p clock"
    by (simp add: create_run_eq Let_def)
  show ?thesis
  proof (cases "compute_next_run_at env (tg_schedule_kind t) (tg_interval_seconds t) (tg_cron_expression t)
      (tg_timezone t) now (Some (opt_or (tg_next_run_at t) now))")
    case (Inl e)
    with d show ?thesis by (simp add: dispatch_one_def Let_def case_prod_beta)
  next
    case (Inr n)
    let ?t = "t\<lparr>tg_last_run_at := Some now, tg_last_run_id := Some (db_next db), tg_next_run_at := Some n\<rparr>"
    have db': "done_ok" "db' = upd_trigger (tg_id t) (\<lambda>x. x\<lparr>tg_last_run_at := Some now,
        tg_last_run_id := Some (db_next db), tg_next_run_at := Some n\<rparr>) (snd ?c)"
      using d Inr new by (simp_all add: dispatch_one_def Let_def case_prod_beta new_run_def)
    have "now < n" by (rule next_run_after_now [OF cron Inr])
    then have "dispatched now db db' t ?t"
      using fresh_id [OF ok, of "db_next db"]
      by (simp add: dispatched_def due_def db' create_run_contract(2) [OF ok] new_run_def)
    moreover have "find_trigger db' (tg_id t) = Some ?t" by (simp add: db' find_trigger_upd t)
    ultimately show ?thesis using db'(1) by (simp add: db'(2) create_run_runs)
  qed
qed

lemma dispatch_one_keeps:
  assumes ok: "db_ok db" and d: "dispatch_one env now clock t db = (done_ok, db')"
  shows "db_ok db'" "i \<noteq> tg_id t \<Longrightarrow> find_trigger db' i = find_trigger db i"
    "find_run db j = Some r \<Longrightarrow> rn_status r = PENDING \<Longrightarrow> find_run db' j = Some r"
    "find_run db' j = None \<Longrightarrow> find_run db j = None"
proof -
  have d': "db' = snd (dispatch_one env now clock t db)" by (simp add: d)
  show "db_ok db'" unfolding d' by (rule dispatch_one.keeps_ok [OF ok])
  show "find_run db' j = None \<Longrightarrow> find_run db j = None"
    unfolding d' using dispatch_one.keeps_run [OF ok, of j] by blast
  show "i \<noteq> tg_id t \<Longrightarrow> find_trigger db' i = find_trigger db i"
    by (auto simp: d' dispatch_one_def Let_def case_prod_beta find_trigger_upd split: sum.split)
  show "find_run db j = Some r \<Longrightarrow> rn_status r = PENDING \<Longrightarrow> find_run db' j = Some r"
    by (auto simp: d' dispatch_one_def Let_def case_prod_beta pending_kept_by_create [OF ok] split: sum.split)
qed

lemma dispatched_from: "dispatched now db1 db' t t' \<Longrightarrow> (\<And>i. find_run db1 i = None \<Longrightarrow> find_run db i = None) \<Longrightarrow>
    dispatched now db db' t t'"
  by (auto simp: dispatched_def split: option.splits)

lemma dispatched_until: "dispatched now db db1 t t' \<Longrightarrow>
    (\<And>i r. find_run db1 i = Some r \<Longrightarrow> rn_status r = PENDING \<Longrightarrow> find_run db' i = Some r) \<Longrightarrow> dispatched now db db' t t'"
  by (fastforce simp: dispatched_def split: option.splits)

lemma dispatch_all_effect:
  assumes cron: "cron_later env"
    and "db_ok db" and "distinct (map tg_id ts)"
    and "\<And>t. t \<in> set ts \<Longrightarrow> find_trigger db (tg_id t) = Some t \<and> due now t"
    and "dispatch_all env now clock ts db = ((n, f), db')"
  shows "n + f = length ts \<and> length (db_runs db') = length (db_runs db) + n \<and>
    length (filter (\<lambda>t. find_trigger db' (tg_id t) = Some t) ts) = f \<and>
    (\<forall>t \<in> set ts. \<exists>t'. find_trigger db' (tg_id t) = Some t' \<and> (t' = t \<or> dispatched now db db' t t')) \<and>
    (\<forall>i. i \<notin> tg_id ` set ts \<longrightarrow> find_trigger db' i = find_trigger db i) \<and>
    (\<forall>i r. find_run db i = Some r \<and> rn_status r = PENDING \<longrightarrow> find_run db' i = Some r)"
  using assms(2-)
proof (induction ts arbitrary: db n f)
  case (Cons t ts)
  obtain k db1 where one: "dispatch_one env now clock t db = (k, db1)" by fastforce
  obtain n1 f1 db2 where all: "dispatch_all env now clock ts db1 = ((n1, f1), db2)" by (metis surj_pair)
  then have rest: "dispatch_all env now clock ts db1 = ((n1, f1), db')"
      "(n, f) = (if k then (Suc n1, f1) else (n1, Suc f1))"
    using Cons.prems(4) one by simp_all
  have t: "find_trigger db (tg_id t) = Some t" "due now t" using Cons.prems(3) [of t] by simp_all
  note keeps = dispatch_one_keeps [OF Cons.prems(1) one]
  note eff = dispatch_one_effect [OF cron Cons.prems(1) t(1) one]
  have other: "find_trigger db1 (tg_id u) = Some u \<and> due now u" if u: "u \<in> set ts" for u
  proof -
    have "tg_id u \<noteq> tg_id t" using Cons.prems(2) imageI [OF u, of tg_id] by auto
    then show ?thesis using Cons.prems(3) [of u] u keeps(2) by simp
  qed
  have "distinct (map tg_id ts)" using Cons.prems(2) by simp
  note ih = Cons.IH [OF keeps(1) this other rest(1)]
  have t1: "find_trigger db' (tg_id t) = find_trigger db1 (tg_id t)" using ih Cons.prems(2) by auto
  have pend: "find_run db' i = Some r" if "find_run db1 i = Some r" "rn_status r = PENDING" for i r
    using ih that by blast
  have self: "\<exists>t'. find_trigger db' (tg_id t) = Some t' \<and> (if k then dispatched now db db' t t' else t' = t)"
  proof (cases k)
    case True
    with eff obtain t' where "find_trigger db1 (tg_id t) = Some t'" "dispatched now db db1 t t'" by auto
    with dispatched_until [OF this(2) pend] True show ?thesis by (simp add: t1)
  qed (use eff t t1 in simp)
  have ndue: "\<not> dispatched now db db' t t" using t(2) by (simp add: dispatched_def)
  have cnt: "(find_trigger db' (tg_id t) = Some t) = (\<not> k)" using self ndue by (cases k) auto
  have runs: "length (db_runs db1) = (if k then Suc (length (db_runs db)) else length (db_runs db))"
    using eff by (cases k) auto
  have later: "\<exists>t'. find_trigger db' (tg_id u) = Some t' \<and> (t' = u \<or> dispatched now db db' u t')"
    if "u \<in> set ts" for u
    using ih that dispatched_from [OF _ keeps(4)] by meson
  have untouched: "find_trigger db' i = find_trigger db i" if "i \<notin> tg_id ` set (t # ts)" for i
    using ih that keeps(2) [of i] by simp
  have kept: "find_run db' i = Some r" if "find_run db i = Some r" "rn_status r = PENDING" for i r
    using keeps(3) [OF that] that(2) by (rule pend)
  have here: "\<exists>t'. find_trigger db' (tg_id t) = Some t' \<and> (t' = t \<or> dispatched now db db' t t')"
    using self by (cases k) auto
  show ?case
    using ih rest(2) cnt runs here later untouched kept by (cases k) simp_all
qed simp


lemma due_batch_rows:
  assumes "distinct (map tg_id (db_triggers db))"
  shows "distinct (map tg_id (due_batch locked now batch db))"
    "t \<in> set (due_batch locked now batch db) \<Longrightarrow> find_trigger db (tg_id t) = Some t \<and> due now t \<and> \<not> locked (tg_id t)"
proof -
  let ?ts = "sort_key (\<lambda>t. DueKey (opt_or (tg_next_run_at t) 0) (tg_id t))
       (filter (\<lambda>t. due now t \<and> \<not> locked (tg_id t)) (db_triggers db))"
  have s: "set ?ts = {t \<in> set (db_triggers db). due now t \<and> \<not> locked (tg_id t)}" by simp
  have "distinct ?ts" using assms by (simp add: distinct_map)
  then have "distinct (map tg_id ?ts)" using assms s by (auto simp: distinct_map inj_on_def)
  then show "distinct (map tg_id (due_batch locked now batch db))"
    by (simp add: due_batch_def take_map [symmetric] del: set_sort)
  show "find_trigger db (tg_id t) = Some t \<and> due now t \<and> \<not> locked (tg_id t)"
    if "t \<in> set (due_batch locked now batch db)"
  proof -
    have "t \<in> set ?ts" using that unfolding due_batch_def by (rule in_set_takeD)
    with assms s show ?thesis by (simp add: find_trigger_def get_row_unique)
  qed
qed


definition demo_trigger :: "uuid \<Rightarrow> string option \<Rightarrow> graph_trigger" where
  "demo_trigger i kind = \<lparr>tg_id = i, tg_graph_id = 1, tg_version_id = 2, tg_created_by = 7, tg_name = ''t'',
     tg_type = SCHEDULE, tg_enabled = True, tg_schedule_kind = kind, tg_interval_seconds = Some 60,
     tg_cron_expression = None, tg_timezone = ''UTC'', tg_next_run_at = Some 1000000, tg_last_run_at = None,
     tg_last_run_id = None, tg_webhook_secret = None, tg_rate_limit = 60, tg_created_at = 0\<rparr>"

definition trigger_db :: db where
  "trigger_db = empty_db\<lparr>db_triggers := [demo_trigger 3 (Some ''interval''), demo_trigger 4 (Some ''weekly'')], db_next := 10\<rparr>"


end
