(* ===== verification/IpAddress.thy ===== *)
theory IpAddress
  imports PyText
begin

unbundle bit_operations_syntax

text \<open>
  The part of Python's \<open>ipaddress\<close> (3.11, the version of the images) that the egress policy uses: addresses
  as words of 32 and 128 bits, their textual forms, membership in networks, and the tables behind
  \<open>is_global\<close>, \<open>is_private\<close> and the like. An IPv6 address may carry a scope.
\<close>

datatype ip_address = IPv4 "32 word" | IPv6 "128 word" "string option"

datatype ip_network = Net4 "32 word" nat | Net6 "128 word" nat

subsection \<open>Parsing and printing IPv4\<close>

definition parse_octet :: "string \<Rightarrow> nat option" where
  "parse_octet s =
     (if s = [] \<or> \<not> list_all is_digit s \<or> 3 < length s \<or> (s \<noteq> ''0'' \<and> hd s = CHR ''0'') \<or> 255 < decimal_value s
      then None else Some (decimal_value s))"

definition quad :: "nat \<Rightarrow> nat \<Rightarrow> nat \<Rightarrow> nat \<Rightarrow> 32 word" where
  "quad a b c d = of_nat (((a * 256 + b) * 256 + c) * 256 + d)"

definition parse_ipv4 :: "string \<Rightarrow> 32 word option" where
  "parse_ipv4 s =
     (case map parse_octet (split_on CHR ''.'' s) of
        [Some a, Some b, Some c, Some d] \<Rightarrow> Some (quad a b c d)
      | _ \<Rightarrow> None)"

definition octet :: "32 word \<Rightarrow> nat \<Rightarrow> nat" where
  "octet w i = unat (drop_bit (8 * i) w AND 0xFF)"

definition ipv4_text :: "32 word \<Rightarrow> string" where
  "ipv4_text w = join_on CHR ''.'' (map (\<lambda>i. nat_str (octet w i)) [3, 2, 1, 0])"

subsection \<open>Parsing and printing IPv6\<close>

definition hex_value :: "char \<Rightarrow> nat option" where
  "hex_value c =
     (let n = (of_char c :: nat) in
      if 48 \<le> n \<and> n \<le> 57 then Some (n - 48)
      else if 97 \<le> n \<and> n \<le> 102 then Some (n - 87)
      else if 65 \<le> n \<and> n \<le> 70 then Some (n - 55) else None)"

definition hex_number :: "string \<Rightarrow> nat" where
  "hex_number s = foldl (\<lambda>n c. 16 * n + (case hex_value c of None \<Rightarrow> 0 | Some d \<Rightarrow> d)) 0 s"

definition parse_hextet :: "string \<Rightarrow> nat option" where
  "parse_hextet s = (if s = [] \<or> \<not> list_all (\<lambda>c. hex_value c \<noteq> None) s \<or> 4 < length s then None else Some (hex_number s))"

definition hex_char_of :: "nat \<Rightarrow> char" where
  "hex_char_of n = (if n < 10 then char_of (48 + n) else char_of (87 + n))"

fun hex_text :: "nat \<Rightarrow> string" where
  "hex_text n = (if n < 16 then [hex_char_of n] else hex_text (n div 16) @ [hex_char_of (n mod 16)])"

declare hex_text.simps [simp del]

text \<open>The trailing IPv4 form becomes two hextets.\<close>

definition expand_ipv4_suffix :: "string list \<Rightarrow> string list option" where
  "expand_ipv4_suffix parts =
     (if CHR ''.'' \<in> set (last parts)
      then (case parse_ipv4 (last parts) of
              None \<Rightarrow> None
            | Some w \<Rightarrow> Some (butlast parts @ [hex_text (unat (drop_bit 16 w AND 0xFFFF)), hex_text (unat (w AND 0xFFFF))]))
      else Some parts)"

text \<open>The positions strictly inside the list that hold an empty part.\<close>

definition inner_gaps :: "string list \<Rightarrow> nat list" where
  "inner_gaps parts = filter (\<lambda>i. parts ! i = []) [1..<length parts - 1]"

text \<open>How many parts stand before and after the gap, and how many hextets the gap stands for.\<close>

definition gap_counts :: "string list \<Rightarrow> nat \<Rightarrow> (nat \<times> nat) option" where
  "gap_counts parts gap =
     (let hi = gap; lo = length parts - gap - 1;
          hi' = (if hd parts = [] then hi - 1 else hi); lo' = (if last parts = [] then lo - 1 else lo) in
      if hd parts = [] \<and> hi' \<noteq> 0 \<or> last parts = [] \<and> lo' \<noteq> 0 \<or> 7 < hi' + lo' then None
      else Some (hi', lo'))"

definition horner :: "nat list \<Rightarrow> nat" where
  "horner hs = foldl (\<lambda>n h. n * 65536 + h) 0 hs"

fun opt_list :: "'a option list \<Rightarrow> 'a list option" where
  "opt_list [] = Some []"
| "opt_list (x # xs) = (case x of None \<Rightarrow> None | Some v \<Rightarrow> (case opt_list xs of None \<Rightarrow> None | Some vs \<Rightarrow> Some (v # vs)))"

definition parse_hextets :: "string list \<Rightarrow> nat list option" where
  "parse_hextets parts =
     (case inner_gaps parts of
        [] \<Rightarrow> if length parts \<noteq> 8 \<or> hd parts = [] \<or> last parts = [] then None else opt_list (map parse_hextet parts)
      | [gap] \<Rightarrow>
          (case gap_counts parts gap of
             None \<Rightarrow> None
           | Some (hi, lo) \<Rightarrow>
               (case (opt_list (map parse_hextet (take hi parts)),
                      opt_list (map parse_hextet (drop (length parts - lo) parts))) of
                  (Some hs, Some ls) \<Rightarrow> Some (hs @ replicate (8 - (hi + lo)) 0 @ ls)
                | _ \<Rightarrow> None))
      | _ \<Rightarrow> None)"

definition parse_ipv6 :: "string \<Rightarrow> 128 word option" where
  "parse_ipv6 s =
     (let parts = split_on CHR '':'' s in
      if length parts < 3 then None
      else (case expand_ipv4_suffix parts of
         None \<Rightarrow> None
       | Some parts \<Rightarrow>
           if 9 < length parts then None
           else map_option (\<lambda>hs. of_nat (horner hs)) (parse_hextets parts)))"

text \<open>\<open>partition('%')\<close>: a scope is not empty and has no second percent sign.\<close>

definition split_scope :: "string \<Rightarrow> (string \<times> string option) option" where
  "split_scope s =
     (let addr = takeWhile (\<lambda>c. c \<noteq> CHR ''%'') s in
      case dropWhile (\<lambda>c. c \<noteq> CHR ''%'') s of
        [] \<Rightarrow> Some (addr, None)
      | _ # scope \<Rightarrow> if scope = [] \<or> CHR ''%'' \<in> set scope then None else Some (addr, Some scope))"

text \<open>\<open>ipaddress.ip_address\<close>: first as IPv4, then as IPv6.\<close>

definition ip_address :: "string \<Rightarrow> ip_address option" where
  "ip_address s =
     (if CHR ''/'' \<in> set s then None
      else case parse_ipv4 s of
        Some w \<Rightarrow> Some (IPv4 w)
      | None \<Rightarrow> (case split_scope s of
            None \<Rightarrow> None
          | Some (addr, scope) \<Rightarrow> map_option (\<lambda>w. IPv6 w scope) (parse_ipv6 addr)))"

text \<open>The longest run of zeros, the first of several, is written as a gap.\<close>

fun best_run :: "nat \<Rightarrow> nat list \<Rightarrow> nat \<times> nat \<Rightarrow> nat \<times> nat \<Rightarrow> nat \<times> nat" where
  "best_run i [] (start, run) best = best"
| "best_run i (h # hs) (start, run) best =
     (if h = 0
      then (let start' = (if run = 0 then i else start); run' = Suc run in
            best_run (Suc i) hs (start', run') (if snd best < run' then (start', run') else best))
      else best_run (Suc i) hs (0, 0) best)"

definition compress_hextets :: "nat list \<Rightarrow> string list" where
  "compress_hextets hs =
     (let (start, run) = best_run 0 hs (0, 0) (0, 0); text = map hex_text hs in
      if 1 < run
      then (if start = 0 then [[]] else []) @ take start text @ [[]] @ drop (start + run) text
        @ (if start + run = length hs then [[]] else [])
      else text)"

definition hextets_of :: "128 word \<Rightarrow> nat list" where
  "hextets_of w = map (\<lambda>i. unat (drop_bit (16 * i) w AND 0xFFFF)) [7, 6, 5, 4, 3, 2, 1, 0]"

definition ipv6_text :: "128 word \<Rightarrow> string" where
  "ipv6_text w = join_on CHR '':'' (compress_hextets (hextets_of w))"

fun ip_text :: "ip_address \<Rightarrow> string" where
  "ip_text (IPv4 w) = ipv4_text w"
| "ip_text (IPv6 w None) = ipv6_text w"
| "ip_text (IPv6 w (Some scope)) = ipv6_text w @ CHR ''%'' # scope"

subsection \<open>Networks\<close>

definition in_net4 :: "32 word \<Rightarrow> 32 word \<times> nat \<Rightarrow> bool" where
  "in_net4 a n = (a AND NOT (mask (32 - snd n)) = fst n)"

definition in_net6 :: "128 word \<Rightarrow> 128 word \<times> nat \<Rightarrow> bool" where
  "in_net6 a n = (a AND NOT (mask (128 - snd n)) = fst n)"

fun in_network :: "ip_address \<Rightarrow> ip_network \<Rightarrow> bool" where
  "in_network (IPv4 a) (Net4 n len) = in_net4 a (n, len)"
| "in_network (IPv6 a _) (Net6 n len) = in_net6 a (n, len)"
| "in_network _ _ = False"

definition v6 :: "nat list \<Rightarrow> 128 word" where
  "v6 hs = of_nat (horner (hs @ replicate (8 - length hs) 0))"

definition private4 :: "(32 word \<times> nat) list" where
  "private4 = [(quad 0 0 0 0, 8), (quad 10 0 0 0, 8), (quad 127 0 0 0, 8), (quad 169 254 0 0, 16), (quad 172 16 0 0, 12),
     (quad 192 0 0 0, 24), (quad 192 0 0 170, 31), (quad 192 0 2 0, 24), (quad 192 168 0 0, 16), (quad 198 18 0 0, 15),
     (quad 198 51 100 0, 24), (quad 203 0 113 0, 24), (quad 240 0 0 0, 4), (quad 255 255 255 255, 32)]"

definition private4_exceptions :: "(32 word \<times> nat) list" where
  "private4_exceptions = [(quad 192 0 0 9, 32), (quad 192 0 0 10, 32)]"

definition private6 :: "(128 word \<times> nat) list" where
  "private6 = [(v6 [0, 0, 0, 0, 0, 0, 0, 1], 128), (v6 [], 128), (v6 [0, 0, 0, 0, 0, 0xFFFF], 96), (v6 [0x64, 0xFF9B, 1], 48),
     (v6 [0x100], 64), (v6 [0x2001], 23), (v6 [0x2001, 0xDB8], 32), (v6 [0x2002], 16), (v6 [0xFC00], 7), (v6 [0xFE80], 10)]"

definition private6_exceptions :: "(128 word \<times> nat) list" where
  "private6_exceptions = [(v6 [0x2001, 1, 0, 0, 0, 0, 0, 1], 128), (v6 [0x2001, 1, 0, 0, 0, 0, 0, 2], 128),
     (v6 [0x2001, 3], 32), (v6 [0x2001, 4, 0x112], 48), (v6 [0x2001, 0x20], 28), (v6 [0x2001, 0x30], 28)]"

definition reserved6 :: "(128 word \<times> nat) list" where
  "reserved6 = [(v6 [], 8), (v6 [0x100], 8), (v6 [0x200], 7), (v6 [0x400], 6), (v6 [0x800], 5), (v6 [0x1000], 4),
     (v6 [0x4000], 3), (v6 [0x6000], 3), (v6 [0x8000], 3), (v6 [0xA000], 3), (v6 [0xC000], 3), (v6 [0xE000], 4),
     (v6 [0xF000], 5), (v6 [0xF800], 6), (v6 [0xFE00], 9)]"

definition is_private4 :: "32 word \<Rightarrow> bool" where
  "is_private4 a \<longleftrightarrow> list_ex (in_net4 a) private4 \<and> \<not> list_ex (in_net4 a) private4_exceptions"

definition ipv4_mapped :: "128 word \<Rightarrow> 32 word option" where
  "ipv4_mapped a = (if drop_bit 32 a \<noteq> 0xFFFF then None else Some (ucast (a AND 0xFFFFFFFF)))"

definition is_private6 :: "128 word \<Rightarrow> bool" where
  "is_private6 a = (case ipv4_mapped a of
     Some b \<Rightarrow> is_private4 b
   | None \<Rightarrow> list_ex (in_net6 a) private6 \<and> \<not> list_ex (in_net6 a) private6_exceptions)"

fun is_private :: "ip_address \<Rightarrow> bool" where
  "is_private (IPv4 a) = is_private4 a" | "is_private (IPv6 a _) = is_private6 a"

fun is_global :: "ip_address \<Rightarrow> bool" where
  "is_global (IPv4 a) = (\<not> in_net4 a (quad 100 64 0 0, 10) \<and> \<not> is_private4 a)"
| "is_global (IPv6 a _) = (\<not> is_private6 a)"

fun is_loopback :: "ip_address \<Rightarrow> bool" where
  "is_loopback (IPv4 a) = in_net4 a (quad 127 0 0 0, 8)" | "is_loopback (IPv6 a _) = (a = 1)"

fun is_link_local :: "ip_address \<Rightarrow> bool" where
  "is_link_local (IPv4 a) = in_net4 a (quad 169 254 0 0, 16)" | "is_link_local (IPv6 a _) = in_net6 a (v6 [0xFE80], 10)"

fun is_site_local :: "ip_address \<Rightarrow> bool" where
  "is_site_local (IPv4 a) = False" | "is_site_local (IPv6 a _) = in_net6 a (v6 [0xFEC0], 10)"

fun is_multicast :: "ip_address \<Rightarrow> bool" where
  "is_multicast (IPv4 a) = in_net4 a (quad 224 0 0 0, 4)" | "is_multicast (IPv6 a _) = in_net6 a (v6 [0xFF00], 8)"

fun is_unspecified :: "ip_address \<Rightarrow> bool" where
  "is_unspecified (IPv4 a) = (a = 0)" | "is_unspecified (IPv6 a _) = (a = 0)"

fun is_reserved :: "ip_address \<Rightarrow> bool" where
  "is_reserved (IPv4 a) = in_net4 a (quad 240 0 0 0, 4)" | "is_reserved (IPv6 a _) = list_ex (in_net6 a) reserved6"

subsection \<open>Printing and parsing are inverse\<close>

lemma parse_octet_text: "n < 256 \<Longrightarrow> parse_octet (nat_str n) = Some n"
proof -
  assume n: "n < 256"
  have "length (nat_str n) \<le> 3" by (rule nat_str_length) (use n in simp_all)
  moreover have "nat_str n = ''0''" if "hd (nat_str n) = CHR ''0''"
  proof -
    obtain c cs where s: "nat_str n = c # cs" by (cases "nat_str n") simp_all
    then have "n = 0" using nat_str_head [OF s] that by simp
    moreover have "nat_str 0 = ''0''" by code_simp
    ultimately show ?thesis by simp
  qed
  ultimately show ?thesis using n by (auto simp: parse_octet_def nat_str_digits nat_str_value)
qed

lemma octet_div: "octet w i = unat w div 2 ^ (8 * i) mod 256"
proof -
  have m: "(0xFF :: 32 word) = mask 8" by (simp add: mask_eq_exp_minus_1)
  show ?thesis unfolding octet_def m take_bit_eq_mask [symmetric] unsigned_take_bit_eq unat_drop_bit_eq
    by (simp add: take_bit_eq_mod drop_bit_eq_div)
qed

lemma quad_octets: "quad (octet w 3) (octet w 2) (octet w 1) (octet w 0) = w"
proof -
  let ?n = "unat w"
  have "?n < 2 ^ 32" using unsigned_less [of w, where ?'a = nat] by simp
  then have top: "?n div 16777216 mod 256 = ?n div 16777216" by (simp add: less_mult_imp_div_less)
  have "((?n div 16777216 * 256 + ?n div 65536 mod 256) * 256 + ?n div 256 mod 256) * 256 + ?n mod 256 = ?n"
  proof -
    have step: "?n div (m * 256) * 256 + ?n div m mod 256 = ?n div m" for m
      by (simp add: div_mult2_eq)
    show ?thesis using step [of 65536] step [of 256] step [of 1] by simp
  qed
  then have "((octet w 3 * 256 + octet w 2) * 256 + octet w 1) * 256 + octet w 0 = ?n"
    using top by (simp add: octet_div)
  then show ?thesis by (simp add: quad_def)
qed

lemma digit_no_separator: "list_all is_digit s \<Longrightarrow> CHR ''.'' \<notin> set s \<and> CHR '':'' \<notin> set s \<and> CHR ''%'' \<notin> set s \<and> CHR ''/'' \<notin> set s"
  by (auto simp: list_all_iff is_digit_def)

lemma ipv4_round_trip: "parse_ipv4 (ipv4_text w) = Some w"
proof -
  let ?ps = "map (\<lambda>i. nat_str (octet w i)) [3, 2, 1, 0]"
  have lt: "octet w i < 256" for i by (simp add: octet_div)
  have "list_all (\<lambda>p. CHR ''.'' \<notin> set p) ?ps"
    using digit_no_separator [OF nat_str_digits] by simp
  then have "split_on CHR ''.'' (ipv4_text w) = ?ps"
    unfolding ipv4_text_def by (intro split_join) simp_all
  then show ?thesis by (simp add: parse_ipv4_def parse_octet_text lt quad_octets [simplified])
qed

lemma octet_quad:
  assumes "a < 256" "b < 256" "c < 256" "d < 256"
  shows "map (octet (quad a b c d)) [3, 2, 1, 0] = [a, b, c, d]"
proof -
  let ?n = "((a * 256 + b) * 256 + c) * 256 + d"
  have "?n < 2 ^ 32" using assms by simp
  moreover have "unat (of_nat m :: 32 word) = m" if "m < 2 ^ 32" for m
    using that by (simp add: unat_of_nat take_bit_eq_mod)
  ultimately have n: "unat (quad a b c d) = ?n" unfolding quad_def by blast
  have s: "(x * 256 + y) div 256 = x" "(x * 256 + y) mod 256 = y" if "y < 256" for x y :: nat
    using that by simp_all
  have d1: "?n div 256 = (a * 256 + b) * 256 + c" using s(1) [OF assms(4)] .
  have d2: "?n div 65536 = a * 256 + b"
    using div_mult2_eq [of ?n 256 256] d1 s(1) [OF assms(3), of "a * 256 + b"] by simp
  have d3: "?n div 16777216 = a"
    using div_mult2_eq [of ?n 65536 256] d2 s(1) [OF assms(2), of a] by simp
  have "octet (quad a b c d) 3 = ?n div 16777216 mod 256" "octet (quad a b c d) 2 = ?n div 65536 mod 256"
    "octet (quad a b c d) 1 = ?n div 256 mod 256" "octet (quad a b c d) 0 = ?n mod 256"
    unfolding octet_div n by simp_all
  then show ?thesis using assms s(2) [OF assms(2)] s(2) [OF assms(3)] s(2) [OF assms(4)]
    by (simp only: list.map d1 d2 d3) simp
qed

lemma parse_octet_value: "parse_octet s = Some n \<Longrightarrow> n < 256 \<and> nat_str n = s"
  using nat_str_decimal [of s] by (auto simp: parse_octet_def split: if_splits)

lemma ipv4_text_parse: "parse_ipv4 s = Some w \<Longrightarrow> ipv4_text w = s"
proof -
  assume "parse_ipv4 s = Some w"
  then obtain p1 p2 p3 p4 a b c d where p: "split_on CHR ''.'' s = [p1, p2, p3, p4]" "parse_octet p1 = Some a"
      "parse_octet p2 = Some b" "parse_octet p3 = Some c" "parse_octet p4 = Some d" "w = quad a b c d"
    by (auto simp: parse_ipv4_def map_eq_Cons_conv split: list.splits option.splits)
  note v = p(2-5) [THEN parse_octet_value]
  have "map (\<lambda>i. nat_str (octet w i)) [3, 2, 1, 0] = map nat_str (map (octet w) [3, 2, 1, 0])" by simp
  also have "\<dots> = [p1, p2, p3, p4]" using octet_quad [of a b c d] v by (simp only: p(6)) simp
  finally show ?thesis using join_split [of "CHR ''.''" s] by (simp only: ipv4_text_def p(1))
qed

subsection \<open>The same for IPv6\<close>

lemma hex_char_of: "n < 16 \<Longrightarrow> hex_value (hex_char_of n) = Some n"
  by (auto simp: hex_value_def hex_char_of_def of_char_of Let_def)

lemma hex_text_chars: "list_all (\<lambda>c. hex_value c \<noteq> None) (hex_text n)"
proof (induction n rule: hex_text.induct)
  case (1 n)
  then show ?case using hex_char_of [of n] hex_char_of [of "n mod 16"] by (subst hex_text.simps) simp
qed

lemma hex_text_number: "hex_number (hex_text n) = n"
proof (induction n rule: hex_text.induct)
  case (1 n)
  then show ?case using hex_char_of [of n] hex_char_of [of "n mod 16"]
    by (subst hex_text.simps) (simp add: hex_number_def)
qed

lemma hex_text_nonempty [simp]: "hex_text n \<noteq> []"
  by (subst hex_text.simps) simp

lemma hex_text_length: "n < 16 ^ k \<Longrightarrow> 0 < k \<Longrightarrow> length (hex_text n) \<le> k"
proof (induction k arbitrary: n)
  case (Suc k)
  show ?case
  proof (cases "n < 16")
    case True
    then show ?thesis by (subst hex_text.simps) simp
  next
    case False
    then have "0 < k" using Suc.prems by (cases k) auto
    moreover have "n div 16 < 16 ^ k" using Suc.prems by (simp add: less_mult_imp_div_less)
    ultimately have "length (hex_text (n div 16)) \<le> k" by (rule Suc.IH [rotated])
    then show ?thesis using False by (subst hex_text.simps) simp
  qed
qed simp

lemma parse_hextet_text: "n < 65536 \<Longrightarrow> parse_hextet (hex_text n) = Some n"
  using hex_text_length [of n 4] hex_text_chars [of n] by (auto simp: parse_hextet_def hex_text_number)

lemma parse_hextet_texts: "list_all (\<lambda>n. n < 65536) hs \<Longrightarrow> opt_list (map parse_hextet (map hex_text hs)) = Some hs"
  by (induction hs) (simp_all add: parse_hextet_text)

lemma hex_no_separator:
  "CHR '':'' \<notin> set (hex_text n)" "CHR ''.'' \<notin> set (hex_text n)" "CHR ''%'' \<notin> set (hex_text n)"
  "CHR ''/'' \<notin> set (hex_text n)"
proof -
  have "hex_value CHR '':'' = None" "hex_value CHR ''.'' = None" "hex_value CHR ''%'' = None" "hex_value CHR ''/'' = None"
    by (simp_all add: hex_value_def Let_def)
  then show "CHR '':'' \<notin> set (hex_text n)" "CHR ''.'' \<notin> set (hex_text n)" "CHR ''%'' \<notin> set (hex_text n)"
    "CHR ''/'' \<notin> set (hex_text n)"
    using hex_text_chars [of n] unfolding list_all_iff by metis+
qed

text \<open>The run that is written as a gap consists of zeros.\<close>

definition zero_run :: "nat list \<Rightarrow> nat \<times> nat \<Rightarrow> bool" where
  "zero_run hs sr \<longleftrightarrow> fst sr + snd sr \<le> length hs \<and> (\<forall>k < snd sr. hs ! (fst sr + k) = 0)"

lemma zero_run_append: "zero_run pre sr \<Longrightarrow> zero_run (pre @ hs) sr"
  unfolding zero_run_def by (intro conjI allI impI) (simp_all add: nth_append)

lemma best_run_zero:
  assumes "zero_run (pre @ hs) best" "zero_run pre (start, run)" "run \<noteq> 0 \<Longrightarrow> start + run = length pre"
  shows "zero_run (pre @ hs) (best_run (length pre) hs (start, run) best)"
  using assms
proof (induction hs arbitrary: pre start run best)
  case (Cons h hs)
  show ?case
  proof (cases "h = 0")
    case False
    have "zero_run ((pre @ [h]) @ hs) (best_run (length (pre @ [h])) hs (0, 0) best)"
      by (rule Cons.IH) (use Cons.prems in \<open>simp_all add: zero_run_def\<close>)
    then show ?thesis using False by simp
  next
    case True
    let ?s = "if run = 0 then length pre else start" and ?r = "Suc run"
    have end_pre: "?s + run = length pre" using Cons.prems(3) by simp
    have run: "zero_run (pre @ [h]) (?s, ?r)"
      unfolding zero_run_def
    proof (intro conjI allI impI)
      show "fst (?s, ?r) + snd (?s, ?r) \<le> length (pre @ [h])" using end_pre by simp
      fix k assume "k < snd (?s, ?r)"
      then consider "k < run" | "k = run" by fastforce
      then show "(pre @ [h]) ! (fst (?s, ?r) + k) = 0"
      proof cases
        case 1
        then have "pre ! (start + k) = 0" "start + k < length pre" "?s = start"
          using Cons.prems(2,3) by (auto simp: zero_run_def)
        then show ?thesis by (simp add: nth_append)
      next
        case 2
        then show ?thesis using end_pre True by (simp add: nth_append)
      qed
    qed
    have "zero_run ((pre @ [h]) @ hs) (?s, ?r)" by (rule zero_run_append [OF run])
    then have "zero_run ((pre @ [h]) @ hs)
        (best_run (length (pre @ [h])) hs (?s, ?r) (if snd best < ?r then (?s, ?r) else best))"
      by (intro Cons.IH) (use Cons.prems run end_pre in simp_all)
    then show ?thesis using True by (simp add: Let_def)
  qed
qed simp

lemma zero_run_split:
  assumes "zero_run hs (start, run)"
  shows "hs = take start hs @ replicate run 0 @ drop (start + run) hs"
proof (rule nth_equalityI)
  show "length hs = length (take start hs @ replicate run 0 @ drop (start + run) hs)"
    using assms by (simp add: zero_run_def)
  fix i assume i: "i < length hs"
  show "hs ! i = (take start hs @ replicate run 0 @ drop (start + run) hs) ! i"
  proof (cases "i < start \<or> start + run \<le> i")
    case True
    then show ?thesis using i assms by (auto simp: nth_append zero_run_def)
  next
    case False
    then have k: "i - start < run" "start + (i - start) = i" by auto
    then have "hs ! i = 0" using assms by (metis fst_conv snd_conv zero_run_def)
    then show ?thesis using False i k(1) by (simp add: nth_append)
  qed
qed

lemma filter_upt_single: "a \<le> g \<Longrightarrow> g < b \<Longrightarrow> (\<And>i. a \<le> i \<Longrightarrow> i < b \<Longrightarrow> P i \<longleftrightarrow> i = g) \<Longrightarrow> filter P [a..<b] = [g]"
proof -
  assume g: "a \<le> g" "g < b" and P: "\<And>i. a \<le> i \<Longrightarrow> i < b \<Longrightarrow> P i \<longleftrightarrow> i = g"
  have "[a..<b] = [a..<g] @ g # [Suc g..<b]" 
    using g upt_add_eq_append [of a g "b - g"] by (simp add: upt_conv_Cons)
  moreover have "filter P [a..<g] = []" "filter P [Suc g..<b] = []" using g P by (auto simp: filter_empty_conv)
  ultimately show ?thesis using P [OF g] by simp
qed

lemma inner_gaps_none: "list_all (\<lambda>p. p \<noteq> []) parts \<Longrightarrow> inner_gaps parts = []"
  unfolding inner_gaps_def filter_empty_conv by (auto simp: list_all_length)

text \<open>Parts with one gap: the parser finds it and counts what stands around it.\<close>

lemma parse_gap:
  assumes "list_all (\<lambda>p. p \<noteq> []) pre" "list_all (\<lambda>p. p \<noteq> []) post" "length pre + length post < 8"
    "opt_list (map parse_hextet pre) = Some hs" "opt_list (map parse_hextet post) = Some ls"
  defines "parts \<equiv> (if pre = [] then [[]] else []) @ pre @ [[]] @ post @ (if post = [] then [[]] else [])"
  shows "parse_hextets parts = Some (hs @ replicate (8 - (length pre + length post)) 0 @ ls)"
proof -
  let ?g = "max 1 (length pre)"
  let ?n = "length parts"
  have n: "?n = ?g + 1 + max 1 (length post)"
    by (auto simp: parts_def max_def Suc_le_eq)
  have nth: "parts ! i = [] \<longleftrightarrow> i = ?g" if "1 \<le> i" "i < ?n - 1" for i
  proof (cases "pre = []")
    case True
    then have parts: "parts = [] # [] # post @ (if post = [] then [[]] else [])" by (simp add: parts_def)
    show ?thesis
    proof (cases "i = 1")
      case False
      then obtain j where j: "i = Suc (Suc j)" using \<open>1 \<le> i\<close> by (metis One_nat_def Suc_le_D nat.exhaust)
      have "j < length post" using that(2) n j True by (cases post) (auto simp: max_def split: if_splits)
      then show ?thesis using j True assms(2) by (simp add: parts nth_append list_all_length)
    qed (simp add: parts True)
  next
    case False
    then have parts: "parts = pre @ [] # post @ (if post = [] then [[]] else [])" by (simp add: parts_def)
    have g: "?g = length pre" using False by (simp add: Suc_le_eq max_def)
    consider "i < length pre" | "i = length pre" | j where "i = length pre + Suc j"
      by (metis less_iff_Suc_add linorder_neqE_nat add_Suc_right)
    then show ?thesis
    proof cases
      case 1
      then show ?thesis using assms(1) g by (auto simp: parts nth_append list_all_length)
    next
      case 2
      then show ?thesis using g by (simp add: parts)
    next
      case 3
      then have "j < length post" using that(2) n g by (auto simp: max_def split: if_splits)
      then show ?thesis using 3 g assms(2) by (simp add: parts nth_append list_all_length)
    qed
  qed
  have gaps: "inner_gaps parts = [?g]"
    unfolding inner_gaps_def by (rule filter_upt_single) (use n nth in auto)
  have hd: "hd parts = [] \<longleftrightarrow> pre = []"
    using assms(1) by (cases pre) (auto simp: parts_def)
  have last: "last parts = [] \<longleftrightarrow> post = []"
    using assms(2) by (cases post rule: rev_cases) (auto simp: parts_def)
  have "gap_counts parts ?g = Some (length pre, length post)"
    using assms(3) n by (cases pre; cases post) (auto simp: gap_counts_def Let_def hd last)
  moreover have "take (length pre) parts = pre" by (cases pre) (auto simp: parts_def)
  moreover have "drop (?n - length post) parts = post"
  proof (cases post)
    case (Cons p ps)
    then have "parts = ((if pre = [] then [[]] else []) @ pre @ [[]]) @ post" by (simp add: parts_def)
    then show ?thesis by (metis append_eq_conv_conj diff_add_inverse2 length_append)
  qed simp
  ultimately show ?thesis
    unfolding parse_hextets_def gaps using assms(4,5) by simp
qed

lemma hextet_div: "unat (drop_bit (16 * i) (w :: 128 word) AND 0xFFFF) = unat w div 2 ^ (16 * i) mod 65536"
proof -
  have m: "(0xFFFF :: 128 word) = mask 16" by (simp add: mask_eq_exp_minus_1)
  show ?thesis unfolding m take_bit_eq_mask [symmetric] unsigned_take_bit_eq unat_drop_bit_eq
    by (simp add: take_bit_eq_mod drop_bit_eq_div)
qed

lemma horner_hextets: "horner (hextets_of w) = unat w"
proof -
  let ?n = "unat w"
  have "?n < 2 ^ 128" using unsigned_less [of w, where ?'a = nat] by simp
  then have top: "?n div 2 ^ (16 * 7) mod 65536 = ?n div 2 ^ (16 * 7)" by (simp add: less_mult_imp_div_less)
  have step: "?n div 2 ^ (16 * Suc i) * 65536 + ?n div 2 ^ (16 * i) mod 65536 = ?n div 2 ^ (16 * i)" for i
  proof -
    have "(2::nat) ^ (16 * Suc i) = 2 ^ (16 * i) * 65536" by (simp add: power_add)
    then show ?thesis by (simp only: div_mult2_eq div_mult_mod_eq)
  qed
  have n: "7 = Suc 6" "6 = Suc 5" "5 = Suc 4" "4 = Suc 3" "3 = Suc 2" "2 = Suc 1" "(1::nat) = Suc 0" by simp_all
  have "horner (hextets_of w) = ?n div 2 ^ (16 * 0)"
    unfolding horner_def hextets_of_def hextet_div list.map foldl.simps top
    using step [of 6] step [of 5] step [of 4] step [of 3] step [of 2] step [of 1] step [of 0] by simp
  then show ?thesis by simp
qed

lemma hextets_bound: "list_all (\<lambda>h. h < 65536) (hextets_of w)" "length (hextets_of w) = 8"
  by (simp_all add: hextets_of_def hextet_div)

lemma compress_chars: "p \<in> set (compress_hextets hs) \<Longrightarrow> p = [] \<or> (\<exists>h. p = hex_text h)"
  by (auto simp: compress_hextets_def Let_def take_map drop_map split: prod.splits if_splits)

lemma parse_compressed:
  assumes "list_all (\<lambda>h. h < 65536) hs" "length hs = 8"
  shows "parse_hextets (compress_hextets hs) = Some hs \<and> 3 \<le> length (compress_hextets hs) \<and>
    length (compress_hextets hs) \<le> 9"
proof -
  let ?text = "map hex_text hs"
  obtain start run where b: "best_run 0 hs (0, 0) (0, 0) = (start, run)" by fastforce
  have z: "zero_run hs (start, run)"
    using best_run_zero [of "[]" hs "(0, 0)" 0 0] b by (simp add: zero_run_def)
  note split = zero_run_split [OF z]
  have le: "start + run \<le> 8" using z assms(2) by (simp add: zero_run_def)
  show ?thesis
  proof (cases "1 < run")
    case False
    then have c: "compress_hextets hs = ?text" by (simp add: compress_hextets_def b)
    have "list_all (\<lambda>p. p \<noteq> []) ?text" by (simp add: list_all_iff)
    then have "inner_gaps ?text = []" by (rule inner_gaps_none)
    moreover have "hd ?text \<noteq> []" "last ?text \<noteq> []" using assms(2) by (cases hs; simp add: last_map)+
    ultimately show ?thesis
      using assms parse_hextet_texts [OF assms(1)] unfolding c parse_hextets_def by simp
  next
    case True
    let ?pre = "take start ?text" and ?post = "drop (start + run) ?text"
    have pre: "?pre = [] \<longleftrightarrow> start = 0" using assms(2) le True by auto
    have post: "?post = [] \<longleftrightarrow> start + run = 8" using assms(2) le by auto
    have c: "compress_hextets hs = (if ?pre = [] then [[]] else []) @ ?pre @ [[]] @ ?post @ (if ?post = [] then [[]] else [])"
      unfolding pre post using True assms(2) by (simp add: compress_hextets_def b Let_def)
    have len: "length ?pre = start" "length ?post = 8 - (start + run)" using assms(2) le by simp_all
    have ne: "list_all (\<lambda>p. p \<noteq> []) ?pre" "list_all (\<lambda>p. p \<noteq> []) ?post"
      by (simp_all add: list_all_iff take_map drop_map)
    have vals: "opt_list (map parse_hextet ?pre) = Some (take start hs)"
      "opt_list (map parse_hextet ?post) = Some (drop (start + run) hs)"
      using assms(1) parse_hextet_texts [of "take start hs"] parse_hextet_texts [of "drop (start + run) hs"]
      by (auto simp: take_map drop_map list_all_iff dest: in_set_takeD in_set_dropD)
    have short: "length ?pre + length ?post < 8" using len le True by simp
    have "parse_hextets (compress_hextets hs) =
        Some (take start hs @ replicate (8 - (length ?pre + length ?post)) 0 @ drop (start + run) hs)"
      unfolding c by (rule parse_gap [OF ne short vals])
    moreover have "8 - (length ?pre + length ?post) = run" using len le by simp
    moreover have "3 \<le> length (compress_hextets hs)" "length (compress_hextets hs) \<le> 9"
      unfolding c using len le True by (auto simp: pre post)
    ultimately show ?thesis using split by simp
  qed
qed

lemma ipv6_round_trip: "parse_ipv6 (ipv6_text w) = Some w"
proof -
  let ?ps = "compress_hextets (hextets_of w)"
  note p = parse_compressed [OF hextets_bound]
  have ne: "?ps \<noteq> []" using p [of w] by auto
  have "list_all (\<lambda>p. CHR '':'' \<notin> set p) ?ps"
    using compress_chars hex_no_separator(1) by (fastforce simp: list_all_iff)
  then have s: "split_on CHR '':'' (ipv6_text w) = ?ps"
    unfolding ipv6_text_def by (rule split_join [OF ne])
  have "last ?ps = [] \<or> (\<exists>h. last ?ps = hex_text h)" by (rule compress_chars [of _ "hextets_of w"]) (simp add: ne)
  then have "CHR ''.'' \<notin> set (last ?ps)" using hex_no_separator(2) by auto
  then show ?thesis using p [of w] by (simp add: parse_ipv6_def s expand_ipv4_suffix_def horner_hextets)
qed

lemma ipv6_text_chars: "CHR ''.'' \<notin> set (ipv6_text w)" "CHR ''%'' \<notin> set (ipv6_text w)" "CHR ''/'' \<notin> set (ipv6_text w)"
proof -
  have "c \<notin> set (ipv6_text w)" if "c \<noteq> CHR '':''" "\<And>h. c \<notin> set (hex_text h)" for c
    using set_join_on [of "CHR '':''" "compress_hextets (hextets_of w)"] compress_chars [of _ "hextets_of w"] that
    unfolding ipv6_text_def by fastforce
  then show "CHR ''.'' \<notin> set (ipv6_text w)" "CHR ''%'' \<notin> set (ipv6_text w)" "CHR ''/'' \<notin> set (ipv6_text w)"
    using hex_no_separator by simp_all
qed

lemma ipv4_text_chars: "CHR ''%'' \<notin> set (ipv4_text w)" "CHR ''/'' \<notin> set (ipv4_text w)"
  using set_join_on [of "CHR ''.''" "map (\<lambda>i. nat_str (octet w i)) [3, 2, 1, 0]"] digit_no_separator [OF nat_str_digits]
  unfolding ipv4_text_def by fastforce+

text \<open>Addresses as the parser makes them: a scope is not empty and has neither separator in it.\<close>

fun ip_wf :: "ip_address \<Rightarrow> bool" where
  "ip_wf (IPv4 w) = True"
| "ip_wf (IPv6 w None) = True"
| "ip_wf (IPv6 w (Some scope)) = (scope \<noteq> [] \<and> CHR ''%'' \<notin> set scope \<and> CHR ''/'' \<notin> set scope \<and> CHR ''.'' \<notin> set scope)"

lemma no_dot_no_ipv4: "CHR ''.'' \<notin> set s \<Longrightarrow> parse_ipv4 s = None"
  by (simp add: parse_ipv4_def split_on_whole split: list.split option.split)

lemma ip_round_trip: "ip_wf a \<Longrightarrow> ip_address (ip_text a) = Some a"
proof (cases a)
  case (IPv4 w)
  then show ?thesis using ipv4_text_chars(2) by (simp add: ip_address_def ipv4_round_trip)
next
  case (IPv6 w scope)
  assume wf: "ip_wf a"
  show ?thesis
  proof (cases scope)
    case None
    have nc: "\<forall>c \<in> set (ipv6_text w). c \<noteq> CHR ''%''" using ipv6_text_chars(2) by metis
    then have tw: "takeWhile (\<lambda>c. c \<noteq> CHR ''%'') (ipv6_text w) = ipv6_text w" "dropWhile (\<lambda>c. c \<noteq> CHR ''%'') (ipv6_text w) = []"
      by (simp_all only: takeWhile_eq_all_conv dropWhile_eq_Nil_conv)
    then have "split_scope (ipv6_text w) = Some (ipv6_text w, None)"
      unfolding split_scope_def tw Let_def by simp
    then show ?thesis using IPv6 None ipv6_text_chars [of w]
      by (simp add: ip_address_def no_dot_no_ipv4 ipv6_round_trip)
  next
    case (Some s)
    have nc: "\<forall>c \<in> set (ipv6_text w). c \<noteq> CHR ''%''" using ipv6_text_chars(2) by metis
    have "split_scope (ipv6_text w @ CHR ''%'' # s) = Some (ipv6_text w, Some s)"
      using wf IPv6 Some nc by (simp add: split_scope_def Let_def takeWhile_append dropWhile_append)
    then show ?thesis using IPv6 Some wf ipv6_text_chars [of w]
      by (simp add: ip_address_def no_dot_no_ipv4 ipv6_round_trip)
  qed
qed

end
