(* ===== verification/Webhooks.thy ===== *)
theory Webhooks
  imports Triggers IpAddress
begin

text \<open>
  Signed webhooks (\<open>services/webhook_service.py\<close>, \<open>receive_webhook\<close> of \<open>api/triggers.py\<close>): the checks
  of the request, the signature, the ledger of accepted deliveries and the conversion of a delivery
  into a run. The trigger row is locked, so accepting is one step. A body is a list of bytes,
  written as characters; \<open>int()\<close> of a header, HMAC, SHA-256 and the JSON parser are library functions.
\<close>

subsection \<open>The request\<close>

record webhook_request =
  wr_length :: "string option"
  wr_chunks :: "string list"
  wr_timestamp :: "string option"
  wr_signature :: "string option"
  wr_delivery :: "string option"

definition too_large :: trigger_error where
  "too_large = TriggerHttp 413 ''Webhook payload exceeds the configured limit''"

fun read_chunks :: "nat \<Rightarrow> string \<Rightarrow> string list \<Rightarrow> trigger_error + string" where
  "read_chunks limit body [] = Inr body"
| "read_chunks limit body (c # cs) =
     (if limit < length body + length c then Inl too_large else read_chunks limit (body @ c) cs)"

definition read_limited_body :: "trigger_env \<Rightarrow> nat \<Rightarrow> webhook_request \<Rightarrow> trigger_error + string" where
  "read_limited_body env limit r =
     (case wr_length r of
        None \<Rightarrow> read_chunks limit [] (wr_chunks r)
      | Some h \<Rightarrow> (case te_int env h of
            None \<Rightarrow> Inl (TriggerHttp 400 ''Invalid Content-Length header'')
          | Some n \<Rightarrow>
              if n < 0 then Inl (TriggerHttp 400 ''Invalid Content-Length header'')
              else if int limit < n then Inl too_large
              else read_chunks limit [] (wr_chunks r)))"

definition timestamp_text :: "string \<Rightarrow> bool" where
  "timestamp_text v \<longleftrightarrow>
     (let d = (if v \<noteq> [] \<and> hd v = CHR ''-'' then tl v else v)
      in 1 \<le> length d \<and> length d \<le> 12 \<and> list_all is_digit d)"

definition timestamp_seconds :: "string \<Rightarrow> int" where
  "timestamp_seconds v =
     (if v \<noteq> [] \<and> hd v = CHR ''-'' then - int (decimal_value (tl v)) else int (decimal_value v))"

text \<open>The instants a \<open>datetime\<close> can hold, from year 1 to year 9999.\<close>

definition datetime_range :: "int \<Rightarrow> bool" where
  "datetime_range n \<longleftrightarrow> - 62135596800 \<le> n \<and> n \<le> 253402300799"

definition parse_timestamp :: "int \<Rightarrow> string option \<Rightarrow> time \<Rightarrow> trigger_error + (string \<times> time)" where
  "parse_timestamp skew value now =
     (case value of
        None \<Rightarrow> Inl (TriggerHttp 400 ''X-Ingestion-Timestamp must be Unix seconds'')
      | Some v \<Rightarrow>
          if \<not> timestamp_text v \<or> \<not> datetime_range (timestamp_seconds v)
          then Inl (TriggerHttp 400 ''X-Ingestion-Timestamp must be Unix seconds'')
          else if seconds skew < \<bar>now - seconds (timestamp_seconds v)\<bar>
          then Inl (TriggerHttp 401 ''Webhook timestamp is outside the allowed clock skew'')
          else Inr (v, seconds (timestamp_seconds v)))"

definition parse_delivery_id :: "string option \<Rightarrow> trigger_error + string" where
  "parse_delivery_id value =
     (case value of
        None \<Rightarrow> Inl (TriggerHttp 400 ''X-Ingestion-Delivery is invalid'')
      | Some v \<Rightarrow>
          if 1 \<le> length v \<and> length v \<le> 255 \<and> list_all (\<lambda>c. 0x21 \<le> (of_char c :: nat) \<and> (of_char c :: nat) \<le> 0x7e) v
          then Inr v else Inl (TriggerHttp 400 ''X-Ingestion-Delivery is invalid''))"

fun hex_bytes :: "string \<Rightarrow> string" where
  "hex_bytes (a # b # cs) = char_of (hex_number [a, b]) # hex_bytes cs"
| "hex_bytes _ = []"

definition parse_signature :: "string option \<Rightarrow> trigger_error + string" where
  "parse_signature value =
     (let v = opt_or value []
      in if take 7 v = ''sha256='' \<and> length v = 71 \<and> list_all (\<lambda>c. hex_value c \<noteq> None) (drop 7 v)
         then Inr (hex_bytes (drop 7 v)) else Inl (TriggerHttp 401 ''X-Ingestion-Signature is invalid''))"

definition signed_payload :: "string \<Rightarrow> string \<Rightarrow> string \<Rightarrow> string" where
  "signed_payload timestamp delivery body = timestamp @ ''.'' @ delivery @ ''.'' @ body"

definition verify_webhook_signature :: "trigger_env \<Rightarrow> string \<Rightarrow> string \<Rightarrow> string \<Rightarrow> string \<Rightarrow> string \<Rightarrow> bool" where
  "verify_webhook_signature env secret timestamp delivery body digest \<longleftrightarrow>
     te_hmac env secret (signed_payload timestamp delivery body) = digest"

definition parse_json_object :: "trigger_env \<Rightarrow> string \<Rightarrow> trigger_error + obj" where
  "parse_json_object env body =
     (case te_json env body of
        None \<Rightarrow> Inl (TriggerHttp 400 ''Webhook body must be valid JSON'')
      | Some (JObj d) \<Rightarrow> Inr d
      | Some _ \<Rightarrow> Inl (TriggerHttp 400 ''Webhook body must be a JSON object''))"

subsection \<open>Accepting a delivery\<close>

definition already_delivered :: "db \<Rightarrow> uuid \<Rightarrow> string \<Rightarrow> bool" where
  "already_delivered db i delivery \<longleftrightarrow> list_ex (\<lambda>d. wd_trigger_id d = i \<and> wd_delivery_id d = delivery) (db_deliveries db)"

definition recent_deliveries :: "db \<Rightarrow> uuid \<Rightarrow> time \<Rightarrow> nat" where
  "recent_deliveries db i since = length (filter (\<lambda>d. wd_trigger_id d = i \<and> since \<le> wd_received_at d) (db_deliveries db))"

definition record_delivery ::
  "trigger_env \<Rightarrow> graph_trigger \<Rightarrow> string \<Rightarrow> string \<Rightarrow> obj \<Rightarrow> time \<Rightarrow> db \<Rightarrow> run \<times> db" where
  "record_delivery env t delivery body payload received db =
     (let (run, db1) = create_run (tg_graph_id t) (Some (tg_created_by t)) ''webhook'' (Some (tg_version_id t))
            (Some FULL) (Some payload) received db;
          row = \<lparr>wd_trigger_id = tg_id t, wd_delivery_id = delivery, wd_body_sha256 = te_sha256 env body,
            wd_received_at = received, wd_run_id = Some (rn_id run)\<rparr>
      in (run, upd_trigger (tg_id t) (\<lambda>x. x\<lparr>tg_last_run_at := Some received, tg_last_run_id := Some (rn_id run)\<rparr>)
           (db1\<lparr>db_deliveries := db_deliveries db1 @ [row]\<rparr>)))"

definition accept_webhook_delivery ::
  "trigger_env \<Rightarrow> uuid \<Rightarrow> string \<Rightarrow> string \<Rightarrow> string \<Rightarrow> string \<Rightarrow> time \<Rightarrow> db \<Rightarrow> (trigger_error + run) \<times> db" where
  "accept_webhook_delivery env i timestamp digest delivery body received db =
     (case find_trigger db i of
        None \<Rightarrow> (Inl (TriggerHttp 404 ''Webhook trigger not found''), db)
      | Some t \<Rightarrow>
          if tg_type t \<noteq> WEBHOOK \<or> \<not> tg_enabled t then (Inl (TriggerHttp 404 ''Webhook trigger not found''), db)
          else case decrypt_webhook_secret env t of
            Inl _ \<Rightarrow> (Inl (TriggerHttp 503 ''Webhook trigger is unavailable''), db)
          | Inr secret \<Rightarrow>
              if \<not> verify_webhook_signature env secret timestamp delivery body digest
              then (Inl (TriggerHttp 401 ''Webhook signature is invalid''), db)
              else case parse_json_object env body of
                Inl e \<Rightarrow> (Inl e, db)
              | Inr payload \<Rightarrow>
                  if already_delivered db (tg_id t) delivery
                  then (Inl (TriggerHttp 409 ''Webhook delivery has already been accepted''), db)
                  else if tg_rate_limit t \<le> int (recent_deliveries db (tg_id t) (received - seconds 60))
                  then (Inl (TriggerHttp 429 ''Webhook rate limit exceeded''), db)
                  else (let (run, db') = record_delivery env t delivery body payload received db in (Inr run, db')))"

record webhook_settings =
  ws_max_bytes :: nat
  ws_skew_seconds :: int
  ws_retention_hours :: int

text \<open>The field constraints of \<open>Settings\<close>; no validator relates the two.\<close>

definition settings_valid :: "webhook_settings \<Rightarrow> bool" where
  "settings_valid s \<longleftrightarrow> 1024 \<le> ws_max_bytes s \<and> ws_max_bytes s \<le> 104857600 \<and>
     1 \<le> ws_skew_seconds s \<and> ws_skew_seconds s \<le> 3600 \<and> 1 \<le> ws_retention_hours s \<and> ws_retention_hours s \<le> 8760"

text \<open>The route reads the clock twice: for the timestamp, and when the delivery is accepted.\<close>

definition receive_webhook ::
  "trigger_env \<Rightarrow> webhook_settings \<Rightarrow> uuid \<Rightarrow> webhook_request \<Rightarrow> time \<Rightarrow> time \<Rightarrow> db
     \<Rightarrow> (trigger_error + (run \<times> string)) \<times> db" where
  "receive_webhook env cfg i r parsed_at received_at db =
     (case bind_res (parse_timestamp (ws_skew_seconds cfg) (wr_timestamp r) parsed_at) (\<lambda>(ts, _).
           bind_res (parse_signature (wr_signature r)) (\<lambda>digest.
           bind_res (parse_delivery_id (wr_delivery r)) (\<lambda>delivery.
           bind_res (read_limited_body env (ws_max_bytes cfg) r) (\<lambda>body. Inr (ts, digest, delivery, body))))) of
        Inl e \<Rightarrow> (Inl e, db)
      | Inr (ts, digest, delivery, body) \<Rightarrow>
          (case accept_webhook_delivery env i ts digest delivery body received_at db of
             (Inl e, db') \<Rightarrow> (Inl e, db')
           | (Inr run, db') \<Rightarrow> (Inr (run, delivery), db')))"

subsection \<open>Bounds of the body\<close>

lemma read_chunks_iff:
  "read_chunks limit body cs = Inr b \<longleftrightarrow> b = body @ concat cs \<and> (cs = [] \<or> length b \<le> limit)"
proof (induction cs arbitrary: body)
  case (Cons c cs)
  have "length (concat cs) = 0" if "cs = []" using that by simp
  then show ?case using Cons.IH [of "body @ c"] by (auto simp: too_large_def)
qed auto

fun_cases read_chunks_InlE: "read_chunks limit body cs = Inl e"

lemma read_chunks_error: "read_chunks limit body cs = Inl e \<Longrightarrow> e = too_large"
proof (induction cs arbitrary: body)
  case (Cons c cs)
  from Cons.prems show ?case by (rule read_chunks_InlE) (auto intro: Cons.IH split: if_splits)
qed simp

text \<open>A body is read exactly when its declared length, if any, is a number within the limit and the
  bytes that arrive are within the limit; then it is all of them. A body over the limit is refused with
  413 (or 400 for a bad header), whatever length the client declares.\<close>

theorem read_limited_body_bounds:
  "(read_limited_body env limit r = Inr b \<longleftrightarrow>
      b = concat (wr_chunks r) \<and> length b \<le> limit \<and>
      (case wr_length r of None \<Rightarrow> True
       | Some h \<Rightarrow> (case te_int env h of None \<Rightarrow> False | Some n \<Rightarrow> 0 \<le> n \<and> n \<le> int limit))) \<and>
   (read_limited_body env limit r = Inl e \<longrightarrow> e = too_large \<or>
      (e = TriggerHttp 400 ''Invalid Content-Length header'' \<and> wr_length r \<noteq> None))"
proof -
  have "wr_chunks r = [] \<longrightarrow> length (concat (wr_chunks r)) \<le> limit" by simp
  then show ?thesis
    by (auto simp: read_limited_body_def read_chunks_iff dest: read_chunks_error split: option.splits)
qed

definition demo_request :: webhook_request where
  "demo_request = \<lparr>wr_length = None, wr_chunks = [''{'', ''}''], wr_timestamp = Some ''0'',
     wr_signature = Some (''sha256='' @ replicate 64 CHR ''0''), wr_delivery = Some ''d1''\<rparr>"

theorem read_limited_body_bounds_witness:
  "read_limited_body demo_env 1024 demo_request = Inr ''{}''"
  by (rule iffD2 [OF conjunct1 [OF read_limited_body_bounds [where e = too_large]]]) (simp add: demo_request_def)

subsection \<open>Effect of a delivery\<close>

lemma parse_timestamp_Inr:
  "parse_timestamp skew value now = Inr (v, T) \<Longrightarrow> value = Some v \<and> T = seconds (timestamp_seconds v) \<and> \<bar>now - T\<bar> \<le> seconds skew"
  by (auto simp: parse_timestamp_def split: option.splits if_splits)

lemma evolves_deliveries: "db_evolves db d \<Longrightarrow> db_evolves db (d\<lparr>db_deliveries := x\<rparr>)"
  by (erule evolves_same_runs) simp_all

lemma accept_cases:
  assumes "accept_webhook_delivery env i ts digest delivery body received db = (res, db')"
  shows "(\<exists>n m. res = Inl (TriggerHttp n m) \<and> db' = db \<and> n \<in> {400, 401, 404, 409, 429, 503}) \<or>
    (\<exists>t secret payload run. res = Inr run \<and> find_trigger db i = Some t \<and> tg_type t = WEBHOOK \<and> tg_enabled t \<and>
       decrypt_webhook_secret env t = Inr secret \<and> verify_webhook_signature env secret ts delivery body digest \<and>
       te_json env body = Some (JObj payload) \<and> \<not> already_delivered db i delivery \<and>
       int (recent_deliveries db i (received - seconds 60)) < tg_rate_limit t \<and>
       record_delivery env t delivery body payload received db = (run, db'))"
proof (cases "find_trigger db i")
  case None
  with assms show ?thesis by (auto simp: accept_webhook_delivery_def)
next
  case (Some t)
  have i: "tg_id t = i" using Some get_row_Some unfolding find_trigger_def by fastforce
  show ?thesis
  proof (cases "decrypt_webhook_secret env t")
    case Inl
    with assms Some show ?thesis by (auto simp: accept_webhook_delivery_def split: if_splits)
  next
    case (Inr secret)
    with assms Some i show ?thesis
      by (auto simp: accept_webhook_delivery_def parse_json_object_def case_prod_beta prod_eq_iff
          split: if_splits option.splits json.splits)
  qed
qed

interpretation accept: service_op "\<lambda>db. snd (accept_webhook_delivery env i ts digest delivery body received db)"
  for env i ts digest delivery body received
proof unfold_locales
  fix db assume ok: "db_ok db"
  obtain res db' where a: "accept_webhook_delivery env i ts digest delivery body received db = (res, db')" by fastforce
  from accept_cases [OF this] show "db_evolves db (snd (accept_webhook_delivery env i ts digest delivery body received db))"
    using ok create.step [OF ok]
    by (auto simp: a record_delivery_def Let_def case_prod_beta intro!: evolves_upd_trigger evolves_deliveries)
qed

lemma receive_cases:
  assumes "receive_webhook env cfg i r p received db = (res, db')"
  shows "(\<exists>e. res = Inl e \<and> db' = db) \<or>
    (\<exists>ts T digest delivery body t secret payload run. res = Inr (run, delivery) \<and>
       parse_timestamp (ws_skew_seconds cfg) (wr_timestamp r) p = Inr (ts, T) \<and>
       parse_signature (wr_signature r) = Inr digest \<and> parse_delivery_id (wr_delivery r) = Inr delivery \<and>
       read_limited_body env (ws_max_bytes cfg) r = Inr body \<and> find_trigger db i = Some t \<and>
       tg_type t = WEBHOOK \<and> tg_enabled t \<and>
       decrypt_webhook_secret env t = Inr secret \<and> verify_webhook_signature env secret ts delivery body digest \<and>
       te_json env body = Some (JObj payload) \<and> \<not> already_delivered db i delivery \<and>
       int (recent_deliveries db i (received - seconds 60)) < tg_rate_limit t \<and>
       record_delivery env t delivery body payload received db = (run, db'))"
proof (cases "bind_res (parse_timestamp (ws_skew_seconds cfg) (wr_timestamp r) p) (\<lambda>(ts, _).
           bind_res (parse_signature (wr_signature r)) (\<lambda>digest.
           bind_res (parse_delivery_id (wr_delivery r)) (\<lambda>delivery.
           bind_res (read_limited_body env (ws_max_bytes cfg) r) (\<lambda>body. Inr (ts, digest, delivery, body)))))")
  case (Inl e)
  with assms show ?thesis by (auto simp: receive_webhook_def)
next
  case (Inr q)
  obtain ts digest delivery body where q: "q = (ts, digest, delivery, body)" by (cases q) auto
  obtain a db1 where a: "accept_webhook_delivery env i ts digest delivery body received db = (a, db1)" by fastforce
  from Inr q a assms have "db' = db1"
      "res = (case a of Inl e \<Rightarrow> Inl e | Inr run \<Rightarrow> Inr (run, delivery))"
    by (auto simp: receive_webhook_def split: sum.splits)
  with accept_cases [OF a] Inr q show ?thesis
    by (auto simp: bind_res_Inr split: prod.splits)
qed

lemma record_delivery_effect:
  assumes ok: "db_ok db" and "record_delivery env t delivery body payload received db = (run, db')"
  shows "find_run db (rn_id run) = None \<and> find_run db' (rn_id run) = Some run \<and> rn_status run = PENDING \<and>
      rn_graph_id run = tg_graph_id t \<and> rn_version_id run = Some (tg_version_id t) \<and> rn_payload run = Some payload"
    "\<exists>j. job_of_run db' (rn_id run) = Some j \<and> jb_type j = FULL \<and> jb_status j = QUEUED"
    "db_deliveries db' = db_deliveries db @ [\<lparr>wd_trigger_id = tg_id t, wd_delivery_id = delivery,
       wd_body_sha256 = te_sha256 env body, wd_received_at = received, wd_run_id = Some (rn_id run)\<rparr>]"
proof -
  let ?c = "create_run (tg_graph_id t) (Some (tg_created_by t)) ''webhook'' (Some (tg_version_id t)) (Some FULL)
      (Some payload) received db"
  have c: "?c = (run, snd ?c)" and db': "db_runs db' = db_runs (snd ?c)" "db_jobs db' = db_jobs (snd ?c)"
    and "db_deliveries db' = db_deliveries db @ [\<lparr>wd_trigger_id = tg_id t, wd_delivery_id = delivery,
       wd_body_sha256 = te_sha256 env body, wd_received_at = received, wd_run_id = Some (rn_id run)\<rparr>]"
    using assms(2) by (auto simp: record_delivery_def Let_def case_prod_beta)
  then show "db_deliveries db' = db_deliveries db @ [\<lparr>wd_trigger_id = tg_id t, wd_delivery_id = delivery,
       wd_body_sha256 = te_sha256 env body, wd_received_at = received, wd_run_id = Some (rn_id run)\<rparr>]" by simp
  have run: "run = new_run (db_next db) (tg_graph_id t) (Some (tg_version_id t)) ''webhook'' (Some (tg_created_by t))
      (Some payload) received"
    using c by (simp add: create_run_eq Let_def)
  then show "find_run db (rn_id run) = None \<and> find_run db' (rn_id run) = Some run \<and> rn_status run = PENDING \<and>
      rn_graph_id run = tg_graph_id t \<and> rn_version_id run = Some (tg_version_id t) \<and> rn_payload run = Some payload"
    using fresh_id [OF ok, of "db_next db"] create_run_contract(2) [OF ok]
    by (simp add: find_run_def db' new_run_def)
  have base: "db_ok (add_run run (create_base (tg_graph_id t) (Some FULL) db))"
    by (rule add_run_ok) (simp_all add: create_base_def supersede_ok ok run new_run_def)
  have "snd ?c = enqueue_run_job (rn_id run) FULL received (add_run run (create_base (tg_graph_id t) (Some FULL) db))"
    by (simp add: create_run_eq Let_def run new_run_def)
  then show "\<exists>j. job_of_run db' (rn_id run) = Some j \<and> jb_type j = FULL \<and> jb_status j = QUEUED"
    using enqueued_job [OF base, of "rn_id run" FULL received] by (auto simp: job_of_run_def db')
qed

text \<open>C20. A webhook request either changes nothing and answers with an error, or it carried the trigger's
  HMAC over timestamp, delivery and body, was recent, new and within the rate limit; then exactly one
  delivery is recorded and a fresh run with the body as payload is pending and queued.\<close>

theorem receive_webhook_effect:
  assumes ok: "db_ok db" and run: "receive_webhook env cfg i r parsed_at received db = (res, db')"
  shows "case res of
      Inl e \<Rightarrow> db' = db
    | Inr (run, delivery) \<Rightarrow>
        (\<exists>t secret ts digest body payload. find_trigger db i = Some t \<and> tg_type t = WEBHOOK \<and> tg_enabled t \<and>
          wr_timestamp r = Some ts \<and> \<bar>parsed_at - seconds (timestamp_seconds ts)\<bar> \<le> seconds (ws_skew_seconds cfg) \<and>
          body = concat (wr_chunks r) \<and> length body \<le> ws_max_bytes cfg \<and> te_json env body = Some (JObj payload) \<and>
          decrypt_webhook_secret env t = Inr secret \<and> parse_signature (wr_signature r) = Inr digest \<and>
          te_hmac env secret (ts @ ''.'' @ delivery @ ''.'' @ body) = digest \<and>
          \<not> already_delivered db i delivery \<and> already_delivered db' i delivery \<and>
          length (db_deliveries db') = Suc (length (db_deliveries db)) \<and>
          int (recent_deliveries db' i (received - seconds 60)) \<le> tg_rate_limit t \<and>
          find_run db (rn_id run) = None \<and> find_run db' (rn_id run) = Some run \<and> rn_status run = PENDING \<and>
          rn_graph_id run = tg_graph_id t \<and> rn_version_id run = Some (tg_version_id t) \<and> rn_payload run = Some payload \<and>
          (\<exists>j. job_of_run db' (rn_id run) = Some j \<and> jb_type j = FULL \<and> jb_status j = QUEUED))"
  using receive_cases [OF run]
proof (elim disjE exE conjE)
  fix e assume "res = Inl e" "db' = db"
  then show ?thesis by simp
next
  fix ts T digest delivery body t secret payload run
  assume a: "res = Inr (run, delivery)" "parse_timestamp (ws_skew_seconds cfg) (wr_timestamp r) parsed_at = Inr (ts, T)"
    "parse_signature (wr_signature r) = Inr digest" "parse_delivery_id (wr_delivery r) = Inr delivery"
    "read_limited_body env (ws_max_bytes cfg) r = Inr body" "find_trigger db i = Some t" "tg_type t = WEBHOOK"
    "tg_enabled t" "decrypt_webhook_secret env t = Inr secret"
    "verify_webhook_signature env secret ts delivery body digest" "te_json env body = Some (JObj payload)"
    "\<not> already_delivered db i delivery" "int (recent_deliveries db i (received - seconds 60)) < tg_rate_limit t"
    "record_delivery env t delivery body payload received db = (run, db')"
  have i: "tg_id t = i" using a(6) get_row_Some unfolding find_trigger_def by fastforce
  have ts: "wr_timestamp r = Some ts" "\<bar>parsed_at - seconds (timestamp_seconds ts)\<bar> \<le> seconds (ws_skew_seconds cfg)"
    using parse_timestamp_Inr [OF a(2)] by auto
  have body: "body = concat (wr_chunks r)" "length body \<le> ws_max_bytes cfg"
    using a(5) read_chunks_iff by (auto simp: read_limited_body_def split: option.splits if_splits)
  note eff = record_delivery_effect [OF ok a(14)]
  have led: "already_delivered db' i delivery" "length (db_deliveries db') = Suc (length (db_deliveries db))"
    "int (recent_deliveries db' i (received - seconds 60)) \<le> tg_rate_limit t"
    using a(13) by (simp_all add: already_delivered_def recent_deliveries_def eff(3) i seconds_def)
  show ?thesis unfolding a(1) sum.case prod.case
    by (rule exI [of _ t], rule exI [of _ secret], rule exI [of _ ts], rule exI [of _ digest], rule exI [of _ body],
        rule exI [of _ payload])
      (use a(3,6-12) ts body led eff(1,2) in
        \<open>simp add: verify_webhook_signature_def signed_payload_def\<close>)
qed


text \<open>The instance of the witnesses: one webhook trigger whose HMAC is 32 zero bytes.\<close>

definition hook_env :: trigger_env where
  "hook_env = demo_env\<lparr>te_hmac := \<lambda>_ _. replicate 32 (char_of (0::nat))\<rparr>"

definition hook_db :: db where
  "hook_db = empty_db\<lparr>db_triggers := [(demo_trigger 3 None)\<lparr>tg_type := WEBHOOK, tg_interval_seconds := None,
     tg_next_run_at := None, tg_webhook_secret := Some [(''secret'', JStr ''s'')]\<rparr>], db_next := 10\<rparr>"

definition hook_cfg :: webhook_settings where
  "hook_cfg = \<lparr>ws_max_bytes = 1024, ws_skew_seconds = 3600, ws_retention_hours = 1\<rparr>"

lemma hook_db_ok: "db_ok hook_db"
  by (simp add: db_ok_def hook_db_def empty_db_def)

theorem receive_webhook_effect_witness:
  "case fst (receive_webhook hook_env hook_cfg 3 demo_request 0 1 hook_db) of
      Inl e \<Rightarrow> False
    | Inr (run, delivery) \<Rightarrow> already_delivered (snd (receive_webhook hook_env hook_cfg 3 demo_request 0 1 hook_db)) 3 delivery"
proof -
  let ?r = "receive_webhook hook_env hook_cfg 3 demo_request 0 1 hook_db"
  have ok: "case fst ?r of Inl e \<Rightarrow> False | Inr _ \<Rightarrow> True" by code_simp
  have "?r = (fst ?r, snd ?r)" by simp
  from receive_webhook_effect [OF hook_db_ok this] ok show ?thesis by (auto split: sum.splits prod.splits)
qed

subsection \<open>Replays\<close>

text \<open>The calls that touch the ledger, as a sequence: requests (with the two clock readings), the hourly
  pruning, and schedule dispatches in between. The accepted triples are what a signature covers.\<close>

datatype ledger_event =
    Receive uuid webhook_request time time
  | Prune time
  | Dispatch time nat

fun event_at :: "ledger_event \<Rightarrow> time" where
  "event_at (Receive i r p t) = t"
| "event_at (Prune t) = t"
| "event_at (Dispatch t n) = t"

type_synonym accepted = "uuid \<times> string \<times> time"

definition accepted_by :: "webhook_request \<Rightarrow> uuid \<Rightarrow> (trigger_error + (run \<times> string)) \<Rightarrow> accepted list" where
  "accepted_by r i res = (case res of Inl _ \<Rightarrow> []
     | Inr (run, delivery) \<Rightarrow> [(i, delivery, seconds (timestamp_seconds (opt_or (wr_timestamp r) [])))])"

fun ledger_step :: "trigger_env \<Rightarrow> webhook_settings \<Rightarrow> ledger_event \<Rightarrow> db \<Rightarrow> accepted list \<times> db" where
  "ledger_step env cfg (Receive i r p t) db =
     (let (res, db') = receive_webhook env cfg i r p t db in (accepted_by r i res, db'))"
| "ledger_step env cfg (Prune t) db = ([], snd (prune_webhook_deliveries t (ws_retention_hours cfg) db))"
| "ledger_step env cfg (Dispatch t n) db = ([], snd (dispatch_due_schedules env (\<lambda>_. False) t t n db))"

fun ledger_run :: "trigger_env \<Rightarrow> webhook_settings \<Rightarrow> ledger_event list \<Rightarrow> db \<Rightarrow> accepted list" where
  "ledger_run env cfg [] db = []"
| "ledger_run env cfg (e # es) db = (let (acc, db') = ledger_step env cfg e db in acc @ ledger_run env cfg es db')"

text \<open>A request is served within \<open>delay\<close> of reading its timestamp.\<close>

fun served_within :: "time \<Rightarrow> ledger_event \<Rightarrow> bool" where
  "served_within delay (Receive i r p t) \<longleftrightarrow> p \<le> t \<and> t \<le> p + delay"
| "served_within delay e \<longleftrightarrow> True"

lemma dispatch_deliveries: "db_deliveries (snd (dispatch_all env now clock ts db)) = db_deliveries db"
proof (induction ts arbitrary: db)
  case (Cons t ts)
  have "db_deliveries (snd (dispatch_one env now clock t db)) = db_deliveries db"
    by (simp add: dispatch_one_def Let_def case_prod_beta split: sum.split)
  then show ?case using Cons.IH [of "snd (dispatch_one env now clock t db)"]
    by (simp add: Let_def case_prod_beta)
qed simp

text \<open>Every accepted triple is still in the ledger, or too old for any request to come.\<close>

definition remembered :: "webhook_settings \<Rightarrow> time \<Rightarrow> time \<Rightarrow> accepted set \<Rightarrow> db \<Rightarrow> bool" where
  "remembered cfg delay now acc db \<longleftrightarrow> (\<forall>(i, delivery, T) \<in> acc.
     (\<exists>d \<in> set (db_deliveries db). wd_trigger_id d = i \<and> wd_delivery_id d = delivery \<and>
        T - seconds (ws_skew_seconds cfg) \<le> wd_received_at d) \<or>
     T + seconds (ws_skew_seconds cfg) + delay < now)"

lemma remembered_later: "remembered cfg delay now acc db \<Longrightarrow> now \<le> t \<Longrightarrow>
    set (db_deliveries db) \<subseteq> set (db_deliveries d) \<Longrightarrow> remembered cfg delay t acc d"
  by (fastforce simp: remembered_def)

lemma remembered_prune:
  assumes "remembered cfg delay now acc db" "now \<le> t"
    and "2 * seconds (ws_skew_seconds cfg) + delay \<le> seconds (ws_retention_hours cfg * 3600)"
  shows "remembered cfg delay t acc (snd (prune_webhook_deliveries t (ws_retention_hours cfg) db))"
  unfolding remembered_def
proof (intro ballI, clarify)
  fix i delivery T
  assume m: "(i, delivery, T) \<in> acc" and
    old: "\<not> T + seconds (ws_skew_seconds cfg) + delay < t"
  then obtain d where d: "d \<in> set (db_deliveries db)" "wd_trigger_id d = i" "wd_delivery_id d = delivery"
      "T - seconds (ws_skew_seconds cfg) \<le> wd_received_at d"
    using assms(1,2) unfolding remembered_def by fastforce
  have "\<not> wd_received_at d < t - seconds (ws_retention_hours cfg * 3600)" using d(4) old assms(3) by linarith
  with d show "\<exists>d \<in> set (db_deliveries (snd (prune_webhook_deliveries t (ws_retention_hours cfg) db))).
      wd_trigger_id d = i \<and> wd_delivery_id d = delivery \<and> T - seconds (ws_skew_seconds cfg) \<le> wd_received_at d"
    by (auto simp: prune_webhook_deliveries_def Let_def)
qed

lemma receive_step:
  assumes ok: "db_ok db" and served: "p \<le> t" "t \<le> p + delay"
    and inv: "remembered cfg delay now acc db" "now \<le> t"
    and run: "receive_webhook env cfg i r p t db = (res, db')"
  shows "remembered cfg delay t (acc \<union> set (accepted_by r i res)) db' \<and>
    set (accepted_by r i res) \<inter> acc = {} \<and> distinct (accepted_by r i res)"
  using receive_cases [OF run]
proof (elim disjE exE conjE)
  fix e assume "res = Inl e" "db' = db"
  then show ?thesis using inv by (simp add: accepted_by_def remembered_later)
next
  fix ts T digest delivery body x secret payload run
  assume a: "res = Inr (run, delivery)" "parse_timestamp (ws_skew_seconds cfg) (wr_timestamp r) p = Inr (ts, T)"
    "find_trigger db i = Some x" "\<not> already_delivered db i delivery"
    "record_delivery env x delivery body payload t db = (run, db')"
  have i: "tg_id x = i" using a(3) get_row_Some unfolding find_trigger_def by fastforce
  have T: "wr_timestamp r = Some ts" "T = seconds (timestamp_seconds ts)" "\<bar>p - T\<bar> \<le> seconds (ws_skew_seconds cfg)"
    using parse_timestamp_Inr [OF a(2)] by auto
  then have acc: "accepted_by r i res = [(i, delivery, T)]" by (simp add: accepted_by_def a(1) opt_or_def)
  have led: "db_deliveries db' = db_deliveries db @ [\<lparr>wd_trigger_id = i, wd_delivery_id = delivery,
       wd_body_sha256 = te_sha256 env body, wd_received_at = t, wd_run_id = Some (rn_id run)\<rparr>]"
    using record_delivery_effect(3) [OF ok a(5)] i by simp
  have "T - seconds (ws_skew_seconds cfg) \<le> t" using T(3) served by linarith
  moreover have "remembered cfg delay t acc db'" by (rule remembered_later [OF inv]) (simp add: led subset_insertI)
  ultimately have "remembered cfg delay t (acc \<union> {(i, delivery, T)}) db'"
    by (simp add: remembered_def led)
  moreover have "(i, delivery, T) \<notin> acc"
  proof
    assume "(i, delivery, T) \<in> acc"
    then have "T + seconds (ws_skew_seconds cfg) + delay < now"
      using inv(1) a(4) by (auto simp: remembered_def already_delivered_def list_ex_iff)
    then show False using inv(2) T(3) served by linarith
  qed
  ultimately show ?thesis by (simp add: acc)
qed

lemma dispatch_ok: "db_ok db \<Longrightarrow> db_ok (snd (dispatch_all env now clock ts db))"
proof (induction ts arbitrary: db)
  case (Cons t ts)
  have "db_ok (snd (dispatch_one env now clock t db))" by (rule dispatch_one.keeps_ok [OF Cons.prems])
  then show ?case using Cons.IH by (simp add: Let_def case_prod_beta)
qed simp

interpretation receive: service_op "\<lambda>db. snd (receive_webhook env cfg i r p received db)" for env cfg i r p received
proof unfold_locales
  fix db assume "db_ok db"
  with accept.step [OF this] show "db_evolves db (snd (receive_webhook env cfg i r p received db))"
    by (auto simp: receive_webhook_def split: sum.split prod.split) (metis snd_conv)+
qed

lemma ledger_step_inv:
  assumes ok: "db_ok db" and served: "served_within delay e"
    and inv: "remembered cfg delay now acc db" "now \<le> event_at e"
    and retention: "2 * seconds (ws_skew_seconds cfg) + delay \<le> seconds (ws_retention_hours cfg * 3600)"
    and run: "ledger_step env cfg e db = (new, db')"
  shows "db_ok db' \<and> remembered cfg delay (event_at e) (acc \<union> set new) db' \<and> set new \<inter> acc = {} \<and> distinct new"
proof (cases e)
  case (Receive i r p t)
  obtain res d where r: "receive_webhook env cfg i r p t db = (res, d)" by fastforce
  have "db_ok d" using receive.keeps_ok [OF ok, of env cfg i r p t] r by simp
  with receive_step [OF ok _ _ inv(1) _ r] Receive r run served inv(2) show ?thesis by auto
next
  case (Prune t)
  have "db_ok (snd (prune_webhook_deliveries t (ws_retention_hours cfg) db))" by (rule prune.keeps_ok [OF ok])
  with remembered_prune [OF inv(1) _ retention] Prune run inv(2) show ?thesis by auto
next
  case (Dispatch t n)
  from Dispatch run dispatch_ok [OF ok] inv show ?thesis
    by (auto simp: dispatch_due_schedules_def dispatch_deliveries intro: remembered_later)
qed

lemma ledger_run_inv:
  assumes "db_ok db" "remembered cfg delay now acc db" "\<forall>e \<in> set es. now \<le> event_at e"
    and "sorted (map event_at es)" "\<forall>e \<in> set es. served_within delay e"
    and retention: "2 * seconds (ws_skew_seconds cfg) + delay \<le> seconds (ws_retention_hours cfg * 3600)"
  shows "distinct (ledger_run env cfg es db) \<and> set (ledger_run env cfg es db) \<inter> acc = {}"
  using assms(1-5)
proof (induction es arbitrary: db now acc)
  case (Cons e es)
  obtain new d where s: "ledger_step env cfg e db = (new, d)" by fastforce
  have step: "db_ok d" "remembered cfg delay (event_at e) (acc \<union> set new) d" "set new \<inter> acc = {}" "distinct new"
    using ledger_step_inv [OF Cons.prems(1) _ Cons.prems(2) _ retention s] Cons.prems(3,5) by auto
  have "distinct (ledger_run env cfg es d) \<and> set (ledger_run env cfg es d) \<inter> (acc \<union> set new) = {}"
    by (rule Cons.IH [OF step(1,2)]) (use Cons.prems(4,5) in auto)
  with step(3,4) show ?case by (auto simp: s Let_def)
qed simp

text \<open>C12. Replay protection: when the retention of the ledger is at least twice the allowed clock skew plus
  the longest service time, no signed delivery is accepted twice, whatever requests, prunings and
  dispatches come in between.\<close>

theorem no_replay_accepted:
  assumes "db_ok db" "sorted (map event_at es)" "\<forall>e \<in> set es. served_within delay e"
    and "2 * seconds (ws_skew_seconds cfg) + delay \<le> seconds (ws_retention_hours cfg * 3600)"
  shows "distinct (ledger_run env cfg es db)"
proof (cases es)
  case (Cons e es')
  have "\<forall>x \<in> set es. event_at e \<le> event_at x" using assms(2) Cons by auto
  moreover have "remembered cfg delay (event_at e) {} db" by (simp add: remembered_def)
  ultimately show ?thesis using ledger_run_inv [OF assms(1) _ _ assms(2,3,4)] by blast
qed simp

theorem no_replay_accepted_witness:
  "distinct (ledger_run hook_env (hook_cfg\<lparr>ws_retention_hours := 3\<rparr>)
     [Receive 3 demo_request 0 5, Prune 20000000000, Receive 3 demo_request 20000000000 20000000001] hook_db)"
  by (rule no_replay_accepted [OF hook_db_ok, where delay = 10])
    (simp_all add: hook_cfg_def seconds_def)

text \<open>The hypothesis on the retention is not implied by the settings: with the longest skew and the shortest
  retention that they allow, a delivery is accepted again once its row is pruned.\<close>

lemma replay_after_pruning:
  "settings_valid hook_cfg \<and>
   \<not> distinct (ledger_run hook_env hook_cfg
     [Receive 3 demo_request (- 3600000000) (- 3600000000), Prune 1000000, Receive 3 demo_request 2000000 2000000] hook_db)"
proof
  show "settings_valid hook_cfg" by (simp add: settings_valid_def hook_cfg_def)
  show "\<not> distinct (ledger_run hook_env hook_cfg
     [Receive 3 demo_request (- 3600000000) (- 3600000000), Prune 1000000, Receive 3 demo_request 2000000 2000000] hook_db)"
    by code_simp
qed

end
