(* ===== verification/ControlPlane.thy ===== *)
theory ControlPlane
  imports SourceState Webhooks
begin

text \<open>
  The control plane as a state machine. A step is one committed transaction of the API, of a
  worker, of the recovery at start-up or of a source that stages a checkpoint; transactions of any
  number of clients interleave in any order, with any clock readings, so no property here rests on
  clocks that agree or advance.
\<close>

inductive control_step :: "db \<Rightarrow> db \<Rightarrow> bool" where
  s_recover: "control_step db (snd (recover_orphaned_runs locked now db))"
| s_claim: "control_step db (snd (claim_run_job locked w lease now db))"
| s_heartbeat: "control_step db (snd (heartbeat_run_job i w lease now db))"
| s_finish: "control_step db (snd (finish_run_job i w err now db))"
| s_mark_failed: "control_step db (snd (mark_run_failed_if_owned i run w msg ts db))"
| s_finalize: "control_step db (snd (finalize_run_job i run w err now db))"
| s_release: "control_step db (snd (release_run_job i w now db))"
| s_create: "control_step db (snd (create_run g u ty v job p now db))"
| s_status: "control_step db (snd (update_run_status i new_status db))"
| s_fail: "control_step db (snd (fail_run_if_running i msg jb w3 ts db))"
| s_start: "control_step db (snd (start_run g req usr now db))"
| s_cancel: "control_step db (snd (cancel_run_endpoint i usr db))"
| s_pause: "control_step db (snd (pause_run_endpoint i usr db))"
| s_resume: "control_step db (snd (resume_run_endpoint i usr now db))"
| s_retry: "control_step db (snd (retry_failed_run i usr now db))"
| s_replay: "control_step db (snd (replay_run i usr now db))"
| s_save: "control_step db (snd (store_save sx pl source stream d fences clock db))"
| s_delete: "control_step db (snd (store_delete sx pl source stream fences clock db))"
| s_complete: "control_step db (snd (complete_run_with_source_state_promotion i jb w3 clock db))"
| s_dispatch: "control_step db (snd (dispatch_one env now clock t db))"
| s_webhook: "control_step db (snd (receive_webhook env cfg i req2 p now db))"
| s_prune: "control_step db (snd (prune_webhook_deliveries now hours db))"
| s_create_trigger: "control_step db (snd (create_graph_trigger env g usr tc secret now db))"
| s_patch_trigger: "control_step db (snd (patch_trigger env i usr tu now db))"
| s_remove_trigger: "control_step db (snd (remove_trigger i usr db))"
| s_rotate_secret: "control_step db (snd (rotate_trigger_secret env i usr secret db))"

inductive_cases control_stepE: "control_step db db'"

abbreviation reaches :: "db \<Rightarrow> db \<Rightarrow> bool" where
  "reaches \<equiv> control_step\<^sup>*\<^sup>*"

text \<open>Every transaction meets the service contract.\<close>

lemmas service_steps = recover.step claim.step heartbeat.step finish.step mark_failed.step
  finalize.step release.step create.step update_status.step fail_running.step start_route.step
  cancel_route.step pause_route.step resume_route.step retry_route.step replay_route.step
  save.step unsave.step complete.step dispatch_one.step receive.step prune.step
  create_trigger_route.step patch_trigger_route.step remove_trigger_route.step rotate_secret_route.step

lemma control_step_evolves: "control_step db db' \<Longrightarrow> db_ok db \<Longrightarrow> db_evolves db db'"
  by (induction rule: control_step.induct) (simp_all add: service_steps)

lemma control_step_run:
  assumes "control_step db db'" "db_ok db" "find_run db i = Some r"
  obtains r' where "find_run db' i = Some r'" "run_evolves r r'"
  using control_step_evolves [OF assms(1,2)] assms(3) by (auto simp: db_evolves_def)

subsection \<open>Source-state tables\<close>

text \<open>Transactions other than staging and completion leave committed checkpoints alone and at most
  drop staged ones.\<close>

definition drops_candidates :: "db \<Rightarrow> db \<Rightarrow> bool" where
  "drops_candidates db db' \<longleftrightarrow> db_states db' = db_states db \<and>
     (\<exists>P. db_candidates db' = filter P (db_candidates db))"

lemma drops_same [simp]:
  "db_states db' = db_states db \<Longrightarrow> db_candidates db' = db_candidates db \<Longrightarrow> drops_candidates db db'"
  unfolding drops_candidates_def by (auto intro!: exI [of _ "\<lambda>_. True"])

lemma drops_ok: "drops_candidates db db' \<Longrightarrow> states_ok db \<Longrightarrow> states_ok db'"
  by (auto simp: drops_candidates_def states_ok_def distinct_map_filter)

lemma drops_trans: "drops_candidates a b \<Longrightarrow> drops_candidates b c \<Longrightarrow> drops_candidates a c"
  by (auto simp: drops_candidates_def)

lemma tables_same [simp]:
  "db_states (upd_job i f db) = db_states db" "db_states (upd_run i g db) = db_states db"
  "db_states (add_job r ty now db) = db_states db" "db_states (add_run x db) = db_states db"
  "db_states (enqueue_run_job r ty now db) = db_states db"
  by (simp_all add: upd_job_def upd_run_def add_job_def add_run_def enqueue_run_job_def split: option.split)

lemma recover_fold_tables [simp]:
  "db_states (fold (recover_one now) xs db) = db_states db"
  "db_candidates (fold (recover_one now) xs db) = db_candidates db"
  by (induction xs arbitrary: db) (simp_all add: recover_one_def)

lemma queue_drops [simp]:
  "drops_candidates db (snd (recover_orphaned_runs locked now db))"
  "drops_candidates db (snd (claim_run_job locked w lease now db))"
  "drops_candidates db (snd (heartbeat_run_job i w lease now db))"
  "drops_candidates db (snd (finish_run_job i w err now db))"
  "drops_candidates db (snd (mark_run_failed_if_owned i run w msg ts db))"
  "drops_candidates db (snd (finalize_run_job i run w err now db))"
  "drops_candidates db (snd (release_run_job i w now db))"
  by (simp_all add: recover_orphaned_runs_def Let_def claim_run_job_def heartbeat_run_job_def
      finish_run_job_def mark_run_failed_if_owned_def finalize_run_job_def release_run_job_def
      split: option.split prod.split)

lemma delete_drops [simp]: "drops_candidates db (delete_run_candidates r db)"
  by (auto simp: drops_candidates_def delete_run_candidates_def)

lemma supersede_drops [simp]: "drops_candidates db (supersede_inactive_failed_runs g db)"
  unfolding drops_candidates_def supersede_candidates
  by (auto simp: supersede_inactive_failed_runs_def Let_def)

lemma create_drops [simp]: "drops_candidates db (snd (create_run g u ty v job p now db))"
proof -
  have "drops_candidates db (create_base g job db)" by (simp add: create_base_def)
  moreover have "drops_candidates (create_base g job db) (snd (create_run g u ty v job p now db))"
    by (cases job) (simp_all add: create_run_eq Let_def)
  ultimately show ?thesis by (rule drops_trans)
qed

lemma status_drops [simp]: "drops_candidates db (snd (update_run_status i t db))"
proof (cases "\<exists>r s. find_run db i = Some r \<and> parse_run_status t = Some s \<and>
    can_transition (run_status_value (rn_status r)) t")
  case True
  then obtain r s where "find_run db i = Some r" "parse_run_status t = Some s"
      "can_transition (run_status_value (rn_status r)) t" by blast
  moreover have "drops_candidates db (upd_run i (\<lambda>x. x\<lparr>rn_status := s\<rparr>) db)" by simp
  ultimately show ?thesis
    using drops_trans [OF _ delete_drops] by (simp add: update_run_status_def Let_def)
next
  case False
  then show ?thesis by (auto simp: update_run_status_def split: option.split)
qed

lemma fail_drops [simp]: "drops_candidates db (snd (fail_run_if_running i msg jb w3 ts db))"
  by (cases ts) (simp add: fail_run_if_running_def fail_locked_run_def Let_def split: option.split)

lemma route_drops:
  "(\<And>r. drops_candidates db (snd (act r))) \<Longrightarrow> drops_candidates db (snd (with_run i u db act))"
  by (simp add: with_run_def split: option.split sum.split)

lemma routes_drop [simp]:
  "drops_candidates db (snd (cancel_run_endpoint i usr db))"
  "drops_candidates db (snd (pause_run_endpoint i usr db))"
  "drops_candidates db (snd (resume_run_endpoint i usr now db))"
  "drops_candidates db (snd (retry_failed_run i usr now db))"
  "drops_candidates db (snd (replay_run i usr now db))"
  "drops_candidates db (snd (start_run g req usr now db))"
proof -
  show "drops_candidates db (snd (cancel_run_endpoint i usr db))"
    unfolding cancel_run_endpoint_def cancel_run_def by (intro route_drops) simp
  show "drops_candidates db (snd (pause_run_endpoint i usr db))"
    unfolding pause_run_endpoint_def
    by (intro route_drops) (simp add: pause_run_def Let_def split: option.split)
  show "drops_candidates db (snd (resume_run_endpoint i usr now db))"
    unfolding resume_run_endpoint_def
    by (intro route_drops) (simp add: resume_run_def Let_def split: option.split)
  show "drops_candidates db (snd (retry_failed_run i usr now db))"
    unfolding retry_failed_run_def by (intro route_drops) (simp add: Let_def split: option.split)
  show "drops_candidates db (snd (replay_run i usr now db))"
    unfolding replay_run_def by (intro route_drops) (simp add: case_prod_beta)
  show "drops_candidates db (snd (start_run g req usr now db))"
    by (simp add: start_run_def case_prod_beta Let_def split: option.split sum.split)
qed

lemma trigger_tables [simp]:
  "db_states (upd_trigger i f db) = db_states db" "db_candidates (upd_trigger i f db) = db_candidates db"
  by (simp_all add: upd_trigger_def)

lemma drops_same_after:
  "drops_candidates db d \<Longrightarrow> db_states d' = db_states d \<Longrightarrow> db_candidates d' = db_candidates d \<Longrightarrow>
     drops_candidates db d'"
  by (simp add: drops_candidates_def)

lemma upd_trigger_drops [simp]: "drops_candidates db d \<Longrightarrow> drops_candidates db (upd_trigger i f d)"
  by (erule drops_same_after) simp_all

lemma deliveries_drops [simp]: "drops_candidates db d \<Longrightarrow> drops_candidates db (d\<lparr>db_deliveries := x\<rparr>)"
  by (erule drops_same_after) simp_all

lemma accept_drops: "drops_candidates db (snd (accept_webhook_delivery env i ts digest delivery body received db))"
proof -
  obtain res db' where a: "accept_webhook_delivery env i ts digest delivery body received db = (res, db')" by fastforce
  from accept_cases [OF this] show ?thesis
    by (auto simp: a record_delivery_def Let_def case_prod_beta)
qed

lemma triggers_drop [simp]:
  "drops_candidates db (snd (dispatch_one env now clock t db))"
  "drops_candidates db (snd (prune_webhook_deliveries now hours db))"
  "drops_candidates db (snd (create_graph_trigger env g usr tc secret now db))"
  "drops_candidates db (snd (patch_trigger env i usr tu now db))"
  "drops_candidates db (snd (remove_trigger i usr db))"
  "drops_candidates db (snd (rotate_trigger_secret env i usr secret db))"
  by (simp_all add: dispatch_one_def prune_webhook_deliveries_def create_graph_trigger_def create_trigger_def
      patch_trigger_def update_trigger_def remove_trigger_def delete_trigger_def rotate_trigger_secret_def
      rotate_webhook_secret_def Let_def case_prod_beta split: sum.split option.split)

lemma receive_drops [simp]: "drops_candidates db (snd (receive_webhook env cfg i r p now db))"
  using accept_drops [of db env i _ _ _ _ now]
  by (auto simp: receive_webhook_def split: sum.split prod.split) (metis snd_conv)+

lemma save_states_ok: "states_ok db \<Longrightarrow> states_ok (snd (store_save sx pl source stream d fences clock db))"
  by (simp add: store_save_def stage_save_ok split: sum.split)

lemma delete_states_ok: "states_ok db \<Longrightarrow> states_ok (snd (store_delete sx pl source stream fences clock db))"
  by (simp add: store_delete_def stage_delete_ok split: sum.split)

lemma complete_states_ok:
  "states_ok db \<Longrightarrow> states_ok (snd (complete_run_with_source_state_promotion i jb w3 clock db))"
  using promoted_states(5) [of db i jb w3 clock] complete_other [of i jb w3 clock db]
  by (cases "complete_run_with_source_state_promotion i jb w3 clock db") fastforce

lemma control_step_states:
  "control_step db db' \<Longrightarrow> states_ok db \<Longrightarrow> states_ok db'"
  by (induction rule: control_step.induct)
     (blast intro: save_states_ok delete_states_ok complete_states_ok drops_ok queue_drops create_drops
        status_drops fail_drops routes_drop triggers_drop receive_drops)+

subsection \<open>Reachable states\<close>

lemma reaches_ok: "reaches db db' \<Longrightarrow> db_ok db \<Longrightarrow> db_ok db'"
  by (induction rule: rtranclp_induct) (auto dest: control_step_evolves simp: db_evolves_def)

text \<open>C5. Whatever clients and workers do, in whatever order, the tables stay consistent: keys stay
  unique, every job belongs to a run, a run has at most one job, a job is leased exactly when it
  has an owner and an expiry, and checkpoints stay unique per source stream.\<close>

theorem reachable_consistent:
  assumes "reaches db db'" "db_ok db" "states_ok db"
  shows "db_ok db' \<and> states_ok db'"
  using assms by (induction rule: rtranclp_induct)
    (auto dest: control_step_evolves control_step_states simp: db_evolves_def)

text \<open>The statuses a run goes through along an execution.\<close>

inductive run_path :: "uuid \<Rightarrow> db \<Rightarrow> run_status list \<Rightarrow> db \<Rightarrow> bool" for i where
  path_here: "find_run db i = Some r \<Longrightarrow> run_path i db [rn_status r] db"
| path_step: "run_path i db ss db1 \<Longrightarrow> control_step db1 db2 \<Longrightarrow> find_run db2 i = Some r \<Longrightarrow>
    run_path i db (ss @ [rn_status r]) db2"

inductive_cases run_pathE: "run_path i db ss db'"

fun status_steps :: "run_status list \<Rightarrow> bool" where
  "status_steps (s # t # ss) = (status_step s t \<and> status_steps (t # ss))"
| "status_steps ss = True"

lemma status_steps_snoc:
  "status_steps (ss @ [s]) \<Longrightarrow> status_step s t \<Longrightarrow> status_steps (ss @ [s, t])"
  by (induction ss rule: status_steps.induct) auto

lemma run_path_last:
  "run_path i db ss db' \<Longrightarrow> \<exists>r ts. find_run db' i = Some r \<and> ss = ts @ [rn_status r]"
  by (induction rule: run_path.induct) auto

lemma run_path_reaches: "run_path i db ss db' \<Longrightarrow> reaches db db'"
  by (induction rule: run_path.induct) auto

text \<open>C8. Along any interleaving, a run's status moves only along the life cycle of
  \<open>engine/state.py\<close>, or from failed or running back to pending (retry, recovery): no transaction
  skips a state or leaves a terminal one.\<close>

theorem run_path_legal:
  assumes "run_path i db ss db'" "db_ok db"
  shows "status_steps ss"
  using assms
proof (induction rule: run_path.induct)
  case (path_step db ss db1 db2 r)
  obtain q ts where q: "find_run db1 i = Some q" "ss = ts @ [rn_status q]"
    using run_path_last [OF path_step.hyps(1)] by blast
  have "db_ok db1" using reaches_ok run_path_reaches path_step by blast
  then have "status_step (rn_status q) (rn_status r)"
    using control_step_run [OF path_step.hyps(2) _ q(1)] path_step.hyps(3)
    by (metis option.inject run_evolves_def)
  then show ?case using path_step q by (simp add: status_steps_snoc)
qed simp

lemma terminal_kept:
  "reaches db db' \<Longrightarrow> db_ok db \<Longrightarrow> find_run db i = Some r \<Longrightarrow> rn_status r \<in> set run_terminal \<Longrightarrow>
     \<exists>r'. find_run db' i = Some r' \<and> rn_status r' = rn_status r"
proof (induction rule: rtranclp_induct)
  case (step y z)
  obtain q where q: "find_run y i = Some q" "rn_status q = rn_status r" using step by blast
  have "db_ok y" using reaches_ok step by blast
  then obtain x where "find_run z i = Some x" "run_evolves q x"
    using control_step_run [OF step.hyps(2) _ q(1)] by blast
  then show ?case using q step.prems(3) status_step_terminal by (auto simp: run_evolves_def)
qed simp

text \<open>A run that completed, was cancelled or was superseded stays so forever, and no run ever
  disappears or changes its graph, its version or its payload.\<close>

theorem finished_runs_final:
  assumes "reaches db db'" "db_ok db" "find_run db i = Some r"
  shows "\<exists>r'. find_run db' i = Some r' \<and> rn_graph_id r' = rn_graph_id r \<and>
    rn_version_id r' = rn_version_id r \<and> rn_payload r' = rn_payload r \<and>
    (rn_status r \<in> {COMPLETED, CANCELLED, SUPERSEDED} \<longrightarrow> rn_status r' = rn_status r)"
proof -
  have "\<exists>r'. find_run db' i = Some r' \<and> rn_graph_id r' = rn_graph_id r \<and>
    rn_version_id r' = rn_version_id r \<and> rn_payload r' = rn_payload r"
    using assms(1)
  proof (induction rule: rtranclp_induct)
    case base
    then show ?case using assms(3) by simp
  next
    case (step y z)
    obtain q where q: "find_run y i = Some q" "rn_graph_id q = rn_graph_id r"
      "rn_version_id q = rn_version_id r" "rn_payload q = rn_payload r" using step.IH by blast
    have "db_ok y" using reaches_ok step.hyps(1) assms(2) by blast
    then obtain x where "find_run z i = Some x" "run_evolves q x"
      using control_step_run [OF step.hyps(2) _ q(1)] by blast
    then show ?case using q by (simp add: run_evolves_def)
  qed
  then show ?thesis using terminal_kept [OF assms] by (auto simp: run_terminal_def)
qed

subsection \<open>A run from start to completion\<close>

definition demo_start :: db where
  "demo_start = snd (start_run 1 None control_user 0 one_graph_db)"

definition demo_claimed :: db where
  "demo_claimed = snd (claim_run_job (\<lambda>_. False) ''w1'' 60 1000 demo_start)"

definition demo_cancelled :: db where
  "demo_cancelled = snd (cancel_run_endpoint 100 control_user demo_claimed)"

lemma demo_steps: "control_step one_graph_db demo_start" "control_step demo_start demo_claimed"
    "control_step demo_claimed demo_cancelled"
  unfolding demo_start_def demo_claimed_def demo_cancelled_def
  by (rule s_start s_claim s_cancel)+

lemma demo_runs: "find_run demo_start 100 = Some (new_run 100 1 (Some 2) ''manual'' (Some 7) None 0)"
    "find_run demo_cancelled 100 =
      Some ((new_run 100 1 (Some 2) ''manual'' (Some 7) None 0)\<lparr>rn_status := CANCELLED\<rparr>)"
    "find_run demo_claimed 100 = Some (new_run 100 1 (Some 2) ''manual'' (Some 7) None 0)"
  by code_simp+

lemma demo_start_ok: "db_ok demo_start" "states_ok one_graph_db"
  using control_step_evolves [OF demo_steps(1) db_ok_initial(2)]
  by (simp_all add: db_evolves_def states_ok_def one_graph_db_def empty_db_def)

theorem reachable_consistent_witness: "db_ok demo_cancelled \<and> states_ok demo_cancelled"
proof -
  have "reaches one_graph_db demo_cancelled"
    using demo_steps by (meson rtranclp.rtrancl_refl rtranclp.rtrancl_into_rtrancl)
  from reachable_consistent [OF this db_ok_initial(2) demo_start_ok(2)] show ?thesis .
qed

theorem run_path_legal_witness: "status_steps [PENDING, PENDING, CANCELLED]"
proof -
  have "run_path 100 demo_start [PENDING] demo_start"
    using path_here [OF demo_runs(1)] by (simp add: new_run_def)
  from path_step [OF this demo_steps(2) demo_runs(3)]
  have "run_path 100 demo_start [PENDING, PENDING] demo_claimed" by (simp add: new_run_def)
  from path_step [OF this demo_steps(3) demo_runs(2)]
  have "run_path 100 demo_start [PENDING, PENDING, CANCELLED] demo_cancelled" by simp
  from run_path_legal [OF this demo_start_ok(1)] show ?thesis .
qed

theorem finished_runs_final_witness:
  "\<exists>r'. find_run demo_cancelled 100 = Some r' \<and> rn_version_id r' = Some 2"
proof -
  have "reaches demo_start demo_cancelled"
    using demo_steps(2,3) by (meson rtranclp.rtrancl_refl rtranclp.rtrancl_into_rtrancl)
  from finished_runs_final [OF this demo_start_ok(1) demo_runs(1)]
  show ?thesis by (auto simp: new_run_def)
qed

end
