(* ===== verification/NodeRunner.thy ===== *)
theory NodeRunner
  imports ControlPlane Complex_Main
begin

text \<open>
  Running one node: \<open>backend/app/engine/retry.py\<close>, \<open>runner.py\<close>, \<open>checkpoint.py\<close> and
  \<open>dead_letter.py\<close>. An executor is a long computation of many transactions, so it runs in a
  \<open>world\<close>: the committed tables, the writes its session has flushed but not committed, the
  transactions that other clients will commit at its next database accesses, the events it emitted,
  its clock readings and its supply of row identifiers.
\<close>

subsection \<open>The world of an executor\<close>

datatype event =
    RunStarted
  | RunCompleted
  | RunFailed
  | NodeStarted string
  | NodeCompleted string
  | NodeFailed string

record world =
  w_db :: db
  w_pend :: "db \<Rightarrow> db"
  w_others :: "(db \<Rightarrow> db) list"
  w_events :: "event list"
  w_clock :: "nat \<Rightarrow> time"
  w_ticks :: nat
  w_uuid :: uuid

text \<open>An exception: any \<open>Exception\<close> with its message, a lost source-state lease, or the
  \<open>TypeError\<close> of \<open>raise None\<close>.\<close>

datatype exn = Error string | LeaseError | NothingRaised

type_synonym 'a act = "world \<Rightarrow> (exn + 'a) \<times> world"

definition ret :: "'a \<Rightarrow> 'a act" where
  "ret x w = (Inr x, w)"

definition raise_exn :: "exn \<Rightarrow> 'a act" where
  "raise_exn e w = (Inl e, w)"

definition bind_act :: "'a act \<Rightarrow> ('a \<Rightarrow> 'b act) \<Rightarrow> 'b act" where
  "bind_act m f w = (case m w of (Inl e, w') \<Rightarrow> (Inl e, w') | (Inr x, w') \<Rightarrow> f x w')"

definition try_act :: "'a act \<Rightarrow> (exn \<Rightarrow> 'a act) \<Rightarrow> 'a act" where
  "try_act m h w = (case m w of (Inl e, w') \<Rightarrow> h e w' | (Inr x, w') \<Rightarrow> (Inr x, w'))"

text \<open>Other clients commit between two database accesses of the session.\<close>

definition others_commit :: "world \<Rightarrow> world" where
  "others_commit w = (case w_others w of [] \<Rightarrow> w
     | f # fs \<Rightarrow> w\<lparr>w_db := f (w_db w), w_others := fs\<rparr>)"

definition read_clock :: "time act" where
  "read_clock w = (Inr (w_clock w (w_ticks w)), w\<lparr>w_ticks := Suc (w_ticks w)\<rparr>)"

definition new_uuid :: "uuid act" where
  "new_uuid w = (Inr (w_uuid w), w\<lparr>w_uuid := Suc (w_uuid w)\<rparr>)"

text \<open>A query sees what is committed and what the session has flushed.\<close>

definition query :: "(db \<Rightarrow> 'a) \<Rightarrow> 'a act" where
  "query q w = (let w' = others_commit w in (Inr (q (w_pend w' (w_db w'))), w'))"

definition flush_write :: "(db \<Rightarrow> db) \<Rightarrow> unit act" where
  "flush_write f w = (Inr (), w\<lparr>w_pend := f \<circ> w_pend w\<rparr>)"

text \<open>
  One transaction of a service, after the others committed: \<open>op\<close> gets the clock from its next
  reading on and the tables with the flushed writes; it returns its result and the tables to commit,
  or \<open>None\<close> when it rolls back. \<open>n\<close> is the number of clock readings.
\<close>

definition transact :: "nat \<Rightarrow> ((nat \<Rightarrow> time) \<Rightarrow> db \<Rightarrow> (exn + 'a) \<times> db option) \<Rightarrow> 'a act" where
  "transact n op w =
     (let w1 = others_commit w;
          (r, d) = op (\<lambda>k. w_clock w1 (w_ticks w1 + k)) (w_pend w1 (w_db w1))
      in (r, w1\<lparr>w_db := (case d of None \<Rightarrow> w_db w1 | Some x \<Rightarrow> x), w_pend := (\<lambda>d. d),
           w_ticks := w_ticks w1 + n\<rparr>))"

definition commit :: "unit act" where
  "commit = transact 0 (\<lambda>_ d. (Inr (), Some d))"

definition rollback :: "unit act" where
  "rollback w = (Inr (), w\<lparr>w_pend := (\<lambda>d. d)\<rparr>)"

definition emit_event :: "event \<Rightarrow> unit act" where
  "emit_event e w = (Inr (), w\<lparr>w_events := w_events w @ [e]\<rparr>)"

subsection \<open>Retry with exponential backoff\<close>

record retry_config =
  rc_max_retries :: nat
  rc_base_delay :: rat
  rc_max_delay :: rat
  rc_jitter :: bool

text \<open>\<open>u\<close> is the draw of \<open>random.uniform(0.5, 1.5)\<close>.\<close>

definition calculate_delay :: "nat \<Rightarrow> retry_config \<Rightarrow> rat \<Rightarrow> rat" where
  "calculate_delay attempt rc u =
     (let delay = min (2 ^ attempt * rc_base_delay rc) (rc_max_delay rc)
      in if rc_jitter rc then delay * u else delay)"

text \<open>Attempts \<open>attempt\<close> to \<open>max_retries\<close>; the delay between two attempts only passes time.\<close>

function retry_from :: "nat \<Rightarrow> nat \<Rightarrow> exn \<Rightarrow> (nat \<Rightarrow> 'a act) \<Rightarrow> 'a act" where
  "retry_from attempt max_retries last_exception f w =
     (if max_retries < attempt then (Inl last_exception, w)
      else case f attempt w of
        (Inr x, w') \<Rightarrow> (Inr x, w')
      | (Inl e, w') \<Rightarrow> retry_from (Suc attempt) max_retries e f w')"
  by pat_completeness auto
termination
  by (relation "measure (\<lambda>(attempt, max_retries, _). Suc max_retries - attempt)") auto

declare retry_from.simps [simp del]

definition retry_async :: "retry_config \<Rightarrow> (nat \<Rightarrow> 'a act) \<Rightarrow> 'a act" where
  "retry_async rc f = retry_from 1 (rc_max_retries rc) NothingRaised f"

definition default_retry :: "nat \<Rightarrow> retry_config" where
  "default_retry n = \<lparr>rc_max_retries = n, rc_base_delay = 2, rc_max_delay = 60, rc_jitter = True\<rparr>"

subsection \<open>Node implementations\<close>

record node_result =
  rs_success :: bool
  rs_output :: obj
  rs_items :: int
  rs_error :: "string option"

record node_state =
  st_connections :: "(string, obj) dict"
  st_owner :: uuid
  st_graph :: uuid

record node_context =
  cx_run :: uuid
  cx_node :: string
  cx_config :: obj
  cx_input :: "(json, json) dict"
  cx_state :: node_state
  cx_job :: "uuid option"
  cx_lease_owner :: "string option"

text \<open>
  The code of a node is a parameter: for a context, the number of the attempt and the tables as its
  session sees them it returns or raises, and it may have written to the session (an SDK source reads
  its checkpoints and stages new ones there).
\<close>

type_synonym node_impl = "node_context \<Rightarrow> nat \<Rightarrow> db \<Rightarrow> (exn + node_result) \<times> (db \<Rightarrow> db)"
type_synonym implementations = "string \<Rightarrow> node_impl option"

datatype attempt_result = Stopped run_status | Result node_result

definition stopped_run_status :: "uuid \<Rightarrow> run_status option act" where
  "stopped_run_status run = query (\<lambda>db. case find_run db run of
       None \<Rightarrow> None
     | Some r \<Rightarrow> if rn_status r \<in> {PAUSED, CANCELLED} then Some (rn_status r) else None)"

text \<open>Stop the attempt if the run was stopped, else continue.\<close>

definition unless_stopped :: "uuid \<Rightarrow> attempt_result act \<Rightarrow> attempt_result act" where
  "unless_stopped run m = bind_act (stopped_run_status run) (\<lambda>s.
     case s of Some st \<Rightarrow> ret (Stopped st) | None \<Rightarrow> m)"

text \<open>A store that finds the lease gone rolls its session back before it raises.\<close>

definition call_node :: "node_impl \<Rightarrow> node_context \<Rightarrow> nat \<Rightarrow> node_result act" where
  "call_node impl ctx k w = (case impl ctx k (w_pend w (w_db w)) of
       (Inl LeaseError, f) \<Rightarrow> (Inl LeaseError, w\<lparr>w_pend := (\<lambda>d. d)\<rparr>)
     | (Inl e, f) \<Rightarrow> (Inl e, w\<lparr>w_pend := f \<circ> w_pend w\<rparr>)
     | (Inr r, f) \<Rightarrow> (Inr r, w\<lparr>w_pend := f \<circ> w_pend w\<rparr>))"

definition execute_attempt :: "node_impl \<Rightarrow> node_context \<Rightarrow> nat \<Rightarrow> attempt_result act" where
  "execute_attempt impl ctx k =
     unless_stopped (cx_run ctx)
       (try_act (bind_act (call_node impl ctx k) (\<lambda>r. unless_stopped (cx_run ctx) (ret (Result r))))
         (\<lambda>e. unless_stopped (cx_run ctx) (raise_exn e)))"

subsection \<open>Rows the runner writes\<close>

definition add_run_node :: "run_node \<Rightarrow> db \<Rightarrow> db" where
  "add_run_node n db = db\<lparr>db_run_nodes := db_run_nodes db @ [n]\<rparr>"

definition put_run_node :: "run_node \<Rightarrow> db \<Rightarrow> db" where
  "put_run_node n db = db\<lparr>db_run_nodes := upd_row nr_id (nr_id n) (\<lambda>_. n) (db_run_nodes db)\<rparr>"

definition add_log :: "execution_log \<Rightarrow> db \<Rightarrow> db" where
  "add_log l db = db\<lparr>db_logs := db_logs db @ [l]\<rparr>"

definition add_checkpoint :: "checkpoint \<Rightarrow> db \<Rightarrow> db" where
  "add_checkpoint c db = db\<lparr>db_checkpoints := db_checkpoints db @ [c]\<rparr>"

definition add_dead_letter :: "dead_letter \<Rightarrow> db \<Rightarrow> db" where
  "add_dead_letter l db = db\<lparr>db_dead_letters := db_dead_letters db @ [l]\<rparr>"

text \<open>JSON object keys are strings: \<open>json.dumps\<close> writes the keys \<open>None\<close>, \<open>True\<close> and 1 as text.\<close>

fun json_key :: "(json \<Rightarrow> string) \<Rightarrow> json \<Rightarrow> string" where
  "json_key repr JNull = ''null''"
| "json_key repr (JBool b) = (if b then ''true'' else ''false'')"
| "json_key repr v = py_str repr v"

definition jsonb_of :: "(json \<Rightarrow> string) \<Rightarrow> (json, json) dict \<Rightarrow> obj" where
  "jsonb_of repr d = fold (\<lambda>(k, v). dict_set (json_key repr k) v) d []"

subsection \<open>Running a node\<close>

definition start_run_node ::
  "uuid \<Rightarrow> uuid \<Rightarrow> string \<Rightarrow> string \<Rightarrow> nat \<Rightarrow> obj \<Rightarrow> time \<Rightarrow> run_node" where
  "start_run_node i run node ty retries input now =
     \<lparr>nr_id = i, nr_run_id = run, nr_node_id = node, nr_node_type = ty, nr_status = N_RUNNING,
      nr_attempt_count = 1, nr_max_retries = int retries, nr_input_data = Some input,
      nr_output_data = None, nr_items_processed = None, nr_duration_ms = None, nr_error = None,
      nr_created_at = now\<rparr>"

definition node_transition :: "node_status \<Rightarrow> run_node \<Rightarrow> run_node" where
  "node_transition st n =
     (if can_node_transition (node_status_value (nr_status n)) (node_status_value st)
      then n\<lparr>nr_status := st\<rparr> else n)"

definition elapsed_ms :: "time \<Rightarrow> time \<Rightarrow> int" where
  "elapsed_ms start finish = (finish - start) div 1000"

definition record_result :: "attempt_result \<Rightarrow> int \<Rightarrow> nat \<Rightarrow> run_node \<Rightarrow> run_node" where
  "record_result r ms retries n =
     (case r of
        Stopped _ \<Rightarrow> (node_transition N_SKIPPED n)\<lparr>nr_output_data := Some [], nr_items_processed := Some 0,
          nr_duration_ms := Some ms, nr_error := None, nr_attempt_count := int retries\<rparr>
      | Result x \<Rightarrow> (node_transition (if rs_success x then N_COMPLETED else N_FAILED) n)\<lparr>
          nr_output_data := Some (rs_output x), nr_items_processed := Some (rs_items x),
          nr_duration_ms := Some ms, nr_error := rs_error x, nr_attempt_count := int retries\<rparr>)"

definition exn_str :: "exn \<Rightarrow> string" where
  "exn_str e = (case e of Error m \<Rightarrow> m | LeaseError \<Rightarrow> ''lease lost''
     | NothingRaised \<Rightarrow> ''exceptions must derive from BaseException'')"

definition record_failure :: "exn \<Rightarrow> int \<Rightarrow> nat \<Rightarrow> run_node \<Rightarrow> run_node" where
  "record_failure e ms retries n =
     (node_transition N_FAILED n)\<lparr>nr_duration_ms := Some ms, nr_error := Some (exn_str e),
       nr_attempt_count := int retries\<rparr>"

definition result_message :: "string \<Rightarrow> attempt_result \<Rightarrow> int \<Rightarrow> string" where
  "result_message ty r ms =
     (case r of
        Stopped st \<Rightarrow> ''Node '' @ ty @ '' stopped because run is '' @ run_status_value st
      | Result _ \<Rightarrow> ''Node '' @ ty @ '' completed in '' @ int_str ms @ ''ms'')"

definition node_log :: "run_node \<Rightarrow> log_level \<Rightarrow> string \<Rightarrow> execution_log" where
  "node_log n level msg =
     \<lparr>lg_run_id = nr_run_id n, lg_run_node_id = Some (nr_id n), lg_node_id = Some (nr_node_id n),
      lg_level = level, lg_message = msg\<rparr>"

definition save_run_node :: "run_node \<Rightarrow> unit act" where
  "save_run_node n = flush_write (put_run_node n)"

definition settle :: "bool \<Rightarrow> unit act" where
  "settle defer = (if defer then ret () else commit)"

text \<open>The attempts and what is recorded of them.\<close>

definition attempt_node :: "node_impl \<Rightarrow> node_context \<Rightarrow> retry_config \<Rightarrow> run_node \<Rightarrow> run_node act" where
  "attempt_node impl ctx rc n =
     bind_act read_clock (\<lambda>start.
     try_act
       (bind_act (retry_async rc (execute_attempt impl ctx)) (\<lambda>r.
        bind_act read_clock (\<lambda>finish.
        let ms = elapsed_ms start finish; n' = record_result r ms (rc_max_retries rc) n in
        bind_act (save_run_node n') (\<lambda>_.
        bind_act (flush_write (add_log (node_log n' INFO (result_message (nr_node_type n') r ms)))) (\<lambda>_.
        ret n')))))
       (\<lambda>e. if e = LeaseError then bind_act rollback (\<lambda>_. raise_exn LeaseError)
            else bind_act read_clock (\<lambda>finish.
              let n' = record_failure e (elapsed_ms start finish) (rc_max_retries rc) n in
              bind_act (save_run_node n') (\<lambda>_.
              bind_act (flush_write (add_log (node_log n' ERROR (''Node '' @ nr_node_type n' @
                '' failed after retries: '' @ exn_str e)))) (\<lambda>_.
              ret n')))))"

definition run_node_with_retry ::
  "implementations \<Rightarrow> (json \<Rightarrow> string) \<Rightarrow> bool \<Rightarrow> nat \<Rightarrow> string \<Rightarrow> node_context \<Rightarrow> run_node act" where
  "run_node_with_retry impls repr defer retries ty ctx =
     bind_act new_uuid (\<lambda>i.
     bind_act read_clock (\<lambda>now.
     let n = start_run_node i (cx_run ctx) (cx_node ctx) ty retries (jsonb_of repr (cx_input ctx)) now in
     bind_act (flush_write (add_run_node n)) (\<lambda>_.
     bind_act (settle defer) (\<lambda>_.
     case impls ty of
       None \<Rightarrow>
         let n' = (node_transition N_FAILED n)\<lparr>nr_error := Some (''Unknown node type: '' @ ty)\<rparr> in
         bind_act (save_run_node n') (\<lambda>_. bind_act commit (\<lambda>_. ret n'))
     | Some impl \<Rightarrow>
         bind_act (attempt_node impl ctx (default_retry retries) n) (\<lambda>n'.
         bind_act (settle defer) (\<lambda>_. ret n'))))))"

subsection \<open>Checkpoints and dead letters\<close>

definition save_checkpoint ::
  "uuid \<Rightarrow> string \<Rightarrow> checkpoint_type \<Rightarrow> obj option \<Rightarrow> obj option \<Rightarrow> unit act" where
  "save_checkpoint run node ty state output =
     bind_act read_clock (\<lambda>now.
     bind_act (flush_write (add_checkpoint \<lparr>cp_run_id = run, cp_node_id = node, cp_type = ty,
        cp_state_data = state, cp_node_output = output, cp_created_at = now\<rparr>)) (\<lambda>_.
     commit))"

text \<open>\<open>ORDER BY created_at DESC\<close>; equal times keep insertion order.\<close>

definition get_checkpoints :: "db \<Rightarrow> uuid \<Rightarrow> string option \<Rightarrow> checkpoint list" where
  "get_checkpoints db run node =
     sort_key (\<lambda>c. - cp_created_at c)
       (filter (\<lambda>c. cp_run_id c = run \<and> (case node of None \<Rightarrow> True | Some n \<Rightarrow> n = [] \<or> cp_node_id c = n))
         (db_checkpoints db))"

definition get_latest_checkpoint :: "db \<Rightarrow> uuid \<Rightarrow> string \<Rightarrow> checkpoint_type \<Rightarrow> checkpoint option" where
  "get_latest_checkpoint db run node ty =
     find (\<lambda>_. True) (sort_key (\<lambda>c. - cp_created_at c)
       (filter (\<lambda>c. cp_run_id c = run \<and> cp_node_id c = node \<and> cp_type c = ty) (db_checkpoints db)))"

definition add_to_dlq ::
  "uuid option \<Rightarrow> string option \<Rightarrow> string option \<Rightarrow> string option \<Rightarrow> string option \<Rightarrow> obj option \<Rightarrow> int
     \<Rightarrow> unit act" where
  "add_to_dlq run node ty err_type err_msg input retries =
     bind_act (flush_write (add_dead_letter \<lparr>dl_run_id = run, dl_node_id = node, dl_node_type = ty,
        dl_error_type = err_type, dl_error_message = err_msg, dl_input_data = input,
        dl_retry_count = retries, dl_resolved = False\<rparr>)) (\<lambda>_.
     commit)"

end
