(* ===== verification/Executor.thy ===== *)
theory Executor
  imports NodeRunner PyText
begin

text \<open>
  The graph executor: \<open>backend/app/engine/executor.py\<close>. Python values that the code turns into text
  or decrypts with library functions are parameters, gathered in one record: \<open>repr\<close> for the text of
  floats, lists and dicts, \<open>UUID\<close> parsing and printing, the decryption of a connection's
  configuration, the node implementations, and the order in which the tasks of a parallel level
  finish. The tasks of a level run one after the other in that order: they have a session of their
  own each and write rows of their own.
\<close>

record runtime =
  rt_repr :: "json \<Rightarrow> string"
  rt_parse_uuid :: "string \<Rightarrow> uuid option"
  rt_uuid_str :: "uuid \<Rightarrow> string"
  rt_decrypt :: "obj option \<Rightarrow> obj"
  rt_impls :: implementations
  rt_order :: "string list \<Rightarrow> string list"

record exec_state =
  xs_outputs :: "(string, obj) dict"
  xs_connections :: "(string, obj) dict"
  xs_owner :: uuid
  xs_graph :: uuid
  xs_payload :: "obj option"

text \<open>What an executor was built with: the run and the durable job, if any.\<close>

record exec_run =
  xr_run :: uuid
  xr_job :: "uuid option"
  xr_lease_owner :: "string option"

subsection \<open>Connections\<close>

definition node_config_of :: "obj \<Rightarrow> string \<Rightarrow> exn + obj" where
  "node_config_of configs node =
     (case dict_get configs node of
        None \<Rightarrow> Inr []
      | Some (JObj c) \<Rightarrow> Inr c
      | Some _ \<Rightarrow> Inl (Error ''node config is not a dict''))"

definition connection_ref :: "(json \<Rightarrow> string) \<Rightarrow> obj \<Rightarrow> string option" where
  "connection_ref repr c =
     (let v = obj_get c ''connection_id'' in if truthy v then Some (py_str repr v) else None)"

text \<open>The references of all dict configurations; the others are skipped.\<close>

definition raw_connection_ids :: "(json \<Rightarrow> string) \<Rightarrow> obj \<Rightarrow> string list" where
  "raw_connection_ids repr configs =
     List.map_filter (\<lambda>(_, v). case v of JObj c \<Rightarrow> connection_ref repr c | _ \<Rightarrow> None) configs"

definition owned_connections :: "db \<Rightarrow> uuid \<Rightarrow> uuid list \<Rightarrow> connection list" where
  "owned_connections db owner ids =
     filter (\<lambda>c. cn_id c \<in> set ids \<and> cn_user_id c = owner) (db_connections db)"

text \<open>\<open>None\<close> is the \<open>ValueError\<close>.\<close>

definition resolve_connections ::
  "runtime \<Rightarrow> db \<Rightarrow> uuid \<Rightarrow> obj \<Rightarrow> (string, obj) dict option" where
  "resolve_connections rt db owner configs =
     (let raw = raw_connection_ids (rt_repr rt) configs;
          parsed = map (rt_parse_uuid rt) raw
      in if raw = [] then Some []
         else if None \<in> set parsed then None
         else let ids = map the parsed; cs = owned_connections db owner ids in
              if set (map cn_id cs) \<noteq> set ids then None
              else Some (fold (\<lambda>c. dict_set (rt_uuid_str rt (cn_id c)) (rt_decrypt rt (cn_config c))) cs []))"

definition state_for_node :: "runtime \<Rightarrow> string \<Rightarrow> obj \<Rightarrow> exec_state \<Rightarrow> exn + node_state" where
  "state_for_node rt node configs xs =
     bind_res (node_config_of configs node) (\<lambda>c.
       Inr \<lparr>st_connections =
              (case connection_ref (rt_repr rt) c of
                 None \<Rightarrow> []
               | Some i \<Rightarrow> (case dict_get (xs_connections xs) i of None \<Rightarrow> [] | Some v \<Rightarrow> [(i, v)])),
            st_owner = xs_owner xs, st_graph = xs_graph xs\<rparr>)"

subsection \<open>Inputs of a node\<close>

definition exec_source :: "obj \<Rightarrow> json" where
  "exec_source e = dict_get_or e ''source'' (obj_get e ''source_id'')"

definition exec_target :: "obj \<Rightarrow> json" where
  "exec_target e = dict_get_or e ''target'' (obj_get e ''target_id'')"

record edge_info =
  ei_source :: string
  ei_target :: string
  ei_source_port :: json
  ei_target_port :: json
  ei_data :: json

text \<open>\<open>source_output.get(source_port, source_output)\<close> and \<open>inputs[target_port] = data\<close>; a list or a
  dict as a key raises \<open>TypeError\<close>.\<close>

definition port_data :: "obj \<Rightarrow> json \<Rightarrow> json" where
  "port_data output port =
     (case port of JStr p \<Rightarrow> dict_get_or output p (JObj output) | _ \<Rightarrow> JObj output)"

fun collect_inputs ::
  "string \<Rightarrow> obj list \<Rightarrow> (string, obj) dict \<Rightarrow> exn + (json, json) dict \<times> edge_info list" where
  "collect_inputs node [] outputs = Inr ([], [])"
| "collect_inputs node (e # es) outputs =
     bind_res
       (if exec_target e \<noteq> JStr node then Inr None
        else if \<not> hashable (exec_source e) then Inl (Error ''unhashable type'')
        else case exec_source e of
          JStr s \<Rightarrow> (case dict_get outputs s of
              None \<Rightarrow> Inr None
            | Some out \<Rightarrow>
                let sp = dict_get_or e ''source_port'' (JStr ''output'');
                    tp = dict_get_or e ''target_port'' (JStr ''input'') in
                if \<not> hashable sp \<or> \<not> hashable tp then Inl (Error ''unhashable type'')
                else Inr (Some \<lparr>ei_source = s, ei_target = node, ei_source_port = sp,
                       ei_target_port = tp, ei_data = port_data out sp\<rparr>))
        | _ \<Rightarrow> Inr None)
       (\<lambda>here. bind_res (collect_inputs node es outputs) (\<lambda>(rest, infos).
          Inr (case here of None \<Rightarrow> (rest, infos)
               | Some i \<Rightarrow> (dict_merge [(ei_target_port i, ei_data i)] rest, i # infos))))"

definition inject_webhook_payload ::
  "(json \<Rightarrow> string) \<Rightarrow> string \<Rightarrow> json \<Rightarrow> obj list \<Rightarrow> (json, json) dict \<Rightarrow> obj option \<Rightarrow> (json, json) dict" where
  "inject_webhook_payload repr node ty edges inputs payload =
     (case payload of
        None \<Rightarrow> inputs
      | Some p \<Rightarrow>
          if ty \<noteq> JStr ''webhook_source'' then inputs
          else if \<exists>e \<in> set edges. py_str repr (dict_get_or e ''target'' (dict_get_or e ''target_id'' (JStr []))) = node
          then inputs
          else dict_set (JStr ''webhook_payload'') (JObj p) inputs)"

subsection \<open>Recording\<close>

text \<open>\<open>items_count\<close> and \<open>items_sample\<close>; the byte estimate is not kept.\<close>

definition lineage_metrics :: "json \<Rightarrow> int option \<times> json" where
  "lineage_metrics data =
     (case data of
        JList xs \<Rightarrow> (Some (int (length xs)), if xs = [] then JNull else JList (take 3 xs))
      | JObj d \<Rightarrow> (Some (int (length d)), JObj (take 3 d))
      | JNull \<Rightarrow> (None, JNull)
      | _ \<Rightarrow> (Some 1, JNull))"

definition add_lineage :: "data_lineage \<Rightarrow> db \<Rightarrow> db" where
  "add_lineage l db = db\<lparr>db_lineage := db_lineage db @ [l]\<rparr>"

definition record_lineage :: "uuid \<Rightarrow> edge_info \<Rightarrow> unit act" where
  "record_lineage run i =
     (let (count, sample) = lineage_metrics (ei_data i) in
      bind_act (flush_write (add_lineage \<lparr>ln_run_id = run, ln_source_node_id = ei_source i,
         ln_target_node_id = ei_target i, ln_source_port = ei_source_port i,
         ln_target_port = ei_target_port i, ln_items_count = count, ln_items_sample = sample\<rparr>)) (\<lambda>_.
      commit))"

fun record_lineages :: "uuid \<Rightarrow> edge_info list \<Rightarrow> unit act" where
  "record_lineages run [] = ret ()"
| "record_lineages run (i # is) = bind_act (record_lineage run i) (\<lambda>_. record_lineages run is)"

definition record_dlq ::
  "runtime \<Rightarrow> uuid \<Rightarrow> string \<Rightarrow> string \<Rightarrow> string option \<Rightarrow> (json, json) dict \<Rightarrow> int \<Rightarrow> unit act" where
  "record_dlq rt run node ty msg input retries =
     add_to_dlq (Some run) (Some node) (Some ty) (Some ''ExecutionError'') msg
       (Some (jsonb_of (rt_repr rt) input)) retries"

subsection \<open>Failing the run\<close>

definition call_fail_run :: "exec_run \<Rightarrow> string \<Rightarrow> bool act" where
  "call_fail_run xr msg = transact 3 (\<lambda>t d.
     case fail_run_if_running (xr_run xr) msg (xr_job xr) (xr_lease_owner xr) (t 0, t 1, t 2) d of
       (Inl _, _) \<Rightarrow> (Inl (Error ''Run job lease was lost''), None)
     | (Inr (r, moved), d') \<Rightarrow> (Inr moved, if r = None then None else Some d'))"

definition fail_run :: "exec_run \<Rightarrow> string \<Rightarrow> unit act" where
  "fail_run xr msg =
     bind_act (call_fail_run xr msg) (\<lambda>moved. if moved then emit_event RunFailed else ret ())"

definition state_exn :: "state_error \<Rightarrow> exn" where
  "state_exn e = (case e of StateLeaseLost \<Rightarrow> LeaseError | LeaseOwnerNeedsJob \<Rightarrow> LeaseError
     | CompletionLeaseLost \<Rightarrow> LeaseError | _ \<Rightarrow> Error ''source state'')"

definition call_complete_run :: "exec_run \<Rightarrow> bool act" where
  "call_complete_run xr = transact 3 (\<lambda>t d.
     case complete_run_with_source_state_promotion (xr_run xr) (xr_job xr) (xr_lease_owner xr) t d of
       (Inl e, _) \<Rightarrow> (Inl (state_exn e), None)
     | (Inr completed, d') \<Rightarrow> (Inr completed, if completed then Some d' else None))"

definition revalidate_staging :: "exec_run \<Rightarrow> json \<Rightarrow> unit act" where
  "revalidate_staging xr ty =
     (if ty = JStr ''sdk_document_source'' then
        bind_act read_clock (\<lambda>now.
        bind_act (query (revalidate_source_state_staging_lease (xr_run xr) (xr_job xr) (xr_lease_owner xr) now)) (\<lambda>r.
        case r of Inr _ \<Rightarrow> ret () | Inl e \<Rightarrow> bind_act rollback (\<lambda>_. raise_exn (state_exn e))))
      else ret ())"

subsection \<open>One node\<close>

definition lift_res :: "exn + 'a \<Rightarrow> 'a act" where
  "lift_res r w = (r, w)"

definition node_def_of :: "obj \<Rightarrow> string \<Rightarrow> exn + obj" where
  "node_def_of nodes node =
     (case dict_get nodes node of Some (JObj d) \<Rightarrow> Inr d | _ \<Rightarrow> Inl (Error ''node definition''))"

definition node_type_of :: "obj \<Rightarrow> json" where
  "node_type_of d = dict_get_or d ''type'' (dict_get_or d ''node_type'' (JStr ''unknown''))"

text \<open>The row needs a textual node type: inserting any other value raises.\<close>

definition type_text :: "json \<Rightarrow> exn + string" where
  "type_text ty = (case ty of JStr t \<Rightarrow> Inr t | _ \<Rightarrow> Inl (Error ''node type is not text''))"

definition has_output :: "run_node \<Rightarrow> bool" where
  "has_output n = (case nr_output_data n of None \<Rightarrow> False | Some d \<Rightarrow> d \<noteq> [])"

definition store_output :: "run_node \<Rightarrow> exec_state \<Rightarrow> exec_state" where
  "store_output n xs = xs\<lparr>xs_outputs := dict_set (nr_node_id n) (the (nr_output_data n)) (xs_outputs xs)\<rparr>"

definition invoke_node ::
  "runtime \<Rightarrow> exec_run \<Rightarrow> obj \<Rightarrow> exec_state \<Rightarrow> string \<Rightarrow> json \<Rightarrow> (json, json) dict \<Rightarrow> run_node act" where
  "invoke_node rt xr configs xs node ty inputs =
     bind_act (lift_res (node_config_of configs node)) (\<lambda>config.
     bind_act (lift_res (state_for_node rt node configs xs)) (\<lambda>st.
     bind_act (lift_res (type_text ty)) (\<lambda>t.
     run_node_with_retry (rt_impls rt) (rt_repr rt) True 3 t
       \<lparr>cx_run = xr_run xr, cx_node = node, cx_config = config, cx_input = inputs, cx_state = st,
        cx_job = xr_job xr, cx_lease_owner = xr_lease_owner xr\<rparr>)))"

definition node_inputs ::
  "runtime \<Rightarrow> string \<Rightarrow> json \<Rightarrow> obj list \<Rightarrow> exec_state \<Rightarrow> exn + (json, json) dict \<times> edge_info list" where
  "node_inputs rt node ty edges xs =
     bind_res (collect_inputs node edges (xs_outputs xs)) (\<lambda>(inputs, infos).
       Inr (inject_webhook_payload (rt_repr rt) node ty edges inputs (xs_payload xs), infos))"

definition post_exec :: "exec_run \<Rightarrow> nat \<Rightarrow> json \<Rightarrow> run_node \<Rightarrow> unit act" where
  "post_exec xr level ty n =
     bind_act (revalidate_staging xr ty) (\<lambda>_.
       save_checkpoint (xr_run xr) (nr_node_id n) POST_EXEC (Some [(''level'', JInt (int level))])
         (nr_output_data n))"

definition opt_str :: "string option \<Rightarrow> string" where
  "opt_str e = (case e of None \<Rightarrow> ''None'' | Some m \<Rightarrow> m)"

definition node_error :: "string \<Rightarrow> string \<Rightarrow> string option \<Rightarrow> string" where
  "node_error node ty err = ''Node '' @ node @ '' ('' @ ty @ '') failed: '' @ opt_str err"

definition run_stopped :: "uuid \<Rightarrow> bool act" where
  "run_stopped run = bind_act (stopped_run_status run) (\<lambda>s. ret (s \<noteq> None))"

text \<open>A node of a level that is executed in sequence; \<open>None\<close> means that the executor returns.\<close>

definition sequential_node ::
  "runtime \<Rightarrow> exec_run \<Rightarrow> obj \<Rightarrow> obj list \<Rightarrow> obj \<Rightarrow> nat \<Rightarrow> string \<Rightarrow> exec_state \<Rightarrow> exec_state option act" where
  "sequential_node rt xr nodes edges configs level node xs =
     bind_act (run_stopped (xr_run xr)) (\<lambda>stop. if stop then ret None else
     bind_act (lift_res (node_def_of nodes node)) (\<lambda>d. let ty = node_type_of d in
     bind_act (lift_res (node_inputs rt node ty edges xs)) (\<lambda>(inputs, infos).
     bind_act (emit_event (NodeStarted node)) (\<lambda>_.
     bind_act (invoke_node rt xr configs xs node ty inputs) (\<lambda>n.
     if nr_status n = N_SKIPPED then ret None else
     let xs' = (if has_output n then store_output n xs else xs) in
     bind_act (if has_output n \<and> nr_status n = N_COMPLETED
               then record_lineages (xr_run xr) infos else ret ()) (\<lambda>_.
     bind_act (post_exec xr level ty n) (\<lambda>_.
     if nr_status n = N_COMPLETED then bind_act (emit_event (NodeCompleted node)) (\<lambda>_. ret (Some xs'))
     else bind_act (record_dlq rt (xr_run xr) node (py_str (rt_repr rt) ty) (nr_error n) inputs
                      (nr_attempt_count n)) (\<lambda>_.
          bind_act (emit_event (NodeFailed node)) (\<lambda>_.
          bind_act (fail_run xr (node_error node (py_str (rt_repr rt) ty) (nr_error n))) (\<lambda>_.
          ret None))))))))))"

fun sequential_level ::
  "runtime \<Rightarrow> exec_run \<Rightarrow> obj \<Rightarrow> obj list \<Rightarrow> obj \<Rightarrow> nat \<Rightarrow> string list \<Rightarrow> exec_state \<Rightarrow> exec_state option act" where
  "sequential_level rt xr nodes edges configs level [] xs = ret (Some xs)"
| "sequential_level rt xr nodes edges configs level (node # rest) xs =
     bind_act (sequential_node rt xr nodes edges configs level node xs) (\<lambda>r.
       case r of None \<Rightarrow> ret None
       | Some xs' \<Rightarrow> sequential_level rt xr nodes edges configs level rest xs')"

text \<open>A task of a parallel level: the new shared state, the node's status and its error.\<close>

type_synonym task_result = "exec_state \<times> node_status \<times> string option"

definition parallel_task ::
  "runtime \<Rightarrow> exec_run \<Rightarrow> obj \<Rightarrow> obj list \<Rightarrow> obj \<Rightarrow> nat \<Rightarrow> string \<Rightarrow> exec_state \<Rightarrow> task_result act" where
  "parallel_task rt xr nodes edges configs level node xs =
     bind_act (run_stopped (xr_run xr)) (\<lambda>stop. if stop then ret (xs, N_SKIPPED, None) else
     bind_act (lift_res (node_def_of nodes node)) (\<lambda>d. let ty = node_type_of d in
     bind_act (lift_res (node_inputs rt node ty edges xs)) (\<lambda>(inputs, infos).
     bind_act (emit_event (NodeStarted node)) (\<lambda>_.
     bind_act (invoke_node rt xr configs xs node ty inputs) (\<lambda>n.
     if nr_status n = N_SKIPPED then ret (xs, N_SKIPPED, nr_error n) else
     let good = (has_output n \<and> nr_status n = N_COMPLETED); xs' = (if good then store_output n xs else xs) in
     bind_act (if good then record_lineages (xr_run xr) infos else ret ()) (\<lambda>_.
     bind_act (post_exec xr level ty n) (\<lambda>_.
     bind_act (if nr_status n = N_COMPLETED then emit_event (NodeCompleted node)
               else bind_act (record_dlq rt (xr_run xr) node (py_str (rt_repr rt) ty) (nr_error n) inputs
                      (nr_attempt_count n)) (\<lambda>_. emit_event (NodeFailed node))) (\<lambda>_.
     ret (xs', nr_status n, nr_error n)))))))))"

text \<open>Leaving the session's block drops what is not committed; only a lost lease escapes the task.
  Whether a failed task had stored its output first is not observable: the run fails after the
  level, and no node of a level reads another's output.\<close>

definition task_failed :: "string option" where
  "task_failed = Some ''Unexpected error during parallel execution''"

definition guarded_task ::
  "runtime \<Rightarrow> exec_run \<Rightarrow> obj \<Rightarrow> obj list \<Rightarrow> obj \<Rightarrow> nat \<Rightarrow> string \<Rightarrow> exec_state \<Rightarrow> task_result act" where
  "guarded_task rt xr nodes edges configs level node xs =
     bind_act (try_act (parallel_task rt xr nodes edges configs level node xs)
       (\<lambda>e. if e = LeaseError then bind_act rollback (\<lambda>_. raise_exn LeaseError)
            else ret (xs, N_FAILED, task_failed))) (\<lambda>r.
     bind_act rollback (\<lambda>_. ret r))"

fun parallel_tasks ::
  "runtime \<Rightarrow> exec_run \<Rightarrow> obj \<Rightarrow> obj list \<Rightarrow> obj \<Rightarrow> nat \<Rightarrow> string list \<Rightarrow> exec_state
     \<Rightarrow> (exec_state \<times> (string \<times> node_status \<times> string option) list) act" where
  "parallel_tasks rt xr nodes edges configs level [] xs = ret (xs, [])"
| "parallel_tasks rt xr nodes edges configs level (node # rest) xs =
     bind_act (guarded_task rt xr nodes edges configs level node xs) (\<lambda>(xs1, res).
     bind_act (parallel_tasks rt xr nodes edges configs level rest xs1) (\<lambda>(xs2, results).
     ret (xs2, (node, res) # results)))"

definition failed_result ::
  "string list \<Rightarrow> (string \<times> node_status \<times> string option) list \<Rightarrow> (string \<times> string option) option" where
  "failed_result level results =
     map_option (\<lambda>n. (n, snd (the (map_of results n))))
       (find (\<lambda>n. case map_of results n of Some (st, _) \<Rightarrow> st = N_FAILED | None \<Rightarrow> False) level)"

subsection \<open>Levels\<close>

definition parallel_threshold :: nat where
  "parallel_threshold = 2"

text \<open>One level; \<open>None\<close> when the executor returns.\<close>

definition run_level ::
  "runtime \<Rightarrow> exec_run \<Rightarrow> obj \<Rightarrow> obj list \<Rightarrow> obj \<Rightarrow> nat \<Rightarrow> string list \<Rightarrow> exec_state \<Rightarrow> exec_state option act" where
  "run_level rt xr nodes edges configs level ns xs =
     (if parallel_threshold \<le> length ns then
        bind_act (parallel_tasks rt xr nodes edges configs level (rt_order rt ns) xs) (\<lambda>(xs1, results).
        bind_act (run_stopped (xr_run xr)) (\<lambda>stop. if stop then ret None else
        case failed_result ns results of
          None \<Rightarrow> ret (Some xs1)
        | Some (node, err) \<Rightarrow>
            bind_act (lift_res (node_def_of nodes node)) (\<lambda>d.
            bind_act (fail_run xr (node_error node
               (py_str (rt_repr rt) (dict_get_or d ''type'' (JStr ''unknown''))) err)) (\<lambda>_.
            ret None))))
      else sequential_level rt xr nodes edges configs level ns xs)"

fun run_levels ::
  "runtime \<Rightarrow> exec_run \<Rightarrow> obj \<Rightarrow> obj list \<Rightarrow> obj \<Rightarrow> nat \<Rightarrow> string list list \<Rightarrow> exec_state \<Rightarrow> exec_state option act" where
  "run_levels rt xr nodes edges configs level [] xs = ret (Some xs)"
| "run_levels rt xr nodes edges configs level (ns # rest) xs =
     bind_act (run_stopped (xr_run xr)) (\<lambda>stop. if stop then ret None else
     bind_act (run_level rt xr nodes edges configs level ns xs) (\<lambda>r.
     case r of None \<Rightarrow> ret None
     | Some xs' \<Rightarrow> run_levels rt xr nodes edges configs (Suc level) rest xs'))"

subsection \<open>The whole run\<close>

definition dag_error_text :: "(json \<Rightarrow> string) \<Rightarrow> dag_error \<Rightarrow> string" where
  "dag_error_text repr e = (case e of
       SourceNotFound i v \<Rightarrow> ''Edge '' @ nat_str i @ '': source node '' @ py_quote (py_str repr v) @ '' not found''
     | TargetNotFound i v \<Rightarrow> ''Edge '' @ nat_str i @ '': target node '' @ py_quote (py_str repr v) @ '' not found''
     | HasCycle \<Rightarrow> ''Graph contains a cycle and cannot be executed'')"

fun join_with :: "string \<Rightarrow> string list \<Rightarrow> string" where
  "join_with sep [] = []"
| "join_with sep [s] = s"
| "join_with sep (s # ss) = s @ sep @ join_with sep ss"

text \<open>Lock the run and move it from pending to running; \<open>None\<close> when another client stopped it.\<close>

definition begin_run :: "exec_run \<Rightarrow> run option act" where
  "begin_run xr = transact 0 (\<lambda>_ d.
     case find_run d (xr_run xr) of
       None \<Rightarrow> (Inl (Error ''Run no longer exists''), None)
     | Some r \<Rightarrow>
         if rn_status r = PENDING
         then (Inr (Some (r\<lparr>rn_status := RUNNING\<rparr>)),
               Some (upd_run (xr_run xr) (\<lambda>x. x\<lparr>rn_status := RUNNING\<rparr>) d))
         else (Inr (if rn_status r = RUNNING then Some r else None), Some d))"

definition finish_run :: "exec_run \<Rightarrow> unit act" where
  "finish_run xr =
     bind_act (query (\<lambda>db. map_option rn_status (find_run db (xr_run xr)))) (\<lambda>s.
     if s = Some RUNNING then
       bind_act (call_complete_run xr) (\<lambda>completed.
       if completed then emit_event RunCompleted else ret ())
     else ret ())"

definition initial_state :: "run \<Rightarrow> uuid \<Rightarrow> (string, obj) dict \<Rightarrow> exec_state" where
  "initial_state r owner conns =
     \<lparr>xs_outputs = [], xs_connections = conns, xs_owner = owner, xs_graph = rn_graph_id r,
      xs_payload = (if rn_trigger_type r = ''webhook'' then rn_payload r else None)\<rparr>"

definition execute ::
  "runtime \<Rightarrow> exec_run \<Rightarrow> obj \<Rightarrow> obj list \<Rightarrow> obj \<Rightarrow> unit act" where
  "execute rt xr nodes edges configs =
     bind_act (begin_run xr) (\<lambda>started.
     case started of None \<Rightarrow> ret () | Some r \<Rightarrow>
     case validate_dag (dict_keys nodes) edges of
       None \<Rightarrow> raise_exn NothingRaised
     | Some (Inl _) \<Rightarrow> raise_exn (Error ''unhashable type'')
     | Some (Inr errs) \<Rightarrow>
         if errs \<noteq> [] then
           fail_run xr (''Invalid DAG: '' @ join_with ''; '' (map (dag_error_text (rt_repr rt)) errs))
         else
         bind_act (emit_event RunStarted) (\<lambda>_.
         case topological_sort (dict_keys nodes) edges of
           None \<Rightarrow> raise_exn NothingRaised
         | Some (Inl Unhashable) \<Rightarrow> raise_exn (Error ''unhashable type'')
         | Some (Inl Cycle) \<Rightarrow> fail_run xr (dag_error_text (rt_repr rt) HasCycle)
         | Some (Inr levels) \<Rightarrow>
             bind_act (query (\<lambda>db. case graph_owner db (rn_graph_id r) of
                 None \<Rightarrow> None
               | Some owner \<Rightarrow> map_option (\<lambda>cs. (owner, cs)) (resolve_connections rt db owner configs))) (\<lambda>res.
             case res of
               None \<Rightarrow> fail_run xr ''Invalid or unauthorized graph resource reference''
             | Some (owner, conns) \<Rightarrow>
                 bind_act (run_levels rt xr nodes edges configs 0 levels (initial_state r owner conns)) (\<lambda>r'.
                 case r' of None \<Rightarrow> ret () | Some _ \<Rightarrow> finish_run xr))))"

end
