(* ===== verification/JobExecutor.thy ===== *)
theory JobExecutor
  imports Executor
begin

text \<open>
  Executing durable jobs: \<open>backend/app/engine/run_job_executor.py\<close>, and the processing of one claimed
  job by \<open>backend/app/engine/run_worker.py\<close>. Loops that only wait (polling, the heartbeat timer) are
  not modelled; the transactions of the heartbeat task are among those of the other clients.
\<close>

definition load_version :: "(json \<Rightarrow> string) \<Rightarrow> run \<Rightarrow> (obj \<times> obj list \<times> obj) act" where
  "load_version repr r =
     (case rn_version_id r of
        None \<Rightarrow> raise_exn (Error ''Run has no immutable graph version'')
      | Some v \<Rightarrow> bind_act (query (\<lambda>db. get_row gv_id v (db_versions db))) (\<lambda>found.
          case found of
            None \<Rightarrow> raise_exn (Error ''Run graph version no longer exists'')
          | Some gv \<Rightarrow>
              if gv_graph_id gv \<noteq> rn_graph_id r
              then raise_exn (Error ''Run graph version belongs to a different graph'')
              else
                let (nodes, edges) = unpack_version_data repr (JObj (opt_or (gv_nodes_data gv) []))
                      (case gv_edges_data gv of None \<Rightarrow> JList []
                       | Some [] \<Rightarrow> JList [] | Some d \<Rightarrow> JObj d)
                in ret (nodes, edges, opt_or (gv_node_configs gv) [])))"

definition job_run :: "run \<Rightarrow> run_job \<Rightarrow> exec_run" where
  "job_run r j = \<lparr>xr_run = rn_id r, xr_job = Some (jb_id j), xr_lease_owner = jb_lease_owner j\<rparr>"

definition execute_full_run :: "runtime \<Rightarrow> run \<Rightarrow> run_job \<Rightarrow> unit act" where
  "execute_full_run rt r j =
     bind_act (load_version (rt_repr rt) r) (\<lambda>(nodes, edges, configs).
       execute rt (job_run r j) nodes edges configs)"

subsection \<open>What a retry executes again\<close>

text \<open>The newest non-empty \<open>POST_EXEC\<close> output of each node.\<close>

definition cp_has_output :: "checkpoint \<Rightarrow> bool" where
  "cp_has_output c = (case cp_node_output c of None \<Rightarrow> False | Some d \<Rightarrow> d \<noteq> [])"

fun restore_outputs :: "checkpoint list \<Rightarrow> (string, obj) dict \<Rightarrow> (string, obj) dict" where
  "restore_outputs [] acc = acc"
| "restore_outputs (c # cs) acc =
     restore_outputs cs
       (if cp_type c = POST_EXEC \<and> cp_has_output c \<and> \<not> dict_has acc (cp_node_id c)
        then dict_set (cp_node_id c) (the (cp_node_output c)) acc else acc)"

definition nodes_newest_first :: "db \<Rightarrow> uuid \<Rightarrow> run_node list" where
  "nodes_newest_first db run =
     sort_key (\<lambda>n. - nr_created_at n) (filter (\<lambda>n. nr_run_id n = run) (db_run_nodes db))"

fun latest_nodes :: "run_node list \<Rightarrow> (string, run_node) dict \<Rightarrow> (string, run_node) dict" where
  "latest_nodes [] acc = acc"
| "latest_nodes (n # ns) acc =
     latest_nodes ns (if dict_has acc (nr_node_id n) then acc else dict_set (nr_node_id n) n acc)"

definition failed_node_ids :: "db \<Rightarrow> uuid \<Rightarrow> string list" where
  "failed_node_ids db run =
     map fst (filter (\<lambda>(_, n). nr_status n = N_FAILED) (latest_nodes (nodes_newest_first db run) []))"

definition downstream_pairs :: "(json \<Rightarrow> string) \<Rightarrow> obj list \<Rightarrow> (string \<times> string) list" where
  "downstream_pairs repr edges =
     map (\<lambda>e. (py_str repr (dict_get_or e ''source'' (dict_get_or e ''source_id'' (JStr []))),
              py_str repr (dict_get_or e ''target'' (dict_get_or e ''target_id'' (JStr []))))) edges"

text \<open>
  The closure of the failed nodes under the downstream edges, with the work list of the code; the
  order in which a Python set is iterated is the order of the edges here. Each round either
  shortens the work list or finds a node not seen before.
\<close>

definition fresh_targets :: "(string \<times> string) list \<Rightarrow> string list \<Rightarrow> string \<Rightarrow> string list" where
  "fresh_targets ps seen source =
     remdups (filter (\<lambda>t. t \<noteq> [] \<and> t \<notin> set seen) (map snd (filter (\<lambda>(s, _). s = source) ps)))"

function downstream_closure :: "(string \<times> string) list \<Rightarrow> string list \<Rightarrow> string list \<Rightarrow> string list" where
  "downstream_closure ps seen frontier =
     (if frontier = [] then seen
      else let new = fresh_targets ps seen (last frontier)
           in downstream_closure ps (seen @ new) (butlast frontier @ new))"
  by pat_completeness auto
termination
proof (relation "measures [\<lambda>(ps, seen, frontier). card (set (map snd ps) - set seen),
    \<lambda>(ps, seen, frontier). length frontier]", goal_cases)
  case (2 ps seen frontier new)
  have sub: "set new \<subseteq> set (map snd ps) - set seen"
    unfolding 2 fresh_targets_def by auto
  have eq: "set (map snd ps) - set (seen @ new) = (set (map snd ps) - set seen) - set new" by auto
  show ?case
  proof (cases "new = []")
    case True
    then show ?thesis using 2(1) by (cases frontier rule: rev_cases) auto
  next
    case False
    then obtain x where "x \<in> set new" by (cases new) auto
    then have "(set (map snd ps) - set seen) - set new \<subset> set (map snd ps) - set seen"
      using sub by blast
    then have "card ((set (map snd ps) - set seen) - set new) < card (set (map snd ps) - set seen)"
      by (intro psubset_card_mono) auto
    then show ?thesis using eq by simp
  qed
qed simp

declare downstream_closure.simps [simp del]

definition nodes_to_reexecute :: "(json \<Rightarrow> string) \<Rightarrow> obj list \<Rightarrow> string list \<Rightarrow> string list" where
  "nodes_to_reexecute repr edges failed = downstream_closure (downstream_pairs repr edges) failed failed"

subsection \<open>Retrying the failed nodes\<close>

text \<open>Lock the run for a retry; \<open>None\<close> when another client stopped or finished it.\<close>

definition begin_retry :: "uuid \<Rightarrow> bool act" where
  "begin_retry run = transact 0 (\<lambda>_ d.
     case find_run d run of
       None \<Rightarrow> (Inl (Error ''Run no longer exists''), None)
     | Some r \<Rightarrow>
         if rn_status r \<in> {PENDING, FAILED, RUNNING}
         then (Inr True, Some (upd_run run (\<lambda>x. x\<lparr>rn_status := RUNNING, rn_error := None\<rparr>) d))
         else (Inr False, Some d))"

definition retry_node ::
  "runtime \<Rightarrow> exec_run \<Rightarrow> obj \<Rightarrow> obj list \<Rightarrow> obj \<Rightarrow> string \<Rightarrow> exec_state \<Rightarrow> exec_state option act" where
  "retry_node rt xr nodes edges configs node xs =
     bind_act (lift_res (node_def_of nodes node)) (\<lambda>d. let ty = node_type_of d in
     bind_act (lift_res (node_inputs rt node ty edges xs)) (\<lambda>(inputs, _).
     bind_act (invoke_node rt xr configs xs node ty inputs) (\<lambda>n.
     if nr_status n = N_SKIPPED then ret None
     else if nr_status n \<noteq> N_COMPLETED then
       bind_act (fail_run xr (''Retry failed at node '' @ node @ '': '' @ opt_str (nr_error n))) (\<lambda>_. ret None)
     else
       bind_act (revalidate_staging xr ty) (\<lambda>_.
       bind_act (save_checkpoint (xr_run xr) node POST_EXEC (Some [(''retry'', JBool True)]) (nr_output_data n)) (\<lambda>_.
       ret (Some (if has_output n then store_output n xs else xs)))))))"

fun retry_nodes ::
  "runtime \<Rightarrow> exec_run \<Rightarrow> obj \<Rightarrow> obj list \<Rightarrow> obj \<Rightarrow> string list \<Rightarrow> exec_state \<Rightarrow> exec_state option act" where
  "retry_nodes rt xr nodes edges configs [] xs = ret (Some xs)"
| "retry_nodes rt xr nodes edges configs (node # rest) xs =
     bind_act (retry_node rt xr nodes edges configs node xs) (\<lambda>r.
       case r of None \<Rightarrow> ret None | Some xs' \<Rightarrow> retry_nodes rt xr nodes edges configs rest xs')"

fun retry_levels ::
  "runtime \<Rightarrow> exec_run \<Rightarrow> obj \<Rightarrow> obj list \<Rightarrow> obj \<Rightarrow> string list \<Rightarrow> string list list \<Rightarrow> exec_state
     \<Rightarrow> exec_state option act" where
  "retry_levels rt xr nodes edges configs todo [] xs = ret (Some xs)"
| "retry_levels rt xr nodes edges configs todo (ns # rest) xs =
     bind_act (run_stopped (xr_run xr)) (\<lambda>stop. if stop then ret None else
     bind_act (retry_nodes rt xr nodes edges configs (filter (\<lambda>n. n \<in> set todo) ns) xs) (\<lambda>r.
       case r of None \<Rightarrow> ret None
       | Some xs' \<Rightarrow> retry_levels rt xr nodes edges configs todo rest xs'))"

definition execute_failed_nodes :: "runtime \<Rightarrow> run \<Rightarrow> run_job \<Rightarrow> unit act" where
  "execute_failed_nodes rt r j =
     bind_act (load_version (rt_repr rt) r) (\<lambda>(nodes, edges, configs).
     bind_act (query (\<lambda>db. restore_outputs (get_checkpoints db (rn_id r) None) [])) (\<lambda>outputs.
     bind_act (query (\<lambda>db. failed_node_ids db (rn_id r))) (\<lambda>failed.
     if failed = [] then execute_full_run rt r j
     else
     bind_act (query (\<lambda>db. graph_owner db (rn_graph_id r))) (\<lambda>owner.
     case owner of
       None \<Rightarrow> raise_exn (Error ''Graph owner not found'')
     | Some u \<Rightarrow>
     bind_act (query (\<lambda>db. resolve_connections rt db u configs)) (\<lambda>conns.
     case conns of
       None \<Rightarrow> raise_exn (Error ''Connection does not belong to graph owner'')
     | Some cs \<Rightarrow>
     bind_act (begin_retry (rn_id r)) (\<lambda>go. if \<not> go then ret () else
     case topological_sort (dict_keys nodes) edges of
       None \<Rightarrow> raise_exn NothingRaised
     | Some (Inl Unhashable) \<Rightarrow> raise_exn (Error ''unhashable type'')
     | Some (Inl Cycle) \<Rightarrow> raise_exn (Error (dag_error_text (rt_repr rt) HasCycle))
     | Some (Inr levels) \<Rightarrow>
         bind_act (retry_levels rt (job_run r j) nodes edges configs
             (nodes_to_reexecute (rt_repr rt) edges failed) levels
             ((initial_state r u cs)\<lparr>xs_outputs := outputs\<rparr>)) (\<lambda>res.
         case res of None \<Rightarrow> ret ()
         | Some _ \<Rightarrow> bind_act (call_complete_run (job_run r j)) (\<lambda>_. ret ()))))))))"

definition execute_run_job :: "runtime \<Rightarrow> run_job \<Rightarrow> unit act" where
  "execute_run_job rt j =
     bind_act (query (\<lambda>db. find_run db (jb_run_id j))) (\<lambda>found.
     case found of
       None \<Rightarrow> raise_exn (Error ''Queued run no longer exists'')
     | Some r \<Rightarrow>
         if rn_status r \<in> {PAUSED, CANCELLED, COMPLETED, SUPERSEDED} then ret ()
         else if jb_type j = RETRY_FAILED then execute_failed_nodes rt r j
         else execute_full_run rt r j)"

subsection \<open>The worker\<close>

definition run_error_text :: "run option \<Rightarrow> string option" where
  "run_error_text found =
     (case found of
        None \<Rightarrow> None
      | Some r \<Rightarrow> if rn_status r \<noteq> FAILED then None
                  else Some (case rn_error r of None \<Rightarrow> ''Run execution failed''
                             | Some e \<Rightarrow> if e = [] then ''Run execution failed'' else e))"

definition exn_name :: "exn \<Rightarrow> string" where
  "exn_name e = (case e of LeaseError \<Rightarrow> ''SDKSourceStateLeaseError'' | Error _ \<Rightarrow> ''RuntimeError''
     | NothingRaised \<Rightarrow> ''TypeError'')"

definition call_mark_failed :: "uuid \<Rightarrow> uuid \<Rightarrow> string \<Rightarrow> string \<Rightarrow> unit act" where
  "call_mark_failed job run worker err = transact 3 (\<lambda>t d.
     (Inr (), Some (snd (mark_run_failed_if_owned job run worker err (t 0, t 1, t 2) d))))"

definition call_finalize :: "uuid \<Rightarrow> uuid \<Rightarrow> string \<Rightarrow> string option \<Rightarrow> finalization act" where
  "call_finalize job run worker err = transact 1 (\<lambda>t d.
     let (r, d') = finalize_run_job job run worker err (t 0) d in (Inr r, Some d'))"

text \<open>
  One claimed job, from the check that the claim still stands to the finalization. The session of
  the execution is closed before the failure is recorded. \<open>None\<close> means that the claim was already
  gone.
\<close>

definition process_job :: "runtime \<Rightarrow> uuid \<Rightarrow> uuid \<Rightarrow> string \<Rightarrow> finalization option act" where
  "process_job rt job run worker =
     bind_act (query (\<lambda>db. find_job db job)) (\<lambda>found.
     if (case found of None \<Rightarrow> True
         | Some j \<Rightarrow> jb_status j \<noteq> LEASED \<or> jb_lease_owner j \<noteq> Some worker) then ret None
     else
     bind_act
       (try_act
         (bind_act (execute_run_job rt (the found)) (\<lambda>_.
          bind_act (query (\<lambda>db. find_run db run)) (\<lambda>r.
          bind_act rollback (\<lambda>_. ret (run_error_text r)))))
         (\<lambda>e. let err = take 4000 (exn_name e @ '': '' @ exn_str e) in
            bind_act rollback (\<lambda>_. bind_act (call_mark_failed job run worker err) (\<lambda>_. ret (Some err)))))
       (\<lambda>err. bind_act (call_finalize job run worker err) (\<lambda>r. ret (Some r))))"

subsection \<open>The closure is the set of nodes below a failure\<close>

definition below :: "(string \<times> string) list \<Rightarrow> (string \<times> string) set" where
  "below ps = {(s, t). (s, t) \<in> set ps \<and> t \<noteq> []}"

lemma fresh_targets_set:
  "set (fresh_targets ps seen s) = {t. (s, t) \<in> below ps} - set seen"
  by (force simp: fresh_targets_def below_def)

lemma closure_reachable:
  assumes "set frontier \<subseteq> set seen"
    and "\<forall>s \<in> set seen. s \<notin> set frontier \<longrightarrow> (\<forall>t. (s, t) \<in> below ps \<longrightarrow> t \<in> set seen)"
  shows "set (downstream_closure ps seen frontier) = (below ps)\<^sup>* `` set seen"
  using assms
proof (induction ps seen frontier rule: downstream_closure.induct)
  case (1 ps seen frontier)
  show ?case
  proof (cases "frontier = []")
    case True
    then have "(below ps) `` set seen \<subseteq> set seen" using 1 by auto
    then have "(below ps)\<^sup>* `` set seen = set seen" by (simp add: Image_closed_trancl)
    then show ?thesis using True by (simp add: downstream_closure.simps)
  next
    case False
    let ?new = "fresh_targets ps seen (last frontier)"
    have f: "frontier = butlast frontier @ [last frontier]" using False by simp
    have last: "last frontier \<in> set seen" using False 1(2) by auto
    have front: "set frontier = insert (last frontier) (set (butlast frontier))"
      by (subst f) simp
    have "set (downstream_closure ps (seen @ ?new) (butlast frontier @ ?new)) =
        (below ps)\<^sup>* `` set (seen @ ?new)"
    proof (rule 1(1) [OF False refl])
      show "set (butlast frontier @ ?new) \<subseteq> set (seen @ ?new)" using 1(2) front by auto
      show "\<forall>s \<in> set (seen @ ?new). s \<notin> set (butlast frontier @ ?new) \<longrightarrow>
          (\<forall>t. (s, t) \<in> below ps \<longrightarrow> t \<in> set (seen @ ?new))"
        using 1(3) front by (auto simp: fresh_targets_set)
    qed
    also have "(below ps)\<^sup>* `` set (seen @ ?new) = (below ps)\<^sup>* `` set seen"
      using last by (auto simp: fresh_targets_set intro: converse_rtrancl_into_rtrancl)
    finally show ?thesis using False by (simp add: downstream_closure.simps [of ps seen frontier] Let_def)
  qed
qed


end
