(* ===== verification/ExecutionSafety.thy ===== *)
theory ExecutionSafety
  imports JobExecutor
begin

text \<open>
  What execution does to the control plane under arbitrary interference: every transaction of the
  executor, of the retry and of the worker meets the service contract, whatever the nodes return
  or raise and whatever other clients commit in between.
\<close>

subsection \<open>Safe actions\<close>

text \<open>Flushed writes are rows of nodes, checkpoints, logs, lineage, dead letters and staged source
  states; they never touch runs or jobs.\<close>

definition row_write :: "(db \<Rightarrow> db) \<Rightarrow> bool" where
  "row_write f \<longleftrightarrow> (\<forall>d. db_runs (f d) = db_runs d \<and> db_jobs (f d) = db_jobs d \<and> db_next (f d) = db_next d)"

definition world_ok :: "world \<Rightarrow> bool" where
  "world_ok w \<longleftrightarrow> db_ok (w_db w) \<and> row_write (w_pend w) \<and> (\<forall>f \<in> set (w_others w). service_op f)"

inductive evolves_path :: "db \<Rightarrow> db \<Rightarrow> bool" where
  here: "evolves_path d d"
| onward: "evolves_path a b \<Longrightarrow> db_ok b \<Longrightarrow> db_evolves b c \<Longrightarrow> evolves_path a c"

lemma evolves_path_trans: "evolves_path b c \<Longrightarrow> evolves_path a b \<Longrightarrow> evolves_path a c"
  by (induction rule: evolves_path.induct) (auto intro: onward)

lemma path_step: "db_ok a \<Longrightarrow> db_evolves a b \<Longrightarrow> evolves_path a b"
  by (rule onward [OF here])

definition safe :: "'a act \<Rightarrow> bool" where
  "safe m \<longleftrightarrow> (\<forall>w. world_ok w \<longrightarrow> world_ok (snd (m w)) \<and> evolves_path (w_db w) (w_db (snd (m w))))"

lemma row_write_id [simp]: "row_write (\<lambda>d. d)"
  by (simp add: row_write_def)

lemma row_write_comp: "row_write f \<Longrightarrow> row_write g \<Longrightarrow> row_write (f \<circ> g)"
  by (simp add: row_write_def)

lemma row_write_evolves: "row_write f \<Longrightarrow> db_ok d \<Longrightarrow> db_evolves d (f d)"
  by (rule same_control_evolves) (simp_all add: row_write_def)

lemma row_write_find: "row_write f \<Longrightarrow> find_run (f d) i = find_run d i"
  by (simp add: row_write_def find_run_def)

lemma safe_ret [simp, intro]: "safe (ret x)"
  by (simp add: safe_def ret_def here)

lemma safe_raise [simp, intro]: "safe (raise_exn e)"
  by (simp add: safe_def raise_exn_def here)

lemma safe_lift [simp, intro]: "safe (lift_res r)"
  by (simp add: safe_def lift_res_def here)

lemma safe_bind [intro]:
  assumes "safe m" "\<And>x. safe (f x)"
  shows "safe (bind_act m f)"
  unfolding safe_def
proof (intro allI impI)
  fix w assume w: "world_ok w"
  obtain r w1 where m: "m w = (r, w1)" by fastforce
  have ok1: "world_ok w1" "evolves_path (w_db w) (w_db w1)"
    using assms(1) w m by (auto simp: safe_def)
  show "world_ok (snd (bind_act m f w)) \<and> evolves_path (w_db w) (w_db (snd (bind_act m f w)))"
  proof (cases r)
    case (Inr x)
    have "world_ok (snd (f x w1)) \<and> evolves_path (w_db w1) (w_db (snd (f x w1)))"
      using assms(2) [of x] ok1(1) by (simp add: safe_def)
    then show ?thesis using ok1(2) evolves_path_trans by (auto simp: bind_act_def m Inr)
  qed (use ok1 in \<open>simp add: bind_act_def m\<close>)
qed

lemma safe_try [intro]:
  assumes "safe m" "\<And>e. safe (h e)"
  shows "safe (try_act m h)"
  unfolding safe_def
proof (intro allI impI)
  fix w assume w: "world_ok w"
  obtain r w1 where m: "m w = (r, w1)" by fastforce
  have ok1: "world_ok w1" "evolves_path (w_db w) (w_db w1)"
    using assms(1) w m by (auto simp: safe_def)
  show "world_ok (snd (try_act m h w)) \<and> evolves_path (w_db w) (w_db (snd (try_act m h w)))"
  proof (cases r)
    case (Inl e)
    have "world_ok (snd (h e w1)) \<and> evolves_path (w_db w1) (w_db (snd (h e w1)))"
      using assms(2) [of e] ok1(1) by (simp add: safe_def)
    then show ?thesis using ok1(2) evolves_path_trans by (auto simp: try_act_def m Inl)
  qed (use ok1 in \<open>simp add: try_act_def m\<close>)
qed

lemma safe_if [intro]: "safe a \<Longrightarrow> safe b \<Longrightarrow> safe (if c then a else b)"
  by simp

lemma safe_opt [intro]: "safe a \<Longrightarrow> (\<And>x. safe (b x)) \<Longrightarrow> safe (case y of None \<Rightarrow> a | Some x \<Rightarrow> b x)"
  by (cases y) simp_all

lemma safe_sum [intro]: "(\<And>x. safe (a x)) \<Longrightarrow> (\<And>x. safe (b x)) \<Longrightarrow> safe (case y of Inl x \<Rightarrow> a x | Inr x \<Rightarrow> b x)"
  by (cases y) simp_all

lemma safe_pair [intro]: "(\<And>a b. safe (f a b)) \<Longrightarrow> safe (case p of (a, b) \<Rightarrow> f a b)"
  by (cases p) simp

lemma safe_let [intro]: "(\<And>x. safe (f x)) \<Longrightarrow> safe (let x = v in f x)"
  by simp

lemma others_ok: "world_ok w \<Longrightarrow> world_ok (others_commit w) \<and>
    evolves_path (w_db w) (w_db (others_commit w))"
  by (cases "w_others w")
     (auto simp: others_commit_def world_ok_def service_op_def db_evolves_def here intro!: path_step)

lemma others_pend [simp]: "w_pend (others_commit w) = w_pend w"
  by (simp add: others_commit_def split: list.split)

lemma safe_query [simp, intro]: "safe (query q)"
  using others_ok by (simp add: safe_def query_def Let_def)

lemma safe_clock [simp, intro]: "safe read_clock" "safe new_uuid" "safe (emit_event e)" "safe rollback"
  by (simp_all add: safe_def read_clock_def new_uuid_def emit_event_def rollback_def world_ok_def here)

lemma safe_flush [intro]: "row_write f \<Longrightarrow> safe (flush_write f)"
  by (simp add: safe_def flush_write_def world_ok_def row_write_comp here)

text \<open>A transaction whose commits meet the contract.\<close>

lemma flushed_ok: "world_ok w \<Longrightarrow> db_ok (w_pend w (w_db w))"
  using row_write_evolves by (auto simp: world_ok_def db_evolves_def)

lemma safe_transact:
  assumes op: "\<And>t d r d'. db_ok d \<Longrightarrow> op t d = (r, Some d') \<Longrightarrow> db_evolves d d'"
  shows "safe (transact n op)"
  unfolding safe_def
proof (intro allI impI)
  fix w0 assume "world_ok w0"
  then obtain w where w: "world_ok w" "w = others_commit w0" "evolves_path (w_db w0) (w_db w)"
    using others_ok by blast
  let ?v = "w_pend w (w_db w)"
  obtain r d where res: "op (\<lambda>k. w_clock w (w_ticks w + k)) ?v = (r, d)" by fastforce
  define w' where "w' = w\<lparr>w_db := (case d of None \<Rightarrow> w_db w | Some x \<Rightarrow> x), w_pend := (\<lambda>d. d),
           w_ticks := w_ticks w + n\<rparr>"
  have t: "snd (transact n op w0) = w'"
    by (simp add: transact_def Let_def w(2) [symmetric] res w'_def)
  have "world_ok w' \<and> evolves_path (w_db w) (w_db w')"
  proof (cases d)
    case None
    then show ?thesis using w(1) by (simp add: w'_def world_ok_def here)
  next
    case (Some d')
    have v: "db_evolves (w_db w) ?v" using w(1) by (simp add: world_ok_def row_write_evolves)
    have e: "db_evolves ?v d'" using op [OF flushed_ok [OF w(1)]] res Some by blast
    have "evolves_path (w_db w) d'"
      by (rule evolves_path_trans [OF path_step [OF flushed_ok [OF w(1)] e]])
         (rule path_step, use w(1) v in \<open>simp_all add: world_ok_def\<close>)
    then show ?thesis using w(1) e Some by (simp add: w'_def world_ok_def db_evolves_def)
  qed
  then show "world_ok (snd (transact n op w0)) \<and> evolves_path (w_db w0) (w_db (snd (transact n op w0)))"
    using w(3) evolves_path_trans unfolding t by blast
qed

lemma safe_commit [simp, intro]: "safe commit"
  unfolding commit_def by (rule safe_transact) simp

lemma safe_fail_call [simp, intro]: "safe (call_fail_run xr msg)"
  unfolding call_fail_run_def
proof (rule safe_transact)
  fix t d r d' assume ok: "db_ok d"
  let ?op = "fail_run_if_running (xr_run xr) msg (xr_job xr) (xr_lease_owner xr) (t 0, t 1, t 2) d"
  assume "(case ?op of (Inl _, _) \<Rightarrow> (Inl (Error ''Run job lease was lost''), None)
     | (Inr (r, moved), d') \<Rightarrow> (Inr moved, if r = None then None else Some d')) = (r, Some d')"
  then have "snd ?op = d'" by (auto split: prod.splits sum.splits if_splits)
  then show "db_evolves d d'" using fail_running.step [OF ok] by metis
qed

lemma safe_complete_call [simp, intro]: "safe (call_complete_run xr)"
  unfolding call_complete_run_def
proof (rule safe_transact)
  fix t d r d' assume ok: "db_ok d"
  let ?op = "complete_run_with_source_state_promotion (xr_run xr) (xr_job xr) (xr_lease_owner xr) t d"
  assume "(case ?op of (Inl e, _) \<Rightarrow> (Inl (state_exn e), None)
     | (Inr completed, d') \<Rightarrow> (Inr completed, if completed then Some d' else None)) = (r, Some d')"
  then have "snd ?op = d'" by (auto split: prod.splits sum.splits if_splits)
  then show "db_evolves d d'" using complete.step [OF ok] by metis
qed

lemma to_running_evolves:
  assumes ok: "db_ok d" and r: "find_run d run = Some r" and st: "rn_status r \<in> {PENDING, FAILED, RUNNING}"
    and f: "\<And>x. f x = x\<lparr>rn_status := RUNNING\<rparr> \<or> f x = x\<lparr>rn_status := RUNNING, rn_error := None\<rparr>"
  shows "db_evolves d (upd_run run f d)"
  using st by (intro status_change_contract [OF ok r _ f]) (auto simp: status_step_def legal_step_def)

lemma safe_begin [simp, intro]: "safe (begin_run xr)"
  unfolding begin_run_def
  by (rule safe_transact) (auto intro: to_running_evolves split: option.splits if_splits)

lemma safe_begin_retry [simp, intro]: "safe (begin_retry run)"
  unfolding begin_retry_def
  by (rule safe_transact) (auto intro: to_running_evolves split: option.splits if_splits)

lemma safe_worker_calls [simp, intro]:
  "safe (call_mark_failed job run worker err)" "safe (call_finalize job run worker err')"
proof -
  show "safe (call_mark_failed job run worker err)"
    unfolding call_mark_failed_def by (rule safe_transact) (auto intro: mark_failed.step)
  show "safe (call_finalize job run worker err')"
    unfolding call_finalize_def using finalize.step
    by (intro safe_transact) (auto simp: Let_def split: prod.splits, metis snd_conv)
qed

lemma safe_fail [simp, intro]: "safe (fail_run xr msg)"
  unfolding fail_run_def by (intro safe_bind safe_if) auto

subsection \<open>Rows written along the way\<close>

lemma row_writes [simp, intro]:
  "row_write (add_run_node n)" "row_write (put_run_node n)" "row_write (add_log l)"
  "row_write (add_checkpoint c)" "row_write (add_dead_letter l')" "row_write (add_lineage g)"
  by (simp_all add: row_write_def add_run_node_def put_run_node_def add_log_def add_checkpoint_def
      add_dead_letter_def add_lineage_def)

lemma safe_rows [simp, intro]:
  "safe (save_run_node n)" "safe (settle defer)" "safe (stopped_run_status run)" "safe (run_stopped run)"
  "safe (save_checkpoint run node ty st out)" "safe (add_to_dlq r nd t et em i k)"
  "safe (record_lineage run info)" "safe (record_dlq rt run2 node2 ty2 msg input retries)"
  "safe (revalidate_staging xr jty)" "safe (post_exec xr level jty n2)" "safe (finish_run xr)"
  unfolding save_run_node_def settle_def stopped_run_status_def run_stopped_def save_checkpoint_def
    add_to_dlq_def record_lineage_def record_dlq_def revalidate_staging_def post_exec_def finish_run_def
  by (intro safe_bind safe_if safe_let safe_flush safe_sum safe_opt safe_pair safe_ret safe_raise
      safe_commit safe_query safe_clock row_writes safe_complete_call)+

lemma safe_lineages [simp, intro]: "safe (record_lineages run infos)"
  by (induction infos) (simp_all add: safe_bind)

lemma safe_unless_stopped [intro]: "safe m \<Longrightarrow> safe (unless_stopped run m)"
  unfolding unless_stopped_def by (intro safe_bind safe_opt safe_rows safe_ret)

lemma safe_retry_from: "(\<And>k. safe (f k)) \<Longrightarrow> safe (retry_from attempt n e f)"
proof (induction "Suc n - attempt" arbitrary: attempt e)
  case 0
  have "retry_from attempt n e f = raise_exn e"
    using 0 by (simp add: fun_eq_iff retry_from.simps raise_exn_def)
  then show ?case by simp
next
  case (Suc k)
  have le: "\<not> n < attempt" using Suc.hyps(2) by linarith
  have "safe (retry_from (Suc attempt) n e' f)" for e'
    using Suc by (intro Suc.hyps(1)) auto
  then have "safe (try_act (f attempt) (\<lambda>e'. retry_from (Suc attempt) n e' f))"
    using Suc.prems by (intro safe_try)
  moreover have "retry_from attempt n e f = try_act (f attempt) (\<lambda>e'. retry_from (Suc attempt) n e' f)"
    using le
    by (simp add: fun_eq_iff retry_from.simps [of attempt n e f] try_act_def split: sum.split prod.split)
  ultimately show ?case by (simp only:)
qed

subsection \<open>Node libraries\<close>

text \<open>What the executor asks of the node implementations: whatever they write to the session they
  were given, they leave runs and jobs alone.\<close>

locale node_library =
  fixes impls :: implementations
  assumes writes_rows: "impls ty = Some impl \<Longrightarrow> row_write (snd (impl ctx k db))"
begin

lemma safe_call: "impls ty = Some impl \<Longrightarrow> safe (call_node impl ctx k)"
  unfolding safe_def
proof (intro allI impI)
  fix w assume i: "impls ty = Some impl" and w: "world_ok w"
  obtain r f where rf: "impl ctx k (w_pend w (w_db w)) = (r, f)" by (cases "impl ctx k (w_pend w (w_db w))")
  have "row_write f" using writes_rows [OF i, of ctx k "w_pend w (w_db w)"] rf by simp
  then show "world_ok (snd (call_node impl ctx k w)) \<and> evolves_path (w_db w) (w_db (snd (call_node impl ctx k w)))"
    using w by (auto simp: call_node_def rf world_ok_def row_write_comp here split: sum.split exn.split)
qed

lemma safe_attempt: "impls ty = Some impl \<Longrightarrow> safe (execute_attempt impl ctx k)"
  unfolding execute_attempt_def
  by (intro safe_unless_stopped safe_try safe_bind safe_ret safe_raise) (rule safe_call)

lemma safe_attempt_node: "impls ty = Some impl \<Longrightarrow> safe (attempt_node impl ctx rc n)"
  unfolding attempt_node_def retry_async_def
  by (intro safe_bind safe_try safe_let safe_if safe_clock safe_retry_from safe_rows safe_flush row_writes
      safe_ret safe_raise) (rule safe_attempt)

lemma safe_run_node: "safe (run_node_with_retry impls repr defer retries ty ctx)"
  unfolding run_node_with_retry_def
proof (intro safe_bind safe_let safe_clock safe_rows safe_flush row_writes)
  fix n
  show "safe (case impls ty of None \<Rightarrow>
         let n' = (node_transition N_FAILED n)\<lparr>nr_error := Some (''Unknown node type: '' @ ty)\<rparr> in
         bind_act (save_run_node n') (\<lambda>_. bind_act commit (\<lambda>_. ret n'))
     | Some impl \<Rightarrow>
         bind_act (attempt_node impl ctx (default_retry retries) n) (\<lambda>n'.
         bind_act (settle defer) (\<lambda>_. ret n')))"
    by (cases "impls ty") (auto simp: Let_def intro!: safe_bind safe_attempt_node)
qed

lemma safe_invoke: "rt_impls rt = impls \<Longrightarrow> safe (invoke_node rt xr configs xs node ty inputs)"
  unfolding invoke_node_def using safe_run_node by (auto intro!: safe_bind)

lemma safe_sequential_node:
  "rt_impls rt = impls \<Longrightarrow> safe (sequential_node rt xr nodes edges configs level node xs)"
  unfolding sequential_node_def
  by (intro safe_bind safe_let safe_if safe_pair safe_rows safe_lift safe_ret safe_clock safe_lineages
      safe_fail safe_invoke)

lemma safe_sequential_level:
  "rt_impls rt = impls \<Longrightarrow> safe (sequential_level rt xr nodes edges configs level ns xs)"
  by (induction ns arbitrary: xs) (auto intro!: safe_bind safe_sequential_node split: option.split)

lemma safe_parallel_task:
  "rt_impls rt = impls \<Longrightarrow> safe (parallel_task rt xr nodes edges configs level node xs)"
  unfolding parallel_task_def
  by (intro safe_bind safe_let safe_if safe_pair safe_rows safe_lift safe_ret safe_clock safe_lineages
      safe_invoke)

lemma safe_parallel_tasks:
  "rt_impls rt = impls \<Longrightarrow> safe (parallel_tasks rt xr nodes edges configs level ns xs)"
proof (induction ns arbitrary: xs)
  case (Cons node ns)
  have "safe (guarded_task rt xr nodes edges configs level node x)" for x
    unfolding guarded_task_def
    by (intro safe_bind safe_try safe_if safe_clock safe_ret safe_raise safe_parallel_task Cons.prems)
  then show ?case using Cons by (auto intro!: safe_bind split: prod.split)
qed simp

lemma safe_levels:
  "rt_impls rt = impls \<Longrightarrow> safe (run_levels rt xr nodes edges configs level ls xs)"
proof (induction ls arbitrary: level xs)
  case (Cons ns ls)
  show ?case
    unfolding run_levels.simps run_level_def
    by (intro safe_bind safe_if safe_rows safe_ret safe_pair safe_opt safe_lift safe_fail
        safe_parallel_tasks safe_sequential_level Cons)
qed simp

lemma safe_execute: "rt_impls rt = impls \<Longrightarrow> safe (execute rt xr nodes edges configs)"
  unfolding execute_def
  by (intro safe_bind safe_begin safe_opt safe_sum safe_if safe_ret safe_raise safe_fail safe_clock
      safe_query safe_pair safe_levels safe_rows; (simp split: sched_error.split)?)

lemma safe_load: "safe (load_version repr r)"
  unfolding load_version_def
  by (intro safe_bind safe_opt safe_if safe_raise safe_query safe_let safe_pair safe_ret)

lemma safe_full_run: "rt_impls rt = impls \<Longrightarrow> safe (execute_full_run rt r j)"
  unfolding execute_full_run_def by (intro safe_bind safe_load safe_pair safe_execute)

lemma safe_retry_nodes: "rt_impls rt = impls \<Longrightarrow> safe (retry_nodes rt xr nodes edges configs ns xs)"
proof (induction ns arbitrary: xs)
  case (Cons node ns)
  have "safe (retry_node rt xr nodes edges configs node x)" for x
    unfolding retry_node_def
    by (intro safe_bind safe_let safe_if safe_pair safe_lift safe_ret safe_fail safe_rows safe_invoke Cons.prems)
  then show ?case using Cons by (auto intro!: safe_bind split: option.split)
qed simp

lemma safe_retry_levels:
  "rt_impls rt = impls \<Longrightarrow> safe (retry_levels rt xr nodes edges configs todo ls xs)"
  by (induction ls arbitrary: xs) (auto intro!: safe_bind safe_retry_nodes split: option.split)

lemma safe_failed_nodes: "rt_impls rt = impls \<Longrightarrow> safe (execute_failed_nodes rt r j)"
  unfolding execute_failed_nodes_def
  by (intro safe_bind safe_load safe_pair safe_query safe_if safe_full_run safe_opt safe_raise safe_ret
      safe_begin_retry safe_sum safe_retry_levels safe_complete_call;
      (simp split: sched_error.split)?)

lemma safe_run_job: "rt_impls rt = impls \<Longrightarrow> safe (execute_run_job rt j)"
  unfolding execute_run_job_def
  by (intro safe_bind safe_query safe_opt safe_raise safe_if safe_ret safe_failed_nodes safe_full_run)

lemma safe_process: "rt_impls rt = impls \<Longrightarrow> safe (process_job rt job run worker)"
  unfolding process_job_def
  by (intro safe_bind safe_query safe_if safe_ret safe_try safe_clock safe_let safe_worker_calls safe_run_job)

end

subsection \<open>Guarantees\<close>

lemma evolves_path_run:
  "evolves_path a b \<Longrightarrow> find_run a i = Some r \<Longrightarrow>
     \<exists>r'. find_run b i = Some r' \<and> rn_graph_id r' = rn_graph_id r \<and> rn_version_id r' = rn_version_id r \<and>
       rn_payload r' = rn_payload r \<and> (rn_status r \<in> set run_terminal \<longrightarrow> rn_status r' = rn_status r)"
proof (induction rule: evolves_path.induct)
  case (onward a b c)
  then obtain q where q: "find_run b i = Some q" "rn_graph_id q = rn_graph_id r"
      "rn_version_id q = rn_version_id r" "rn_payload q = rn_payload r"
      "rn_status r \<in> set run_terminal \<longrightarrow> rn_status q = rn_status r" by blast
  obtain x where x: "find_run c i = Some x" "run_evolves q x"
    using onward.hyps(3) q(1) unfolding db_evolves_def by blast
  then show ?case using q status_step_terminal by (auto simp: run_evolves_def)
qed auto

text \<open>C6. A worker that processes a job - full run or retry, however its nodes behave and whatever
  other clients commit meanwhile - moves the database by contract steps only: it keeps the tables
  consistent, loses no run, and never changes a run that completed, was cancelled or superseded.\<close>

theorem process_job_contract:
  assumes impls: "\<forall>ty impl ctx k db. rt_impls rt ty = Some impl \<longrightarrow> row_write (snd (impl ctx k db))"
    and w: "world_ok w"
  shows "world_ok (snd (process_job rt job run worker w)) \<and>
    evolves_path (w_db w) (w_db (snd (process_job rt job run worker w))) \<and>
    (\<forall>i r. find_run (w_db w) i = Some r \<longrightarrow>
       (\<exists>r'. find_run (w_db (snd (process_job rt job run worker w))) i = Some r' \<and>
          rn_graph_id r' = rn_graph_id r \<and> rn_version_id r' = rn_version_id r \<and>
          (rn_status r \<in> {COMPLETED, CANCELLED, SUPERSEDED} \<longrightarrow> rn_status r' = rn_status r)))"
proof -
  have "node_library (rt_impls rt)" by (rule node_library.intro) (use impls in blast)
  from node_library.safe_process [OF this refl, of job run worker] w
  have s: "world_ok (snd (process_job rt job run worker w))"
    and p: "evolves_path (w_db w) (w_db (snd (process_job rt job run worker w)))"
    by (simp_all add: safe_def)
  show ?thesis using s p evolves_path_run [OF p] by (auto simp: run_terminal_def)
qed

text \<open>The worlds between the attempts of a retry.\<close>

fun after_attempts :: "(nat \<Rightarrow> 'a act) \<Rightarrow> world \<Rightarrow> nat \<Rightarrow> world" where
  "after_attempts f w 0 = w"
| "after_attempts f w (Suc k) = snd (f (Suc k) (after_attempts f w k))"

lemma retry_from_spec:
  assumes "Suc k \<le> n" "\<forall>j < k. \<not> is_ok (fst (f (Suc j) (after_attempts f w j)))"
  shows "retry_from (Suc k) n e f (after_attempts f w k) =
    (if \<exists>j < n. k \<le> j \<and> is_ok (fst (f (Suc j) (after_attempts f w j)))
     then let j = (LEAST j. is_ok (fst (f (Suc j) (after_attempts f w j)))) in f (Suc j) (after_attempts f w j)
     else f n (after_attempts f w (n - 1)))"
  using assms
proof (induction "n - Suc k" arbitrary: k e)
  case 0
  then have n: "n = Suc k" by simp
  obtain r w1 where f: "f (Suc k) (after_attempts f w k) = (r, w1)" by fastforce
  show ?case
  proof (cases r)
    case (Inl x)
    then show ?thesis
      by (simp add: n retry_from.simps [of "Suc k"] retry_from.simps [of "Suc (Suc k)"] f less_Suc_eq_le
          le_antisym) (auto simp: f dest: le_antisym)
  next
    case (Inr x)
    have "(LEAST j. is_ok (fst (f (Suc j) (after_attempts f w j)))) = k"
      using 0(3) by (intro Least_equality) (auto simp: f Inr not_less [symmetric])
    then show ?thesis
      by (auto simp: n retry_from.simps [of "Suc k"] f Inr Let_def intro!: exI [of _ k])
  qed
next
  case (Suc m)
  obtain r w1 where f: "f (Suc k) (after_attempts f w k) = (r, w1)" by fastforce
  have le: "Suc (Suc k) \<le> n" using Suc.hyps(2) by simp
  show ?case
  proof (cases r)
    case (Inl x)
    have "retry_from (Suc (Suc k)) n x f (after_attempts f w (Suc k)) =
      (if \<exists>j < n. Suc k \<le> j \<and> is_ok (fst (f (Suc j) (after_attempts f w j)))
       then let j = (LEAST j. is_ok (fst (f (Suc j) (after_attempts f w j)))) in f (Suc j) (after_attempts f w j)
       else f n (after_attempts f w (n - 1)))"
      using Suc.hyps(2) Suc.prems(2) le by (intro Suc.hyps(1)) (auto simp: less_Suc_eq f Inl)
    moreover have "(\<exists>j < n. Suc k \<le> j \<and> is_ok (fst (f (Suc j) (after_attempts f w j)))) \<longleftrightarrow>
        (\<exists>j < n. k \<le> j \<and> is_ok (fst (f (Suc j) (after_attempts f w j))))"
      by (metis Inl Suc_leD Suc_leI f fst_conv is_ok_simps(1) le_neq_implies_less)
    moreover have "retry_from (Suc k) n e f (after_attempts f w k) =
        retry_from (Suc (Suc k)) n x f (after_attempts f w (Suc k))"
      using le by (simp add: retry_from.simps [of "Suc k"] f Inl)
    ultimately show ?thesis by simp
  next
    case (Inr x)
    have "(LEAST j. is_ok (fst (f (Suc j) (after_attempts f w j)))) = k"
      using Suc.prems(2) by (intro Least_equality) (auto simp: f Inr not_less [symmetric])
    moreover have "\<exists>j < n. k \<le> j \<and> is_ok (fst (f (Suc j) (after_attempts f w j)))"
      using le by (intro exI [of _ k]) (simp add: f Inr)
    ultimately show ?thesis using le by (simp add: retry_from.simps [of "Suc k"] f Inr Let_def)
  qed
qed

text \<open>Retrying: the outcome is that of the first attempt that does not raise, or of the last
  allowed attempt, and no attempt is made after it; with no attempt allowed the call itself raises.\<close>

theorem retry_async_first_success:
  "retry_async rc f w =
    (if rc_max_retries rc = 0 then (Inl NothingRaised, w)
     else if \<exists>j < rc_max_retries rc. is_ok (fst (f (Suc j) (after_attempts f w j)))
     then let j = (LEAST j. is_ok (fst (f (Suc j) (after_attempts f w j)))) in f (Suc j) (after_attempts f w j)
     else f (rc_max_retries rc) (after_attempts f w (rc_max_retries rc - 1)))"
  using retry_from_spec [of 0 "rc_max_retries rc" f w NothingRaised]
  by (simp add: retry_async_def retry_from.simps [of "Suc 0" 0])


subsection \<open>A worker with one node type\<close>

definition echo_runtime :: runtime where
  "echo_runtime = \<lparr>rt_repr = (\<lambda>_. ''?''), rt_parse_uuid = (\<lambda>s. if s = ''c1'' then Some 31 else None),
     rt_uuid_str = (\<lambda>_. ''c1''), rt_decrypt = (\<lambda>c. opt_or c []),
     rt_impls = (\<lambda>ty. if ty = ''echo'' then Some (\<lambda>ctx k db. (Inr \<lparr>rs_success = True,
        rs_output = jsonb_of (\<lambda>_. ''?'') (cx_input ctx), rs_items = 1, rs_error = None\<rparr>, \<lambda>d. d)) else None),
     rt_order = (\<lambda>ns. ns)\<rparr>"

definition echo_world :: world where
  "echo_world = \<lparr>w_db = leased_db, w_pend = (\<lambda>d. d), w_others = [\<lambda>db. snd (cancel_run 50 db)],
     w_events = [], w_clock = (\<lambda>n. 2000 + int n), w_ticks = 0, w_uuid = 500\<rparr>"

lemma echo_world_ok: "world_ok echo_world"
  using queued_db_ok(2) cancel.service_op_axioms by (simp add: world_ok_def echo_world_def)

theorem process_job_contract_witness:
  "\<exists>r. find_run (w_db (snd (process_job echo_runtime 100 50 ''w1'' echo_world))) 50 = Some r \<and>
     rn_version_id r = Some 2"
proof -
  have i: "\<forall>ty impl ctx k db. rt_impls echo_runtime ty = Some impl \<longrightarrow> row_write (snd (impl ctx k db))"
    by (auto simp: echo_runtime_def split: if_splits)
  have "find_run (w_db echo_world) 50 = Some (the (find_run leased_db 50))"
    "rn_version_id (the (find_run leased_db 50)) = Some 2"
    by code_simp+
  with process_job_contract [OF i echo_world_ok, of 100 50 "''w1''"] show ?thesis by metis
qed

definition echo_configs :: obj where
  "echo_configs = [(''n1'', JObj [(''connection_id'', JStr ''c1'')]), (''n2'', JObj [])]"

definition echo_connections_db :: db where
  "echo_connections_db = empty_db\<lparr>db_connections :=
     [\<lparr>cn_id = 31, cn_user_id = 7, cn_config = Some [(''key'', JStr ''k'')],
       cn_name = ''c'', cn_type = ''postgres'', cn_is_valid = True, cn_created_at = 0\<rparr>]\<rparr>"


end
