(* ===== verification/Dataflow.thy ===== *)
theory Dataflow
  imports ExecutionSafety
begin

text \<open>
  The executor as a dataflow evaluator. When nobody interferes and every node succeeds, the levels,
  sessions, retries, flushes and commits of the executor amount to one pure computation: every node
  is called once, on the outputs of its predecessors, and its output is checkpointed. The order in
  which the tasks of a parallel level finish does not matter.
\<close>

subsection \<open>The pure computation\<close>

definition call_of ::
  "runtime \<Rightarrow> exec_run \<Rightarrow> obj \<Rightarrow> obj list \<Rightarrow> obj \<Rightarrow> exec_state \<Rightarrow> string \<Rightarrow> exn + string \<times> node_context" where
  "call_of rt xr nodes edges configs xs node =
     bind_res (node_def_of nodes node) (\<lambda>d.
     bind_res (node_inputs rt node (node_type_of d) edges xs) (\<lambda>(inputs, _).
     bind_res (node_config_of configs node) (\<lambda>config.
     bind_res (state_for_node rt node configs xs) (\<lambda>st.
     bind_res (type_text (node_type_of d)) (\<lambda>t.
       Inr (t, \<lparr>cx_run = xr_run xr, cx_node = node, cx_config = config, cx_input = inputs,
          cx_state = st, cx_job = xr_job xr, cx_lease_owner = xr_lease_owner xr\<rparr>))))))"

definition node_out ::
  "runtime \<Rightarrow> exec_run \<Rightarrow> obj \<Rightarrow> obj list \<Rightarrow> obj \<Rightarrow> exec_state \<Rightarrow> string \<Rightarrow> obj" where
  "node_out rt xr nodes edges configs xs node =
     (case call_of rt xr nodes edges configs xs node of
        Inl _ \<Rightarrow> []
      | Inr (t, ctx) \<Rightarrow> (case rt_impls rt t of
            None \<Rightarrow> []
          | Some impl \<Rightarrow> (case fst (impl ctx 1 empty_db) of Inl _ \<Rightarrow> [] | Inr r \<Rightarrow> rs_output r)))"

definition put_out :: "string \<Rightarrow> obj \<Rightarrow> exec_state \<Rightarrow> exec_state" where
  "put_out node out xs = (if out = [] then xs else xs\<lparr>xs_outputs := dict_set node out (xs_outputs xs)\<rparr>)"

fun flow ::
  "runtime \<Rightarrow> exec_run \<Rightarrow> obj \<Rightarrow> obj list \<Rightarrow> obj \<Rightarrow> string list \<Rightarrow> exec_state \<Rightarrow> exec_state" where
  "flow rt xr nodes edges configs [] xs = xs"
| "flow rt xr nodes edges configs (n # ns) xs =
     flow rt xr nodes edges configs ns (put_out n (node_out rt xr nodes edges configs xs n) xs)"

fun flow_outputs ::
  "runtime \<Rightarrow> exec_run \<Rightarrow> obj \<Rightarrow> obj list \<Rightarrow> obj \<Rightarrow> string list \<Rightarrow> exec_state \<Rightarrow> (string \<times> obj) list" where
  "flow_outputs rt xr nodes edges configs [] xs = []"
| "flow_outputs rt xr nodes edges configs (n # ns) xs =
     (let out = node_out rt xr nodes edges configs xs n
      in (n, out) # flow_outputs rt xr nodes edges configs ns (put_out n out xs))"

lemma flow_append: "flow rt xr nodes edges configs (as @ bs) xs =
    flow rt xr nodes edges configs bs (flow rt xr nodes edges configs as xs)"
  by (induction as arbitrary: xs) simp_all

lemma flow_outputs_append: "flow_outputs rt xr nodes edges configs (as @ bs) xs =
    flow_outputs rt xr nodes edges configs as xs @
    flow_outputs rt xr nodes edges configs bs (flow rt xr nodes edges configs as xs)"
  by (induction as arbitrary: xs) (simp_all add: Let_def)

lemma flow_outputs_keys: "map fst (flow_outputs rt xr nodes edges configs ns xs) = ns"
  by (induction ns arbitrary: xs) (simp_all add: Let_def)

subsection \<open>Undisturbed actions\<close>

type_synonym core = "run list \<times> run_job list \<times> source_state list \<times> state_candidate list \<times>
  graph_row list \<times> connection list"

definition core_of :: "db \<Rightarrow> core" where
  "core_of d = (db_runs d, db_jobs d, db_states d, db_candidates d, db_graphs d, db_connections d)"

text \<open>Run, node, kind and output of a checkpoint.\<close>

definition cp_view :: "checkpoint \<Rightarrow> uuid \<times> string \<times> checkpoint_type \<times> obj option" where
  "cp_view c = (cp_run_id c, cp_node_id c, cp_type c, cp_node_output c)"

abbreviation cps_of :: "db \<Rightarrow> (uuid \<times> string \<times> checkpoint_type \<times> obj option) list" where
  "cps_of d \<equiv> map cp_view (db_checkpoints d)"

definition quiet_write :: "(db \<Rightarrow> db) \<Rightarrow> bool" where
  "quiet_write f \<longleftrightarrow> (\<forall>d. core_of (f d) = core_of d \<and> db_checkpoints (f d) = db_checkpoints d)"

definition calm ::
  "core \<Rightarrow> (nat \<Rightarrow> time) \<Rightarrow> (uuid \<times> string \<times> checkpoint_type \<times> obj option) list \<Rightarrow> event list \<Rightarrow> world \<Rightarrow> bool" where
  "calm c clk cps ev w \<longleftrightarrow> w_others w = [] \<and> core_of (w_db w) = c \<and> w_clock w = clk \<and>
     cps_of (w_db w) = cps \<and> w_events w = ev \<and> quiet_write (w_pend w)"

text \<open>From any calm world the action returns a value in \<open>P\<close>, having appended checkpoints and events.\<close>

definition does ::
  "core \<Rightarrow> (nat \<Rightarrow> time) \<Rightarrow> 'a act \<Rightarrow> ('a \<Rightarrow> bool) \<Rightarrow>
     (uuid \<times> string \<times> checkpoint_type \<times> obj option) list \<Rightarrow> event list \<Rightarrow> bool" where
  "does c clk m P cps ev \<longleftrightarrow> (\<forall>w cps0 ev0. calm c clk cps0 ev0 w \<longrightarrow>
     (\<exists>x w'. m w = (Inr x, w') \<and> P x \<and> calm c clk (cps0 @ cps) (ev0 @ ev) w'))"

lemma does_ret [intro]: "P x \<Longrightarrow> does c clk (ret x) P [] []"
  by (simp add: does_def ret_def)

lemma does_bind:
  assumes "does c clk m P cps ev" "\<And>x. P x \<Longrightarrow> does c clk (f x) Q cps' ev'"
  shows "does c clk (bind_act m f) Q (cps @ cps') (ev @ ev')"
  unfolding does_def
proof (intro allI impI)
  fix w cps0 ev0 assume w: "calm c clk cps0 ev0 w"
  then obtain x w1 where m: "m w = (Inr x, w1)" "P x" "calm c clk (cps0 @ cps) (ev0 @ ev) w1"
    using assms(1) unfolding does_def by blast
  obtain y w2 where "f x w1 = (Inr y, w2)" "Q y" "calm c clk ((cps0 @ cps) @ cps') ((ev0 @ ev) @ ev') w2"
    using assms(2) [OF m(2)] m(3) unfolding does_def by blast
  then show "\<exists>y w'. bind_act m f w = (Inr y, w') \<and> Q y \<and> calm c clk (cps0 @ cps @ cps') (ev0 @ ev @ ev') w'"
    using m by (simp add: bind_act_def)
qed

text \<open>Steps that leave no trace.\<close>

lemma does_then:
  "does c clk m P [] [] \<Longrightarrow> (\<And>x. P x \<Longrightarrow> does c clk (f x) Q cps ev) \<Longrightarrow> does c clk (bind_act m f) Q cps ev"
  using does_bind [of c clk m P "[]" "[]" f Q cps ev] by simp

lemma does_weaken: "does c clk m P cps ev \<Longrightarrow> (\<And>x. P x \<Longrightarrow> Q x) \<Longrightarrow> does c clk m Q cps ev"
  unfolding does_def by meson

lemma does_try: "does c clk m P cps ev \<Longrightarrow> does c clk (try_act m h) P cps ev"
  unfolding does_def try_act_def by fastforce

lemma does_lift: "r = Inr x \<Longrightarrow> does c clk (lift_res r) (\<lambda>y. y = x) [] []"
  by (simp add: does_def lift_res_def)

lemma quiet_id [simp]: "quiet_write (\<lambda>d. d)"
  by (simp add: quiet_write_def)

lemma quiet_comp: "quiet_write f \<Longrightarrow> quiet_write g \<Longrightarrow> quiet_write (f \<circ> g)"
  by (simp add: quiet_write_def)

lemma calm_others: "calm c clk cps ev w \<Longrightarrow> others_commit w = w"
  by (simp add: calm_def others_commit_def)

lemma does_clock: "does c clk read_clock (\<lambda>_. True) [] []" "does c clk new_uuid (\<lambda>_. True) [] []"
    "does c clk rollback (\<lambda>_. True) [] []" "does c clk (emit_event e) (\<lambda>_. True) [] [e]"
  by (auto simp: does_def calm_def read_clock_def new_uuid_def rollback_def emit_event_def)

lemma does_flush: "quiet_write f \<Longrightarrow> does c clk (flush_write f) (\<lambda>_. True) [] []"
  by (auto simp: does_def calm_def flush_write_def quiet_comp)

lemma does_commit: "does c clk commit (\<lambda>_. True) [] []"
  by (auto simp: does_def commit_def transact_def calm_others Let_def) (auto simp: calm_def quiet_write_def)

lemma does_query:
  assumes "\<And>d. core_of d = c \<Longrightarrow> P (q d)"
  shows "does c clk (query q) P [] []"
  unfolding does_def query_def Let_def
  using assms by (auto simp: calm_others) (auto simp: calm_def quiet_write_def)

lemma quiet_rows [simp]:
  "quiet_write (add_run_node n)" "quiet_write (put_run_node n)" "quiet_write (add_log l)"
  "quiet_write (add_lineage g)"
  by (simp_all add: quiet_write_def core_of_def add_run_node_def put_run_node_def add_log_def add_lineage_def)

subsection \<open>One node, undisturbed\<close>

definition running :: "core \<Rightarrow> uuid \<Rightarrow> bool" where
  "running c i \<longleftrightarrow> (\<exists>r. get_row rn_id i (fst c) = Some r \<and> rn_status r = RUNNING)"

lemma running_find: "running c i \<Longrightarrow> core_of d = c \<Longrightarrow> \<exists>r. find_run d i = Some r \<and> rn_status r = RUNNING"
  by (auto simp: running_def core_of_def find_run_def)

lemma does_stopped: "running c i \<Longrightarrow> does c clk (stopped_run_status i) (\<lambda>s. s = None) [] []"
  unfolding stopped_run_status_def by (rule does_query) (auto dest: running_find)

lemma does_run_stopped: "running c i \<Longrightarrow> does c clk (run_stopped i) (\<lambda>b. \<not> b) [] []"
  unfolding run_stopped_def by (rule does_then [OF does_stopped]) auto

lemma does_unless: "running c i \<Longrightarrow> does c clk m P cps ev \<Longrightarrow> does c clk (unless_stopped i m) P cps ev"
  unfolding unless_stopped_def by (rule does_then [OF does_stopped]) simp_all

lemma does_call: "impl ctx k = (\<lambda>_. (Inr r, \<lambda>d. d)) \<Longrightarrow> does c clk (call_node impl ctx k) (\<lambda>x. x = r) [] []"
  by (simp add: does_def call_node_def calm_def o_def)

lemma does_attempt:
  "running c (cx_run ctx) \<Longrightarrow> impl ctx k = (\<lambda>_. (Inr r, \<lambda>d. d)) \<Longrightarrow>
     does c clk (execute_attempt impl ctx k) (\<lambda>x. x = Result r) [] []"
  unfolding execute_attempt_def
  by (intro does_unless does_try does_then [OF does_call]) auto

lemma does_retry:
  assumes "rc_max_retries rc \<noteq> 0" "does c clk (f 1) P cps ev"
  shows "does c clk (retry_async rc f) P cps ev"
  unfolding does_def
proof (intro allI impI)
  fix w cps0 ev0 assume "calm c clk cps0 ev0 w"
  then obtain x w' where "f 1 w = (Inr x, w')" "P x" "calm c clk (cps0 @ cps) (ev0 @ ev) w'"
    using assms(2) unfolding does_def by blast
  then show "\<exists>x w'. retry_async rc f w = (Inr x, w') \<and> P x \<and> calm c clk (cps0 @ cps) (ev0 @ ev) w'"
    using assms(1) by (simp add: retry_async_def retry_from.simps [of "Suc 0"])
qed

definition completed_with :: "string \<Rightarrow> obj \<Rightarrow> run_node \<Rightarrow> bool" where
  "completed_with node out n \<longleftrightarrow> nr_node_id n = node \<and> nr_status n = N_COMPLETED \<and> nr_output_data n = Some out"

lemma does_attempt_node:
  assumes "running c (cx_run ctx)" "impl ctx 1 = (\<lambda>_. (Inr r, \<lambda>d. d))" "rs_success r" "rc_max_retries rc \<noteq> 0"
    and n: "nr_status n = N_RUNNING" "nr_node_id n = node"
  shows "does c clk (attempt_node impl ctx rc n) (completed_with node (rs_output r)) [] []"
  unfolding attempt_node_def
proof (rule does_then [OF does_clock(1)], rule does_try)
  fix start
  have rec: "completed_with node (rs_output r) (record_result (Result r) ms k n)" for ms k
    using assms by (simp add: completed_with_def record_result_def node_transition_def
        can_node_transition_values del: node_status_value.simps)
  show "does c clk
     (bind_act (retry_async rc (execute_attempt impl ctx)) (\<lambda>r.
        bind_act read_clock (\<lambda>finish.
        let ms = elapsed_ms start finish; n' = record_result r ms (rc_max_retries rc) n in
        bind_act (save_run_node n') (\<lambda>_.
        bind_act (flush_write (add_log (node_log n' INFO (result_message (nr_node_type n') r ms)))) (\<lambda>_.
        ret n')))))
     (completed_with node (rs_output r)) [] []"
    unfolding Let_def save_run_node_def
    using assms rec
    by (intro does_then [OF does_retry [OF _ does_attempt]] does_then [OF does_clock(1)]
        does_then [OF does_flush] does_ret) auto
qed

lemma does_run_node:
  assumes "running c (cx_run ctx)" "impls ty = Some impl" "impl ctx 1 = (\<lambda>_. (Inr r, \<lambda>d. d))" "rs_success r" "k \<noteq> 0"
  shows "does c clk (run_node_with_retry impls repr True k ty ctx) (completed_with (cx_node ctx) (rs_output r)) [] []"
  unfolding run_node_with_retry_def Let_def settle_def if_True assms(2) option.case
  using assms
  by (intro does_then [OF does_clock(2)] does_then [OF does_clock(1)] does_then [OF does_flush]
      does_then [OF does_ret] does_then [OF does_attempt_node] does_ret)
     (auto simp: default_retry_def start_run_node_def)

lemma does_checkpoint:
  "does c clk (save_checkpoint run node ty st out) (\<lambda>_. True) [(run, node, ty, out)] []"
  by (auto simp: does_def save_checkpoint_def bind_act_def read_clock_def flush_write_def commit_def
      transact_def Let_def others_commit_def calm_def quiet_write_def core_of_def add_checkpoint_def cp_view_def)

lemma does_lineages: "does c clk (record_lineages run infos) (\<lambda>_. True) [] []"
proof (induction infos)
  case (Cons i infos)
  have "does c clk (record_lineage run i) (\<lambda>_. True) [] []"
    unfolding record_lineage_def
    by (simp add: case_prod_beta) (intro does_then [OF does_flush] does_commit quiet_rows)
  then show ?case using Cons by (simp, intro does_then)
qed (simp add: does_ret)

subsection \<open>Well-behaved graphs\<close>

text \<open>Every node has a registered type other than the SDK source, a configuration, and an
  implementation that succeeds at once and leaves the session alone.\<close>

definition good_node :: "runtime \<Rightarrow> obj \<Rightarrow> obj \<Rightarrow> string \<Rightarrow> bool" where
  "good_node rt nodes configs n \<longleftrightarrow>
     (\<exists>d t c impl. node_def_of nodes n = Inr d \<and> node_type_of d = JStr t \<and>
        t \<noteq> ''sdk_document_source'' \<and> node_config_of configs n = Inr c \<and> rt_impls rt t = Some impl \<and>
        (\<forall>ctx. \<exists>r. impl ctx 1 = (\<lambda>_. (Inr r, \<lambda>d. d)) \<and> rs_success r))"

definition good_edge :: "obj \<Rightarrow> bool" where
  "good_edge e \<longleftrightarrow> hashable (exec_source e) \<and> hashable (dict_get_or e ''source_port'' (JStr ''output'')) \<and>
     hashable (dict_get_or e ''target_port'' (JStr ''input''))"

lemma collect_inputs_ok: "\<forall>e \<in> set edges. good_edge e \<Longrightarrow> \<exists>r. collect_inputs node edges outs = Inr r"
  by (induction edges) (auto simp: good_edge_def Let_def split: json.split option.split)

lemma node_inputs_ok: "\<forall>e \<in> set edges. good_edge e \<Longrightarrow> \<exists>p. node_inputs rt node ty edges xs = Inr p"
  using collect_inputs_ok [of edges node "xs_outputs xs"]
  by (auto simp: node_inputs_def bind_res_Inr split: prod.split)

subsection \<open>A node of the executor\<close>

text \<open>The parts of a graph that stay fixed during an execution.\<close>

definition good_graph :: "runtime \<Rightarrow> obj \<Rightarrow> obj list \<Rightarrow> obj \<Rightarrow> bool" where
  "good_graph rt nodes edges configs \<longleftrightarrow>
     (\<forall>n \<in> set (dict_keys nodes). good_node rt nodes configs n) \<and> (\<forall>e \<in> set edges. good_edge e)"

lemma state_for_node_ok: "node_config_of configs n = Inr c \<Longrightarrow> \<exists>st. state_for_node rt n configs xs = Inr st"
  by (simp add: state_for_node_def)

text \<open>What a good node computes: the call it gets and the result it returns.\<close>

lemma good_call:
  assumes "good_node rt nodes configs n" "\<forall>e \<in> set edges. good_edge e"
  obtains d t inputs infos c st impl r where
    "node_def_of nodes n = Inr d" "node_type_of d = JStr t" "t \<noteq> ''sdk_document_source''"
    "node_inputs rt n (JStr t) edges xs = Inr (inputs, infos)" "node_config_of configs n = Inr c"
    "state_for_node rt n configs xs = Inr st" "rt_impls rt t = Some impl"
    "impl \<lparr>cx_run = xr_run xr, cx_node = n, cx_config = c, cx_input = inputs,
          cx_state = st, cx_job = xr_job xr, cx_lease_owner = xr_lease_owner xr\<rparr> 1 = (\<lambda>_. (Inr r, \<lambda>d. d))"
    "rs_success r" "node_out rt xr nodes edges configs xs n = rs_output r"
proof -
  obtain d t c impl where d: "node_def_of nodes n = Inr d" "node_type_of d = JStr t"
      "t \<noteq> ''sdk_document_source''" "node_config_of configs n = Inr c" "rt_impls rt t = Some impl"
    and i: "\<And>ctx. \<exists>r. impl ctx 1 = (\<lambda>_. (Inr r, \<lambda>d. d)) \<and> rs_success r"
    using assms(1) unfolding good_node_def by blast
  obtain inputs infos where p: "node_inputs rt n (JStr t) edges xs = Inr (inputs, infos)"
    using node_inputs_ok [OF assms(2), of rt n "JStr t" xs] by auto
  obtain st where st: "state_for_node rt n configs xs = Inr st" using state_for_node_ok [OF d(4)] by blast
  obtain r where r: "impl \<lparr>cx_run = xr_run xr, cx_node = n, cx_config = c, cx_input = inputs,
      cx_state = st, cx_job = xr_job xr, cx_lease_owner = xr_lease_owner xr\<rparr> 1 = (\<lambda>_. (Inr r, \<lambda>d. d))" "rs_success r"
    using i by blast
  have "node_out rt xr nodes edges configs xs n = rs_output r"
    using d p st r(1) by (simp add: node_out_def call_of_def type_text_def)
  then show ?thesis using d p st r by (intro that)
qed

lemma does_invoke:
  assumes "running c (xr_run xr)" "node_config_of configs n = Inr cfg" "state_for_node rt n configs xs = Inr st"
    "rt_impls rt t = Some impl"
    "impl \<lparr>cx_run = xr_run xr, cx_node = n, cx_config = cfg, cx_input = inputs,
        cx_state = st, cx_job = xr_job xr, cx_lease_owner = xr_lease_owner xr\<rparr> 1 = (\<lambda>_. (Inr r, \<lambda>d. d))" "rs_success r"
  shows "does c clk (invoke_node rt xr configs xs n (JStr t) inputs) (completed_with n (rs_output r)) [] []"
proof -
  let ?ctx = "\<lparr>cx_run = xr_run xr, cx_node = n, cx_config = cfg, cx_input = inputs,
        cx_state = st, cx_job = xr_job xr, cx_lease_owner = xr_lease_owner xr\<rparr>"
  have "does c clk (run_node_with_retry (rt_impls rt) (rt_repr rt) True 3 t ?ctx)
      (completed_with n (rs_output r)) [] []"
    using does_run_node [of c ?ctx "rt_impls rt" t impl r 3] assms by simp
  then show ?thesis
    unfolding invoke_node_def assms(2,3) type_text_def json.case
    by (intro does_then [OF does_lift [OF refl]]) auto
qed

lemma does_post_exec:
  assumes "completed_with n out x" "t \<noteq> ''sdk_document_source''"
  shows "does c clk (post_exec xr level (JStr t) x) (\<lambda>_. True) [(xr_run xr, n, POST_EXEC, Some out)] []"
proof -
  have x: "nr_node_id x = n" "nr_output_data x = Some out" using assms(1) by (simp_all add: completed_with_def)
  show ?thesis
    unfolding post_exec_def revalidate_staging_def x
    using assms(2) by (simp, intro does_then [OF does_ret] does_checkpoint) simp_all
qed

lemma completed_simps:
  assumes "completed_with n out x"
  shows "nr_status x = N_COMPLETED" "has_output x \<longleftrightarrow> out \<noteq> []"
    "(if has_output x then store_output x xs else xs) = put_out n out xs"
  using assms by (simp_all add: completed_with_def has_output_def store_output_def put_out_def)

lemma lift_bind [simp]: "bind_act (lift_res (Inr x)) f = f x"
  by (simp add: bind_act_def lift_res_def fun_eq_iff)

lemma does_emit:
  "does c clk (f ()) Q cps ev \<Longrightarrow> does c clk (bind_act (emit_event e) f) Q cps (e # ev)"
  using does_bind [OF does_clock(4), of c clk f Q cps ev e] by (simp add: unit_eq)

lemma does_mark:
  "does c clk m (\<lambda>_. True) [p] [] \<Longrightarrow> (\<And>x. does c clk (f x) Q cps ev) \<Longrightarrow> does c clk (bind_act m f) Q (p # cps) ev"
  using does_bind [of c clk m "\<lambda>_. True" "[p]" "[]" f Q cps ev] by simp

lemma does_lineages_if: "does c clk (if b then record_lineages i infos else ret ()) (\<lambda>_. True) [] []"
  by (simp add: does_lineages does_ret)

text \<open>The trace of one node: its checkpoint and its two events.\<close>

abbreviation node_cp :: "exec_run \<Rightarrow> string \<times> obj \<Rightarrow> uuid \<times> string \<times> checkpoint_type \<times> obj option" where
  "node_cp xr p \<equiv> (xr_run xr, fst p, POST_EXEC, Some (snd p))"

abbreviation node_events :: "string list \<Rightarrow> event list" where
  "node_events ns \<equiv> concat (map (\<lambda>n. [NodeStarted n, NodeCompleted n]) ns)"

lemma does_sequential_node:
  assumes run: "running c (xr_run xr)" and good: "good_node rt nodes configs n" "\<forall>e \<in> set edges. good_edge e"
  shows "does c clk (sequential_node rt xr nodes edges configs level n xs)
    (\<lambda>r. r = Some (put_out n (node_out rt xr nodes edges configs xs n) xs))
    [node_cp xr (n, node_out rt xr nodes edges configs xs n)] [NodeStarted n, NodeCompleted n]"
proof (rule good_call [OF good, where xs = xs and xr = xr])
  fix d t inputs infos cfg st impl r
  assume d: "node_def_of nodes n = Inr d" "node_type_of d = JStr t" "t \<noteq> ''sdk_document_source''"
    and p: "node_inputs rt n (JStr t) edges xs = Inr (inputs, infos)"
    and inv: "node_config_of configs n = Inr cfg" "state_for_node rt n configs xs = Inr st" "rt_impls rt t = Some impl"
      "impl \<lparr>cx_run = xr_run xr, cx_node = n, cx_config = cfg, cx_input = inputs,
          cx_state = st, cx_job = xr_job xr, cx_lease_owner = xr_lease_owner xr\<rparr> 1 = (\<lambda>_. (Inr r, \<lambda>d. d))" "rs_success r"
    and out: "node_out rt xr nodes edges configs xs n = rs_output r"
  let ?rest = "\<lambda>x. if nr_status x = N_SKIPPED then ret None else
     let xs' = (if has_output x then store_output x xs else xs) in
     bind_act (if has_output x \<and> nr_status x = N_COMPLETED
               then record_lineages (xr_run xr) infos else ret ()) (\<lambda>_.
     bind_act (post_exec xr level (JStr t) x) (\<lambda>_.
     if nr_status x = N_COMPLETED then bind_act (emit_event (NodeCompleted n)) (\<lambda>_. ret (Some xs'))
     else bind_act (record_dlq rt (xr_run xr) n (py_str (rt_repr rt) (JStr t)) (nr_error x) inputs
                      (nr_attempt_count x)) (\<lambda>_.
          bind_act (emit_event (NodeFailed n)) (\<lambda>_.
          bind_act (fail_run xr (node_error n (py_str (rt_repr rt) (JStr t)) (nr_error x))) (\<lambda>_.
          ret None)))))"
  have rest: "does c clk (?rest x) (\<lambda>r'. r' = Some (put_out n (rs_output r) xs))
      [node_cp xr (n, rs_output r)] [NodeCompleted n]" if x: "completed_with n (rs_output r) x" for x
  proof -
    have "does c clk (bind_act (if has_output x \<and> nr_status x = N_COMPLETED
               then record_lineages (xr_run xr) infos else ret ()) (\<lambda>_.
       bind_act (post_exec xr level (JStr t) x) (\<lambda>_.
       bind_act (emit_event (NodeCompleted n)) (\<lambda>_. ret (Some (put_out n (rs_output r) xs))))))
       (\<lambda>r'. r' = Some (put_out n (rs_output r) xs)) [node_cp xr (n, rs_output r)] [NodeCompleted n]"
      by (intro does_then [OF does_lineages_if] does_mark does_emit does_ret refl)
         (simp add: does_post_exec [OF x d(3)])
    then show ?thesis by (simp add: Let_def completed_simps(1,3) [OF x])
  qed
  have "does c clk (bind_act (emit_event (NodeStarted n)) (\<lambda>_.
      bind_act (invoke_node rt xr configs xs n (JStr t) inputs) ?rest))
      (\<lambda>r'. r' = Some (put_out n (rs_output r) xs)) [node_cp xr (n, rs_output r)] [NodeStarted n, NodeCompleted n]"
    by (intro does_emit does_then [OF does_invoke [OF run inv] rest])
  note body = this
  show ?thesis
    unfolding sequential_node_def out
    by (rule does_then [OF does_run_stopped [OF run]])
       (use body in \<open>simp add: d(1,2) p Let_def cong: if_cong\<close>)
qed

lemma does_parallel_task:
  assumes run: "running c (xr_run xr)" and good: "good_node rt nodes configs n" "\<forall>e \<in> set edges. good_edge e"
  shows "does c clk (parallel_task rt xr nodes edges configs level n xs)
    (\<lambda>r. fst r = put_out n (node_out rt xr nodes edges configs xs n) xs \<and> fst (snd r) = N_COMPLETED)
    [node_cp xr (n, node_out rt xr nodes edges configs xs n)] [NodeStarted n, NodeCompleted n]"
proof (rule good_call [OF good, where xs = xs and xr = xr])
  fix d t inputs infos cfg st impl r
  assume d: "node_def_of nodes n = Inr d" "node_type_of d = JStr t" "t \<noteq> ''sdk_document_source''"
    and p: "node_inputs rt n (JStr t) edges xs = Inr (inputs, infos)"
    and inv: "node_config_of configs n = Inr cfg" "state_for_node rt n configs xs = Inr st" "rt_impls rt t = Some impl"
      "impl \<lparr>cx_run = xr_run xr, cx_node = n, cx_config = cfg, cx_input = inputs,
          cx_state = st, cx_job = xr_job xr, cx_lease_owner = xr_lease_owner xr\<rparr> 1 = (\<lambda>_. (Inr r, \<lambda>d. d))" "rs_success r"
    and out: "node_out rt xr nodes edges configs xs n = rs_output r"
  let ?P = "\<lambda>r'. fst r' = put_out n (rs_output r) xs \<and> fst (snd r') = N_COMPLETED"
  let ?rest = "\<lambda>x. if nr_status x = N_SKIPPED then ret (xs, N_SKIPPED, nr_error x) else
     let good = (has_output x \<and> nr_status x = N_COMPLETED); xs' = (if good then store_output x xs else xs) in
     bind_act (if good then record_lineages (xr_run xr) infos else ret ()) (\<lambda>_.
     bind_act (post_exec xr level (JStr t) x) (\<lambda>_.
     bind_act (if nr_status x = N_COMPLETED then emit_event (NodeCompleted n)
               else bind_act (record_dlq rt (xr_run xr) n (py_str (rt_repr rt) (JStr t)) (nr_error x) inputs
                      (nr_attempt_count x)) (\<lambda>_. emit_event (NodeFailed n))) (\<lambda>_.
     ret (xs', nr_status x, nr_error x))))"
  have rest: "does c clk (?rest x) ?P [node_cp xr (n, rs_output r)] [NodeCompleted n]"
    if x: "completed_with n (rs_output r) x" for x
  proof -
    have "does c clk (bind_act (if has_output x then record_lineages (xr_run xr) infos else ret ()) (\<lambda>_.
       bind_act (post_exec xr level (JStr t) x) (\<lambda>_.
       bind_act (emit_event (NodeCompleted n)) (\<lambda>_.
       ret (put_out n (rs_output r) xs, N_COMPLETED, nr_error x)))))
       ?P [node_cp xr (n, rs_output r)] [NodeCompleted n]"
      by (intro does_then [OF does_lineages_if] does_mark does_emit does_ret)
         (simp_all add: does_post_exec [OF x d(3)])
    then show ?thesis by (simp add: Let_def completed_simps(1,3) [OF x])
  qed
  have body: "does c clk (bind_act (emit_event (NodeStarted n)) (\<lambda>_.
      bind_act (invoke_node rt xr configs xs n (JStr t) inputs) ?rest)) ?P
      [node_cp xr (n, rs_output r)] [NodeStarted n, NodeCompleted n]"
    by (intro does_emit does_then [OF does_invoke [OF run inv] rest])
  show ?thesis
    unfolding parallel_task_def out
    by (rule does_then [OF does_run_stopped [OF run]])
       (use body in \<open>simp add: d(1,2) p Let_def cong: if_cong\<close>)
qed

subsection \<open>Levels, undisturbed\<close>

text \<open>The executor's view of a list of nodes run in this order.\<close>

abbreviation flow_cps ::
  "runtime \<Rightarrow> exec_run \<Rightarrow> obj \<Rightarrow> obj list \<Rightarrow> obj \<Rightarrow> string list \<Rightarrow> exec_state
     \<Rightarrow> (uuid \<times> string \<times> checkpoint_type \<times> obj option) list" where
  "flow_cps rt xr nodes edges configs ns xs \<equiv> map (node_cp xr) (flow_outputs rt xr nodes edges configs ns xs)"

lemma does_sequential_level:
  assumes "running c (xr_run xr)" "\<forall>n \<in> set ns. good_node rt nodes configs n" "\<forall>e \<in> set edges. good_edge e"
  shows "does c clk (sequential_level rt xr nodes edges configs level ns xs)
    (\<lambda>r. r = Some (flow rt xr nodes edges configs ns xs))
    (flow_cps rt xr nodes edges configs ns xs) (node_events ns)"
  using assms(2)
proof (induction ns arbitrary: xs)
  case (Cons n ns)
  let ?out = "node_out rt xr nodes edges configs xs n"
  have "does c clk (sequential_node rt xr nodes edges configs level n xs)
      (\<lambda>r. r = Some (put_out n ?out xs)) [node_cp xr (n, ?out)] [NodeStarted n, NodeCompleted n]"
    using Cons.prems assms(1,3) by (intro does_sequential_node) auto
  from does_bind [OF this, of "\<lambda>r. case r of None \<Rightarrow> ret None
       | Some xs' \<Rightarrow> sequential_level rt xr nodes edges configs level ns xs'"
       "\<lambda>r. r = Some (flow rt xr nodes edges configs ns (put_out n ?out xs))"
       "flow_cps rt xr nodes edges configs ns (put_out n ?out xs)" "node_events ns"]
  show ?case using Cons.IH Cons.prems by (simp add: Let_def)
qed (simp add: does_ret)

lemma does_guarded_task:
  assumes "running c (xr_run xr)" "good_node rt nodes configs n" "\<forall>e \<in> set edges. good_edge e"
  shows "does c clk (guarded_task rt xr nodes edges configs level n xs)
    (\<lambda>r. fst r = put_out n (node_out rt xr nodes edges configs xs n) xs \<and> fst (snd r) = N_COMPLETED)
    [node_cp xr (n, node_out rt xr nodes edges configs xs n)] [NodeStarted n, NodeCompleted n]"
proof -
  let ?P = "\<lambda>r. fst r = put_out n (node_out rt xr nodes edges configs xs n) xs \<and> fst (snd r) = N_COMPLETED"
  have "does c clk (bind_act rollback (\<lambda>_. ret r)) ?P [] []" if "?P r" for r
    by (rule does_then [OF does_clock(3)], rule does_ret, rule that)
  from does_bind [OF does_try [OF does_parallel_task [OF assms, of clk level xs]] this]
  show ?thesis unfolding guarded_task_def by simp
qed

lemma does_parallel_tasks:
  assumes "running c (xr_run xr)" "\<forall>n \<in> set ns. good_node rt nodes configs n" "\<forall>e \<in> set edges. good_edge e"
  shows "does c clk (parallel_tasks rt xr nodes edges configs level ns xs)
    (\<lambda>r. fst r = flow rt xr nodes edges configs ns xs \<and> (\<forall>q \<in> set (snd r). fst (snd q) = N_COMPLETED))
    (flow_cps rt xr nodes edges configs ns xs) (node_events ns)"
  using assms(2)
proof (induction ns arbitrary: xs)
  case (Cons n ns)
  let ?out = "node_out rt xr nodes edges configs xs n"
  let ?P = "\<lambda>r. fst r = flow rt xr nodes edges configs (n # ns) xs \<and> (\<forall>q \<in> set (snd r). fst (snd q) = N_COMPLETED)"
  have g: "does c clk (guarded_task rt xr nodes edges configs level n xs)
      (\<lambda>r. fst r = put_out n ?out xs \<and> fst (snd r) = N_COMPLETED) [node_cp xr (n, ?out)] [NodeStarted n, NodeCompleted n]"
    using Cons.prems assms(1,3) by (intro does_guarded_task) auto
  have rest: "does c clk (bind_act (parallel_tasks rt xr nodes edges configs level ns (fst r))
        (\<lambda>(xs2, results). ret (xs2, (n, snd r) # results))) ?P
      (flow_cps rt xr nodes edges configs ns (put_out n ?out xs)) (node_events ns)"
    if "fst r = put_out n ?out xs \<and> fst (snd r) = N_COMPLETED" for r
  proof -
    have "does c clk ((\<lambda>(xs2, results). ret (xs2, (n, snd r) # results)) q) ?P [] []"
      if "fst q = flow rt xr nodes edges configs ns (put_out n ?out xs) \<and>
          (\<forall>q \<in> set (snd q). fst (snd q) = N_COMPLETED)" for q
      using that \<open>fst r = _ \<and> _\<close> by (cases q) (simp add: does_ret)
    from does_bind [where f = "\<lambda>(xs2, results). ret (xs2, (n, snd r) # results)",
        OF Cons.IH [of "put_out n ?out xs"] this] Cons.prems show ?thesis
      using that by simp
  qed
  let ?f = "\<lambda>r. bind_act (parallel_tasks rt xr nodes edges configs level ns (fst r))
        (\<lambda>(xs2, results). ret (xs2, (n, snd r) # results))"
  have "(\<lambda>(xs1, res). bind_act (parallel_tasks rt xr nodes edges configs level ns xs1)
        (\<lambda>(xs2, results). ret (xs2, (n, res) # results))) = ?f"
    by (simp add: fun_eq_iff)
  with does_bind [where f = "?f", OF g rest] show ?case by (simp add: Let_def)
qed (simp add: does_ret)

text \<open>The order in which a level's nodes finish.\<close>

definition order_of :: "runtime \<Rightarrow> string list \<Rightarrow> string list" where
  "order_of rt ns = (if parallel_threshold \<le> length ns then rt_order rt ns else ns)"

definition fair_order :: "runtime \<Rightarrow> bool" where
  "fair_order rt \<longleftrightarrow> (\<forall>ns. mset (rt_order rt ns) = mset ns)"

lemma fair_order_set: "fair_order rt \<Longrightarrow> set (rt_order rt ns) = set ns"
  by (metis fair_order_def mset_eq_setD)

lemma order_of_mset: "fair_order rt \<Longrightarrow> mset (order_of rt ns) = mset ns"
  by (simp add: order_of_def fair_order_def)

lemma no_failed_result:
  "\<forall>q \<in> set results. fst (snd q) = N_COMPLETED \<Longrightarrow> failed_result ns results = None"
  unfolding failed_result_def
  by (auto simp: find_None_iff split: option.split dest!: map_of_SomeD)

lemma does_run_level:
  assumes "running c (xr_run xr)" "\<forall>n \<in> set ns. good_node rt nodes configs n"
    "\<forall>e \<in> set edges. good_edge e" "fair_order rt"
  shows "does c clk (run_level rt xr nodes edges configs level ns xs)
    (\<lambda>r. r = Some (flow rt xr nodes edges configs (order_of rt ns) xs))
    (flow_cps rt xr nodes edges configs (order_of rt ns) xs) (node_events (order_of rt ns))"
proof (cases "parallel_threshold \<le> length ns")
  case True
  have "\<forall>n \<in> set (rt_order rt ns). good_node rt nodes configs n"
    using assms(2) fair_order_set [OF assms(4)] by simp
  note tasks = does_parallel_tasks [OF assms(1) this assms(3), of clk level xs]
  have "does c clk (bind_act (run_stopped (xr_run xr)) (\<lambda>stop. if stop then ret None else
        case failed_result ns (snd r) of
          None \<Rightarrow> ret (Some (fst r))
        | Some (node, err) \<Rightarrow>
            bind_act (lift_res (node_def_of nodes node)) (\<lambda>d.
            bind_act (fail_run xr (node_error node
               (py_str (rt_repr rt) (dict_get_or d ''type'' (JStr ''unknown''))) err)) (\<lambda>_.
            ret None))))
      (\<lambda>r. r = Some (flow rt xr nodes edges configs (rt_order rt ns) xs)) [] []"
    if "fst r = flow rt xr nodes edges configs (rt_order rt ns) xs \<and>
        (\<forall>q \<in> set (snd r). fst (snd q) = N_COMPLETED)" for r
    using that by (intro does_then [OF does_run_stopped [OF assms(1)]]) (simp add: no_failed_result does_ret)
  from does_bind [OF tasks this] show ?thesis
    unfolding run_level_def order_of_def case_prod_beta using True by simp
next
  case False
  then show ?thesis
    using does_sequential_level [OF assms(1-3)] by (simp add: run_level_def order_of_def)
qed

lemma does_run_levels:
  assumes "running c (xr_run xr)" "\<forall>n \<in> set (concat ls). good_node rt nodes configs n"
    "\<forall>e \<in> set edges. good_edge e" "fair_order rt"
  shows "does c clk (run_levels rt xr nodes edges configs level ls xs)
    (\<lambda>r. r = Some (flow rt xr nodes edges configs (concat (map (order_of rt) ls)) xs))
    (flow_cps rt xr nodes edges configs (concat (map (order_of rt) ls)) xs)
    (node_events (concat (map (order_of rt) ls)))"
  using assms(2)
proof (induction ls arbitrary: level xs)
  case (Cons ns ls)
  let ?xs = "flow rt xr nodes edges configs (order_of rt ns) xs"
  let ?rest = "concat (map (order_of rt) ls)"
  have "\<forall>n \<in> set ns. good_node rt nodes configs n" using Cons.prems by simp
  note this_level = does_run_level [OF assms(1) this assms(3,4), of clk level xs]
  have "does c clk (case r of None \<Rightarrow> ret None
        | Some xs' \<Rightarrow> run_levels rt xr nodes edges configs (Suc level) ls xs')
      (\<lambda>r. r = Some (flow rt xr nodes edges configs ?rest ?xs))
      (flow_cps rt xr nodes edges configs ?rest ?xs) (node_events ?rest)" if "r = Some ?xs" for r
    using Cons.IH [of "Suc level" ?xs] Cons.prems that by simp
  note step = does_bind [OF this_level this]
  show ?case
    unfolding run_levels.simps
    by (rule does_then [OF does_run_stopped [OF assms(1)]])
       (use step in \<open>simp add: flow_append flow_outputs_append cong: if_cong\<close>)
qed (simp add: does_ret)

subsection \<open>The dataflow equation\<close>

text \<open>The inputs of a node come from the outputs of the sources of its edges, and nothing else.\<close>

definition feeds :: "obj list \<Rightarrow> string \<Rightarrow> string \<Rightarrow> bool" where
  "feeds edges s n \<longleftrightarrow> (\<exists>e \<in> set edges. exec_source e = JStr s \<and> exec_target e = JStr n)"

lemma collect_inputs_feeds:
  "(\<And>s. feeds edges s n \<Longrightarrow> dict_get o1 s = dict_get o2 s) \<Longrightarrow>
     collect_inputs n edges o1 = collect_inputs n edges o2"
proof (induction edges)
  case (Cons e es)
  have "collect_inputs n es o1 = collect_inputs n es o2"
    using Cons by (auto simp: feeds_def)
  moreover have "dict_get o1 s = dict_get o2 s" if "exec_target e = JStr n" "exec_source e = JStr s" for s
    using Cons.prems that by (auto simp: feeds_def)
  ultimately show ?case by (auto split: json.split option.split)
qed simp

lemma node_out_feeds:
  assumes "\<And>s. feeds edges s n \<Longrightarrow> dict_get (xs_outputs xs) s = dict_get (xs_outputs ys) s"
    and "xs_connections xs = xs_connections ys" "xs_owner xs = xs_owner ys" "xs_graph xs = xs_graph ys"
      "xs_payload xs = xs_payload ys"
  shows "node_out rt xr nodes edges configs xs n = node_out rt xr nodes edges configs ys n"
proof -
  have "collect_inputs n edges (xs_outputs xs) = collect_inputs n edges (xs_outputs ys)"
    using assms(1) by (rule collect_inputs_feeds)
  then have "node_inputs rt n ty edges xs = node_inputs rt n ty edges ys" for ty
    using assms(5) by (simp add: node_inputs_def)
  moreover have "state_for_node rt n configs xs = state_for_node rt n configs ys"
    by (simp only: state_for_node_def assms(2-4))
  ultimately show ?thesis by (simp add: node_out_def call_of_def)
qed

text \<open>The outputs a list of nodes leaves behind; empty outputs are not kept.\<close>

definition kept :: "(string, obj) dict \<Rightarrow> (string, obj) dict" where
  "kept outs = filter (\<lambda>p. snd p \<noteq> []) outs"

lemma kept_simps [simp]: "kept [] = []" "kept (p # outs) = (if snd p = [] then kept outs else p # kept outs)"
  by (simp_all add: kept_def)

lemma kept_other: "s \<notin> fst ` set outs \<Longrightarrow> dict_get (kept outs) s = None"
  by (induction outs) auto

definition dataflow ::
  "runtime \<Rightarrow> exec_run \<Rightarrow> obj \<Rightarrow> obj list \<Rightarrow> obj \<Rightarrow> exec_state \<Rightarrow> (string, obj) dict \<Rightarrow> bool" where
  "dataflow rt xr nodes edges configs xs outs \<longleftrightarrow>
     (\<forall>(n, out) \<in> set outs. out = node_out rt xr nodes edges configs (xs\<lparr>xs_outputs := kept outs\<rparr>) n)"

lemma put_out_fields [simp]:
  "xs_connections (put_out n out xs) = xs_connections xs" "xs_owner (put_out n out xs) = xs_owner xs"
  "xs_graph (put_out n out xs) = xs_graph xs" "xs_payload (put_out n out xs) = xs_payload xs"
  by (simp_all add: put_out_def)

lemma flow_fields [simp]:
  "xs_connections (flow rt xr nodes edges configs ns xs) = xs_connections xs"
  "xs_owner (flow rt xr nodes edges configs ns xs) = xs_owner xs"
  "xs_graph (flow rt xr nodes edges configs ns xs) = xs_graph xs"
  "xs_payload (flow rt xr nodes edges configs ns xs) = xs_payload xs"
  by (induction ns arbitrary: xs) simp_all

lemma flow_lookup:
  "distinct ns \<Longrightarrow> dict_get (xs_outputs (flow rt xr nodes edges configs ns xs)) s =
     (case dict_get (kept (flow_outputs rt xr nodes edges configs ns xs)) s of
        Some out \<Rightarrow> Some out | None \<Rightarrow> dict_get (xs_outputs xs) s)"
proof (induction ns arbitrary: xs)
  case (Cons n ns)
  let ?ys = "put_out n (node_out rt xr nodes edges configs xs n) xs"
  have "n \<notin> fst ` set (flow_outputs rt xr nodes edges configs ns ?ys)"
    using Cons.prems flow_outputs_keys [of rt xr nodes edges configs ns ?ys]
    by (metis distinct.simps(2) list.set_map)
  then have "dict_get (kept (flow_outputs rt xr nodes edges configs ns ?ys)) n = None" by (rule kept_other)
  then show ?case
    using Cons by (auto simp: Let_def put_out_def split: option.split)
qed simp

text \<open>An order that runs every source of a node before the node.\<close>

definition before_all :: "obj list \<Rightarrow> string list \<Rightarrow> bool" where
  "before_all edges order \<longleftrightarrow>
     (\<forall>as n bs s. order = as @ n # bs \<longrightarrow> feeds edges s n \<longrightarrow> s \<in> set as)"

lemma flow_dataflow:
  assumes "distinct order" "before_all edges order" "xs_outputs xs = []"
  shows "dataflow rt xr nodes edges configs xs (flow_outputs rt xr nodes edges configs order xs)"
  unfolding dataflow_def
proof (intro ballI, clarify)
  let ?outs = "flow_outputs rt xr nodes edges configs"
  fix n out assume "(n, out) \<in> set (?outs order xs)"
  then obtain ps qs where split: "?outs order xs = ps @ (n, out) # qs" by (meson split_list)
  define as bs where "as = map fst ps" and "bs = map fst qs"
  have order: "order = as @ n # bs"
    using arg_cong [OF split, of "map fst"] by (simp add: flow_outputs_keys as_def bs_def)
  let ?ys = "flow rt xr nodes edges configs as xs"
  have "?outs order xs = ?outs as xs @ ?outs (n # bs) ?ys" by (simp add: order flow_outputs_append)
  moreover have "length (?outs as xs) = length ps"
    using flow_outputs_keys [of rt xr nodes edges configs as xs] by (metis as_def length_map)
  ultimately have out: "out = node_out rt xr nodes edges configs ?ys n"
    using split by (simp add: Let_def)
  have "dict_get (xs_outputs ?ys) s = dict_get (kept (?outs order xs)) s" if "feeds edges s n" for s
  proof -
    have "s \<in> set as" using assms(2) order that by (auto simp: before_all_def)
    then have "s \<notin> set (n # bs)" using assms(1) order by auto
    then have "s \<notin> fst ` set (?outs (n # bs) ?ys)"
      using flow_outputs_keys [of rt xr nodes edges configs "n # bs" ?ys] by (metis list.set_map)
    then have none: "dict_get (kept (?outs (n # bs) ?ys)) s = None" by (rule kept_other)
    have "kept (?outs order xs) = kept (?outs as xs) @ kept (?outs (n # bs) ?ys)"
      by (simp only: order flow_outputs_append kept_def filter_append)
    then show ?thesis
      using flow_lookup [of as rt xr nodes edges configs xs s] assms(1,3) order none
      by (simp add: map_add_def split: option.split)
  qed
  then show "out = node_out rt xr nodes edges configs (xs\<lparr>xs_outputs := kept (?outs order xs)\<rparr>) n"
    unfolding out by (intro node_out_feeds) simp_all
qed

lemma kept_get:
  "distinct (dict_keys outs) \<Longrightarrow> dict_get (kept outs) s =
     (case dict_get outs s of None \<Rightarrow> None | Some out \<Rightarrow> if out = [] then None else Some out)"
  by (induction outs) (auto simp: kept_other split: option.split)

text \<open>On an acyclic graph the equation has one solution.\<close>

lemma dataflow_unique:
  assumes "dataflow rt xr nodes edges configs xs o1" "dataflow rt xr nodes edges configs xs o2"
    and "distinct order" "before_all edges order"
    and "mset (dict_keys o1) = mset order" "mset (dict_keys o2) = mset order"
  shows "dict_get o1 = dict_get o2"
proof -
  have d: "distinct (dict_keys o1)" "distinct (dict_keys o2)" "set (dict_keys o1) = set order"
      "set (dict_keys o2) = set order"
    using assms(3,5,6) by (metis mset_eq_imp_distinct_iff, metis mset_eq_imp_distinct_iff,
        metis mset_eq_setD, metis mset_eq_setD)
  have here: "dict_get outs n = Some (node_out rt xr nodes edges configs (xs\<lparr>xs_outputs := kept outs\<rparr>) n)"
    if "dataflow rt xr nodes edges configs xs outs" "distinct (dict_keys outs)" "n \<in> set (dict_keys outs)" for outs n
    using that by (force simp: dataflow_def)
  have "order = as @ bs \<Longrightarrow> n \<in> set as \<Longrightarrow> dict_get o1 n = dict_get o2 n" for as bs n
  proof (induction as arbitrary: bs n rule: rev_induct)
    case (snoc m as)
    have old: "dict_get o1 s = dict_get o2 s" if "s \<in> set as" for s
      using snoc.IH [of "m # bs" s] snoc.prems(1) that by simp
    have "dict_get (kept o1) s = dict_get (kept o2) s" if "feeds edges s m" for s
      using assms(4) snoc.prems(1) that old by (auto simp: kept_get d(1,2) before_all_def)
    then have "node_out rt xr nodes edges configs (xs\<lparr>xs_outputs := kept o1\<rparr>) m =
        node_out rt xr nodes edges configs (xs\<lparr>xs_outputs := kept o2\<rparr>) m"
      by (intro node_out_feeds) simp_all
    moreover have "m \<in> set order" using snoc.prems(1) by simp
    ultimately have "dict_get o1 m = dict_get o2 m"
      using here [OF assms(1) d(1)] here [OF assms(2) d(2)] d(3,4) by simp
    then show ?case using snoc.prems(2) old by auto
  qed simp
  then have "n \<in> set order \<Longrightarrow> dict_get o1 n = dict_get o2 n" for n using append_Nil2 by metis
  moreover have "dict_get o1 n = None \<and> dict_get o2 n = None" if "n \<notin> set order" for n
    using d(3,4) that by (metis list.set_map map_of_eq_None_iff)
  ultimately show ?thesis by (metis ext)
qed

text \<open>The schedule runs sources first, in whatever order the tasks of a level finish.\<close>

lemma exec_edge:
  "exec_source e = JStr s \<Longrightarrow> edge_source e = JStr s" "exec_target e = JStr n \<Longrightarrow> edge_target e = JStr n"
  by (auto simp: exec_source_def exec_target_def edge_source_def edge_target_def obj_get_def dict_get_or_def
      split: option.splits)

lemma ordered_before:
  "ordered_levels es done ls \<Longrightarrow> (u, v) \<in> set es \<Longrightarrow> \<forall>l \<in> set ls. set (f l) = set l \<Longrightarrow>
     concat (map f ls) = as @ v # bs \<Longrightarrow> u \<in> set done \<union> set as"
proof (induction es "done" ls arbitrary: as rule: ordered_levels.induct)
  case (2 es "done" l ls)
  from 2(5) consider (in_level) zs where "f l = as @ v # zs"
    | (later) cs where "as = f l @ cs" "concat (map f ls) = cs @ v # bs"
    by (auto simp: append_eq_append_conv2 append_eq_Cons_conv)
  then show ?case
  proof cases
    case in_level
    then have "v \<in> set l" using 2(4) by (metis in_set_conv_decomp list.set_intros(1))
    then show ?thesis using 2(2,3) by (auto simp: open_edges_0)
  next
    case later
    then have "u \<in> set (done @ l) \<union> set cs" using 2 by simp
    then show ?thesis using later(1) 2(4) by auto
  qed
qed simp

lemma schedule_before_all:
  assumes "validate_dag (dict_keys nodes) edges = Some (Inr [])" "dict_wf nodes" "fair_order rt"
  obtains levels where "topological_sort (dict_keys nodes) edges = Some (Inr levels)"
    "mset (concat (map (order_of rt) levels)) = mset (dict_keys nodes)"
    "before_all edges (concat (map (order_of rt) levels))"
proof -
  have wf: "distinct (dict_keys nodes)" using assms(2) by (simp add: dict_wf_def)
  obtain r where r: "topological_sort (dict_keys nodes) edges = Some r"
    by (rule topological_sort_returns [OF wf])
  then obtain levels where levels: "topological_sort (dict_keys nodes) edges = Some (Inr levels)"
      and ce: "check_edges (dict_keys nodes) 0 edges = Inr []"
    using assms(1) by (auto simp: validate_dag_def split: sum.splits sched_error.splits)
  obtain ps where ps: "known_edges (dict_keys nodes) edges = Inr ps" "levels_ok (dict_keys nodes) ps [] levels"
      "set (concat levels) = set (dict_keys nodes)" "wf_edges (dict_keys nodes) ps"
    by (rule topological_sort_levels [OF levels wf])
  have ok: "distinct (concat levels)" "ordered_levels ps [] levels" using ps(2) by (auto simp: levels_ok_def)
  have same: "mset (concat (map (order_of rt) levels)) = mset (concat levels)"
    by (induction levels) (simp_all add: order_of_mset [OF assms(3)])
  also have "\<dots> = mset (dict_keys nodes)" using ok(1) ps(3) wf by (metis set_eq_iff_mset_eq_distinct)
  finally have m: "mset (concat (map (order_of rt) levels)) = mset (dict_keys nodes)" .
  have "before_all edges (concat (map (order_of rt) levels))"
    unfolding before_all_def
  proof (intro allI impI)
    fix as n bs s
    assume o': "concat (map (order_of rt) levels) = as @ n # bs" and "feeds edges s n"
    then obtain e where e: "e \<in> set edges" "edge_source e = JStr s" "edge_target e = JStr n"
      by (auto simp: feeds_def dest: exec_edge)
    then have "(s, n) \<in> edge_rel (dict_keys nodes) edges"
      using ce by (simp only: edge_rel_def check_edges_empty mem_Collect_eq case_prod_conv)
        (metis json.inject(4))
    then have "(s, n) \<in> set ps" using known_edges_rel [OF ps(1)] by simp
    moreover have "\<forall>l \<in> set levels. set (order_of rt l) = set l"
      using order_of_mset [OF assms(3)] by (metis mset_eq_setD)
    ultimately show "s \<in> set as" using ordered_before [OF ok(2) _ _ o'] by simp
  qed
  with levels m show ?thesis by (rule that)
qed

subsection \<open>The whole run\<close>

lemma completion_fence_jobs:
  "db_jobs d = db_jobs d' \<Longrightarrow> completion_fence run job owner t d = completion_fence run job owner t d'"
  by (simp add: completion_fence_def check_job_lease_def find_job_def split: option.split)

text \<open>Nothing is staged for the run, and its lease, if any, holds at every clock reading.\<close>

definition fenced :: "exec_run \<Rightarrow> (nat \<Rightarrow> time) \<Rightarrow> db \<Rightarrow> bool" where
  "fenced xr clk d \<longleftrightarrow> (xr_job xr = None \<longrightarrow> xr_lease_owner xr = None) \<and>
     candidates_of_run d (xr_run xr) = [] \<and>
     (\<forall>k. completion_fence (xr_run xr) (xr_job xr) (xr_lease_owner xr) (clk k) d = Inr ())"

lemma fenced_core: "fenced xr clk d \<Longrightarrow> db_jobs d' = db_jobs d \<Longrightarrow> db_candidates d' = db_candidates d \<Longrightarrow>
    fenced xr clk d'"
  using completion_fence_jobs [of d' d] by (simp add: fenced_def candidates_of_run_def)

lemma complete_fenced:
  assumes "fenced xr clk d" "find_run d (xr_run xr) = Some r" "rn_status r = RUNNING"
  obtains d' where "complete_run_with_source_state_promotion (xr_run xr) (xr_job xr) (xr_lease_owner xr)
      (\<lambda>k. clk (m + k)) d = (Inr True, d')"
    "find_run d' (xr_run xr) = Some (r\<lparr>rn_status := COMPLETED, rn_error := None\<rparr>)"
    "db_checkpoints d' = db_checkpoints d"
proof -
  have p: "promote_sdk_source_state_candidates (xr_run xr) (Some ks) d = Inr (0, d)" for ks
    using assms(1)
    by (simp add: promote_sdk_source_state_candidates_def fenced_def candidates_of_run_def filter_empty_conv filter_id_conv)
  let ?d = "upd_run (xr_run xr) (\<lambda>x. x\<lparr>rn_status := COMPLETED, rn_error := None\<rparr>) d"
  have "complete_run_with_source_state_promotion (xr_run xr) (xr_job xr) (xr_lease_owner xr)
      (\<lambda>k. clk (m + k)) d = (Inr True, ?d)"
    using assms p by (auto simp: complete_run_with_source_state_promotion_def fenced_def Let_def)
  then show ?thesis
    by (rule that) (simp_all add: assms(2) find_run_upd_run, simp add: upd_run_def)
qed

lemma finish_undisturbed:
  assumes w: "calm c clk cps ev w" and run: "running c (xr_run xr)" and f: "fenced xr clk (w_db w)"
  obtains w' r where "finish_run xr w = (Inr (), w')" "find_run (w_db w') (xr_run xr) = Some r"
    "rn_status r = COMPLETED" "cps_of (w_db w') = cps" "w_events w' = ev @ [RunCompleted]"
proof -
  let ?d = "w_pend w (w_db w)"
  have c: "core_of ?d = c" "db_checkpoints ?d = db_checkpoints (w_db w)" "others_commit w = w"
    using w by (auto simp: calm_def quiet_write_def others_commit_def)
  obtain r where r: "find_run ?d (xr_run xr) = Some r" "rn_status r = RUNNING"
    using running_find [OF run c(1)] by blast
  have f': "fenced xr clk ?d"
    by (rule fenced_core [OF f]) (use w c(1) in \<open>auto simp: core_of_def calm_def\<close>)
  obtain d' where d': "complete_run_with_source_state_promotion (xr_run xr) (xr_job xr) (xr_lease_owner xr)
      (\<lambda>k. clk (w_ticks w + k)) ?d = (Inr True, d')"
    "find_run d' (xr_run xr) = Some (r\<lparr>rn_status := COMPLETED, rn_error := None\<rparr>)"
    "db_checkpoints d' = db_checkpoints ?d"
    by (rule complete_fenced [OF f' r])
  let ?w = "w\<lparr>w_db := d', w_pend := (\<lambda>d. d), w_ticks := w_ticks w + 3,
        w_events := w_events w @ [RunCompleted]\<rparr>"
  have "finish_run xr w = (Inr (), ?w)"
    using w r d'(1) by (simp add: finish_run_def bind_act_def query_def Let_def c(3) call_complete_run_def
        transact_def emit_event_def calm_def)
  then show ?thesis
    by (rule that [of ?w "r\<lparr>rn_status := COMPLETED, rn_error := None\<rparr>"])
       (use w d' c(2) in \<open>simp_all add: calm_def\<close>)
qed

text \<open>What the start of an undisturbed run looks like.\<close>

lemma begin_undisturbed:
  assumes "w_others w = []" "w_pend w = (\<lambda>d. d)" "find_run (w_db w) (xr_run xr) = Some r"
    "rn_status r \<in> {PENDING, RUNNING}"
  obtains w' where "begin_run xr w = (Inr (Some (r\<lparr>rn_status := RUNNING\<rparr>)), w')"
    "running (core_of (w_db w')) (xr_run xr)" "calm (core_of (w_db w')) (w_clock w) (cps_of (w_db w)) (w_events w) w'"
    "db_jobs (w_db w') = db_jobs (w_db w)" "db_candidates (w_db w') = db_candidates (w_db w)"
    "db_graphs (w_db w') = db_graphs (w_db w)" "db_connections (w_db w') = db_connections (w_db w)"
proof -
  let ?d = "if rn_status r = PENDING then upd_run (xr_run xr) (\<lambda>x. x\<lparr>rn_status := RUNNING\<rparr>) (w_db w) else w_db w"
  have r: "r\<lparr>rn_status := RUNNING\<rparr> = r" if "rn_status r = RUNNING" using that by (cases r) simp
  have "get_row rn_id (xr_run xr) (db_runs ?d) = Some (r\<lparr>rn_status := RUNNING\<rparr>)"
    using assms(3,4) find_run_upd_run [of "\<lambda>x. x\<lparr>rn_status := RUNNING\<rparr>" "xr_run xr" "w_db w" "xr_run xr"]
    by (auto simp: find_run_def r)
  then have run: "running (core_of ?d) (xr_run xr)" by (simp add: running_def core_of_def)
  have w: "others_commit w = w" using assms(1) by (simp add: others_commit_def)
  show ?thesis
  proof (rule that)
    show "begin_run xr w = (Inr (Some (r\<lparr>rn_status := RUNNING\<rparr>)), w\<lparr>w_db := ?d, w_pend := (\<lambda>d. d)\<rparr>)"
      using assms r by (auto simp: begin_run_def transact_def Let_def w)
  qed (use run assms(1) in \<open>simp_all add: calm_def upd_run_def\<close>)
qed

lemma table_lookups:
  "db_graphs d = db_graphs d' \<Longrightarrow> graph_owner d g = graph_owner d' g"
  "db_connections d = db_connections d' \<Longrightarrow> resolve_connections rt d u configs = resolve_connections rt d' u configs"
proof -
  assume "db_connections d = db_connections d'"
  then have "owned_connections d = owned_connections d'" by (simp add: owned_connections_def fun_eq_iff)
  then show "resolve_connections rt d u configs = resolve_connections rt d' u configs"
    by (simp only: resolve_connections_def)
qed (simp add: graph_owner_def)

lemma core_lookups:
  assumes "core_of d = core_of d'"
  shows "graph_owner d g = graph_owner d' g" "resolve_connections rt d u configs = resolve_connections rt d' u configs"
    "db_jobs d = db_jobs d'" "db_candidates d = db_candidates d'"
  using assms by (auto simp: core_of_def intro!: table_lookups)

text \<open>Execution from the start event to the last node.\<close>

lemma does_body:
  assumes "running c (xr_run xr)" "good_graph rt nodes edges configs" "fair_order rt"
    and "set (concat levels) = set (dict_keys nodes)"
    and "\<And>d. core_of d = c \<Longrightarrow> graph_owner d (rn_graph_id r) = Some u \<and> resolve_connections rt d u configs = Some conns"
  shows "does c clk
    (bind_act (emit_event RunStarted) (\<lambda>_.
     bind_act (query (\<lambda>db. case graph_owner db (rn_graph_id r) of None \<Rightarrow> None
       | Some owner \<Rightarrow> map_option (\<lambda>cs. (owner, cs)) (resolve_connections rt db owner configs))) (\<lambda>res.
     case res of None \<Rightarrow> ret None
     | Some (owner, conns) \<Rightarrow> run_levels rt xr nodes edges configs 0 levels (initial_state r owner conns))))
    (\<lambda>x. x \<noteq> None)
    (flow_cps rt xr nodes edges configs (concat (map (order_of rt) levels)) (initial_state r u conns))
    (RunStarted # node_events (concat (map (order_of rt) levels)))"
proof (rule does_emit)
  have good: "\<forall>n \<in> set (concat levels). good_node rt nodes configs n" "\<forall>e \<in> set edges. good_edge e"
    using assms(2,4) by (simp_all add: good_graph_def)
  have q: "does c clk (query (\<lambda>db. case graph_owner db (rn_graph_id r) of None \<Rightarrow> None
       | Some owner \<Rightarrow> map_option (\<lambda>cs. (owner, cs)) (resolve_connections rt db owner configs)))
       (\<lambda>x. x = Some (u, conns)) [] []"
    by (rule does_query) (use assms(5) in auto)
  show "does c clk (bind_act (query (\<lambda>db. case graph_owner db (rn_graph_id r) of None \<Rightarrow> None
       | Some owner \<Rightarrow> map_option (\<lambda>cs. (owner, cs)) (resolve_connections rt db owner configs))) (\<lambda>res.
     case res of None \<Rightarrow> ret None
     | Some (owner, conns) \<Rightarrow> run_levels rt xr nodes edges configs 0 levels (initial_state r owner conns)))
    (\<lambda>x. x \<noteq> None)
    (flow_cps rt xr nodes edges configs (concat (map (order_of rt) levels)) (initial_state r u conns))
    (node_events (concat (map (order_of rt) levels)))"
    using does_weaken [OF does_run_levels [OF assms(1) good assms(3), of clk 0 "initial_state r u conns"],
        of "\<lambda>x. x \<noteq> None"]
    by (intro does_then [OF q]) simp
qed

lemma execute_undisturbed:
  assumes w: "w_others w = []" "w_pend w = (\<lambda>d. d)" "find_run (w_db w) (xr_run xr) = Some r"
      "rn_status r \<in> {PENDING, RUNNING}" "fenced xr (w_clock w) (w_db w)"
    and g: "good_graph rt nodes edges configs" "fair_order rt"
      "graph_owner (w_db w) (rn_graph_id r) = Some u" "resolve_connections rt (w_db w) u configs = Some conns"
      "validate_dag (dict_keys nodes) edges = Some (Inr [])"
    and t: "topological_sort (dict_keys nodes) edges = Some (Inr levels)" "set (concat levels) = set (dict_keys nodes)"
  obtains w' r' where "execute rt xr nodes edges configs w = (Inr (), w')"
    "find_run (w_db w') (xr_run xr) = Some r'" "rn_status r' = COMPLETED"
    "cps_of (w_db w') = cps_of (w_db w) @
       flow_cps rt xr nodes edges configs (concat (map (order_of rt) levels)) (initial_state r u conns)"
    "w_events w' = w_events w @ RunStarted # node_events (concat (map (order_of rt) levels)) @ [RunCompleted]"
proof -
  let ?r = "r\<lparr>rn_status := RUNNING\<rparr>"
  obtain w1 where w1: "begin_run xr w = (Inr (Some ?r), w1)"
    "running (core_of (w_db w1)) (xr_run xr)" "calm (core_of (w_db w1)) (w_clock w) (cps_of (w_db w)) (w_events w) w1"
    "db_jobs (w_db w1) = db_jobs (w_db w)" "db_candidates (w_db w1) = db_candidates (w_db w)"
    "db_graphs (w_db w1) = db_graphs (w_db w)" "db_connections (w_db w1) = db_connections (w_db w)"
    by (rule begin_undisturbed [OF w(1-4)])
  have here: "graph_owner (w_db w1) (rn_graph_id ?r) = Some u" "resolve_connections rt (w_db w1) u configs = Some conns"
    using g(3,4) table_lookups(1) [OF w1(6)] table_lookups(2) [OF w1(7)] by simp_all
  have look: "graph_owner d (rn_graph_id ?r) = Some u \<and> resolve_connections rt d u configs = Some conns"
    if "core_of d = core_of (w_db w1)" for d
    using core_lookups [OF that] here by simp
  have init: "initial_state ?r u conns = initial_state r u conns" by (simp add: initial_state_def)
  let ?body = "bind_act (emit_event RunStarted) (\<lambda>_.
     bind_act (query (\<lambda>db. case graph_owner db (rn_graph_id ?r) of None \<Rightarrow> None
       | Some owner \<Rightarrow> map_option (\<lambda>cs. (owner, cs)) (resolve_connections rt db owner configs))) (\<lambda>res.
     case res of None \<Rightarrow> ret None
     | Some (owner, conns) \<Rightarrow> run_levels rt xr nodes edges configs 0 levels (initial_state ?r owner conns)))"
  obtain xs w2 where w2: "?body w1 = (Inr (Some xs), w2)"
    "calm (core_of (w_db w1)) (w_clock w)
       (cps_of (w_db w) @ flow_cps rt xr nodes edges configs (concat (map (order_of rt) levels)) (initial_state r u conns))
       (w_events w @ RunStarted # node_events (concat (map (order_of rt) levels))) w2"
    using does_body [OF w1(2) g(1,2) t(2) look] w1(3) unfolding does_def init by fastforce
  have "fenced xr (w_clock w) (w_db w2)"
  proof (rule fenced_core [OF w(5)])
    have "core_of (w_db w2) = core_of (w_db w1)" using w2(2) by (simp add: calm_def)
    from core_lookups(3,4) [OF this] w1(4,5)
    show "db_jobs (w_db w2) = db_jobs (w_db w)" "db_candidates (w_db w2) = db_candidates (w_db w)" by simp_all
  qed
  from finish_undisturbed [OF w2(2) w1(2) this] obtain w' r' where fin:
    "finish_run xr w2 = (Inr (), w')" "find_run (w_db w') (xr_run xr) = Some r'" "rn_status r' = COMPLETED"
    "cps_of (w_db w') = cps_of (w_db w) @
       flow_cps rt xr nodes edges configs (concat (map (order_of rt) levels)) (initial_state r u conns)"
    "w_events w' = (w_events w @ RunStarted # node_events (concat (map (order_of rt) levels))) @ [RunCompleted]"
    by blast
  have "execute rt xr nodes edges configs w = finish_run xr w2"
    using w1(1) w2(1) g(5) t(1) here look
    by (auto simp: execute_def bind_act_def ret_def emit_event_def query_def Let_def split: prod.splits sum.splits option.splits)
  with fin show ?thesis by (intro that) simp_all
qed

text \<open>
  C1. The executor refines a dataflow evaluator. Suppose that nobody interferes, that the run has a
  valid graph whose nodes all succeed, that its lease holds and that nothing is staged for it. Then
  execution returns and completes the run; it checkpoints every node exactly once with the one and
  only solution of the dataflow equation (the output of a node is its implementation applied to the
  outputs of its predecessors), whatever the order in which parallel tasks finish; and it reports
  the start and the end of every node and of the run.
\<close>

theorem execute_computes_dataflow:
  assumes "w_others w = []" "w_pend w = (\<lambda>d. d)"
    and "find_run (w_db w) (xr_run xr) = Some r" "rn_status r \<in> {PENDING, RUNNING}"
    and "fenced xr (w_clock w) (w_db w)"
    and "graph_owner (w_db w) (rn_graph_id r) = Some u" "resolve_connections rt (w_db w) u configs = Some conns"
    and "dict_wf nodes" "validate_dag (dict_keys nodes) edges = Some (Inr [])"
    and "good_graph rt nodes edges configs" "fair_order rt"
  shows "\<exists>w' r' outs. execute rt xr nodes edges configs w = (Inr (), w') \<and>
    find_run (w_db w') (xr_run xr) = Some r' \<and> rn_status r' = COMPLETED \<and>
    mset (dict_keys outs) = mset (dict_keys nodes) \<and>
    dataflow rt xr nodes edges configs (initial_state r u conns) outs \<and>
    (\<forall>other. mset (dict_keys other) = mset (dict_keys nodes) \<longrightarrow>
       dataflow rt xr nodes edges configs (initial_state r u conns) other \<longrightarrow> dict_get other = dict_get outs) \<and>
    cps_of (w_db w') = cps_of (w_db w) @ map (node_cp xr) outs \<and>
    w_events w' = w_events w @ RunStarted # node_events (dict_keys outs) @ [RunCompleted]"
proof -
  obtain levels where l: "topological_sort (dict_keys nodes) edges = Some (Inr levels)"
    "mset (concat (map (order_of rt) levels)) = mset (dict_keys nodes)"
    "before_all edges (concat (map (order_of rt) levels))"
    by (rule schedule_before_all [OF assms(9,8,11)])
  let ?order = "concat (map (order_of rt) levels)"
  let ?xs = "initial_state r u conns"
  let ?outs = "flow_outputs rt xr nodes edges configs ?order ?xs"
  have d: "distinct ?order" using l(2) assms(8) by (metis dict_wf_def mset_eq_imp_distinct_iff)
  have "set (concat levels) = set ?order"
    using order_of_mset [OF assms(11)] by (auto dest!: mset_eq_setD)
  then have s: "set (concat levels) = set (dict_keys nodes)" using l(2) by (metis mset_eq_setD)
  obtain w' r' where w': "execute rt xr nodes edges configs w = (Inr (), w')"
    "find_run (w_db w') (xr_run xr) = Some r'" "rn_status r' = COMPLETED"
    "cps_of (w_db w') = cps_of (w_db w) @ flow_cps rt xr nodes edges configs ?order ?xs"
    "w_events w' = w_events w @ RunStarted # node_events ?order @ [RunCompleted]"
    by (rule execute_undisturbed [OF assms(1-5) assms(10,11) assms(6,7,9) l(1) s])
  have df: "dataflow rt xr nodes edges configs ?xs ?outs"
    by (rule flow_dataflow [OF d l(3)]) (simp add: initial_state_def)
  have k: "mset (dict_keys ?outs) = mset ?order" by (simp only: flow_outputs_keys)
  have u: "dict_get other = dict_get ?outs"
    if "mset (dict_keys other) = mset (dict_keys nodes)" "dataflow rt xr nodes edges configs ?xs other" for other
    using dataflow_unique [OF that(2) df d l(3) _ k] that(1) l(2) by simp
  show ?thesis
    using w' df k l(2) u by (intro exI [of _ w'] exI [of _ r'] exI [of _ ?outs]) (simp add: flow_outputs_keys)
qed

text \<open>A diamond of nodes that wrap what they receive, its two middle tasks finishing in reverse.\<close>

definition wrap_runtime :: runtime where
  "wrap_runtime = echo_runtime\<lparr>rt_order := rev,
     rt_impls := (\<lambda>ty. if ty = ''wrap'' then Some (\<lambda>ctx k db. (Inr \<lparr>rs_success = True,
        rs_output = [(''out'', JObj ((''node'', JStr (cx_node ctx)) # jsonb_of (\<lambda>_. ''?'') (cx_input ctx)))],
        rs_items = 1, rs_error = None\<rparr>, \<lambda>d. d)) else None)\<rparr>"

definition wrap_nodes :: obj where
  "wrap_nodes = map (\<lambda>n. (n, JObj [(''type'', JStr ''wrap'')])) [''a'', ''b'', ''c'', ''d'']"

definition wrap_edges :: "obj list" where
  "wrap_edges = map (\<lambda>(s, t, p). [(''source'', JStr s), (''target'', JStr t), (''source_port'', JStr ''out''),
     (''target_port'', JStr p)])
     [(''a'', ''b'', ''x''), (''a'', ''c'', ''x''), (''b'', ''d'', ''l''), (''c'', ''d'', ''r'')]"

definition wrap_run :: run where
  "wrap_run = \<lparr>rn_id = 50, rn_graph_id = 1, rn_version_id = Some 2, rn_trigger_type = ''manual'',
       rn_triggered_by = Some 7, rn_status = PENDING, rn_error = None, rn_payload = None, rn_created_at = 0\<rparr>"

definition wrap_world :: world where
  "wrap_world = echo_world\<lparr>w_others := [], w_db := one_graph_db\<lparr>db_runs := [wrap_run]\<rparr>\<rparr>"

definition wrap_exec :: exec_run where
  "wrap_exec = \<lparr>xr_run = 50, xr_job = None, xr_lease_owner = None\<rparr>"

theorem execute_computes_dataflow_witness:
  "\<exists>w' r' outs. execute wrap_runtime wrap_exec wrap_nodes wrap_edges [] wrap_world = (Inr (), w') \<and>
     find_run (w_db w') 50 = Some r' \<and> rn_status r' = COMPLETED \<and>
     mset (dict_keys (outs :: (string, obj) dict)) = {#''a'', ''b'', ''c'', ''d''#}"
proof -
  have w: "w_others wrap_world = []" "w_pend wrap_world = (\<lambda>d. d)"
    "find_run (w_db wrap_world) (xr_run wrap_exec) = Some wrap_run" "rn_status wrap_run \<in> {PENDING, RUNNING}"
    by (simp_all add: wrap_world_def echo_world_def wrap_exec_def wrap_run_def find_run_def get_row_def)
  have f: "fenced wrap_exec (w_clock wrap_world) (w_db wrap_world)"
    by (simp add: fenced_def wrap_exec_def completion_fence_def candidates_of_run_def wrap_world_def
        echo_world_def one_graph_db_def empty_db_def)
  have o': "graph_owner (w_db wrap_world) (rn_graph_id wrap_run) = Some 7"
    "resolve_connections wrap_runtime (w_db wrap_world) 7 [] = Some []" by code_simp+
  have v: "dict_wf wrap_nodes" "validate_dag (dict_keys wrap_nodes) wrap_edges = Some (Inr [])"
    by (simp add: dict_wf_def wrap_nodes_def) code_simp
  have g: "good_graph wrap_runtime wrap_nodes wrap_edges []"
    by (auto simp: good_graph_def good_node_def good_edge_def wrap_nodes_def wrap_edges_def wrap_runtime_def
        node_def_of_def node_type_of_def node_config_of_def dict_get_or_def exec_source_def hashable_def obj_get_def)
  have fair: "fair_order wrap_runtime" by (simp add: fair_order_def wrap_runtime_def)
  have x: "xr_run wrap_exec = 50" "mset (dict_keys wrap_nodes) = {#''a'', ''b'', ''c'', ''d''#}"
    by (simp_all add: wrap_exec_def wrap_nodes_def)
  from execute_computes_dataflow [OF w f o' v g fair] show ?thesis
    unfolding x by (elim exE conjE) (intro exI conjI)
qed

end
