(* ===== verification/SdkModels.thy ===== *)
theory SdkModels
  imports Database "HOL-Library.List_Lexorder" "HOL-Library.Char_ord"
begin

text \<open>
  The data plane of the SDK (\<open>sdk/src/ingestion_graph/models.py\<close>, \<open>messages.py\<close>): payloads,
  envelopes, their canonical JSON form and its parser, and the version of a record that makes replays
  recognisable. Values inside payloads and metadata are JSON. A datetime is an instant; its ISO 8601
  text, like Python's text of floats and SHA-256, is a library function and a field of the record
  \<open>pytext\<close>.
\<close>

datatype sdk_error =
    ValueError string
  | ConfigurationError string
  | ProtocolError string
  | AuthenticationError string
  | PermissionDeniedError string
  | RateLimitError string
  | Interrupted
  | Foreign string

record pytext =
  tx_repr :: "json \<Rightarrow> string"
  tx_iso :: "time \<Rightarrow> string"
  tx_parse_iso :: "string \<Rightarrow> time option"
  tx_int :: "json \<Rightarrow> int option"
  tx_sha :: "string \<Rightarrow> string"
  tx_dumps :: "json \<Rightarrow> string"

subsection \<open>Payloads and envelopes\<close>

datatype operation = SNAPSHOT | UPSERT | DELETE

fun operation_value :: "operation \<Rightarrow> string" where
  "operation_value SNAPSHOT = ''snapshot''"
| "operation_value UPSERT = ''upsert''"
| "operation_value DELETE = ''delete''"

definition parse_operation :: "string \<Rightarrow> operation option" where
  "parse_operation s = find (\<lambda>x. operation_value x = s) [SNAPSHOT, UPSERT, DELETE]"

lemma parse_operation_value [simp]: "parse_operation (operation_value x) = Some x"
  by (cases x) (simp_all add: parse_operation_def)

datatype payload =
    RecordPayload obj
  | DocumentElement string string "int option" "string option" "obj option"
  | TableBatch "string list" "obj list"
  | BlobRef string string int string
  | Tombstone "string option"

fun is_tombstone :: "payload \<Rightarrow> bool" where
  "is_tombstone (Tombstone _) = True"
| "is_tombstone _ = False"

record envelope =
  en_id :: string
  en_source :: string
  en_stream :: string
  en_payload :: payload
  en_operation :: operation
  en_schema_version :: string
  en_observed_at :: time
  en_event_time :: "time option"
  en_cursor :: "string option"
  en_checksum :: "string option"
  en_metadata :: obj
  en_provenance :: obj

text \<open>\<open>__post_init__\<close>: the envelope, or the error its construction raises.\<close>

definition make_envelope :: "envelope \<Rightarrow> sdk_error + envelope" where
  "make_envelope e =
     (if en_id e = [] then Inl (ValueError ''Envelope.id must not be empty'')
      else if en_source e = [] then Inl (ValueError ''Envelope.source must not be empty'')
      else if en_stream e = [] then Inl (ValueError ''Envelope.stream must not be empty'')
      else if en_schema_version e = [] then Inl (ValueError ''Envelope.schema_version must not be empty'')
      else if en_operation e = DELETE \<and> \<not> is_tombstone (en_payload e)
      then Inl (ValueError ''DELETE envelopes must carry a Tombstone payload'')
      else Inr e)"

definition stable_record_id :: "pytext \<Rightarrow> string \<Rightarrow> string \<Rightarrow> string \<Rightarrow> string" where
  "stable_record_id tx source stream native =
     tx_sha tx (source @ [CHR 0x1F] @ stream @ [CHR 0x1F] @ native)"

subsection \<open>The canonical form\<close>

definition opt_text :: "string option \<Rightarrow> json" where
  "opt_text s = (case s of None \<Rightarrow> JNull | Some t \<Rightarrow> JStr t)"

definition opt_int :: "int option \<Rightarrow> json" where
  "opt_int s = (case s of None \<Rightarrow> JNull | Some i \<Rightarrow> JInt i)"

definition opt_obj :: "obj option \<Rightarrow> json" where
  "opt_obj s = (case s of None \<Rightarrow> JNull | Some d \<Rightarrow> JObj d)"

fun payload_json :: "payload \<Rightarrow> obj" where
  "payload_json (RecordPayload data) = [(''data'', JObj data), (''kind'', JStr ''record'')]"
| "payload_json (DocumentElement text ty page parent coords) =
     [(''text'', JStr text), (''element_type'', JStr ty), (''page_number'', opt_int page),
      (''parent_id'', opt_text parent), (''coordinates'', opt_obj coords), (''kind'', JStr ''document_element'')]"
| "payload_json (TableBatch columns rows) =
     [(''columns'', JList (map JStr columns)), (''rows'', JList (map JObj rows)), (''kind'', JStr ''table_batch'')]"
| "payload_json (BlobRef uri sha bytes media) =
     [(''uri'', JStr uri), (''sha256'', JStr sha), (''size_bytes'', JInt bytes), (''media_type'', JStr media),
      (''kind'', JStr ''blob_ref'')]"
| "payload_json (Tombstone reason) = [(''reason'', opt_text reason), (''kind'', JStr ''tombstone'')]"

definition to_dict :: "pytext \<Rightarrow> envelope \<Rightarrow> obj" where
  "to_dict tx e =
     [(''id'', JStr (en_id e)), (''source'', JStr (en_source e)), (''stream'', JStr (en_stream e)),
      (''payload'', JObj (payload_json (en_payload e))),
      (''operation'', JStr (operation_value (en_operation e))),
      (''schema_version'', JStr (en_schema_version e)),
      (''observed_at'', JStr (tx_iso tx (en_observed_at e))),
      (''event_time'', opt_text (map_option (tx_iso tx) (en_event_time e))),
      (''cursor'', opt_text (en_cursor e)), (''checksum'', opt_text (en_checksum e)),
      (''metadata'', JObj (en_metadata e)), (''provenance'', JObj (en_provenance e))]"

subsection \<open>Its parser\<close>

definition as_mapping :: "json \<Rightarrow> sdk_error + obj" where
  "as_mapping v = (case v of JNull \<Rightarrow> Inr [] | JObj d \<Rightarrow> Inr d
     | _ \<Rightarrow> Inl (ValueError ''Expected an object''))"

definition required_string :: "obj \<Rightarrow> string \<Rightarrow> sdk_error + string" where
  "required_string d key =
     (case obj_get d key of
        JStr s \<Rightarrow> if s = [] then Inl (ValueError (''Envelope.'' @ key @ '' must be a non-empty string'')) else Inr s
      | _ \<Rightarrow> Inl (ValueError (''Envelope.'' @ key @ '' must be a non-empty string'')))"

definition optional_string :: "json \<Rightarrow> sdk_error + string option" where
  "optional_string v = (case v of JNull \<Rightarrow> Inr None | JStr s \<Rightarrow> Inr (Some s)
     | _ \<Rightarrow> Inl (ValueError ''Expected a string or null''))"

definition optional_int :: "json \<Rightarrow> sdk_error + int option" where
  "optional_int v = (case v of JNull \<Rightarrow> Inr None | JInt i \<Rightarrow> Inr (Some i)
     | _ \<Rightarrow> Inl (ValueError ''Expected an integer or null''))"

definition parse_datetime :: "pytext \<Rightarrow> json \<Rightarrow> sdk_error + time option" where
  "parse_datetime tx v =
     (case v of
        JNull \<Rightarrow> Inr None
      | JStr s \<Rightarrow> (case tx_parse_iso tx s of
            None \<Rightarrow> Inl (ValueError ''Datetime values must include a timezone'')
          | Some t \<Rightarrow> Inr (Some t))
      | _ \<Rightarrow> Inl (ValueError ''Expected an ISO 8601 datetime string or null''))"

text \<open>\<open>int(value)\<close>: booleans are numbers; other texts and floats are read by the library.\<close>

definition py_int :: "pytext \<Rightarrow> json \<Rightarrow> sdk_error + int" where
  "py_int tx v =
     (case v of JInt i \<Rightarrow> Inr i | JBool b \<Rightarrow> Inr (if b then 1 else 0)
      | _ \<Rightarrow> (case tx_int tx v of None \<Rightarrow> Inl (ValueError ''invalid literal for int()'') | Some i \<Rightarrow> Inr i))"

definition string_items :: "json \<Rightarrow> string list option" where
  "string_items v = (case v of
     JList xs \<Rightarrow> if list_all is_str xs then Some (map (\<lambda>x. case x of JStr s \<Rightarrow> s | _ \<Rightarrow> []) xs) else None
   | _ \<Rightarrow> None)"

definition str_of :: "pytext \<Rightarrow> obj \<Rightarrow> string \<Rightarrow> string \<Rightarrow> string" where
  "str_of tx d key preset = py_str (tx_repr tx) (dict_get_or d key (JStr preset))"

definition payload_from_dict :: "pytext \<Rightarrow> obj \<Rightarrow> sdk_error + payload" where
  "payload_from_dict tx v =
     (let kind = obj_get v ''kind'' in
      if kind = JStr ''record'' then bind_res (as_mapping (obj_get v ''data'')) (\<lambda>d. Inr (RecordPayload d))
      else if kind = JStr ''document_element'' then
        (case obj_get v ''text'' of
           JStr text \<Rightarrow>
             bind_res (optional_int (obj_get v ''page_number'')) (\<lambda>page.
             bind_res (optional_string (obj_get v ''parent_id'')) (\<lambda>parent.
             bind_res (if obj_get v ''coordinates'' = JNull then Inr None
                       else bind_res (as_mapping (obj_get v ''coordinates'')) (\<lambda>d. Inr (Some d))) (\<lambda>coords.
             Inr (DocumentElement text (str_of tx v ''element_type'' ''text'') page parent coords))))
         | _ \<Rightarrow> Inl (ValueError ''DocumentElement.text must be a string''))
      else if kind = JStr ''table_batch'' then
        (case string_items (obj_get v ''columns'') of
           None \<Rightarrow> Inl (ValueError ''TableBatch.columns must be an array of strings'')
         | Some columns \<Rightarrow> (case obj_get v ''rows'' of
              JList rows \<Rightarrow> bind_res (map_res as_mapping rows) (\<lambda>ds. Inr (TableBatch columns ds))
            | _ \<Rightarrow> Inl (ValueError ''TableBatch.rows must be an array'')))
      else if kind = JStr ''blob_ref'' then
        bind_res (required_string v ''uri'') (\<lambda>uri.
        bind_res (required_string v ''sha256'') (\<lambda>sha.
        bind_res (py_int tx (dict_get_or v ''size_bytes'' (JInt (-1)))) (\<lambda>bytes.
        Inr (BlobRef uri sha bytes (str_of tx v ''media_type'' ''application/octet-stream'')))))
      else if kind = JStr ''tombstone'' then
        bind_res (optional_string (obj_get v ''reason'')) (\<lambda>reason. Inr (Tombstone reason))
      else Inl (ValueError ''Unknown payload kind''))"

definition from_dict :: "pytext \<Rightarrow> time \<Rightarrow> obj \<Rightarrow> sdk_error + envelope" where
  "from_dict tx now v =
     (case obj_get v ''payload'' of
        JObj p \<Rightarrow>
          bind_res (payload_from_dict tx p) (\<lambda>payload.
          bind_res (required_string v ''id'') (\<lambda>i.
          bind_res (required_string v ''source'') (\<lambda>source.
          bind_res (required_string v ''stream'') (\<lambda>stream.
          bind_res (case parse_operation (str_of tx v ''operation'' ''upsert'') of
                      None \<Rightarrow> Inl (ValueError ''not a valid Operation'') | Some x \<Rightarrow> Inr x) (\<lambda>oper.
          bind_res (parse_datetime tx (obj_get v ''observed_at'')) (\<lambda>observed.
          bind_res (parse_datetime tx (obj_get v ''event_time'')) (\<lambda>event.
          bind_res (optional_string (obj_get v ''cursor'')) (\<lambda>cursor.
          bind_res (optional_string (obj_get v ''checksum'')) (\<lambda>checksum.
          bind_res (as_mapping (obj_get v ''metadata'')) (\<lambda>metadata.
          bind_res (as_mapping (obj_get v ''provenance'')) (\<lambda>provenance.
          make_envelope \<lparr>en_id = i, en_source = source, en_stream = stream, en_payload = payload,
            en_operation = oper, en_schema_version = str_of tx v ''schema_version'' ''1'',
            en_observed_at = opt_or observed now, en_event_time = event, en_cursor = cursor,
            en_checksum = checksum, en_metadata = metadata, en_provenance = provenance\<rparr>)))))))))))
      | _ \<Rightarrow> Inl (ValueError ''Envelope.payload must be an object''))"

subsection \<open>Record versions\<close>

text \<open>\<open>json.dumps(value, sort_keys=True)\<close> writes every object in key order.\<close>

fun sorted_json :: "json \<Rightarrow> json" where
  "sorted_json (JObj d) = JObj (sort_key fst (map (\<lambda>(k, v). (k, sorted_json v)) d))"
| "sorted_json (JList xs) = JList (map sorted_json xs)"
| "sorted_json v = v"

definition dumps_sorted :: "pytext \<Rightarrow> obj \<Rightarrow> string" where
  "dumps_sorted tx d = tx_dumps tx (sorted_json (JObj d))"

text \<open>What a destination compares: the envelope without the time and the place of its observation.\<close>

definition semantic_part :: "obj \<Rightarrow> obj" where
  "semantic_part d = dict_pop ''provenance'' (dict_pop ''observed_at'' d)"

definition version_hash :: "pytext \<Rightarrow> obj \<Rightarrow> string" where
  "version_hash tx d = tx_sha tx (dumps_sorted tx (semantic_part d))"

text \<open>Two observations of one record version.\<close>

definition same_version :: "envelope \<Rightarrow> envelope \<Rightarrow> bool" where
  "same_version a b \<longleftrightarrow>
     a\<lparr>en_observed_at := 0, en_provenance := []\<rparr> = b\<lparr>en_observed_at := 0, en_provenance := []\<rparr>"

lemma same_version_semantic:
  assumes "same_version a b"
  shows "semantic_part (to_dict tx a) = semantic_part (to_dict tx b)"
  using assms
  by (cases a; cases b) (simp add: same_version_def semantic_part_def to_dict_def dict_pop_def)

lemma same_version_hash:
  "same_version a b \<Longrightarrow> version_hash tx (to_dict tx a) = version_hash tx (to_dict tx b) \<and> en_id a = en_id b \<and>
     en_stream a = en_stream b \<and> en_source a = en_source b \<and> en_operation a = en_operation b"
  using same_version_semantic [of a b tx]
  by (cases a; cases b) (simp add: version_hash_def same_version_def)

lemma same_version_refl [simp]: "same_version a a"
  by (simp add: same_version_def)

subsection \<open>Round trip\<close>

lemmas dict_lookup = obj_get_def dict_get_or_def

lemma optional_inverse [simp]:
  "optional_string (opt_text s) = Inr s" "optional_int (opt_int i) = Inr i"
  by (simp_all add: optional_string_def opt_text_def optional_int_def opt_int_def split: option.split)

lemma string_items_map [simp]: "string_items (JList (map JStr ss)) = Some ss"
  by (simp add: string_items_def list_all_iff comp_def)

lemma as_mapping_rows [simp]: "map_res as_mapping (map JObj ds) = Inr ds"
  by (induction ds) (simp_all add: as_mapping_def)

text \<open>A payload that the parser accepts: a blob reference needs a location and a digest.\<close>

fun payload_ok :: "payload \<Rightarrow> bool" where
  "payload_ok (BlobRef uri sha _ _) = (uri \<noteq> [] \<and> sha \<noteq> [])"
| "payload_ok _ = True"

lemma payload_round_trip: "payload_ok p \<Longrightarrow> payload_from_dict tx (payload_json p) = Inr p"
  by (cases p)
     (auto simp: payload_from_dict_def dict_lookup as_mapping_def str_of_def required_string_def py_int_def
        opt_obj_def Let_def split: option.split)

definition dates_ok :: "pytext \<Rightarrow> envelope \<Rightarrow> bool" where
  "dates_ok tx e \<longleftrightarrow> (\<forall>t \<in> set (en_observed_at e # (case en_event_time e of None \<Rightarrow> [] | Some t \<Rightarrow> [t])).
     tx_parse_iso tx (tx_iso tx t) = Some t)"

lemma envelope_round_trip:
  assumes "make_envelope e = Inr e" "payload_ok (en_payload e)" "dates_ok tx e"
  shows "from_dict tx now (to_dict tx e) = Inr e"
proof -
  have req: "required_string (to_dict tx e) ''id'' = Inr (en_id e)"
    "required_string (to_dict tx e) ''source'' = Inr (en_source e)"
    "required_string (to_dict tx e) ''stream'' = Inr (en_stream e)"
    using assms(1) by (auto simp: required_string_def to_dict_def dict_lookup make_envelope_def split: if_splits)
  have dates: "parse_datetime tx (JStr (tx_iso tx (en_observed_at e))) = Inr (Some (en_observed_at e))"
    "parse_datetime tx (opt_text (map_option (tx_iso tx) (en_event_time e))) = Inr (en_event_time e)"
    using assms(3) by (auto simp: dates_ok_def parse_datetime_def opt_text_def split: option.splits)
  have gets: "obj_get (to_dict tx e) ''payload'' = JObj (payload_json (en_payload e))"
    "str_of tx (to_dict tx e) ''operation'' ''upsert'' = operation_value (en_operation e)"
    "str_of tx (to_dict tx e) ''schema_version'' ''1'' = en_schema_version e"
    "obj_get (to_dict tx e) ''observed_at'' = JStr (tx_iso tx (en_observed_at e))"
    "obj_get (to_dict tx e) ''event_time'' = opt_text (map_option (tx_iso tx) (en_event_time e))"
    "obj_get (to_dict tx e) ''cursor'' = opt_text (en_cursor e)"
    "obj_get (to_dict tx e) ''checksum'' = opt_text (en_checksum e)"
    "obj_get (to_dict tx e) ''metadata'' = JObj (en_metadata e)"
    "obj_get (to_dict tx e) ''provenance'' = JObj (en_provenance e)"
    by (simp_all add: to_dict_def dict_lookup str_of_def)
  have "from_dict tx now (to_dict tx e) = make_envelope \<lparr>en_id = en_id e, en_source = en_source e,
      en_stream = en_stream e, en_payload = en_payload e, en_operation = en_operation e,
      en_schema_version = en_schema_version e, en_observed_at = en_observed_at e,
      en_event_time = en_event_time e, en_cursor = en_cursor e, en_checksum = en_checksum e,
      en_metadata = en_metadata e, en_provenance = en_provenance e\<rparr>"
    by (simp add: from_dict_def gets req dates payload_round_trip [OF assms(2)] as_mapping_def)
  also have "\<dots> = make_envelope e" by (cases e) simp
  finally show ?thesis using assms(1) by simp
qed

lemma make_envelope_same: "make_envelope e = Inr e' \<Longrightarrow> e' = e"
  by (simp add: make_envelope_def split: if_splits)

lemma payload_from_dict_ok: "payload_from_dict tx v = Inr p \<Longrightarrow> payload_ok p"
  by (cases p)
     (auto simp: payload_from_dict_def Let_def bind_res_Inr required_string_def
        split: if_splits json.splits option.splits)

lemma from_dict_ok:
  assumes "from_dict tx now d = Inr e"
  shows "make_envelope e = Inr e" "payload_ok (en_payload e)"
proof -
  obtain p payload e0 where p: "payload_from_dict tx p = Inr payload" "make_envelope e0 = Inr e"
      "en_payload e0 = payload"
    using assms unfolding from_dict_def by (fastforce simp: bind_res_Inr split: json.splits)
  with make_envelope_same [OF p(2)] show "make_envelope e = Inr e" "payload_ok (en_payload e)"
    by (auto dest: payload_from_dict_ok)
qed


definition demo_text :: pytext where
  "demo_text = \<lparr>tx_repr = (\<lambda>_. ''?''), tx_iso = (\<lambda>t. if t = 5 then ''1970-01-01T00:00:00.000005+00:00'' else []),
     tx_parse_iso = (\<lambda>s. if s = ''1970-01-01T00:00:00.000005+00:00'' then Some 5 else None),
     tx_int = (\<lambda>_. None), tx_sha = (\<lambda>s. s), tx_dumps = (\<lambda>_. [])\<rparr>"

definition demo_envelope :: envelope where
  "demo_envelope = \<lparr>en_id = ''r1'', en_source = ''jsonl'', en_stream = ''orders'',
     en_payload = RecordPayload [(''n'', JInt 3)], en_operation = UPSERT, en_schema_version = ''1'',
     en_observed_at = 5, en_event_time = None, en_cursor = Some ''10'', en_checksum = None,
     en_metadata = [(''line_number'', JInt 1)], en_provenance = []\<rparr>"


end
