(* ===== verification/SdkStores.thy ===== *)
theory SdkStores
  imports SdkModels
begin

text \<open>
  Durable ends of an SDK pipeline: the state stores of \<open>state.py\<close>, the JSON Lines destination of
  \<open>destinations/jsonl.py\<close> and the searchable collection of \<open>destinations/sqlite.py\<close>. A file of JSON
  lines is the list of its objects, a SQLite database the lists of the rows of its tables; one write
  is one transaction. The tokenizer and the ranking of FTS5 are parameters of a query.
\<close>

subsection \<open>State stores\<close>

type_synonym state_key = "string \<times> string \<times> string"

text \<open>The contract of \<open>StateStore\<close>: the last saved state comes back (in the store's normal form), and
  saving touches nothing else.\<close>

locale state_store =
  fixes load :: "'s \<Rightarrow> state_key \<Rightarrow> obj"
    and save :: "'s \<Rightarrow> state_key \<Rightarrow> obj \<Rightarrow> 's"
    and norm :: "obj \<Rightarrow> obj"
  assumes load_saved: "load (save s k v) k = norm v"
    and load_other: "j \<noteq> k \<Longrightarrow> load (save s k v) j = load s j"
begin

lemma load_save: "load (save s k v) j = (if j = k then norm v else load s j)"
  by (simp add: load_saved load_other)

lemma last_save_wins: "load (fold (\<lambda>v s. save s k v) vs s) k = (if vs = [] then load s k else norm (last vs))"
  by (induction vs arbitrary: s) (auto simp: load_saved)

end

type_synonym memory_store = "(state_key, obj) dict"

definition memory_load :: "memory_store \<Rightarrow> state_key \<Rightarrow> obj" where
  "memory_load s k = dict_get_or s k []"

definition memory_save :: "memory_store \<Rightarrow> state_key \<Rightarrow> obj \<Rightarrow> memory_store" where
  "memory_save s k v = dict_set k v s"

interpretation mem: state_store memory_load memory_save "\<lambda>v. v"
  by unfold_locales (simp_all add: memory_load_def memory_save_def dict_get_or_def)

text \<open>\<open>SQLiteStateStore\<close>: one row per key, written by an UPSERT; the JSON column has sorted keys.\<close>

record connector_state =
  cs_pipeline :: string
  cs_source :: string
  cs_stream :: string
  cs_state_json :: json
  cs_updated_at :: time

definition cs_key :: "connector_state \<Rightarrow> state_key" where
  "cs_key r = (cs_pipeline r, cs_source r, cs_stream r)"

definition the_obj :: "json \<Rightarrow> obj" where
  "the_obj v = (case v of JObj d \<Rightarrow> d | _ \<Rightarrow> [])"

definition sqlite_load :: "connector_state list \<Rightarrow> state_key \<Rightarrow> obj" where
  "sqlite_load rows k = (case find (\<lambda>r. cs_key r = k) rows of None \<Rightarrow> [] | Some r \<Rightarrow> the_obj (cs_state_json r))"

definition sqlite_save :: "time \<Rightarrow> connector_state list \<Rightarrow> state_key \<Rightarrow> obj \<Rightarrow> connector_state list" where
  "sqlite_save now rows k v =
     (let j = sorted_json (JObj v); (p, so, st) = k in
      case find (\<lambda>r. cs_key r = k) rows of
        None \<Rightarrow> rows @ [\<lparr>cs_pipeline = p, cs_source = so, cs_stream = st, cs_state_json = j, cs_updated_at = now\<rparr>]
      | Some _ \<Rightarrow> map (\<lambda>r. if cs_key r = k then r\<lparr>cs_state_json := j, cs_updated_at := now\<rparr> else r) rows)"

lemma find_map_update:
  "(\<And>r. key (f r) = key r) \<Longrightarrow>
     find (\<lambda>r. key r = j) (map (\<lambda>r. if key r = k then f r else r) rows) =
     map_option (\<lambda>r. if key r = k then f r else r) (find (\<lambda>r. key r = j) rows)"
  by (induction rows) auto

lemma find_append: "find P (xs @ ys) = (case find P xs of None \<Rightarrow> find P ys | Some x \<Rightarrow> Some x)"
  by (induction xs) auto

lemma cs_key_update [simp]:
  "cs_key (r\<lparr>cs_state_json := j, cs_updated_at := t\<rparr>) = cs_key r"
  "cs_key \<lparr>cs_pipeline = p, cs_source = so, cs_stream = st, cs_state_json = j, cs_updated_at = t\<rparr> = (p, so, st)"
  by (simp_all add: cs_key_def)

interpretation sqlite: state_store sqlite_load "sqlite_save now" "\<lambda>v. the_obj (sorted_json (JObj v))" for now
proof unfold_locales
  fix s :: "connector_state list" and k :: state_key and v :: obj
  obtain p so st where k: "k = (p, so, st)" by (cases k)
  show "sqlite_load (sqlite_save now s k v) k = the_obj (sorted_json (JObj v))"
    by (cases "find (\<lambda>r. cs_key r = k) s")
       (auto simp: sqlite_load_def sqlite_save_def Let_def k find_append find_map_update
          dest!: find_Some_key)
next
  fix j k :: state_key and s :: "connector_state list" and v :: obj assume "j \<noteq> k"
  then show "sqlite_load (sqlite_save now s k v) j = sqlite_load s j"
    by (cases k; cases "find (\<lambda>r. cs_key r = k) s")
       (auto simp: sqlite_load_def sqlite_save_def Let_def find_append find_map_update
          split: option.split dest!: find_Some_key)
qed

subsection \<open>Idempotent destinations\<close>

text \<open>
  What a resumable pipeline asks of a destination: a write reports at most as many records as it was
  given; what is stored afterwards depends on the record versions only (\<open>vkey\<close>), through \<open>absorb\<close>;
  and writing a batch again changes nothing.
\<close>

locale idempotent_destination =
  fixes put :: "'d \<Rightarrow> envelope list \<Rightarrow> (sdk_error + nat) \<times> 'd"
    and ok :: "'d \<Rightarrow> bool"
    and view :: "'d \<Rightarrow> 'v"
    and vkey :: "envelope \<Rightarrow> 'k"
    and absorb :: "'v \<Rightarrow> 'k list \<Rightarrow> 'v"
  assumes write_ok: "ok d \<Longrightarrow> ok (snd (put d es))"
    and write_view: "ok d \<Longrightarrow> fst (put d es) = Inr n \<Longrightarrow>
      n \<le> length es \<and> view (snd (put d es)) = absorb (view d) (map vkey es)"
    and write_fails: "ok d \<Longrightarrow> fst (put d es) = Inl e \<Longrightarrow> view (snd (put d es)) = view d"
    and replay: "absorb (absorb v ks) ks = absorb v ks"
    and absorb_append: "absorb v (ks @ js) = absorb (absorb v ks) js"
    and absorb_nothing: "absorb v [] = v"
begin

lemma replay_prefix: "absorb (absorb v (take j ks)) (ks @ js) = absorb v (ks @ js)"
proof -
  have "absorb (absorb v (take j ks)) (take j ks @ drop j ks @ js) = absorb v (take j ks @ drop j ks @ js)"
    by (simp only: absorb_append replay)
  then show ?thesis by (metis append_assoc append_take_drop_id)
qed

lemma replay_all: "absorb (absorb v ks) (ks @ js) = absorb v (ks @ js)"
  by (simp add: absorb_append replay)

lemma write_twice:
  assumes "ok d" "put d es = (Inr n, d1)" "put d1 es' = (Inr m, d2)" "map vkey es' = map vkey es"
  shows "view d2 = view d1"
  using assms write_view [of d es n] write_view [of d1 es' m] write_ok [of d es] by (simp add: replay)

end

subsection \<open>The JSON Lines destination\<close>

text \<open>The lines of the file, and the versions in memory (\<open>None\<close> before the first write).\<close>

type_synonym version = "string \<times> string"

record jsonl_file =
  jl_lines :: "obj list"
  jl_known :: "version list option"

definition version_key :: "pytext \<Rightarrow> obj \<Rightarrow> version" where
  "version_key tx d = (py_str (tx_repr tx) (obj_get d ''id''), version_hash tx d)"

definition load_versions :: "pytext \<Rightarrow> obj list \<Rightarrow> version list" where
  "load_versions tx rows = map (version_key tx) (filter (\<lambda>d. is_str (obj_get d ''id'')) rows)"

fun append_new :: "pytext \<Rightarrow> version list \<Rightarrow> version list \<Rightarrow> envelope list \<Rightarrow> obj list" where
  "append_new tx known pending [] = []"
| "append_new tx known pending (e # es) =
     (let d = to_dict tx e; k = version_key tx d in
      if k \<in> set known \<or> k \<in> set pending then append_new tx known pending es
      else d # append_new tx known (k # pending) es)"

definition jsonl_write :: "pytext \<Rightarrow> jsonl_file \<Rightarrow> envelope list \<Rightarrow> (sdk_error + nat) \<times> jsonl_file" where
  "jsonl_write tx f es =
     (let known = (case jl_known f of None \<Rightarrow> load_versions tx (jl_lines f) | Some ks \<Rightarrow> ks);
          new = append_new tx known [] es
      in (Inr (length new),
          \<lparr>jl_lines = jl_lines f @ new, jl_known = Some (known @ map (version_key tx) new)\<rparr>))"

definition jsonl_ok :: "pytext \<Rightarrow> jsonl_file \<Rightarrow> bool" where
  "jsonl_ok tx f = (case jl_known f of None \<Rightarrow> True | Some ks \<Rightarrow> set ks = set (load_versions tx (jl_lines f)))"

definition jsonl_view :: "pytext \<Rightarrow> jsonl_file \<Rightarrow> version list" where
  "jsonl_view tx f = load_versions tx (jl_lines f)"

text \<open>Keep the first occurrence of every version.\<close>

definition add_version :: "'k \<Rightarrow> 'k list \<Rightarrow> 'k list" where
  "add_version k ks = (if k \<in> set ks then ks else ks @ [k])"

definition add_versions :: "'k list \<Rightarrow> 'k list \<Rightarrow> 'k list" where
  "add_versions ks new = fold add_version new ks"

lemma add_versions_simps [simp]:
  "add_versions ks [] = ks" "add_versions ks (k # new) = add_versions (add_version k ks) new"
  by (simp_all add: add_versions_def)

lemma add_versions_append: "add_versions ks (new @ others) = add_versions (add_versions ks new) others"
  by (simp add: add_versions_def)

lemma add_versions_set: "set (add_versions ks new) = set ks \<union> set new"
  by (induction new arbitrary: ks) (auto simp: add_version_def)

lemma add_versions_old: "set new \<subseteq> set ks \<Longrightarrow> add_versions ks new = ks"
  by (induction new) (auto simp: add_version_def)

lemma add_versions_distinct: "distinct ks \<Longrightarrow> distinct (add_versions ks new)"
  by (induction new arbitrary: ks) (auto simp: add_version_def)

lemma version_key_dict [simp]: "is_str (obj_get (to_dict tx e) ''id'')"
  by (simp add: to_dict_def dict_lookup)

lemma append_new_ids: "d \<in> set (append_new tx known pending es) \<Longrightarrow> is_str (obj_get d ''id'')"
  by (induction es arbitrary: pending) (auto simp: Let_def split: if_splits)

lemma append_new_versions:
  "set v = set known \<union> set pending \<Longrightarrow>
     add_versions v (map (\<lambda>e. version_key tx (to_dict tx e)) es) =
     v @ map (version_key tx) (append_new tx known pending es)"
proof (induction es arbitrary: v pending)
  case (Cons e es)
  let ?k = "version_key tx (to_dict tx e)"
  have "add_versions (v @ [?k]) (map (\<lambda>e. version_key tx (to_dict tx e)) es) =
      (v @ [?k]) @ map (version_key tx) (append_new tx known (?k # pending) es)"
    by (rule Cons.IH) (use Cons.prems in auto)
  then show ?case using Cons.IH [OF Cons.prems] Cons.prems by (simp add: Let_def add_version_def)
qed simp

lemma load_versions_append:
  "load_versions tx (rows @ append_new tx known pending es) =
     load_versions tx rows @ map (version_key tx) (append_new tx known pending es)"
proof -
  have "filter (\<lambda>d. is_str (obj_get d ''id'')) (append_new tx known pending es) = append_new tx known pending es"
    by (simp add: filter_id_conv append_new_ids)
  then show ?thesis by (simp add: load_versions_def)
qed

lemma jsonl_write_view:
  assumes "jsonl_ok tx f"
  shows "jsonl_view tx (snd (jsonl_write tx f es)) =
     add_versions (jsonl_view tx f) (map (\<lambda>e. version_key tx (to_dict tx e)) es)"
proof -
  define known where "known = (case jl_known f of None \<Rightarrow> load_versions tx (jl_lines f) | Some ks \<Rightarrow> ks)"
  have "set (jsonl_view tx f) = set known \<union> set []"
    using assms by (auto simp: jsonl_ok_def jsonl_view_def known_def split: option.splits)
  from append_new_versions [OF this] show ?thesis
    by (simp add: jsonl_write_def Let_def known_def jsonl_view_def load_versions_append)
qed

lemma append_new_length: "length (append_new tx known pending es) \<le> length es"
  by (induction es arbitrary: pending) (auto simp: Let_def intro: le_SucI)

interpretation jsonl: idempotent_destination "jsonl_write tx" "jsonl_ok tx" "jsonl_view tx"
    "\<lambda>e. version_key tx (to_dict tx e)" add_versions for tx
proof unfold_locales
  fix d es assume ok: "jsonl_ok tx d"
  show "jsonl_ok tx (snd (jsonl_write tx d es))"
    using ok
    by (auto simp: jsonl_ok_def jsonl_write_def Let_def load_versions_append split: option.splits)
  fix n assume "fst (jsonl_write tx d es) = Inr n"
  then show "n \<le> length es \<and> jsonl_view tx (snd (jsonl_write tx d es)) =
      add_versions (jsonl_view tx d) (map (\<lambda>e. version_key tx (to_dict tx e)) es)"
    using jsonl_write_view [OF ok] append_new_length by (auto simp: jsonl_write_def Let_def)
next
  fix d es e assume "fst (jsonl_write tx d es) = Inl e"
  then show "jsonl_view tx (snd (jsonl_write tx d es)) = jsonl_view tx d"
    by (simp add: jsonl_write_def Let_def)
qed (simp_all add: add_versions_old add_versions_set add_versions_append)

subsection \<open>The SQLite collection\<close>

record collection_row =
  cr_rowid :: nat
  cr_source :: string
  cr_stream :: string
  cr_record_id :: string
  cr_version_hash :: string
  cr_envelope :: obj
  cr_text :: string
  cr_updated_at :: time

record collection =
  co_rows :: "collection_row list"
  co_fts :: "(nat \<times> string) list"

definition cr_key :: "collection_row \<Rightarrow> string \<times> string \<times> string" where
  "cr_key r = (cr_source r, cr_stream r, cr_record_id r)"

definition record_key :: "envelope \<Rightarrow> string \<times> string \<times> string" where
  "record_key e = (en_source e, en_stream e, en_id e)"

definition coll_row :: "collection \<Rightarrow> string \<times> string \<times> string \<Rightarrow> collection_row option" where
  "coll_row c k = find (\<lambda>r. cr_key r = k) (co_rows c)"

text \<open>\<open>_searchable_text\<close>: the texts and numbers of the envelope, joined by spaces.\<close>

fun collect_text :: "(json \<Rightarrow> string) \<Rightarrow> json \<Rightarrow> string list" where
  "collect_text repr (JStr s) = [s]"
| "collect_text repr (JObj d) = concat (map (\<lambda>(k, v).
     if k \<in> {''observed_at'', ''provenance'', ''kind''} then [] else collect_text repr v) d)"
| "collect_text repr (JList xs) = concat (map (collect_text repr) xs)"
| "collect_text repr JNull = []"
| "collect_text repr (JBool b) = []"
| "collect_text repr v = [py_str repr v]"

fun join_spaces :: "string list \<Rightarrow> string" where
  "join_spaces [] = []"
| "join_spaces [s] = s"
| "join_spaces (s # ss) = s @ '' '' @ join_spaces ss"

definition searchable_text :: "pytext \<Rightarrow> obj \<Rightarrow> string" where
  "searchable_text tx d = join_spaces (collect_text (tx_repr tx) (JObj d))"

text \<open>SQLite gives a new row the largest row id plus one.\<close>

definition next_rowid :: "collection_row list \<Rightarrow> nat" where
  "next_rowid rows = Suc (fold max (map cr_rowid rows) 0)"

definition coll_remove :: "nat \<Rightarrow> collection \<Rightarrow> collection" where
  "coll_remove i c = \<lparr>co_rows = filter (\<lambda>r. cr_rowid r \<noteq> i) (co_rows c),
     co_fts = filter (\<lambda>p. fst p \<noteq> i) (co_fts c)\<rparr>"

definition coll_insert :: "pytext \<Rightarrow> time \<Rightarrow> envelope \<Rightarrow> collection \<Rightarrow> collection" where
  "coll_insert tx now e c =
     (let d = to_dict tx e; i = next_rowid (co_rows c) in
      \<lparr>co_rows = co_rows c @ [\<lparr>cr_rowid = i, cr_source = en_source e, cr_stream = en_stream e,
         cr_record_id = en_id e, cr_version_hash = version_hash tx d, cr_envelope = d,
         cr_text = searchable_text tx d, cr_updated_at = now\<rparr>],
       co_fts = co_fts c @ [(i, searchable_text tx d)]\<rparr>)"

definition coll_update :: "pytext \<Rightarrow> time \<Rightarrow> envelope \<Rightarrow> nat \<Rightarrow> collection \<Rightarrow> collection" where
  "coll_update tx now e i c =
     (let d = to_dict tx e in
      \<lparr>co_rows = map (\<lambda>r. if cr_rowid r = i
         then r\<lparr>cr_version_hash := version_hash tx d, cr_envelope := d,
                cr_text := searchable_text tx d, cr_updated_at := now\<rparr> else r) (co_rows c),
       co_fts = filter (\<lambda>p. fst p \<noteq> i) (co_fts c) @ [(i, searchable_text tx d)]\<rparr>)"

text \<open>One record; the number is 1 if it changed the collection.\<close>

definition coll_write_one :: "pytext \<Rightarrow> time \<Rightarrow> envelope \<Rightarrow> collection \<Rightarrow> nat \<times> collection" where
  "coll_write_one tx now e c =
     (case coll_row c (record_key e) of
        None \<Rightarrow> if en_operation e = DELETE then (0, c) else (1, coll_insert tx now e c)
      | Some r \<Rightarrow>
          if en_operation e = DELETE then (1, coll_remove (cr_rowid r) c)
          else if cr_version_hash r = version_hash tx (to_dict tx e) then (0, c)
          else (1, coll_update tx now e (cr_rowid r) c))"

fun coll_write_all :: "pytext \<Rightarrow> time \<Rightarrow> envelope list \<Rightarrow> collection \<Rightarrow> nat \<times> collection" where
  "coll_write_all tx now [] c = (0, c)"
| "coll_write_all tx now (e # es) c =
     (let (n, c1) = coll_write_one tx now e c; (m, c2) = coll_write_all tx now es c1 in (n + m, c2))"

definition collection_write :: "pytext \<Rightarrow> time \<Rightarrow> collection \<Rightarrow> envelope list \<Rightarrow> (sdk_error + nat) \<times> collection" where
  "collection_write tx now c es = (let (n, c') = coll_write_all tx now es c in (Inr n, c'))"

definition collection_get :: "pytext \<Rightarrow> time \<Rightarrow> collection \<Rightarrow> string \<times> string \<times> string \<Rightarrow> sdk_error + envelope option" where
  "collection_get tx now c k = (case coll_row c k of
     None \<Rightarrow> Inr None | Some r \<Rightarrow> bind_res (from_dict tx now (cr_envelope r)) (\<lambda>e. Inr (Some e)))"

text \<open>
  The invariant of the two tables: unique keys and row ids, hash and text computed from the stored
  envelope, and the full-text index holds exactly the text of every row.
\<close>

definition row_ok :: "pytext \<Rightarrow> collection_row \<Rightarrow> bool" where
  "row_ok tx r \<longleftrightarrow> cr_version_hash r = version_hash tx (cr_envelope r) \<and>
     cr_text r = searchable_text tx (cr_envelope r)"

definition index_of :: "collection_row list \<Rightarrow> (nat \<times> string) set" where
  "index_of rows = (\<lambda>r. (cr_rowid r, cr_text r)) ` set rows"

definition coll_ok :: "pytext \<Rightarrow> collection \<Rightarrow> bool" where
  "coll_ok tx c \<longleftrightarrow> distinct (map cr_key (co_rows c)) \<and> distinct (map cr_rowid (co_rows c)) \<and>
     (\<forall>r \<in> set (co_rows c). row_ok tx r) \<and>
     distinct (map fst (co_fts c)) \<and> set (co_fts c) = index_of (co_rows c)"

lemma fold_max_ge: "x \<in> set xs \<Longrightarrow> x \<le> fold max xs (m :: nat)"
proof (induction xs arbitrary: m)
  case (Cons y ys)
  have "a \<le> fold max ys a" for a :: nat by (induction ys arbitrary: a) (auto intro: le_trans [OF max.cobounded2])
  then show ?case using Cons by (auto intro: le_trans [OF max.cobounded1])
qed simp

lemma next_rowid_fresh: "r \<in> set rows \<Longrightarrow> cr_rowid r \<noteq> next_rowid rows"
  using fold_max_ge [of "cr_rowid r" "map cr_rowid rows" 0] by (auto simp: next_rowid_def)

lemma coll_row_Some: "coll_row c k = Some r \<Longrightarrow> r \<in> set (co_rows c) \<and> cr_key r = k"
  unfolding coll_row_def by (rule find_Some_key)

lemma coll_row_None: "coll_row c k = None \<longleftrightarrow> k \<notin> cr_key ` set (co_rows c)"
  unfolding coll_row_def by (rule find_None_key)

lemma coll_row_unique: "distinct (map cr_key (co_rows c)) \<Longrightarrow> r \<in> set (co_rows c) \<Longrightarrow> coll_row c (cr_key r) = Some r"
  unfolding coll_row_def by (rule find_Some_unique)

lemma find_filter_other:
  "find (\<lambda>x. key x = j) (filter (\<lambda>x. key x \<noteq> k) rows) = (if j = k then None else find (\<lambda>x. key x = j) rows)"
  by (induction rows) auto

lemma coll_remove_ok:
  assumes "coll_ok tx c" "coll_row c k = Some r"
  shows "coll_ok tx (coll_remove (cr_rowid r) c)"
    and "coll_row (coll_remove (cr_rowid r) c) j = (if j = k then None else coll_row c j)"
proof -
  have r: "r \<in> set (co_rows c)" "cr_key r = k" using coll_row_Some [OF assms(2)] by auto
  have d: "distinct (map cr_key (co_rows c))" "distinct (map cr_rowid (co_rows c))"
    using assms(1) by (auto simp: coll_ok_def)
  have same: "cr_rowid x = cr_rowid r \<longleftrightarrow> cr_key x = k" if "x \<in> set (co_rows c)" for x
    using that r d by (metis distinct_map inj_on_def)
  show "coll_ok tx (coll_remove (cr_rowid r) c)"
    using assms(1) by (auto simp: coll_ok_def coll_remove_def index_of_def distinct_map_filter)
  have "coll_row (coll_remove (cr_rowid r) c) j =
      find (\<lambda>x. cr_key x = j) (filter (\<lambda>x. cr_key x \<noteq> k) (co_rows c))"
    using same by (simp add: coll_row_def coll_remove_def cong: filter_cong)
  also have "\<dots> = (if j = k then None else coll_row c j)"
    by (simp add: coll_row_def find_filter_other)
  finally show "coll_row (coll_remove (cr_rowid r) c) j = (if j = k then None else coll_row c j)" .
qed

lemma coll_insert_ok:
  assumes "coll_ok tx c" "coll_row c (record_key e) = None"
  shows "coll_ok tx (coll_insert tx now e c)"
    and "map_option cr_version_hash (coll_row (coll_insert tx now e c) j) =
      (if j = record_key e then Some (version_hash tx (to_dict tx e))
       else map_option cr_version_hash (coll_row c j))"
proof -
  let ?i = "next_rowid (co_rows c)"
  have new: "record_key e \<notin> cr_key ` set (co_rows c)" using assms(2) by (simp add: coll_row_None)
  have i: "?i \<notin> cr_rowid ` set (co_rows c)" using next_rowid_fresh [of _ "co_rows c"] by (metis imageE)
  have f: "?i \<notin> fst ` set (co_fts c)"
    using assms(1) i by (force simp: coll_ok_def index_of_def)
  show "coll_ok tx (coll_insert tx now e c)"
    using assms(1) new i f
    by (auto simp: coll_ok_def coll_insert_def Let_def row_ok_def index_of_def cr_key_def record_key_def)
  show "map_option cr_version_hash (coll_row (coll_insert tx now e c) j) =
      (if j = record_key e then Some (version_hash tx (to_dict tx e))
       else map_option cr_version_hash (coll_row c j))"
    using assms(2)
    by (auto simp: coll_insert_def Let_def coll_row_def find_append cr_key_def record_key_def split: option.split)
qed

lemma coll_update_ok:
  assumes "coll_ok tx c" "coll_row c (record_key e) = Some r"
  shows "coll_ok tx (coll_update tx now e (cr_rowid r) c)"
    and "map_option cr_version_hash (coll_row (coll_update tx now e (cr_rowid r) c) j) =
      (if j = record_key e then Some (version_hash tx (to_dict tx e))
       else map_option cr_version_hash (coll_row c j))"
proof -
  let ?d = "to_dict tx e"
  let ?f = "\<lambda>r. r\<lparr>cr_version_hash := version_hash tx ?d, cr_envelope := ?d,
                cr_text := searchable_text tx ?d, cr_updated_at := now\<rparr>"
  have r: "r \<in> set (co_rows c)" "cr_key r = record_key e" using coll_row_Some [OF assms(2)] by auto
  have d: "distinct (map cr_key (co_rows c))" "distinct (map cr_rowid (co_rows c))"
    using assms(1) by (auto simp: coll_ok_def)
  have same: "cr_rowid x = cr_rowid r \<longleftrightarrow> cr_key x = record_key e" if "x \<in> set (co_rows c)" for x
    using that r d by (metis distinct_map inj_on_def)
  have key: "cr_key (?f x) = cr_key x" "cr_rowid (?f x) = cr_rowid x" "cr_text (?f x) = searchable_text tx ?d" for x
    by (simp_all add: cr_key_def)
  have rows: "co_rows (coll_update tx now e (cr_rowid r) c) =
      map (\<lambda>x. if cr_key x = record_key e then ?f x else x) (co_rows c)"
    using same by (simp add: coll_update_def Let_def)
  have keys: "map cr_key (co_rows (coll_update tx now e (cr_rowid r) c)) = map cr_key (co_rows c)"
    "map cr_rowid (co_rows (coll_update tx now e (cr_rowid r) c)) = map cr_rowid (co_rows c)"
    unfolding rows by (simp_all add: comp_def key if_distrib [of cr_key] if_distrib [of cr_rowid] cong: if_cong)
  let ?t = "searchable_text tx ?d" and ?i = "cr_rowid r"
  have "set (co_fts (coll_update tx now e ?i c)) = {p \<in> index_of (co_rows c). fst p \<noteq> ?i} \<union> {(?i, ?t)}"
    using assms(1) by (auto simp: coll_ok_def coll_update_def Let_def)
  also have "\<dots> = (\<lambda>x. if cr_rowid x = ?i then (?i, ?t) else (cr_rowid x, cr_text x)) ` set (co_rows c)"
    using r(1) by (auto simp: index_of_def)
  also have "\<dots> = (\<lambda>x. (cr_rowid x, cr_text x)) ` (\<lambda>x. if cr_key x = record_key e then ?f x else x) ` set (co_rows c)"
    unfolding image_image
  proof (intro image_cong refl)
    fix x assume "x \<in> set (co_rows c)"
    from same [OF this] show "(if cr_rowid x = ?i then (?i, ?t) else (cr_rowid x, cr_text x)) =
        (cr_rowid (if cr_key x = record_key e then ?f x else x), cr_text (if cr_key x = record_key e then ?f x else x))"
      by (cases "cr_key x = record_key e") simp_all
  qed
  finally have idx: "set (co_fts (coll_update tx now e ?i c)) = index_of (co_rows (coll_update tx now e ?i c))"
    by (simp add: index_of_def rows)
  show "coll_ok tx (coll_update tx now e (cr_rowid r) c)"
    unfolding coll_ok_def keys idx
  proof (intro conjI d refl)
    show "\<forall>x \<in> set (co_rows (coll_update tx now e (cr_rowid r) c)). row_ok tx x"
      unfolding rows using assms(1) by (auto simp: coll_ok_def row_ok_def)
    show "distinct (map fst (co_fts (coll_update tx now e (cr_rowid r) c)))"
      using assms(1) by (auto simp: coll_ok_def coll_update_def Let_def distinct_map_filter)
  qed
  have "coll_row (coll_update tx now e (cr_rowid r) c) j =
      map_option (\<lambda>x. if cr_key x = record_key e then ?f x else x) (coll_row c j)"
    unfolding coll_row_def rows by (rule find_map_update) (rule key)
  then show "map_option cr_version_hash (coll_row (coll_update tx now e (cr_rowid r) c) j) =
      (if j = record_key e then Some (version_hash tx (to_dict tx e))
       else map_option cr_version_hash (coll_row c j))"
    using assms(2) by (cases "coll_row c j") (auto dest: coll_row_Some)
qed

text \<open>What the rows mean: the version of the current record of each key.\<close>

definition coll_view :: "collection \<Rightarrow> string \<times> string \<times> string \<Rightarrow> string option" where
  "coll_view c k = map_option cr_version_hash (coll_row c k)"

type_synonym change = "(string \<times> string \<times> string) \<times> string option"

definition change_of :: "pytext \<Rightarrow> envelope \<Rightarrow> change" where
  "change_of tx e = (record_key e,
     if en_operation e = DELETE then None else Some (version_hash tx (to_dict tx e)))"

definition apply_changes :: "(string \<times> string \<times> string \<Rightarrow> string option) \<Rightarrow> change list
    \<Rightarrow> string \<times> string \<times> string \<Rightarrow> string option" where
  "apply_changes m ks = fold (\<lambda>(k, h) m. m(k := h)) ks m"

lemma apply_changes_simps [simp]:
  "apply_changes m [] = m" "apply_changes m ((k, h) # ks) = apply_changes (m(k := h)) ks"
  by (simp_all add: apply_changes_def)

lemma apply_changes_append: "apply_changes m (ks @ js) = apply_changes (apply_changes m ks) js"
  by (simp add: apply_changes_def)

text \<open>The last change of a key decides.\<close>

lemma apply_changes_lookup:
  "apply_changes m ks k = (case map_of (rev ks) k of Some h \<Rightarrow> h | None \<Rightarrow> m k)"
  by (induction ks arbitrary: m) (auto split: option.split)

lemma apply_changes_replay: "apply_changes (apply_changes m ks) ks = apply_changes m ks"
  by (rule ext) (simp add: apply_changes_lookup split: option.split)

lemma coll_write_one_ok:
  assumes "coll_ok tx c"
  shows "coll_ok tx (snd (coll_write_one tx now e c))"
    and "coll_view (snd (coll_write_one tx now e c)) = apply_changes (coll_view c) [change_of tx e]"
    and "fst (coll_write_one tx now e c) \<le> 1"
    and "fst (coll_write_one tx now e c) = 0 \<longleftrightarrow> coll_view c (record_key e) = snd (change_of tx e)"
proof -
  let ?k = "record_key e" and ?h = "version_hash tx (to_dict tx e)"
  have remove: "coll_view (coll_remove (cr_rowid r) c) = (coll_view c)(?k := None)" if "coll_row c ?k = Some r" for r
    using coll_remove_ok(2) [OF assms that] by (simp add: coll_view_def fun_eq_iff)
  have insert: "coll_view (coll_insert tx now e c) = (coll_view c)(?k := Some ?h)" if "coll_row c ?k = None"
    by (rule ext) (simp only: coll_view_def coll_insert_ok(2) [OF assms that] fun_upd_apply)
  have update: "coll_view (coll_update tx now e (cr_rowid r) c) = (coll_view c)(?k := Some ?h)"
    if "coll_row c ?k = Some r" for r
    by (rule ext) (simp only: coll_view_def coll_update_ok(2) [OF assms that] fun_upd_apply)
  note ops = coll_remove_ok(1) [OF assms] coll_insert_ok(1) [OF assms] coll_update_ok(1) [OF assms]
    remove insert update
  have look: "coll_view c ?k = map_option cr_version_hash (coll_row c ?k)" by (simp add: coll_view_def)
  show "coll_ok tx (snd (coll_write_one tx now e c))"
    using ops assms by (simp add: coll_write_one_def split: option.split)
  show "coll_view (snd (coll_write_one tx now e c)) = apply_changes (coll_view c) [change_of tx e]"
  proof (cases "coll_row c ?k")
    case None
    then show ?thesis using look insert
      by (cases "en_operation e = DELETE") (simp_all add: coll_write_one_def change_of_def fun_upd_idem)
  next
    case (Some r)
    then show ?thesis using look remove [OF Some] update [OF Some]
      by (cases "en_operation e = DELETE") (simp_all add: coll_write_one_def change_of_def fun_upd_idem)
  qed
  show "fst (coll_write_one tx now e c) \<le> 1"
    by (simp add: coll_write_one_def split: option.split)
  show "fst (coll_write_one tx now e c) = 0 \<longleftrightarrow> coll_view c ?k = snd (change_of tx e)"
    by (auto simp: coll_write_one_def change_of_def look split: option.split)
qed

lemma coll_write_all_ok:
  "coll_ok tx c \<Longrightarrow> coll_ok tx (snd (coll_write_all tx now es c)) \<and>
     coll_view (snd (coll_write_all tx now es c)) = apply_changes (coll_view c) (map (change_of tx) es) \<and>
     fst (coll_write_all tx now es c) \<le> length es"
proof (induction es arbitrary: c)
  case (Cons e es)
  let ?c = "snd (coll_write_one tx now e c)"
  note one = coll_write_one_ok [OF Cons.prems, of now e]
  have "coll_ok tx (snd (coll_write_all tx now es ?c)) \<and>
     coll_view (snd (coll_write_all tx now es ?c)) = apply_changes (coll_view ?c) (map (change_of tx) es) \<and>
     fst (coll_write_all tx now es ?c) \<le> length es"
    by (rule Cons.IH [OF one(1)])
  then show ?case using one by (cases "change_of tx e") (simp add: case_prod_beta)
qed simp

interpretation coll: idempotent_destination "collection_write tx now" "coll_ok tx" coll_view "change_of tx" apply_changes
  for tx now
  by unfold_locales
     (use coll_write_all_ok in \<open>auto simp: collection_write_def case_prod_beta apply_changes_replay apply_changes_append\<close>)


definition demo_hash_text :: pytext where
  "demo_hash_text = demo_text\<lparr>tx_dumps := (\<lambda>v. case v of JObj d \<Rightarrow>
     (case dict_get d ''cursor'' of Some (JStr s) \<Rightarrow> s | _ \<Rightarrow> []) | _ \<Rightarrow> [])\<rparr>"


end
