(* ===== verification/SdkQuery.thy ===== *)
theory SdkQuery
  imports SdkStores PyText "HOL-Library.Product_Lexorder"
begin

text \<open>
  Reading what was ingested: the query surface of \<open>query.py\<close> and \<open>destinations/sqlite.py\<close>, and the
  content-addressed artifacts of \<open>artifacts.py\<close>. Which rows the FTS5 index matches for a list of
  terms, and their BM25 rank, are the parameters \<open>fts_match\<close> and \<open>bm25\<close>; the regular expression
  class \<open>\w\<close> is the parameter \<open>word_char\<close>.
\<close>

subsection \<open>Requests\<close>

record query_request =
  qr_text :: "string option"
  qr_limit :: int
  qr_offset :: int
  qr_source :: "string option"
  qr_stream :: "string option"

definition make_query_request :: "query_request \<Rightarrow> sdk_error + query_request" where
  "make_query_request q =
     (if \<not> (1 \<le> qr_limit q \<and> qr_limit q \<le> 1000) then Inl (ValueError ''Query limit must be between 1 and 1000'')
      else if qr_offset q < 0 then Inl (ValueError ''Query offset must not be negative'')
      else if qr_source q = Some [] then Inl (ValueError ''Query source must not be empty'')
      else if qr_stream q = Some [] then Inl (ValueError ''Query stream must not be empty'')
      else Inr q)"

record query_hit =
  qh_envelope :: envelope
  qh_score :: int

record query_result =
  qs_request :: query_request
  qs_hits :: "query_hit list"
  qs_total :: nat

text \<open>\<open>re.findall(r"\w+", text)\<close>.\<close>

function word_terms :: "(char \<Rightarrow> bool) \<Rightarrow> string \<Rightarrow> string list" where
  "word_terms word_char s =
     (case dropWhile (\<lambda>c. \<not> word_char c) s of
        [] \<Rightarrow> []
      | c # cs \<Rightarrow> takeWhile word_char (c # cs) # word_terms word_char (dropWhile word_char (c # cs)))"
  by pat_completeness auto
termination
proof (relation "measure (\<lambda>(word_char, s). length s)")
  fix word_char :: "char \<Rightarrow> bool" and s c cs assume d: "dropWhile (\<lambda>c. \<not> word_char c) s = c # cs"
  have c: "word_char c" using d by (metis dropWhile_eq_Cons_conv)
  have "length (dropWhile word_char (c # cs)) \<le> length cs" using c by (simp add: length_dropWhile_le)
  also have "length cs < length s" using d length_dropWhile_le [of "\<lambda>c. \<not> word_char c" s] by simp
  finally show "((word_char, dropWhile word_char (c # cs)), word_char, s) \<in> measure (\<lambda>(word_char, s). length s)"
    by simp
qed simp

declare word_terms.simps [simp del]

text \<open>The terms of \<open>_fts_query\<close>; the text handed to FTS5 is their conjunction, each quoted.\<close>

definition fts_terms :: "(char \<Rightarrow> bool) \<Rightarrow> string \<Rightarrow> sdk_error + string list" where
  "fts_terms word_char text =
     (let terms = word_terms word_char text in
      if terms = [] then Inl (ValueError ''Query text must contain at least one searchable character'') else Inr terms)"

definition quote_term :: "string \<Rightarrow> string" where
  "quote_term t = CHR 0x22 # concat (map (\<lambda>c. if c = CHR 0x22 then [c, c] else [c]) t) @ [CHR 0x22]"

fun join_and :: "string list \<Rightarrow> string" where
  "join_and [] = []"
| "join_and [t] = t"
| "join_and (t # ts) = t @ '' AND '' @ join_and ts"

definition fts_query :: "(char \<Rightarrow> bool) \<Rightarrow> string \<Rightarrow> sdk_error + string" where
  "fts_query word_char text = bind_res (fts_terms word_char text) (\<lambda>ts. Inr (join_and (map quote_term ts)))"

subsection \<open>Answering a request\<close>

definition row_selected :: "query_request \<Rightarrow> collection_row \<Rightarrow> bool" where
  "row_selected q r \<longleftrightarrow> (case qr_source q of None \<Rightarrow> True | Some s \<Rightarrow> cr_source r = s) \<and>
     (case qr_stream q of None \<Rightarrow> True | Some s \<Rightarrow> cr_stream r = s)"

text \<open>The rows of the index that match, with their rank.\<close>

definition matched_row :: "(string \<Rightarrow> string \<Rightarrow> bool) \<Rightarrow> (string \<Rightarrow> string \<Rightarrow> int) \<Rightarrow> string \<Rightarrow> collection
    \<Rightarrow> nat \<times> string \<Rightarrow> (collection_row \<times> int) list" where
  "matched_row fts_match bm25 match c entry =
     (case find (\<lambda>r. cr_rowid r = fst entry) (co_rows c) of
        None \<Rightarrow> []
      | Some r \<Rightarrow> if fts_match match (snd entry) then [(r, bm25 match (snd entry))] else [])"

definition indexed_rows :: "(string \<Rightarrow> string \<Rightarrow> bool) \<Rightarrow> (string \<Rightarrow> string \<Rightarrow> int) \<Rightarrow> string \<Rightarrow> collection
    \<Rightarrow> (collection_row \<times> int) list" where
  "indexed_rows fts_match bm25 match c = concat (map (matched_row fts_match bm25 match c) (co_fts c))"

text \<open>Best rank first, then the older row; without a text the latest update first, then the younger row.\<close>

definition ranked_rows :: "(string \<Rightarrow> string \<Rightarrow> bool) \<Rightarrow> (string \<Rightarrow> string \<Rightarrow> int) \<Rightarrow> (char \<Rightarrow> bool)
    \<Rightarrow> query_request \<Rightarrow> collection \<Rightarrow> sdk_error + (collection_row \<times> int) list" where
  "ranked_rows fts_match bm25 word_char q c =
     (case qr_text q of
        Some text \<Rightarrow>
          if strip text \<noteq> []
          then bind_res (fts_query word_char text) (\<lambda>match.
            Inr (map (\<lambda>(r, s). (r, - s))
              (sort_key (\<lambda>(r, s). (s, int (cr_rowid r)))
                (filter (\<lambda>(r, s). row_selected q r) (indexed_rows fts_match bm25 match c)))))
          else Inr (map (\<lambda>r. (r, 0)) (sort_key (\<lambda>r. (- cr_updated_at r, - int (cr_rowid r)))
            (filter (row_selected q) (co_rows c))))
      | None \<Rightarrow> Inr (map (\<lambda>r. (r, 0)) (sort_key (\<lambda>r. (- cr_updated_at r, - int (cr_rowid r)))
            (filter (row_selected q) (co_rows c)))))"

definition make_hit :: "pytext \<Rightarrow> time \<Rightarrow> collection_row \<times> int \<Rightarrow> sdk_error + query_hit" where
  "make_hit tx now p = bind_res (from_dict tx now (cr_envelope (fst p)))
     (\<lambda>e. Inr \<lparr>qh_envelope = e, qh_score = snd p\<rparr>)"

definition page :: "query_request \<Rightarrow> 'a list \<Rightarrow> 'a list" where
  "page q xs = take (nat (qr_limit q)) (drop (nat (qr_offset q)) xs)"

definition collection_query :: "pytext \<Rightarrow> time \<Rightarrow> (string \<Rightarrow> string \<Rightarrow> bool) \<Rightarrow> (string \<Rightarrow> string \<Rightarrow> int)
    \<Rightarrow> (char \<Rightarrow> bool) \<Rightarrow> collection \<Rightarrow> query_request \<Rightarrow> sdk_error + query_result" where
  "collection_query tx now fts_match bm25 word_char c q =
     bind_res (ranked_rows fts_match bm25 word_char q c) (\<lambda>rows.
     bind_res (map_res (make_hit tx now) (page q rows)) (\<lambda>hits.
       Inr \<lparr>qs_request = q, qs_hits = hits, qs_total = length rows\<rparr>))"

subsection \<open>Pages\<close>

lemma word_terms_step:
  "dropWhile (\<lambda>c. \<not> word_char c) s = [] \<Longrightarrow> word_terms word_char s = []"
  "dropWhile (\<lambda>c. \<not> word_char c) s = c # cs \<Longrightarrow>
     word_terms word_char s = takeWhile word_char (c # cs) # word_terms word_char (dropWhile word_char (c # cs))"
  by (subst word_terms.simps, simp only: list.case)+

lemma word_terms_nonempty: "t \<in> set (word_terms word_char s) \<Longrightarrow> t \<noteq> [] \<and> list_all word_char t"
proof (induction word_char s rule: word_terms.induct)
  case (1 word_char s)
  show ?case
  proof (cases "dropWhile (\<lambda>c. \<not> word_char c) s")
    case Nil
    then show ?thesis using 1(2) by (simp only: word_terms_step list.set empty_iff)
  next
    case (Cons c cs)
    have c: "word_char c" using Cons by (metis dropWhile_eq_Cons_conv)
    have "t = takeWhile word_char (c # cs) \<or> t \<in> set (word_terms word_char (dropWhile word_char (c # cs)))"
      using 1(2) by (simp only: word_terms_step(2) [OF Cons] list.set insert_iff)
    moreover have "takeWhile word_char (c # cs) \<noteq> []" using c by simp
    moreover have "list_all word_char (takeWhile word_char (c # cs))"
      unfolding list_all_iff by (blast dest: set_takeWhileD)
    ultimately show ?thesis using 1(1) [OF Cons] by metis
  qed
qed

lemma length_page: "length (page q xs) = min (nat (qr_limit q)) (length xs - nat (qr_offset q))"
  by (simp add: page_def)

lemma set_page: "set (page q xs) \<subseteq> set xs"
  unfolding page_def by (meson set_drop_subset set_take_subset subset_trans)

lemma distinct_page: "distinct (map f xs) \<Longrightarrow> distinct (map f (page q xs))"
  by (metis distinct_drop distinct_take drop_map page_def take_map)

lemma matched_row_ids:
  "map (\<lambda>p. cr_rowid (fst p)) (matched_row fts_match bm25 match c entry) = [] \<or>
   map (\<lambda>p. cr_rowid (fst p)) (matched_row fts_match bm25 match c entry) = [fst entry]"
  "p \<in> set (matched_row fts_match bm25 match c entry) \<Longrightarrow> fst p \<in> set (co_rows c)"
proof -
  show "map (\<lambda>p. cr_rowid (fst p)) (matched_row fts_match bm25 match c entry) = [] \<or>
    map (\<lambda>p. cr_rowid (fst p)) (matched_row fts_match bm25 match c entry) = [fst entry]"
  proof (cases "find (\<lambda>r. cr_rowid r = fst entry) (co_rows c)")
    case (Some r)
    then show ?thesis using find_Some_key [OF Some] by (simp add: matched_row_def)
  qed (simp add: matched_row_def)
  assume p: "p \<in> set (matched_row fts_match bm25 match c entry)"
  show "fst p \<in> set (co_rows c)"
  proof (cases "find (\<lambda>r. cr_rowid r = fst entry) (co_rows c)")
    case None
    then show ?thesis using p by (simp add: matched_row_def)
  next
    case (Some r)
    then show ?thesis using p find_Some_key [OF Some] by (simp add: matched_row_def split: if_splits)
  qed
qed

lemma distinct_concat_keys:
  assumes "\<And>x. map f (g x) = [] \<or> map f (g x) = [key x]" "distinct (map key xs)"
  shows "distinct (map f (concat (map g xs))) \<and> f ` set (concat (map g xs)) \<subseteq> key ` set xs"
  using assms(2)
proof (induction xs)
  case (Cons x xs)
  have "f ` set (concat (map g xs)) \<subseteq> key ` set xs" "distinct (map f (concat (map g xs)))"
    using Cons by auto
  moreover have "f ` set (g x) = set (map f (g x))" by simp
  ultimately show ?case using assms(1) [of x] Cons.prems by (auto simp del: set_concat)
qed simp

lemma indexed_rows_sound:
  "distinct (map fst (co_fts c)) \<Longrightarrow> distinct (map (\<lambda>p. cr_rowid (fst p)) (indexed_rows fts_match bm25 match c))"
  "p \<in> set (indexed_rows fts_match bm25 match c) \<Longrightarrow> fst p \<in> set (co_rows c)"
  using distinct_concat_keys [where f = "\<lambda>p. cr_rowid (fst p)" and key = fst
      and g = "matched_row fts_match bm25 match c", OF matched_row_ids(1), of "co_fts c"]
    matched_row_ids(2) [of p fts_match bm25 match c]
  by (auto simp: indexed_rows_def)

lemma coll_row_ids:
  assumes "coll_ok tx c" "ranked_rows fts_match bm25 word_char q c = Inr rows"
  shows "distinct (map (\<lambda>p. cr_rowid (fst p)) rows) \<and>
    (\<forall>p \<in> set rows. fst p \<in> set (co_rows c) \<and> row_selected q (fst p))"
proof -
  have ids: "distinct (map cr_rowid (co_rows c))" "distinct (map fst (co_fts c))"
    using assms(1) by (simp_all add: coll_ok_def)
  have perm: "distinct (map f (sort_key k xs)) \<longleftrightarrow> distinct (map f xs)" for f :: "'x \<Rightarrow> nat" and k :: "'x \<Rightarrow> int \<times> int" and xs
    by (metis mset_map mset_sort mset_eq_imp_distinct_iff)
  have plain: "distinct (map cr_rowid (sort_key k (filter (row_selected q) (co_rows c))))" for k :: "collection_row \<Rightarrow> int \<times> int"
    by (simp add: perm ids distinct_map_filter)
  have found: "distinct (map (\<lambda>p. cr_rowid (fst p)) (sort_key k (filter P (indexed_rows fts_match bm25 match c))))"
    for match P and k :: "collection_row \<times> int \<Rightarrow> int \<times> int"
    by (simp add: perm distinct_map_filter indexed_rows_sound ids)
  show ?thesis
    using assms(2) plain found indexed_rows_sound(2)
    by (fastforce simp: ranked_rows_def bind_res_Inr comp_def case_prod_beta split: option.splits if_splits)
qed



end
