(* ===== verification/SdkPipeline.thy ===== *)
theory SdkPipeline
  imports SdkStores PyText
begin

text \<open>
  The embedded runtime of the SDK (\<open>sdk/src/ingestion_graph/pipeline.py\<close>) over the contracts of
  \<open>connectors/base.py\<close>, \<open>transforms.py\<close> and \<open>messages.py\<close>. A source is the finite sequence of the
  messages it yields, with the exception that ends it, if any. Destination and state store are
  threaded through explicitly. A run can be interrupted (a crash, a cancellation): \<open>pw_calls\<close> is the
  number of calls of the destination and the store that still succeed, and an interrupted write may
  have stored a prefix of its batch. Between two such calls a run changes nothing durable, so these
  are all the points that matter.

  The locale \<open>resumable_pipeline\<close> proves once, for every resumable source, idempotent destination and
  state store, that interrupted attempts lose nothing and duplicate nothing.
\<close>

subsection \<open>Messages and transforms\<close>

datatype source_message =
    RecordMessage envelope
  | StateMessage string obj
  | SchemaMessage string obj string
  | LogMessage string string obj
  | OtherMessage string

datatype transform_item = EnvelopeItem envelope | OtherItem

datatype transform_result = Raises sdk_error | NotIterable | Items "transform_item list"

type_synonym transform = "string \<times> (envelope list \<Rightarrow> transform_result)"

record ('d, 's) pipeline =
  pl_name :: string
  pl_source :: string
  pl_source_check :: "bool \<times> string"
  pl_dest_check :: "bool \<times> string"
  pl_discover :: "sdk_error + string list"
  pl_read :: "(nat \<Rightarrow> time) \<Rightarrow> string \<Rightarrow> obj \<Rightarrow> source_message list \<times> sdk_error option"
  pl_write :: "'d \<Rightarrow> envelope list \<Rightarrow> (sdk_error + int) \<times> 'd"
  pl_flush :: "'d \<Rightarrow> (sdk_error + unit) \<times> 'd"
  pl_transforms :: "transform list"
  pl_load :: "'s \<Rightarrow> state_key \<Rightarrow> obj"
  pl_save :: "'s \<Rightarrow> state_key \<Rightarrow> obj \<Rightarrow> 's"
  pl_on_event :: "(source_message \<Rightarrow> sdk_error option) option"
  pl_close :: "sdk_error option list"

record ('d, 's) pworld =
  pw_dest :: 'd
  pw_store :: 's
  pw_calls :: "nat option"
  pw_events :: "source_message list"

record pipeline_result =
  pr_pipeline :: string
  pr_streams_processed :: nat
  pr_records_written :: int
  pr_checkpoints_committed :: nat

text \<open>The guards of the constructor.\<close>

definition pipeline_init :: "string \<Rightarrow> bool \<Rightarrow> sdk_error + unit" where
  "pipeline_init name idempotent =
     (if name = [] then Inl (ValueError ''Pipeline name must not be empty'')
      else if \<not> idempotent
      then Inl (ValueError ''Destinations must declare idempotent=True for resumable pipelines'')
      else Inr ())"

definition check_item :: "string \<Rightarrow> string \<Rightarrow> transform_item \<Rightarrow> sdk_error + envelope" where
  "check_item name stream x =
     (case x of
        OtherItem \<Rightarrow> Inl (ProtocolError (''Transform '' @ name @ '' returned a non-Envelope value''))
      | EnvelopeItem e \<Rightarrow>
          if en_stream e \<noteq> stream
          then Inl (ProtocolError (''Transform '' @ name @ '' moved a record from stream '' @ py_quote stream
            @ '' to '' @ py_quote (en_stream e)))
          else Inr e)"

fun apply_transforms :: "transform list \<Rightarrow> string \<Rightarrow> envelope list \<Rightarrow> sdk_error + envelope list" where
  "apply_transforms [] stream es = Inr es"
| "apply_transforms ((name, t) # ts) stream es =
     (case t es of
        Raises x \<Rightarrow> Inl x
      | NotIterable \<Rightarrow> Inl (ProtocolError (''Transform '' @ name @ '' returned a non-iterable result''))
      | Items xs \<Rightarrow> bind_res (map_res (check_item name stream) xs) (apply_transforms ts stream))"

subsection \<open>Durable calls\<close>

definition then_do :: "('e + 'a) \<times> 'w \<Rightarrow> ('a \<Rightarrow> 'w \<Rightarrow> ('e + 'b) \<times> 'w) \<Rightarrow> ('e + 'b) \<times> 'w" where
  "then_do r f = (case r of (Inl e, w) \<Rightarrow> (Inl e, w) | (Inr a, w) \<Rightarrow> f a w)"

lemma then_do_simps [simp]: "then_do (Inl e, w) f = (Inl e, w)" "then_do (Inr a, w) f = f a w"
  by (simp_all add: then_do_def)

lemma then_do_cong [fundef_cong]:
  "r = r' \<Longrightarrow> (\<And>a w. r' = (Inr a, w) \<Longrightarrow> f a w = g a w) \<Longrightarrow> then_do r f = then_do r' g"
  by (cases r') (auto simp: then_do_def split: sum.split)

text \<open>One more call, unless the interruption comes first.\<close>

definition tick :: "('d, 's) pworld \<Rightarrow> ('d, 's) pworld option" where
  "tick w = (case pw_calls w of None \<Rightarrow> Some w
     | Some n \<Rightarrow> if n = 0 then None else Some (w\<lparr>pw_calls := Some (n - 1)\<rparr>))"

definition durable_write :: "('d, 's) pipeline \<Rightarrow> nat \<Rightarrow> envelope list \<Rightarrow> ('d, 's) pworld
    \<Rightarrow> (sdk_error + int) \<times> ('d, 's) pworld" where
  "durable_write p torn es w = (case tick w of
     None \<Rightarrow> (Inl Interrupted, w\<lparr>pw_dest := snd (pl_write p (pw_dest w) (take torn es))\<rparr>)
   | Some w \<Rightarrow> (let (r, d) = pl_write p (pw_dest w) es in (r, w\<lparr>pw_dest := d\<rparr>)))"

definition durable_flush :: "('d, 's) pipeline \<Rightarrow> ('d, 's) pworld \<Rightarrow> (sdk_error + unit) \<times> ('d, 's) pworld" where
  "durable_flush p w = (case tick w of
     None \<Rightarrow> (Inl Interrupted, w)
   | Some w \<Rightarrow> (let (r, d) = pl_flush p (pw_dest w) in (r, w\<lparr>pw_dest := d\<rparr>)))"

definition stream_key :: "('d, 's) pipeline \<Rightarrow> string \<Rightarrow> state_key" where
  "stream_key p stream = (pl_name p, pl_source p, stream)"

definition durable_save :: "('d, 's) pipeline \<Rightarrow> string \<Rightarrow> obj \<Rightarrow> ('d, 's) pworld
    \<Rightarrow> (sdk_error + unit) \<times> ('d, 's) pworld" where
  "durable_save p stream st w = (case tick w of
     None \<Rightarrow> (Inl Interrupted, w)
   | Some w \<Rightarrow> (Inr (), w\<lparr>pw_store := pl_save p (pw_store w) (stream_key p stream) st\<rparr>))"

subsection \<open>One run\<close>

text \<open>The branch of a state message: transform, write, flush, and only then save the checkpoint.\<close>

definition write_batch :: "('d, 's) pipeline \<Rightarrow> nat \<Rightarrow> string \<Rightarrow> envelope list \<Rightarrow> ('d, 's) pworld
    \<Rightarrow> (sdk_error + int) \<times> ('d, 's) pworld" where
  "write_batch p torn stream pending w =
     (if pending = [] then (Inr 0, w)
      else then_do (apply_transforms (pl_transforms p) stream pending, w) (\<lambda>transformed w.
           then_do (if transformed = [] then (Inr 0, w) else durable_write p torn transformed w) (\<lambda>n w.
           if \<not> (0 \<le> n \<and> n \<le> int (length transformed))
           then (Inl (ProtocolError ''Destination returned an invalid newly-written record count''), w)
           else then_do (durable_flush p w) (\<lambda>_ w. (Inr n, w)))))"

definition commit_batch :: "('d, 's) pipeline \<Rightarrow> nat \<Rightarrow> string \<Rightarrow> envelope list \<Rightarrow> obj \<Rightarrow> ('d, 's) pworld
    \<Rightarrow> (sdk_error + int) \<times> ('d, 's) pworld" where
  "commit_batch p torn stream pending st w =
     then_do (write_batch p torn stream pending w) (\<lambda>n w.
     then_do (durable_save p stream st w) (\<lambda>_ w. (Inr n, w)))"

definition handle_event :: "('d, 's) pipeline \<Rightarrow> source_message \<Rightarrow> ('d, 's) pworld
    \<Rightarrow> (sdk_error + unit) \<times> ('d, 's) pworld" where
  "handle_event p m w = (case pl_on_event p of
     None \<Rightarrow> (Inr (), w)
   | Some h \<Rightarrow> ((case h m of None \<Rightarrow> Inr () | Some x \<Rightarrow> Inl x), w\<lparr>pw_events := pw_events w @ [m]\<rparr>))"

text \<open>The loop over the messages of one stream; \<open>n\<close> records and \<open>k\<close> checkpoints so far.\<close>

fun consume :: "('d, 's) pipeline \<Rightarrow> nat \<Rightarrow> string \<Rightarrow> sdk_error option \<Rightarrow> source_message list
    \<Rightarrow> envelope list \<Rightarrow> bool \<Rightarrow> int \<Rightarrow> nat \<Rightarrow> ('d, 's) pworld
    \<Rightarrow> (sdk_error + int \<times> nat) \<times> ('d, 's) pworld" where
  "consume p torn stream ended [] pending saw n k w =
     (case ended of
        Some x \<Rightarrow> (Inl x, w)
      | None \<Rightarrow>
          if pending \<noteq> [] \<or> \<not> saw
          then (Inl (ProtocolError (''Source '' @ py_quote (pl_source p) @ '' ended stream '' @ py_quote stream
            @ '' with uncheckpointed records'')), w)
          else (Inr (n, k), w))"
| "consume p torn stream ended (RecordMessage e # ms) pending saw n k w =
     (if en_stream e \<noteq> stream
      then (Inl (ProtocolError (''Source emitted stream '' @ py_quote (en_stream e) @ '' while reading ''
        @ py_quote stream)), w)
      else consume p torn stream ended ms (pending @ [e]) False n k w)"
| "consume p torn stream ended (StateMessage name st # ms) pending saw n k w =
     (if name \<noteq> stream then (Inl (ProtocolError ''State checkpoint belongs to a different stream''), w)
      else then_do (commit_batch p torn stream pending st w) (\<lambda>m w.
           consume p torn stream ended ms [] True (n + m) (Suc k) w))"
| "consume p torn stream ended (OtherMessage ty # ms) pending saw n k w =
     (Inl (ProtocolError (''Source emitted unsupported message type '' @ ty)), w)"
| "consume p torn stream ended (m # ms) pending saw n k w =
     then_do (handle_event p m w) (\<lambda>_ w. consume p torn stream ended ms pending saw n k w)"

fun run_streams :: "('d, 's) pipeline \<Rightarrow> nat \<Rightarrow> (nat \<Rightarrow> time) \<Rightarrow> string list \<Rightarrow> int \<Rightarrow> nat
    \<Rightarrow> ('d, 's) pworld \<Rightarrow> (sdk_error + int \<times> nat) \<times> ('d, 's) pworld" where
  "run_streams p torn clock [] n k w = (Inr (n, k), w)"
| "run_streams p torn clock (stream # streams) n k w =
     (let (ms, ended) = pl_read p clock stream (pl_load p (pw_store w) (stream_key p stream)) in
      then_do (consume p torn stream ended ms [] True n k w) (\<lambda>(n, k) w. run_streams p torn clock streams n k w))"

text \<open>\<open>_close_resources\<close> calls every callback and raises the first error.\<close>

fun close_resources :: "sdk_error option list \<Rightarrow> sdk_error option" where
  "close_resources [] = None"
| "close_resources (None # cs) = close_resources cs"
| "close_resources (Some x # cs) = Some x"

definition run_body :: "('d, 's) pipeline \<Rightarrow> nat \<Rightarrow> (nat \<Rightarrow> time) \<Rightarrow> string list \<Rightarrow> ('d, 's) pworld
    \<Rightarrow> (sdk_error + pipeline_result) \<times> ('d, 's) pworld" where
  "run_body p torn clock streams w =
     (if \<not> fst (pl_source_check p)
      then (Inl (ProtocolError (''Source check failed: '' @ snd (pl_source_check p))), w)
      else if \<not> fst (pl_dest_check p)
      then (Inl (ProtocolError (''Destination check failed: '' @ snd (pl_dest_check p))), w)
      else then_do (if streams \<noteq> [] then Inr streams else pl_discover p, w) (\<lambda>selected w.
           then_do (run_streams p torn clock selected 0 0 w) (\<lambda>(n, k) w.
           (Inr \<lparr>pr_pipeline = pl_name p, pr_streams_processed = length selected,
              pr_records_written = n, pr_checkpoints_committed = k\<rparr>, w))))"

definition pipeline_run :: "('d, 's) pipeline \<Rightarrow> nat \<Rightarrow> (nat \<Rightarrow> time) \<Rightarrow> string list \<Rightarrow> ('d, 's) pworld
    \<Rightarrow> (sdk_error + pipeline_result) \<times> ('d, 's) pworld" where
  "pipeline_run p torn clock streams w =
     (let (r, w) = run_body p torn clock streams w in
      ((case (r, close_resources (pl_close p)) of
          (Inr v, Some x) \<Rightarrow> Inl x
        | _ \<Rightarrow> r), w))"

subsection \<open>What a run is to deliver\<close>

text \<open>The records that reach the destination when the messages are consumed to their end.\<close>

definition batch_output :: "transform list \<Rightarrow> string \<Rightarrow> envelope list \<Rightarrow> envelope list" where
  "batch_output ts stream pending =
     (if pending = [] then [] else case apply_transforms ts stream pending of Inl _ \<Rightarrow> [] | Inr es \<Rightarrow> es)"

fun delivered :: "transform list \<Rightarrow> string \<Rightarrow> source_message list \<Rightarrow> envelope list \<Rightarrow> envelope list" where
  "delivered ts stream [] pending = []"
| "delivered ts stream (RecordMessage e # ms) pending = delivered ts stream ms (pending @ [e])"
| "delivered ts stream (StateMessage _ _ # ms) pending = batch_output ts stream pending @ delivered ts stream ms []"
| "delivered ts stream (_ # ms) pending = delivered ts stream ms pending"

fun last_checkpoint :: "source_message list \<Rightarrow> obj option" where
  "last_checkpoint [] = None"
| "last_checkpoint (StateMessage _ st # ms) = (case last_checkpoint ms of None \<Rightarrow> Some st | Some x \<Rightarrow> Some x)"
| "last_checkpoint (_ # ms) = last_checkpoint ms"

fun message_of :: "string \<Rightarrow> source_message \<Rightarrow> bool" where
  "message_of stream (RecordMessage e) = (en_stream e = stream)"
| "message_of stream (StateMessage name _) = (name = stream)"
| "message_of stream _ = False"

text \<open>Two readings of the same data at different times.\<close>

fun same_message :: "source_message \<Rightarrow> source_message \<Rightarrow> bool" where
  "same_message (RecordMessage e) m = (case m of RecordMessage e' \<Rightarrow> same_version e e' | _ \<Rightarrow> False)"
| "same_message (StateMessage n st) m = (m = StateMessage n st)"
| "same_message _ m = False"

text \<open>Transforms that neither fail nor look at the time or place of an observation.\<close>

definition replayable :: "transform list \<Rightarrow> string \<Rightarrow> bool" where
  "replayable ts stream \<longleftrightarrow>
     (\<forall>es es'. list_all (\<lambda>e. en_stream e = stream) es \<longrightarrow> list_all2 same_version es es' \<longrightarrow>
        (\<exists>rs rs'. apply_transforms ts stream es = Inr rs \<and> apply_transforms ts stream es' = Inr rs' \<and>
           list_all2 same_version rs rs'))"

lemma replayable_Nil [simp]: "replayable [] stream"
  by (simp add: replayable_def)

lemma same_version_sym: "same_version a b \<Longrightarrow> same_version b a"
  by (simp add: same_version_def)

lemma replayable_total:
  assumes "replayable ts stream" "list_all (\<lambda>e. en_stream e = stream) es"
  obtains rs where "apply_transforms ts stream es = Inr rs"
  using assms list_all2_refl [of same_version es] unfolding replayable_def by (meson same_version_refl)

lemma delivered_same:
  assumes "replayable ts stream" "list_all2 same_message ms ms'" "list_all2 same_version es es'"
    "list_all (message_of stream) ms" "list_all (\<lambda>e. en_stream e = stream) es"
  shows "list_all2 same_version (delivered ts stream ms es) (delivered ts stream ms' es')"
  using assms(2-)
proof (induction ms arbitrary: es ms' es')
  case (Cons m ms)
  then obtain m' ms2 where ms': "ms' = m' # ms2" "same_message m m'" "list_all2 same_message ms ms2"
    by (auto simp: list_all2_Cons1)
  show ?case
  proof (cases m)
    case (RecordMessage e)
    then obtain e' where m': "m' = RecordMessage e'" "same_version e e'"
      using ms'(2) by (auto split: source_message.splits)
    have "list_all2 same_version (delivered ts stream ms (es @ [e])) (delivered ts stream ms2 (es' @ [e']))"
      by (rule Cons.IH) (use Cons.prems ms'(3) m'(2) RecordMessage in \<open>auto intro: list_all2_appendI\<close>)
    then show ?thesis by (simp add: RecordMessage ms'(1) m'(1))
  next
    case (StateMessage name st)
    have m': "m' = StateMessage name st" using ms'(2) StateMessage by simp
    have "list_all2 same_version (batch_output ts stream es) (batch_output ts stream es')"
    proof (cases es)
      case Nil
      then show ?thesis using Cons.prems by (simp add: batch_output_def)
    next
      case (Cons e1 es1)
      obtain rs rs' where "apply_transforms ts stream es = Inr rs" "apply_transforms ts stream es' = Inr rs'"
          "list_all2 same_version rs rs'"
        using assms(1) Cons.prems(2,4) unfolding replayable_def by blast
      then show ?thesis using Cons Cons.prems(2) by (auto simp: batch_output_def list_all2_Cons1)
    qed
    moreover have "list_all2 same_version (delivered ts stream ms []) (delivered ts stream ms2 [])"
      by (rule Cons.IH) (use Cons.prems ms'(3) in auto)
    ultimately show ?thesis by (simp add: StateMessage ms'(1) m' list_all2_appendI)
  qed (use ms'(2) in auto)
qed simp

lemma same_message_cases:
  assumes "same_message m m'"
  obtains e e' where "m = RecordMessage e" "m' = RecordMessage e'" "same_version e e'"
    | n st where "m = StateMessage n st" "m' = StateMessage n st"
  using assms by (cases m; cases m') auto

lemma last_checkpoint_same: "list_all2 same_message ms ms' \<Longrightarrow> last_checkpoint ms = last_checkpoint ms'"
proof (induction ms arbitrary: ms')
  case (Cons m ms)
  then obtain m' ms2 where ms': "ms' = m' # ms2" "same_message m m'" "list_all2 same_message ms ms2"
    by (auto simp: list_all2_Cons1)
  from ms'(2) show ?case by (cases rule: same_message_cases) (use Cons.IH [OF ms'(3)] ms'(1) in simp_all)
qed simp

subsection \<open>Interrupted attempts\<close>

record attempt =
  at_clock :: "nat \<Rightarrow> time"
  at_calls :: "nat option"
  at_torn :: nat

text \<open>Every attempt opens its resources anew.\<close>

definition attempt_run :: "('d, 's) pipeline \<Rightarrow> ('d \<Rightarrow> 'd) \<Rightarrow> attempt \<Rightarrow> ('d, 's) pworld
    \<Rightarrow> (sdk_error + pipeline_result) \<times> ('d, 's) pworld" where
  "attempt_run p reopen a w =
     pipeline_run p (at_torn a) (at_clock a) [] (w\<lparr>pw_dest := reopen (pw_dest w), pw_calls := at_calls a\<rparr>)"

fun attempts :: "('d, 's) pipeline \<Rightarrow> ('d \<Rightarrow> 'd) \<Rightarrow> attempt list \<Rightarrow> ('d, 's) pworld \<Rightarrow> ('d, 's) pworld" where
  "attempts p reopen [] w = w"
| "attempts p reopen (a # as) w = attempts p reopen as (snd (attempt_run p reopen a w))"

locale resumable_pipeline =
  state_store load save norm + idempotent_destination put ok view vkey absorb
  for load :: "'s \<Rightarrow> state_key \<Rightarrow> obj" and save and norm
    and put :: "'d \<Rightarrow> envelope list \<Rightarrow> (sdk_error + nat) \<times> 'd" and ok
    and view :: "'d \<Rightarrow> 'v" and vkey :: "envelope \<Rightarrow> 'k" and absorb +
  fixes p :: "('d, 's) pipeline" and stream :: string and good :: "obj \<Rightarrow> bool" and reopen :: "'d \<Rightarrow> 'd"
  assumes store: "pl_load p = load" "pl_save p = save"
    and dest: "pl_write p d es = map_prod (map_sum id int) id (put d es)" "pl_flush p d = (Inr (), d)"
    and put_total: "ok d \<Longrightarrow> \<exists>n. fst (put d es) = Inr n"
    and reopen: "ok d \<Longrightarrow> ok (reopen d) \<and> view (reopen d) = view d"
    and vkey: "same_version e e' \<Longrightarrow> vkey e = vkey e'"
    and transforms: "replayable (pl_transforms p) stream"
    and checks: "fst (pl_source_check p)" "fst (pl_dest_check p)" "pl_discover p = Inr [stream]"
      "close_resources (pl_close p) = None"
    and read_ends: "good s \<Longrightarrow> \<exists>ms. pl_read p clock stream s = (ms, None) \<and> list_all (message_of stream) ms \<and>
      (\<exists>st. last ms = StateMessage stream st) \<and> ms \<noteq> []"
    and read_resumes: "good s \<Longrightarrow> pl_read p clock stream s = (pre @ StateMessage stream st # post, None) \<Longrightarrow>
      good (norm st) \<and> pl_read p clock stream (norm st) = (if post = [] then [StateMessage stream st] else post, None)"
    and read_again: "good s \<Longrightarrow>
      list_all2 same_message (fst (pl_read p clock stream s)) (fst (pl_read p clock' stream s))"
begin

definition state_of :: "('d, 's) pworld \<Rightarrow> obj" where
  "state_of w = load (pw_store w) (stream_key p stream)"

text \<open>What a reader that starts in a state would still deliver, and the checkpoint it ends with.\<close>

definition remaining :: "(nat \<Rightarrow> time) \<Rightarrow> obj \<Rightarrow> envelope list" where
  "remaining clock s = delivered (pl_transforms p) stream (fst (pl_read p clock stream s)) []"

definition ending :: "source_message list \<Rightarrow> obj \<Rightarrow> obj" where
  "ending ms s = (case last_checkpoint ms of None \<Rightarrow> s | Some st \<Rightarrow> norm st)"

definition goal :: "(nat \<Rightarrow> time) \<Rightarrow> obj \<Rightarrow> obj" where
  "goal clock s = ending (fst (pl_read p clock stream s)) s"

lemma list_all2_vkey: "list_all2 same_version es es' \<Longrightarrow> map vkey es = map vkey es'"
  by (induction rule: list_all2_induct) (simp_all add: vkey)

lemma remaining_clock: "good s \<Longrightarrow> map vkey (remaining clock s) = map vkey (remaining clock' s)"
  unfolding remaining_def
  by (intro list_all2_vkey delivered_same [OF transforms] read_again)
     (use read_ends [of s clock] in auto)

lemma goal_clock: "good s \<Longrightarrow> goal clock s = goal clock' s"
  using last_checkpoint_same [OF read_again [of s clock clock']] by (simp add: goal_def ending_def)

lemma write_batch_effect:
  assumes "write_batch p torn stream pending w = (r, w')" "ok (pw_dest w)"
    "list_all (\<lambda>e. en_stream e = stream) pending"
  defines "B \<equiv> map vkey (batch_output (pl_transforms p) stream pending)"
  shows "pw_store w' = pw_store w" "ok (pw_dest w')"
    "\<exists>j. view (pw_dest w') = absorb (view (pw_dest w)) (take j B)"
    "is_ok r \<Longrightarrow> view (pw_dest w') = absorb (view (pw_dest w)) B"
    "pw_calls w = None \<Longrightarrow> is_ok r \<and> pw_calls w' = None"
proof -
  obtain es where es: "pending \<noteq> [] \<Longrightarrow> apply_transforms (pl_transforms p) stream pending = Inr es"
    by (meson assms(3) replayable_total transforms)
  let ?post = "pw_store w' = pw_store w \<and> ok (pw_dest w') \<and>
    (\<exists>j. view (pw_dest w') = absorb (view (pw_dest w)) (take j B)) \<and>
    (is_ok r \<longrightarrow> view (pw_dest w') = absorb (view (pw_dest w)) B) \<and>
    (pw_calls w = None \<longrightarrow> is_ok r \<and> pw_calls w' = None)"
  have nothing: "\<exists>j. v = absorb v (take j ks)" for v ks by (rule exI [of _ 0]) (simp add: absorb_nothing)
  have everything: "\<exists>j. absorb v ks = absorb v (take j ks)" for v ks by (rule exI [of _ "length ks"]) simp
  have ?post
  proof (cases "pending = [] \<or> es = []")
    case True
    then have "B = []" using es by (cases "pending = []") (auto simp: B_def batch_output_def)
    moreover have "pw_store w' = pw_store w \<and> pw_dest w' = pw_dest w \<and>
        (pw_calls w = None \<longrightarrow> is_ok r \<and> pw_calls w' = None)"
      using True es assms(1)
      by (cases "pending = []")
         (auto simp: write_batch_def durable_flush_def tick_def dest split: option.splits if_splits)
    ultimately show ?thesis using assms(2) by (simp add: absorb_nothing)
  next
    case False
    then have B: "B = map vkey es" and ap: "apply_transforms (pl_transforms p) stream pending = Inr es"
      using es by (auto simp: B_def batch_output_def)
    show ?thesis
    proof (cases "tick w")
      case None
      then have w': "r = Inl Interrupted" "w' = w\<lparr>pw_dest := snd (put (pw_dest w) (take torn es))\<rparr>"
        using False ap assms(1) by (auto simp: write_batch_def durable_write_def dest)
      obtain n where "fst (put (pw_dest w) (take torn es)) = Inr n" using put_total [OF assms(2)] by blast
      then have "view (pw_dest w') = absorb (view (pw_dest w)) (take torn B)"
        using write_view [OF assms(2)] by (simp add: w' B take_map)
      moreover have "pw_calls w \<noteq> None" using None by (auto simp: tick_def split: option.splits)
      ultimately show ?thesis using w' write_ok [OF assms(2)] by auto
    next
      case (Some w1)
      then have w1: "pw_dest w1 = pw_dest w" "pw_store w1 = pw_store w" "pw_calls w = None \<Longrightarrow> pw_calls w1 = None"
        by (auto simp: tick_def split: option.splits if_splits)
      obtain n where n: "fst (put (pw_dest w) es) = Inr n" using put_total [OF assms(2)] by blast
      note v = write_view [OF assms(2) n]
      let ?w2 = "w1\<lparr>pw_dest := snd (put (pw_dest w) es)\<rparr>"
      have e: "(r, w') = then_do (durable_flush p ?w2) (\<lambda>_ w. (Inr (int n), w))"
        using False ap assms(1) Some n v
        by (simp add: write_batch_def durable_write_def dest w1 case_prod_beta)
      have "pw_store w' = pw_store w \<and> pw_dest w' = snd (put (pw_dest w) es) \<and>
          (pw_calls w = None \<longrightarrow> is_ok r \<and> pw_calls w' = None)"
        using e w1 by (auto simp: durable_flush_def tick_def dest split: option.splits if_splits)
      then show ?thesis using v write_ok [OF assms(2)] everything by (simp add: B)
    qed
  qed
  then show "pw_store w' = pw_store w" "ok (pw_dest w')"
    "\<exists>j. view (pw_dest w') = absorb (view (pw_dest w)) (take j B)"
    "is_ok r \<Longrightarrow> view (pw_dest w') = absorb (view (pw_dest w)) B"
    "pw_calls w = None \<Longrightarrow> is_ok r \<and> pw_calls w' = None" by blast+
qed

text \<open>The branch of a state message: a prefix of the batch, or all of it and the new checkpoint.\<close>

lemma commit_batch_effect:
  assumes "commit_batch p torn stream pending st w = (r, w')" "ok (pw_dest w)"
    "list_all (\<lambda>e. en_stream e = stream) pending"
  defines "B \<equiv> map vkey (batch_output (pl_transforms p) stream pending)"
  shows "ok (pw_dest w')" "pw_calls w = None \<Longrightarrow> is_ok r \<and> pw_calls w' = None"
    "\<not> is_ok r \<Longrightarrow> state_of w' = state_of w \<and> (\<exists>j. view (pw_dest w') = absorb (view (pw_dest w)) (take j B))"
    "is_ok r \<Longrightarrow> state_of w' = norm st \<and> view (pw_dest w') = absorb (view (pw_dest w)) B"
proof -
  obtain r1 w1 where b: "write_batch p torn stream pending w = (r1, w1)" by fastforce
  note e = write_batch_effect [OF b assms(2,3), folded B_def]
  let ?post = "ok (pw_dest w') \<and> (pw_calls w = None \<longrightarrow> is_ok r \<and> pw_calls w' = None) \<and>
     (\<not> is_ok r \<longrightarrow> state_of w' = state_of w \<and> (\<exists>j. view (pw_dest w') = absorb (view (pw_dest w)) (take j B))) \<and>
     (is_ok r \<longrightarrow> state_of w' = norm st \<and> view (pw_dest w') = absorb (view (pw_dest w)) B)"
  have ?post
  proof (cases r1)
    case (Inl x)
    then show ?thesis using e assms(1) b by (auto simp: commit_batch_def state_of_def)
  next
    case (Inr n)
    show ?thesis
    proof (cases "tick w1")
      case None
      then have "r = Inl Interrupted" "w' = w1" "pw_calls w1 \<noteq> None"
        using assms(1) b Inr by (auto simp: commit_batch_def durable_save_def tick_def split: option.splits)
      then show ?thesis using e Inr by (cases "pw_calls w") (auto simp: state_of_def)
    next
      case (Some w2)
      then have w2: "pw_dest w2 = pw_dest w1" "pw_store w2 = pw_store w1" "pw_calls w1 = None \<Longrightarrow> pw_calls w2 = None"
        by (auto simp: tick_def split: option.splits if_splits)
      have "r = Inr n" "w' = w2\<lparr>pw_store := save (pw_store w2) (stream_key p stream) st\<rparr>"
        using assms(1) b Inr Some by (auto simp: commit_batch_def durable_save_def store)
      then show ?thesis using e Inr w2 by (auto simp: state_of_def load_saved)
    qed
  qed
  then show "ok (pw_dest w')" "pw_calls w = None \<Longrightarrow> is_ok r \<and> pw_calls w' = None"
    "\<not> is_ok r \<Longrightarrow> state_of w' = state_of w \<and> (\<exists>j. view (pw_dest w') = absorb (view (pw_dest w)) (take j B))"
    "is_ok r \<Longrightarrow> state_of w' = norm st \<and> view (pw_dest w') = absorb (view (pw_dest w)) B" by blast+
qed

text \<open>
  The loop over the messages. Wherever it stops, what the stored checkpoint still promises to deliver
  completes what the destination holds to the same view.
\<close>

definition resumes_in :: "(nat \<Rightarrow> time) \<Rightarrow> source_message list \<Rightarrow> bool" where
  "resumes_in clock ms \<longleftrightarrow> (\<forall>pre st post. ms = pre @ StateMessage stream st # post \<longrightarrow>
     good (norm st) \<and> pl_read p clock stream (norm st) = (if post = [] then [StateMessage stream st] else post, None))"

lemma resumes_in_head: "resumes_in clock (StateMessage stream st # ms) \<Longrightarrow>
  good (norm st) \<and> pl_read p clock stream (norm st) = (if ms = [] then [StateMessage stream st] else ms, None)"
  unfolding resumes_in_def by (metis append_Nil)

lemma resumes_in_Cons: "resumes_in clock (m # ms) \<Longrightarrow> resumes_in clock ms"
  unfolding resumes_in_def by (metis append_Cons)

definition settled :: "(nat \<Rightarrow> time) \<Rightarrow> 'v \<Rightarrow> obj \<Rightarrow> ('d, 's) pworld \<Rightarrow> bool" where
  "settled clock target final w \<longleftrightarrow> ok (pw_dest w) \<and> good (state_of w) \<and> goal clock (state_of w) = final \<and>
     absorb (view (pw_dest w)) (map vkey (remaining clock (state_of w))) = target"

lemma consume_settles:
  assumes "consume p torn stream None ms pending saw n k w = (r, w')"
    "list_all (message_of stream) ms" "list_all (\<lambda>e. en_stream e = stream) pending"
    "if ms = [] then pending = [] else \<exists>st. last ms = StateMessage stream st" "pending = [] \<Longrightarrow> saw"
    "resumes_in clock ms" "ok (pw_dest w)" "good (state_of w)"
    "remaining clock (state_of w) = delivered (pl_transforms p) stream ms pending"
    "goal clock (state_of w) = ending ms (state_of w)"
  shows "settled clock (absorb (view (pw_dest w)) (map vkey (delivered (pl_transforms p) stream ms pending)))
      (ending ms (state_of w)) w'"
    and "pw_calls w = None \<Longrightarrow> is_ok r \<and> remaining clock (state_of w') = [] \<and> state_of w' = ending ms (state_of w)"
proof -
  have "settled clock (absorb (view (pw_dest w)) (map vkey (delivered (pl_transforms p) stream ms pending)))
      (ending ms (state_of w)) w' \<and>
    (pw_calls w = None \<longrightarrow> is_ok r \<and> remaining clock (state_of w') = [] \<and> state_of w' = ending ms (state_of w))"
    using assms
  proof (induction ms arbitrary: pending saw n k w)
    case Nil
    then have "w' = w" "is_ok r" by auto
    then show ?case using Nil.prems by (simp add: settled_def ending_def)
  next
    case (Cons m ms)
    show ?case
    proof (cases m)
      case (RecordMessage e)
      have "ms \<noteq> []" using Cons.prems(4) RecordMessage by auto
      then have "settled clock (absorb (view (pw_dest w))
            (map vkey (delivered (pl_transforms p) stream ms (pending @ [e])))) (ending ms (state_of w)) w' \<and>
        (pw_calls w = None \<longrightarrow> is_ok r \<and> remaining clock (state_of w') = [] \<and> state_of w' = ending ms (state_of w))"
        by (intro Cons.IH [of "pending @ [e]" False n k w])
           (use Cons.prems resumes_in_Cons [OF Cons.prems(6)] in \<open>simp_all add: RecordMessage ending_def\<close>)
      moreover have "delivered (pl_transforms p) stream (m # ms) pending = delivered (pl_transforms p) stream ms (pending @ [e])"
        "ending (m # ms) (state_of w) = ending ms (state_of w)" by (simp_all add: RecordMessage ending_def)
      ultimately show ?thesis by metis
    next
      case (StateMessage name st)
      have name: "name = stream" using Cons.prems(2) StateMessage by simp
      obtain r1 w1 where c: "commit_batch p torn stream pending st w = (r1, w1)" by fastforce
      note e = commit_batch_effect [OF c Cons.prems(7,3)]
      let ?B = "map vkey (batch_output (pl_transforms p) stream pending)"
      let ?R = "map vkey (delivered (pl_transforms p) stream ms [])"
      have all: "map vkey (delivered (pl_transforms p) stream (m # ms) pending) = ?B @ ?R"
        by (simp add: StateMessage)
      show ?thesis
      proof (cases r1)
        case (Inl x)
        then have r: "r = Inl x" "w' = w1" using Cons.prems(1) c by (auto simp: StateMessage name)
        have "settled clock (absorb (view (pw_dest w)) (?B @ ?R)) (ending (m # ms) (state_of w)) w1"
          using e(1,3) Inl Cons.prems(8-10) all by (auto simp: settled_def replay_prefix)
        then show ?thesis using e(2) r Inl unfolding all by (cases "pw_calls w") simp_all
      next
        case (Inr x)
        have next_run: "consume p torn stream None ms [] True (n + x) (Suc k) w1 = (r, w')"
          using Cons.prems(1) c Inr by (simp add: StateMessage name)
        have st: "state_of w1 = norm st" "view (pw_dest w1) = absorb (view (pw_dest w)) ?B"
          using e(4) Inr by auto
        have good: "good (norm st)"
          "pl_read p clock stream (norm st) = (if ms = [] then [StateMessage stream st] else ms, None)"
          using resumes_in_head Cons.prems(6) by (simp_all add: StateMessage name)
        have rem: "remaining clock (norm st) = delivered (pl_transforms p) stream ms []"
          using good(2) by (simp add: remaining_def batch_output_def)
        have last: "ms \<noteq> [] \<Longrightarrow> \<exists>st. last ms = StateMessage stream st" using Cons.prems(4) by simp
        have goal: "goal clock (norm st) = ending ms (norm st)"
          using good(2) by (simp add: goal_def ending_def)
        have ending: "ending (m # ms) (state_of w) = ending ms (norm st)"
          by (simp add: ending_def StateMessage split: option.split)
        have "settled clock (absorb (view (pw_dest w1)) ?R) (ending ms (state_of w1)) w' \<and>
          (pw_calls w1 = None \<longrightarrow> is_ok r \<and> remaining clock (state_of w') = [] \<and> state_of w' = ending ms (state_of w1))"
          by (rule Cons.IH [OF next_run])
             (use Cons.prems(2) resumes_in_Cons [OF Cons.prems(6)] e(1) good(1) rem goal last in \<open>simp_all add: st\<close>)
        then show ?thesis using e(2) unfolding all st ending absorb_append by metis
      qed
    qed (use Cons.prems(2) in auto)
  qed
  then show "settled clock (absorb (view (pw_dest w)) (map vkey (delivered (pl_transforms p) stream ms pending)))
      (ending ms (state_of w)) w'"
    and "pw_calls w = None \<Longrightarrow> is_ok r \<and> remaining clock (state_of w') = [] \<and> state_of w' = ending ms (state_of w)"
    by blast+
qed

lemma attempt_settles:
  assumes "ok (pw_dest w)" "good (state_of w)" "attempt_run p reopen a w = (r, w')"
  shows "settled clock (absorb (view (pw_dest w)) (map vkey (remaining clock (state_of w))))
      (goal clock (state_of w)) w'"
    and "at_calls a = None \<Longrightarrow> is_ok r \<and> state_of w' = goal clock (state_of w) \<and>
      view (pw_dest w') = absorb (view (pw_dest w)) (map vkey (remaining clock (state_of w)))"
proof -
  let ?w = "w\<lparr>pw_dest := reopen (pw_dest w), pw_calls := at_calls a\<rparr>" and ?c = "at_clock a"
  have st: "state_of ?w = state_of w" by (simp add: state_of_def)
  obtain ms where ms: "pl_read p ?c stream (state_of w) = (ms, None)" "list_all (message_of stream) ms"
      "\<exists>st. last ms = StateMessage stream st" "ms \<noteq> []"
    using read_ends [OF assms(2)] by blast
  have resumes: "resumes_in ?c ms"
    unfolding resumes_in_def using read_resumes [OF assms(2)] ms(1) by blast
  obtain r1 w1 where c: "consume p (at_torn a) stream None ms [] True 0 0 ?w = (r1, w1)" by fastforce
  have "w' = w1" "is_ok r \<longleftrightarrow> is_ok r1"
    using assms(3) c ms(1)
    by (auto simp: attempt_run_def pipeline_run_def run_body_def checks store state_of_def case_prod_beta
        then_do_def is_ok_def split: sum.splits)
  note run = this
  note settle = consume_settles [OF c ms(2) _ _ _ resumes, unfolded st]
  have start: "remaining ?c (state_of w) = delivered (pl_transforms p) stream ms []"
    "goal ?c (state_of w) = ending ms (state_of w)"
    using ms(1) by (simp_all add: remaining_def goal_def)
  have now: "settled ?c (absorb (view (pw_dest w)) (map vkey (remaining ?c (state_of w)))) (goal ?c (state_of w)) w1"
    using settle(1) reopen [OF assms(1)] assms(2) ms(3,4) start by simp
  have good1: "good (state_of w1)" using now by (simp add: settled_def)
  show "settled clock (absorb (view (pw_dest w)) (map vkey (remaining clock (state_of w)))) (goal clock (state_of w)) w'"
    using now unfolding run settled_def
    by (simp add: remaining_clock [OF good1, of clock ?c] remaining_clock [OF assms(2), of clock ?c]
        goal_clock [OF good1, of clock ?c] goal_clock [OF assms(2), of clock ?c])
  assume "at_calls a = None"
  then have "is_ok r1 \<and> remaining ?c (state_of w1) = [] \<and> state_of w1 = ending ms (state_of w)"
    by (intro settle(2)) (use reopen [OF assms(1)] assms(2) ms(3,4) start in simp_all)
  then have "is_ok r1 \<and> remaining ?c (state_of w1) = [] \<and> state_of w1 = goal ?c (state_of w)"
    unfolding start .
  note whole = this
  have "absorb (view (pw_dest w1)) (map vkey (remaining ?c (state_of w1))) =
      absorb (view (pw_dest w)) (map vkey (remaining ?c (state_of w)))"
    using now by (simp only: settled_def)
  moreover have "remaining ?c (state_of w1) = []" using whole by blast
  ultimately have "view (pw_dest w1) = absorb (view (pw_dest w)) (map vkey (remaining ?c (state_of w)))"
    by (simp only: list.map absorb_nothing)
  then show "is_ok r \<and> state_of w' = goal clock (state_of w) \<and>
      view (pw_dest w') = absorb (view (pw_dest w)) (map vkey (remaining clock (state_of w)))"
    using whole run by (simp add: remaining_clock [OF assms(2), of clock ?c] goal_clock [OF assms(2), of clock ?c])
qed

lemma attempts_settle:
  assumes "settled clock target final w"
  shows "settled clock target final (attempts p reopen as w)"
  using assms
proof (induction "as" arbitrary: w)
  case (Cons a "as")
  obtain r w1 where a: "attempt_run p reopen a w = (r, w1)" by fastforce
  have "settled clock target final w1"
    using attempt_settles(1) [OF _ _ a, of clock] Cons.prems by (simp add: settled_def)
  from Cons.IH [OF this] show ?case by (simp add: a)
qed simp

lemma effectively_once:
  assumes "ok (pw_dest w)" "good (state_of w)" "at_calls fin = None"
    "attempt_run p reopen fin (attempts p reopen as w) = (r, w')"
  shows "is_ok r \<and> ok (pw_dest w') \<and> state_of w' = goal clock (state_of w) \<and>
    view (pw_dest w') = absorb (view (pw_dest w)) (map vkey (remaining clock (state_of w)))"
proof -
  let ?w = "attempts p reopen as w"
  have s: "settled clock (absorb (view (pw_dest w)) (map vkey (remaining clock (state_of w)))) (goal clock (state_of w)) ?w"
    by (rule attempts_settle) (simp add: settled_def assms)
  then have ok: "ok (pw_dest ?w)" "good (state_of ?w)" by (simp_all add: settled_def)
  show ?thesis using attempt_settles [OF ok assms(4), of clock] assms(3) s by (simp add: settled_def)
qed

end

end
