(* ===== verification/SdkJsonl.thy ===== *)
theory SdkJsonl
  imports SdkPipeline
begin

text \<open>
  The resumable JSON Lines source (\<open>sdk/src/ingestion_graph/sources/jsonl.py\<close>): byte-offset
  checkpoints, validated by the hash of everything before the offset, and checkpoints after every full
  batch and at the end. The file is a list of bytes; \<open>json.loads\<close> is the parameter \<open>loads\<close>. Together
  with the JSON Lines destination or the SQLite collection and a SQLite state store it makes the
  pipelines of the command line; both are shown to be effectively once.
\<close>

subsection \<open>The source\<close>

record jsonl_source =
  js_path :: string
  js_resolved :: string
  js_stream :: string
  js_id_field :: string
  js_operation_field :: string
  js_batch_size :: int

definition make_jsonl_source :: "string \<Rightarrow> string \<Rightarrow> string \<Rightarrow> string option \<Rightarrow> string \<Rightarrow> string \<Rightarrow> int
    \<Rightarrow> sdk_error + jsonl_source" where
  "make_jsonl_source path stem resolved stream id_field operation_field batch_size =
     (let st = (case stream of Some s \<Rightarrow> if s = [] then stem else s | None \<Rightarrow> stem) in
      if st = [] then Inl (ConfigurationError ''JSONL stream must not be empty'')
      else if id_field = [] then Inl (ConfigurationError ''JSONL id_field must not be empty'')
      else if operation_field = [] then Inl (ConfigurationError ''JSONL operation_field must not be empty'')
      else if batch_size < 1 then Inl (ConfigurationError ''JSONL batch_size must be positive'')
      else Inr \<lparr>js_path = path, js_resolved = resolved, js_stream = st, js_id_field = id_field,
                js_operation_field = operation_field, js_batch_size = batch_size\<rparr>)"

definition jsonl_checkpoint :: "pytext \<Rightarrow> string \<Rightarrow> int \<Rightarrow> obj" where
  "jsonl_checkpoint tx before line =
     [(''byte_offset'', JInt (int (length before))), (''line_number'', JInt line),
      (''prefix_sha256'', JStr (tx_sha tx before))]"

definition state_int :: "obj \<Rightarrow> string \<Rightarrow> sdk_error + nat" where
  "state_int st key =
     (case dict_get_or st key (JInt 0) of
        JInt i \<Rightarrow> if i < 0 then Inl (ConfigurationError (''JSONL checkpoint '' @ key @ '' must be a non-negative integer''))
          else Inr (nat i)
      | _ \<Rightarrow> Inl (ConfigurationError (''JSONL checkpoint '' @ key @ '' must be a non-negative integer'')))"

text \<open>\<open>handle.readline()\<close>: up to and including the next newline.\<close>

definition read_line :: "string \<Rightarrow> string \<times> string" where
  "read_line bytes =
     (let line = takeWhile (\<lambda>c. c \<noteq> CHR 0x0A) bytes; rest = dropWhile (\<lambda>c. c \<noteq> CHR 0x0A) bytes in
      case rest of [] \<Rightarrow> (line, []) | c # cs \<Rightarrow> (line @ [c], cs))"

lemma read_line_append: "fst (read_line bytes) @ snd (read_line bytes) = bytes"
  by (auto simp: read_line_def Let_def split: list.split)
     (metis append.right_neutral takeWhile_dropWhile_id)+

lemma read_line_shorter: "bytes \<noteq> [] \<Longrightarrow> length (snd (read_line bytes)) < length bytes"
proof -
  assume "bytes \<noteq> []"
  then have "fst (read_line bytes) \<noteq> []"
    by (cases bytes) (auto simp: read_line_def Let_def split: list.split)
  then show ?thesis using read_line_append [of bytes] by (metis length_append length_greater_0_conv less_add_same_cancel2)
qed

definition decode_line :: "(string \<Rightarrow> json option) \<Rightarrow> string \<Rightarrow> int \<Rightarrow> sdk_error + obj" where
  "decode_line loads raw line =
     (case loads raw of
        None \<Rightarrow> Inl (ConfigurationError (''JSONL line '' @ int_str line @ '' is not valid UTF-8 JSON''))
      | Some (JObj d) \<Rightarrow> Inr d
      | Some _ \<Rightarrow> Inl (ConfigurationError (''JSONL line '' @ int_str line @ '' must contain a JSON object'')))"

definition native_id :: "jsonl_source \<Rightarrow> obj \<Rightarrow> int \<Rightarrow> json" where
  "native_id src item line =
     (let v = dict_get_or item (js_id_field src) (JInt line) in if v = JNull then JInt line else v)"

text \<open>One line, which ends at byte \<open>offset\<close>.\<close>

definition line_record :: "pytext \<Rightarrow> (string \<Rightarrow> json option) \<Rightarrow> jsonl_source \<Rightarrow> time \<Rightarrow> string \<Rightarrow> int \<Rightarrow> nat
    \<Rightarrow> sdk_error + envelope" where
  "line_record tx loads src now raw line offset =
     bind_res (decode_line loads raw line) (\<lambda>item.
       let native = py_str (tx_repr tx) (native_id src item line);
           value = dict_get_or item (js_operation_field src) (JStr ''upsert'') in
       case parse_operation (py_lower (py_str (tx_repr tx) value)) of
         None \<Rightarrow> Inl (ConfigurationError (''JSONL line '' @ int_str line @ '' has invalid operation ''
           @ tx_repr tx value))
       | Some oper \<Rightarrow>
           make_envelope \<lparr>en_id = stable_record_id tx ''jsonl'' (js_stream src) native,
             en_source = ''jsonl'', en_stream = js_stream src,
             en_payload = (if oper = DELETE then Tombstone (Some ''deleted by JSONL input'') else RecordPayload item),
             en_operation = oper, en_schema_version = ''1'', en_observed_at = now, en_event_time = None,
             en_cursor = Some (int_str (int offset)), en_checksum = None,
             en_metadata = [(''native_id'', JStr native), (''line_number'', JInt line), (''path'', JStr (js_path src))],
             en_provenance = [(''connector'', JStr ''jsonl''), (''path'', JStr (js_resolved src))]\<rparr>)"

definition yield_then :: "source_message list \<Rightarrow> source_message list \<times> sdk_error option
    \<Rightarrow> source_message list \<times> sdk_error option" where
  "yield_then ms r = (ms @ fst r, snd r)"

text \<open>The loop: \<open>before\<close> are the bytes already hashed, \<open>emitted\<close> the records since the last checkpoint.\<close>

function read_lines :: "pytext \<Rightarrow> (string \<Rightarrow> json option) \<Rightarrow> jsonl_source \<Rightarrow> (nat \<Rightarrow> time) \<Rightarrow> string \<Rightarrow> string
    \<Rightarrow> int \<Rightarrow> int \<Rightarrow> source_message list \<times> sdk_error option" where
  "read_lines tx loads src clock rest before line emitted =
     (if rest = [] then ([StateMessage (js_stream src) (jsonl_checkpoint tx before line)], None)
      else let (raw, rest') = read_line rest; before' = before @ raw; line' = line + 1 in
        if strip raw = [] then read_lines tx loads src clock rest' before' line' emitted
        else case line_record tx loads src (clock (length before')) raw line' (length before') of
            Inl x \<Rightarrow> ([], Some x)
          | Inr e \<Rightarrow>
              if js_batch_size src \<le> emitted + 1
              then yield_then [RecordMessage e, StateMessage (js_stream src) (jsonl_checkpoint tx before' line')]
                     (read_lines tx loads src clock rest' before' line' 0)
              else yield_then [RecordMessage e] (read_lines tx loads src clock rest' before' line' (emitted + 1)))"
  by pat_completeness auto
termination
proof (relation "measure (\<lambda>(tx, loads, src, clock, rest, before, line, emitted). length rest)")
qed (auto dest: read_line_shorter simp: prod_eq_iff)

declare read_lines.simps [simp del]

definition jsonl_read :: "pytext \<Rightarrow> (string \<Rightarrow> json option) \<Rightarrow> jsonl_source \<Rightarrow> string \<Rightarrow> (nat \<Rightarrow> time) \<Rightarrow> string
    \<Rightarrow> obj \<Rightarrow> source_message list \<times> sdk_error option" where
  "jsonl_read tx loads src file clock stream st =
     (if stream \<noteq> js_stream src
      then ([], Some (ConfigurationError (''JSONL stream '' @ py_quote stream @ '' is not configured'')))
      else case bind_res (state_int st ''byte_offset'') (\<lambda>offset. bind_res (state_int st ''line_number'') (\<lambda>line.
          if obj_get st ''prefix_sha256'' \<noteq> JNull \<and> \<not> is_str (obj_get st ''prefix_sha256'')
          then Inl (ConfigurationError ''JSONL checkpoint prefix_sha256 must be a string'')
          else if length file < offset
          then Inl (ConfigurationError ''JSONL file is shorter than its saved checkpoint'')
          else if obj_get st ''prefix_sha256'' \<noteq> JNull \<and>
            obj_get st ''prefix_sha256'' \<noteq> JStr (tx_sha tx (take offset file))
          then Inl (ConfigurationError (''JSONL content before the saved checkpoint changed; use a new pipeline name ''
            @ ''or clear its state to re-ingest the file''))
          else Inr (offset, line))) of
        Inl x \<Rightarrow> ([], Some x)
      | Inr (offset, line) \<Rightarrow>
          read_lines tx loads src clock (drop offset file) (take offset file) (int line) 0)"

subsection \<open>Reading is resumable\<close>

lemma yield_then_simps [simp]: "fst (yield_then ms r) = ms @ fst r" "snd (yield_then ms r) = snd r"
  by (simp_all add: yield_then_def)

lemma yield_then_eq: "yield_then ms r = (xs, x) \<longleftrightarrow> (\<exists>ys. r = (ys, x) \<and> xs = ms @ ys)"
  by (cases r) (auto simp: yield_then_def)

lemma make_envelope_ok: "make_envelope e = Inr e' \<Longrightarrow> e' = e"
  by (auto simp: make_envelope_def split: if_splits)

lemma line_record_fields:
  "line_record tx loads src now raw line offset = Inr e \<Longrightarrow> en_stream e = js_stream src \<and> en_source e = ''jsonl''"
  by (auto simp: line_record_def bind_res_Inr Let_def split: option.splits dest!: make_envelope_ok)

text \<open>The time of a reading shows only in the records it makes.\<close>

lemma make_envelope_time:
  "make_envelope (e\<lparr>en_observed_at := t\<rparr>) =
     (case make_envelope e of Inl x \<Rightarrow> Inl x | Inr _ \<Rightarrow> Inr (e\<lparr>en_observed_at := t\<rparr>))"
  by (simp add: make_envelope_def)

lemma line_record_time:
  "line_record tx loads src now raw line offset =
     (case line_record tx loads src 0 raw line offset of Inl x \<Rightarrow> Inl x | Inr e \<Rightarrow> Inr (e\<lparr>en_observed_at := now\<rparr>))"
proof (cases "decode_line loads raw line")
  case (Inr item)
  let ?v = "dict_get_or item (js_operation_field src) (JStr ''upsert'')"
  show ?thesis
  proof (cases "parse_operation (py_lower (py_str (tx_repr tx) ?v))")
    case (Some oper)
    show ?thesis by (auto simp: line_record_def Inr Some make_envelope_def Let_def)
  qed (simp add: line_record_def Inr)
qed (simp add: line_record_def)

lemma line_record_times:
  assumes "line_record tx loads src now raw line offset = r" "line_record tx loads src now' raw line offset = r'"
  shows "(\<exists>x. r = Inl x \<and> r' = Inl x) \<or> (\<exists>e e'. r = Inr e \<and> r' = Inr e' \<and> same_version e e')"
proof (cases "line_record tx loads src 0 raw line offset")
  case (Inl x)
  then have "r = Inl x" "r' = Inl x"
    unfolding assms [symmetric] by (subst line_record_time, simp)+
  then show ?thesis by simp
next
  case (Inr e)
  then have "r = Inr (e\<lparr>en_observed_at := now\<rparr>)" "r' = Inr (e\<lparr>en_observed_at := now'\<rparr>)"
    unfolding assms [symmetric] by (subst line_record_time, simp)+
  then show ?thesis by (simp add: same_version_def)
qed

text \<open>One turn of the loop.\<close>

lemma read_lines_end:
  "read_lines tx loads src clock [] before line emitted =
     ([StateMessage (js_stream src) (jsonl_checkpoint tx before line)], None)"
  by (simp add: read_lines.simps)

lemma read_lines_step:
  assumes "rest \<noteq> []" "read_line rest = (raw, rest')"
  shows "read_lines tx loads src clock rest before line emitted =
     (if strip raw = [] then read_lines tx loads src clock rest' (before @ raw) (line + 1) emitted
      else case line_record tx loads src (clock (length (before @ raw))) raw (line + 1) (length (before @ raw)) of
          Inl x \<Rightarrow> ([], Some x)
        | Inr e \<Rightarrow>
            if js_batch_size src \<le> emitted + 1
            then yield_then [RecordMessage e, StateMessage (js_stream src) (jsonl_checkpoint tx (before @ raw) (line + 1))]
                   (read_lines tx loads src clock rest' (before @ raw) (line + 1) 0)
            else yield_then [RecordMessage e] (read_lines tx loads src clock rest' (before @ raw) (line + 1) (emitted + 1)))"
  using assms by (subst read_lines.simps) (simp add: Let_def)

text \<open>Induction over the lines that are left.\<close>

lemma lines_induct [case_names eof line]:
  assumes "\<And>before line emitted. P [] before line emitted"
    and "\<And>rest raw rest' before line emitted. rest \<noteq> [] \<Longrightarrow> read_line rest = (raw, rest') \<Longrightarrow> raw @ rest' = rest \<Longrightarrow>
      (\<And>before line emitted. P rest' before line emitted) \<Longrightarrow> P rest before line emitted"
  shows "P rest before line emitted"
proof (induction rest arbitrary: before line emitted rule: measure_induct_rule [of length])
  case (less rest)
  show ?case
  proof (cases "rest = []")
    case False
    obtain raw rest' where r: "read_line rest = (raw, rest')" by fastforce
    show ?thesis
      by (rule assms(2) [OF False r])
         (use read_line_append [of rest] read_line_shorter [OF False] less r in simp_all)
  qed (simp add: assms(1))
qed

lemma read_lines_cases [consumes 3, case_names blank full partial]:
  assumes "rest \<noteq> []" "read_line rest = (raw, rest')"
    "read_lines tx loads src clock rest before line emitted = (ms, None)"
  obtains "read_lines tx loads src clock rest' (before @ raw) (line + 1) emitted = (ms, None)"
    | e ys where "en_stream e = js_stream src"
        "read_lines tx loads src clock rest' (before @ raw) (line + 1) 0 = (ys, None)"
        "ms = RecordMessage e # StateMessage (js_stream src) (jsonl_checkpoint tx (before @ raw) (line + 1)) # ys"
    | e ys where "en_stream e = js_stream src"
        "read_lines tx loads src clock rest' (before @ raw) (line + 1) (emitted + 1) = (ys, None)"
        "ms = RecordMessage e # ys"
proof (cases "strip raw = []")
  case True
  then show ?thesis using that(1) assms(3) by (simp add: read_lines_step [OF assms(1,2)])
next
  case False
  then obtain e where e: "line_record tx loads src (clock (length (before @ raw))) raw (line + 1) (length (before @ raw)) = Inr e"
    using assms(3) by (auto simp: read_lines_step [OF assms(1,2)] split: sum.splits)
  note st = conjunct1 [OF line_record_fields [OF e]]
  show ?thesis
  proof (cases "js_batch_size src \<le> emitted + 1")
    case True
    obtain ys where "read_lines tx loads src clock rest' (before @ raw) (line + 1) 0 = (ys, None)"
        "ms = RecordMessage e # StateMessage (js_stream src) (jsonl_checkpoint tx (before @ raw) (line + 1)) # ys"
      using assms(3) False e True by (auto simp: read_lines_step [OF assms(1,2)] yield_then_eq)
    then show ?thesis by (rule that(2) [OF st])
  next
    case nb: False
    obtain ys where "read_lines tx loads src clock rest' (before @ raw) (line + 1) (emitted + 1) = (ys, None)"
        "ms = RecordMessage e # ys"
      using assms(3) False e nb by (auto simp: read_lines_step [OF assms(1,2)] yield_then_eq)
    then show ?thesis by (rule that(3) [OF st])
  qed
qed

lemma read_lines_messages:
  assumes "read_lines tx loads src clock rest before line emitted = (ms, None)"
  shows "list_all (message_of (js_stream src)) ms \<and> ms \<noteq> [] \<and> (\<exists>st. last ms = StateMessage (js_stream src) st)"
  using assms
proof (induction rest before line emitted arbitrary: ms rule: lines_induct)
  case (line rest raw rest' before line emitted)
  from line(1,2,5) show ?case by (cases rule: read_lines_cases) (use line(4) in fastforce)+
qed (auto simp: read_lines_end)

text \<open>From every checkpoint on, the rest of the messages is what a reader that starts there yields.\<close>

lemma read_lines_resume:
  assumes "read_lines tx loads src clock rest before line emitted = (pre @ StateMessage name st # post, None)"
    "0 \<le> line"
  shows "\<exists>before' rest' line'. st = jsonl_checkpoint tx before' line' \<and> before' @ rest' = before @ rest \<and> 0 \<le> line' \<and>
     (if post = [] then rest' = [] else read_lines tx loads src clock rest' before' line' 0 = (post, None))"
  using assms
proof (induction rest before line emitted arbitrary: pre rule: lines_induct)
  case (eof before line emitted)
  then have "pre = [] \<and> post = [] \<and> st = jsonl_checkpoint tx before line" by (cases pre) (auto simp: read_lines_end)
  then show ?case using eof
    by - (rule exI [of _ before], rule exI [of _ "[]"], rule exI [of _ line], simp)
next
  case (line rest raw rest' before line emitted)
  note IH = line(4) [of "before @ raw" "line + 1"]
  have app: "before @ raw @ rest' = before @ rest" using line(3) by simp
  from line(1,2,5) show ?case
  proof (cases rule: read_lines_cases)
    case blank
    then show ?thesis using IH [of emitted pre] line(6) app by simp
  next
    case (full e ys)
    then obtain pre1 where pre: "pre = RecordMessage e # pre1"
        "pre1 @ StateMessage name st # post = StateMessage (js_stream src) (jsonl_checkpoint tx (before @ raw) (line + 1)) # ys"
      by (cases pre) auto
    show ?thesis
    proof (cases pre1)
      case Nil
      have "ys \<noteq> []" using read_lines_messages [OF full(2)] by simp
      then show ?thesis using Nil pre full(2) app line(6)
        by - (rule exI [of _ "before @ raw"], rule exI [of _ rest'], rule exI [of _ "line + 1"], auto)
    next
      case (Cons m pre2)
      then have "ys = pre2 @ StateMessage name st # post" using pre by simp
      then show ?thesis using IH [of 0 pre2] full(2) app line(6) by simp
    qed
  next
    case (partial e ys)
    then obtain pre1 where "pre = RecordMessage e # pre1" "ys = pre1 @ StateMessage name st # post"
      by (cases pre) auto
    then show ?thesis using IH [of "emitted + 1" pre1] partial(2) app line(6) by simp
  qed
qed

lemma read_lines_again:
  "list_all2 same_message (fst (read_lines tx loads src clock rest before line emitted))
     (fst (read_lines tx loads src clock' rest before line emitted)) \<and>
   snd (read_lines tx loads src clock rest before line emitted) =
     snd (read_lines tx loads src clock' rest before line emitted)"
proof (induction rest before line emitted rule: lines_induct)
  case (line rest raw rest' before line emitted)
  let ?n = "length (before @ raw)"
  show ?case
    using line_record_times [OF refl refl, of tx loads src "clock ?n" raw "line + 1" ?n "clock' ?n"] line(4)
    by (auto simp: read_lines_step [OF line(1,2)])
qed (simp add: read_lines_end)

lemma read_lines_last:
  assumes "read_lines tx loads src clock rest before line emitted = (ms, None)"
  shows "\<exists>line'. last_checkpoint ms = Some (jsonl_checkpoint tx (before @ rest) line')"
  using assms
proof (induction rest before line emitted arbitrary: ms rule: lines_induct)
  case (line rest raw rest' before line emitted)
  have app: "before @ raw @ rest' = before @ rest" using line(3) by simp
  from line(1,2,5) show ?case
    by (cases rule: read_lines_cases) (use line(4) [of "before @ raw" "line + 1"] app in fastforce)+
qed (auto simp: read_lines_end)

subsection \<open>The pipelines of the command line\<close>

lemma sorted_checkpoint: "the_obj (sorted_json (JObj (jsonl_checkpoint tx before line))) = jsonl_checkpoint tx before line"
  by (simp add: jsonl_checkpoint_def the_obj_def)

lemma jsonl_read_checkpoint:
  assumes "before @ rest = file" "0 \<le> line"
  shows "jsonl_read tx loads src file clock (js_stream src) (jsonl_checkpoint tx before line) =
     read_lines tx loads src clock rest before line 0"
  using assms(2) unfolding assms(1) [symmetric]
  by (simp add: jsonl_read_def jsonl_checkpoint_def state_int_def dict_lookup)

lemma jsonl_read_start:
  assumes "snd (jsonl_read tx loads src file clock (js_stream src) st) = None"
  shows "\<exists>offset line. 0 \<le> line \<and> (\<forall>clock'. jsonl_read tx loads src file clock' (js_stream src) st =
    read_lines tx loads src clock' (drop offset file) (take offset file) line 0)"
proof -
  have "\<exists>offset line. \<forall>clock'. jsonl_read tx loads src file clock' (js_stream src) st =
    read_lines tx loads src clock' (drop offset file) (take offset file) (int line) 0"
    using assms by (auto simp: jsonl_read_def split: sum.splits prod.splits)
  then show ?thesis by (meson of_nat_0_le_iff)
qed

text \<open>States from which the rest of the file is read without an error.\<close>

definition readable :: "pytext \<Rightarrow> (string \<Rightarrow> json option) \<Rightarrow> jsonl_source \<Rightarrow> string \<Rightarrow> obj \<Rightarrow> bool" where
  "readable tx loads src file st \<longleftrightarrow> snd (jsonl_read tx loads src file (\<lambda>_. 0) (js_stream src) st) = None"

lemma readable_read:
  assumes "readable tx loads src file st"
  obtains offset line ms where "0 \<le> line" "jsonl_read tx loads src file clock (js_stream src) st = (ms, None)"
    "read_lines tx loads src clock (drop offset file) (take offset file) line 0 = (ms, None)"
proof -
  obtain offset line where r: "0 \<le> line" "\<And>clock'. jsonl_read tx loads src file clock' (js_stream src) st =
      read_lines tx loads src clock' (drop offset file) (take offset file) line 0"
    using jsonl_read_start [OF assms [unfolded readable_def]] by blast
  have "snd (read_lines tx loads src clock (drop offset file) (take offset file) line 0) = None"
    using assms read_lines_again [of tx loads src clock _ _ _ _ "\<lambda>_. 0"] by (simp add: readable_def r(2))
  then show ?thesis using that [OF r(1)] r(2) by (metis prod.collapse)
qed

text \<open>The pipeline: this source, some idempotent destination, a SQLite state store.\<close>

definition jsonl_pipeline :: "pytext \<Rightarrow> (string \<Rightarrow> json option) \<Rightarrow> jsonl_source \<Rightarrow> string \<Rightarrow> string \<Rightarrow> time
    \<Rightarrow> ('d \<Rightarrow> envelope list \<Rightarrow> (sdk_error + nat) \<times> 'd) \<Rightarrow> transform list \<Rightarrow> ('d, connector_state list) pipeline" where
  "jsonl_pipeline tx loads src file name now put ts =
     \<lparr>pl_name = name, pl_source = ''jsonl'', pl_source_check = (True, ''JSONL file is readable''),
      pl_dest_check = (True, []), pl_discover = Inr [js_stream src],
      pl_read = jsonl_read tx loads src file, pl_write = (\<lambda>d es. map_prod (map_sum id int) id (put d es)),
      pl_flush = (\<lambda>d. (Inr (), d)), pl_transforms = ts, pl_load = sqlite_load, pl_save = sqlite_save now,
      pl_on_event = None, pl_close = map (\<lambda>_. None) ts @ [None, None]\<rparr>"

lemma close_nothing: "close_resources (map (\<lambda>_. None) ts @ [None, None]) = None"
  by (induction ts) simp_all

lemma jsonl_resumable:
  assumes "idempotent_destination put ok view vkey absorb" "replayable ts (js_stream src)"
    "\<And>d es. ok d \<Longrightarrow> \<exists>n. fst (put d es) = Inr n" "\<And>d. ok d \<Longrightarrow> ok (reopen d) \<and> view (reopen d) = view d"
    "\<And>e e'. same_version e e' \<Longrightarrow> vkey e = vkey e'"
  shows "resumable_pipeline sqlite_load (sqlite_save now) (\<lambda>v. the_obj (sorted_json (JObj v))) put ok view vkey absorb
     (jsonl_pipeline tx loads src file name now put ts) (js_stream src) (readable tx loads src file) reopen"
proof (intro resumable_pipeline.intro assms(1) sqlite.state_store_axioms resumable_pipeline_axioms.intro)
  let ?p = "jsonl_pipeline tx loads src file name now put ts"
  fix st clock assume good: "readable tx loads src file st"
  show "\<exists>ms. pl_read ?p clock (js_stream src) st = (ms, None) \<and> list_all (message_of (js_stream src)) ms \<and>
      (\<exists>st. last ms = StateMessage (js_stream src) st) \<and> ms \<noteq> []"
    by (rule readable_read [OF good, of clock])
       (use read_lines_messages in \<open>auto simp: jsonl_pipeline_def\<close>)
  show "list_all2 same_message (fst (pl_read ?p clock (js_stream src) st)) (fst (pl_read ?p clock' (js_stream src) st))"
    for clock'
    using jsonl_read_start [OF good [unfolded readable_def]] read_lines_again
    by (auto simp: jsonl_pipeline_def)
  fix pre cp post assume read: "pl_read ?p clock (js_stream src) st = (pre @ StateMessage (js_stream src) cp # post, None)"
  obtain offset line ms where ms: "0 \<le> line" "jsonl_read tx loads src file clock (js_stream src) st = (ms, None)"
      "read_lines tx loads src clock (drop offset file) (take offset file) line 0 = (ms, None)"
    by (rule readable_read [OF good, of clock])
  have "ms = pre @ StateMessage (js_stream src) cp # post" using ms(2) read by (simp add: jsonl_pipeline_def)
  from read_lines_resume [OF ms(3) [unfolded this] ms(1)] obtain before' rest' line' where
    cp: "cp = jsonl_checkpoint tx before' line'" "before' @ rest' = file" "0 \<le> line'"
      "if post = [] then rest' = [] else read_lines tx loads src clock rest' before' line' 0 = (post, None)"
    by auto
  have "jsonl_read tx loads src file clock (js_stream src) cp =
      (if post = [] then [StateMessage (js_stream src) cp] else post, None)"
    using cp(4) by (auto simp: cp(1) jsonl_read_checkpoint [OF cp(2,3)] read_lines_end)
  moreover have "snd (read_lines tx loads src (\<lambda>_. 0) rest' before' line' 0) =
      snd (read_lines tx loads src clock rest' before' line' 0)"
    using read_lines_again by blast
  ultimately show "readable tx loads src file (the_obj (sorted_json (JObj cp))) \<and>
      pl_read ?p clock (js_stream src) (the_obj (sorted_json (JObj cp))) =
        (if post = [] then [StateMessage (js_stream src) cp] else post, None)"
    using cp(4)
    by (auto simp: cp(1) sorted_checkpoint readable_def jsonl_read_checkpoint [OF cp(2,3)] jsonl_pipeline_def
        read_lines_end simp del: sorted_json.simps split: if_splits)
qed (use assms(2-) in \<open>simp_all add: jsonl_pipeline_def close_nothing\<close>)

lemma change_of_version: "same_version e e' \<Longrightarrow> change_of tx e = change_of tx e'"
  using same_version_hash [of e e' tx] by (simp add: change_of_def record_key_def)

lemma version_key_version: "same_version e e' \<Longrightarrow> version_key tx (to_dict tx e) = version_key tx (to_dict tx e')"
proof -
  assume "same_version e e'"
  moreover have "obj_get (to_dict tx e) ''id'' = JStr (en_id e)" for e by (simp add: to_dict_def dict_lookup)
  ultimately show ?thesis using same_version_hash [of e e' tx] by (simp add: version_key_def)
qed

text \<open>Opening a JSON Lines destination again forgets the versions in memory.\<close>

definition reopen_jsonl :: "jsonl_file \<Rightarrow> jsonl_file" where
  "reopen_jsonl f = f\<lparr>jl_known := None\<rparr>"

lemma to_collection:
  "replayable ts (js_stream src) \<Longrightarrow>
   resumable_pipeline sqlite_load (sqlite_save now) (\<lambda>v. the_obj (sorted_json (JObj v)))
     (collection_write tx now) (coll_ok tx) coll_view (change_of tx) apply_changes
     (jsonl_pipeline tx loads src file name now (collection_write tx now) ts) (js_stream src)
     (readable tx loads src file) (\<lambda>d. d)"
  by (rule jsonl_resumable [OF coll.idempotent_destination_axioms])
     (auto simp: collection_write_def case_prod_beta change_of_version)

lemma to_jsonl:
  "replayable ts (js_stream src) \<Longrightarrow>
   resumable_pipeline sqlite_load (sqlite_save now) (\<lambda>v. the_obj (sorted_json (JObj v)))
     (jsonl_write tx) (jsonl_ok tx) (jsonl_view tx) (\<lambda>e. version_key tx (to_dict tx e)) add_versions
     (jsonl_pipeline tx loads src file name now (jsonl_write tx) ts) (js_stream src)
     (readable tx loads src file) reopen_jsonl"
  by (rule jsonl_resumable [OF jsonl.idempotent_destination_axioms])
     (auto simp: jsonl_write_def Let_def version_key_version reopen_jsonl_def jsonl_ok_def jsonl_view_def)

interpretation cli_sqlite: resumable_pipeline sqlite_load "sqlite_save now" "\<lambda>v. the_obj (sorted_json (JObj v))"
    "collection_write tx now" "coll_ok tx" coll_view "change_of tx" apply_changes
    "jsonl_pipeline tx loads src content name now (collection_write tx now) []" "js_stream src"
    "readable tx loads src content" "\<lambda>d. d"
  for now tx loads src content name
  by (rule to_collection) simp

interpretation cli_jsonl: resumable_pipeline sqlite_load "sqlite_save now" "\<lambda>v. the_obj (sorted_json (JObj v))"
    "jsonl_write tx" "jsonl_ok tx" "jsonl_view tx" "\<lambda>e. version_key tx (to_dict tx e)" add_versions
    "jsonl_pipeline tx loads src content name now (jsonl_write tx) []" "js_stream src"
    "readable tx loads src content" reopen_jsonl
  for now tx loads src content name
  by (rule to_jsonl) simp

text \<open>The reading that a pipeline has left, its messages and the checkpoint it ends with.\<close>

lemma jsonl_messages:
  assumes "jsonl_read tx loads src file clock (js_stream src) st = (ms, None)"
  shows "readable tx loads src file st \<and> (\<exists>line. last_checkpoint ms = Some (jsonl_checkpoint tx file line))"
proof -
  obtain offset line where r: "\<And>clock'. jsonl_read tx loads src file clock' (js_stream src) st =
      read_lines tx loads src clock' (drop offset file) (take offset file) line 0"
    using jsonl_read_start [of tx loads src "file" clock st] assms by auto
  have "snd (read_lines tx loads src (\<lambda>_. 0) (drop offset file) (take offset file) line 0) =
      snd (read_lines tx loads src clock (drop offset file) (take offset file) line 0)"
    using read_lines_again by blast
  then have "readable tx loads src file st" using assms by (simp add: readable_def r)
  then show ?thesis using read_lines_last [of tx loads src clock "drop offset file" "take offset file" line 0 ms] assms
    by (simp add: r)
qed

text \<open>
  C2. Effectively once. A pipeline copies a JSON Lines file into the SQLite collection. However many
  attempts are interrupted, at any call of the destination or the state store, with any prefix of a
  batch already stored: the next undisturbed attempt succeeds, the collection then shows exactly what
  one undisturbed delivery of the transformed records (from the checkpoint before the first attempt)
  makes of the old contents, and the stored checkpoint is the end of the file.
\<close>

theorem collection_effectively_once:
  assumes "replayable ts (js_stream src)" "coll_ok tx (pw_dest w)" "at_calls fin = None"
    "jsonl_read tx loads src file clock (js_stream src)
       (sqlite_load (pw_store w) (name, ''jsonl'', js_stream src)) = (ms, None)"
    "attempt_run (jsonl_pipeline tx loads src file name now (collection_write tx now) ts) (\<lambda>d. d) fin
       (attempts (jsonl_pipeline tx loads src file name now (collection_write tx now) ts) (\<lambda>d. d) interrupted w) = (r, w')"
  shows "is_ok r \<and> coll_ok tx (pw_dest w') \<and>
    coll_view (pw_dest w') =
      apply_changes (coll_view (pw_dest w)) (map (change_of tx) (delivered ts (js_stream src) ms [])) \<and>
    (\<exists>line. sqlite_load (pw_store w') (name, ''jsonl'', js_stream src) = jsonl_checkpoint tx file line)"
proof -
  let ?p = "jsonl_pipeline tx loads src file name now (collection_write tx now) ts"
  note loc = to_collection [OF assms(1), of now tx loads "file" name]
  note defs = resumable_pipeline.state_of_def [OF loc] resumable_pipeline.remaining_def [OF loc]
    resumable_pipeline.goal_def [OF loc] resumable_pipeline.ending_def [OF loc]
  have key: "stream_key ?p (js_stream src) = (name, ''jsonl'', js_stream src)"
    by (simp add: stream_key_def jsonl_pipeline_def)
  have read: "pl_read ?p = jsonl_read tx loads src file" "pl_transforms ?p = ts" by (simp_all add: jsonl_pipeline_def)
  show ?thesis
    using resumable_pipeline.effectively_once [OF loc assms(2) _ assms(3,5), unfolded defs key read, of clock]
      jsonl_messages [OF assms(4)] assms(4)
    by (auto simp: sorted_checkpoint simp del: sorted_json.simps)
qed


subsection \<open>Concrete runs\<close>

definition demo_loads :: "string \<Rightarrow> json option" where
  "demo_loads raw =
     (if raw = ''A'' @ [CHR 0x0A] then Some (JObj [(''id'', JStr ''a'')])
      else if raw = ''B'' @ [CHR 0x0A] then Some (JObj [(''id'', JStr ''b''), (''_operation'', JStr ''Snapshot'')])
      else None)"

definition demo_source :: jsonl_source where
  "demo_source = \<lparr>js_path = ''in.jsonl'', js_resolved = ''/in.jsonl'', js_stream = ''in'', js_id_field = ''id'',
     js_operation_field = ''_operation'', js_batch_size = 1\<rparr>"

definition demo_bytes :: string where
  "demo_bytes = ''A'' @ [CHR 0x0A, CHR 0x0A] @ ''B'' @ [CHR 0x0A]"

definition demo_attempts :: "attempt list" where
  "demo_attempts = [\<lparr>at_clock = (\<lambda>_. 1), at_calls = Some 1, at_torn = 0\<rparr>, \<lparr>at_clock = (\<lambda>_. 2), at_calls = Some 3, at_torn = 1\<rparr>]"

definition demo_fin :: attempt where
  "demo_fin = \<lparr>at_clock = (\<lambda>_. 3), at_calls = None, at_torn = 0\<rparr>"

theorem collection_effectively_once_witness:
  "let P = jsonl_pipeline demo_hash_text demo_loads demo_source demo_bytes ''p'' 7 (collection_write demo_hash_text 7) [];
       W = snd (attempt_run P (\<lambda>d. d) demo_fin (attempts P (\<lambda>d. d) demo_attempts
         \<lparr>pw_dest = \<lparr>co_rows = [], co_fts = []\<rparr>, pw_store = [], pw_calls = None, pw_events = []\<rparr>))
   in coll_view (pw_dest W) (''jsonl'', ''in'', stable_record_id demo_hash_text ''jsonl'' ''in'' ''b'') = Some ''5''"
proof -
  let ?P = "jsonl_pipeline demo_hash_text demo_loads demo_source demo_bytes ''p'' 7 (collection_write demo_hash_text 7) []"
  let ?w = "\<lparr>pw_dest = \<lparr>co_rows = [], co_fts = []\<rparr>, pw_store = [] :: connector_state list, pw_calls = None, pw_events = []\<rparr>"
  let ?read = "jsonl_read demo_hash_text demo_loads demo_source demo_bytes (\<lambda>_. 1) ''in'' []"
  have ok: "coll_ok demo_hash_text (pw_dest ?w)" by (simp add: coll_ok_def index_of_def)
  have src: "js_stream demo_source = ''in''" by (simp add: demo_source_def)
  have "snd ?read = None" by code_simp
  then have read: "jsonl_read demo_hash_text demo_loads demo_source demo_bytes (\<lambda>_. 1) (js_stream demo_source)
      (sqlite_load (pw_store ?w) (''p'', ''jsonl'', js_stream demo_source)) = (fst ?read, None)"
    by (simp add: src sqlite_load_def prod_eq_iff)
  have fin: "at_calls demo_fin = None" by (simp add: demo_fin_def)
  obtain r W where run: "attempt_run ?P (\<lambda>d. d) demo_fin (attempts ?P (\<lambda>d. d) demo_attempts ?w) = (r, W)"
    by fastforce
  have "coll_view (pw_dest W) =
      apply_changes (coll_view (pw_dest ?w)) (map (change_of demo_hash_text) (delivered [] ''in'' (fst ?read) []))"
    using collection_effectively_once [OF replayable_Nil ok fin read run] unfolding src by (elim conjE)
  moreover have "apply_changes (\<lambda>_. None) (map (change_of demo_hash_text) (delivered [] ''in'' (fst ?read) []))
      (''jsonl'', ''in'', stable_record_id demo_hash_text ''jsonl'' ''in'' ''b'') = Some ''5''"
    by code_simp
  moreover have "coll_view (pw_dest ?w) = (\<lambda>_. None)" by (simp add: coll_view_def coll_row_def fun_eq_iff)
  ultimately show ?thesis using run by (simp add: Let_def)
qed


end
