(* ===== verification/SdkPlugins.thy ===== *)
theory SdkPlugins
  imports SdkModels PyText
begin

text \<open>
  The remaining small services of the SDK: content-addressed artifacts (\<open>artifacts.py\<close>), secret
  references (\<open>secrets.py\<close>), and the discovery and validation of connector plugins (\<open>plugins.py\<close>,
  with the manifest types of \<open>connectors/base.py\<close>). The directory of the artifacts is a dictionary from
  paths to bytes; what the import of an entry point yields is a parameter.
\<close>

subsection \<open>Artifacts\<close>

type_synonym blob_path = "string \<times> string"

type_synonym artifact_dir = "(blob_path, string) dict"

datatype artifact_error = ArtifactValueError string | FileNotFound

definition artifact_path :: "string \<Rightarrow> blob_path" where
  "artifact_path digest = (take 2 digest, drop 2 digest)"

definition put_artifact :: "(string \<Rightarrow> string) \<Rightarrow> (blob_path \<Rightarrow> string) \<Rightarrow> artifact_dir \<Rightarrow> string \<Rightarrow> string
    \<Rightarrow> payload \<times> artifact_dir" where
  "put_artifact sha uri files data media =
     (let digest = sha data; target = artifact_path digest in
      (BlobRef (uri target) digest (int (length data)) media,
       if dict_has files target then files else dict_set target data files))"

definition hex_char :: "char \<Rightarrow> bool" where
  "hex_char c \<longleftrightarrow> c \<in> set ''0123456789abcdef''"

definition valid_digest :: "string \<Rightarrow> bool" where
  "valid_digest s \<longleftrightarrow> length s = 64 \<and> list_all hex_char (py_lower s)"

definition get_artifact :: "(string \<Rightarrow> string) \<Rightarrow> (blob_path \<Rightarrow> string) \<Rightarrow> artifact_dir \<Rightarrow> string \<Rightarrow> string
    \<Rightarrow> artifact_error + string" where
  "get_artifact sha uri files reference_uri digest =
     (if \<not> valid_digest digest
      then Inl (ArtifactValueError ''Artifact reference contains an invalid SHA-256 digest'')
      else if uri (artifact_path digest) \<noteq> reference_uri
      then Inl (ArtifactValueError ''Artifact URI does not match this store'')
      else (case dict_get files (artifact_path digest) of
         None \<Rightarrow> Inl FileNotFound
       | Some data \<Rightarrow>
           if sha data \<noteq> digest then Inl (ArtifactValueError ''Artifact checksum mismatch'') else Inr data))"

text \<open>Files that hold what their path promises; interrupted writes go to other names.\<close>

definition artifacts_ok :: "(string \<Rightarrow> string) \<Rightarrow> artifact_dir \<Rightarrow> bool" where
  "artifacts_ok sha files \<longleftrightarrow> list_all (\<lambda>(path, data). path = artifact_path (sha data)) files"

lemma artifact_path_inj: "artifact_path a = artifact_path b \<Longrightarrow> a = b"
  unfolding artifact_path_def by (metis Pair_inject append_take_drop_id)

lemma artifacts_ok_get: "artifacts_ok sha files \<Longrightarrow> dict_get files path = Some data \<Longrightarrow> path = artifact_path (sha data)"
  by (auto simp: artifacts_ok_def list_all_iff dest: map_of_SomeD)

lemma dict_set_new: "\<not> dict_has d k \<Longrightarrow> dict_set k v d = d @ [(k, v)]"
  by (induction d) (auto simp: dict_has_def)

lemma put_artifact_ok: "artifacts_ok sha files \<Longrightarrow> artifacts_ok sha (snd (put_artifact sha uri files data media))"
  by (simp add: put_artifact_def Let_def artifacts_ok_def dict_set_new)

text \<open>
  The artifact store is content addressed. A stored blob is read back under the reference that
  storing it returned, as bytes with the same digest (the same bytes unless SHA-256 collides with a blob
  that was already there); storing changes no other blob; and whatever the files hold, a successful
  read never returns bytes that do not have the digest asked for.
\<close>

theorem artifact_round_trip:
  assumes "artifacts_ok sha files" "valid_digest (sha data)"
    "put_artifact sha uri files data media = (BlobRef u digest n m, files')"
  shows "artifacts_ok sha files' \<and> digest = sha data \<and> n = int (length data) \<and> m = media \<and>
    (\<exists>data'. get_artifact sha uri files' u digest = Inr data' \<and> sha data' = digest \<and>
       (data' = data \<or> dict_get files (artifact_path digest) = Some data')) \<and>
    (\<forall>u' d'. d' \<noteq> digest \<longrightarrow> get_artifact sha uri files' u' d' = get_artifact sha uri files u' d') \<and>
    (\<forall>any u' d' bytes. get_artifact sha uri any u' d' = Inr bytes \<longrightarrow> sha bytes = d')"
proof -
  let ?path = "artifact_path (sha data)"
  have put: "u = uri ?path" "digest = sha data" "n = int (length data)" "m = media"
    "files' = (if dict_has files ?path then files else dict_set ?path data files)"
    using assms(3) by (auto simp: put_artifact_def Let_def)
  have ok: "artifacts_ok sha files'" using put_artifact_ok [OF assms(1), of uri data media] assms(3) by simp
  obtain data' where d: "dict_get files' ?path = Some data'" "data' = data \<or> dict_get files ?path = Some data'"
    unfolding put(5) by (cases "dict_has files ?path") (auto simp: dict_has_iff)
  have "artifact_path (sha data') = ?path" using artifacts_ok_get [OF ok d(1)] by simp
  then have "sha data' = sha data" by (rule artifact_path_inj)
  then have "get_artifact sha uri files' u digest = Inr data'"
    using d(1) assms(2) by (simp add: get_artifact_def put(1,2))
  moreover have "dict_get files' (artifact_path d') = dict_get files (artifact_path d')" if "d' \<noteq> digest" for d'
    using that artifact_path_inj by (auto simp: put(2,5))
  then have "get_artifact sha uri files' u' d' = get_artifact sha uri files u' d'" if "d' \<noteq> digest" for u' d'
    using that by (simp add: get_artifact_def)
  moreover have "get_artifact sha uri any u' d' = Inr bytes \<Longrightarrow> sha bytes = d'" for any u' d' bytes
    by (auto simp: get_artifact_def split: if_splits option.splits)
  ultimately show ?thesis using ok put d(2) \<open>sha data' = sha data\<close> by auto
qed

definition demo_sha :: "string \<Rightarrow> string" where
  "demo_sha s = (if s = ''x'' then replicate 64 CHR ''a'' else replicate 64 CHR ''b'')"

theorem artifact_round_trip_witness:
  "get_artifact demo_sha fst (snd (put_artifact demo_sha fst [] ''x'' ''text/plain'')) ''aa'' (demo_sha ''x'') = Inr ''x''"
proof -
  have ok: "artifacts_ok demo_sha []" by (simp add: artifacts_ok_def)
  have digest: "valid_digest (demo_sha ''x'')" by code_simp
  have put: "put_artifact demo_sha fst [] ''x'' ''text/plain'' =
      (BlobRef ''aa'' (demo_sha ''x'') 1 ''text/plain'', [(artifact_path (demo_sha ''x''), ''x'')])"
    by code_simp
  from artifact_round_trip [OF ok digest put] show ?thesis by (auto simp: put)
qed

subsection \<open>Secrets\<close>

record secret_ref =
  sr_key :: string
  sr_provider :: string

definition resolve_secret :: "(string, string) dict \<Rightarrow> secret_ref \<Rightarrow> sdk_error + string" where
  "resolve_secret environ r =
     (if sr_provider r \<noteq> ''env''
      then Inl (ConfigurationError (''Secret provider '' @ py_quote (sr_provider r) @ '' cannot be resolved by ''
        @ py_quote ''env''))
      else if dict_get_or environ (sr_key r) [] = []
      then Inl (ConfigurationError (''Required secret '' @ py_quote (sr_key r) @ '' is not configured''))
      else Inr (dict_get_or environ (sr_key r) []))"

text \<open>What logs and serialised definitions show of a secret.\<close>

definition secret_ref_repr :: "secret_ref \<Rightarrow> string" where
  "secret_ref_repr r =
     ''SecretRef(provider='' @ py_quote (sr_provider r) @ '', key='' @ py_quote (sr_key r) @ '')''"

definition secret_value_repr :: "string \<Rightarrow> string" where
  "secret_value_repr v = ''SecretValue('' @ py_quote ''********'' @ '')''"

subsection \<open>Plugins\<close>

datatype plugin_error = PluginError string

record connector_spec =
  sp_name :: json
  sp_version :: json
  sp_config_schema :: json
  sp_capabilities :: "json list option"

definition plugin_groups :: "(string, string) dict" where
  "plugin_groups = [(''sources'', ''ingestion_graph.sources''),
     (''destinations'', ''ingestion_graph.destinations''), (''transforms'', ''ingestion_graph.transforms'')]"

fun comma_sep :: "string list \<Rightarrow> string" where
  "comma_sep [] = []"
| "comma_sep [s] = s"
| "comma_sep (s # ss) = s @ '', '' @ comma_sep ss"

text \<open>The loop over the installed entry points of a group: first of each name, and the names seen twice.\<close>

fun collect_points :: "(string \<times> 'p) list \<Rightarrow> (string, 'p) dict \<Rightarrow> string list \<Rightarrow> (string, 'p) dict \<times> string list" where
  "collect_points [] found duplicates = (found, duplicates)"
| "collect_points ((name, point) # ps) found duplicates =
     (if dict_has found name
      then collect_points ps found (if name \<in> set duplicates then duplicates else duplicates @ [name])
      else collect_points ps (dict_set name point found) duplicates)"

definition discover_plugins :: "(string \<Rightarrow> (string \<times> 'p) list) \<Rightarrow> string \<Rightarrow> plugin_error + (string, 'p) dict" where
  "discover_plugins entry_points kind =
     (case dict_get plugin_groups kind of
        None \<Rightarrow> Inl (PluginError (''Unknown plugin kind: '' @ py_quote kind))
      | Some grp \<Rightarrow>
          let (found, duplicates) = collect_points (entry_points grp) [] [] in
          if duplicates \<noteq> []
          then Inl (PluginError (''Duplicate '' @ kind @ '' plugin entry points are installed: ''
            @ comma_sep (map py_quote (sort duplicates))))
          else Inr found)"

definition load_plugin :: "(string \<Rightarrow> (string \<times> (string + 'o)) list) \<Rightarrow> string \<Rightarrow> string \<Rightarrow> plugin_error + 'o" where
  "load_plugin entry_points kind name =
     bind_res (discover_plugins entry_points kind) (\<lambda>plugins.
       case dict_get plugins name of
         None \<Rightarrow> Inl (PluginError (''No '' @ kind @ '' plugin named '' @ py_quote name @ '' is installed''))
       | Some (Inl x) \<Rightarrow> Inl (PluginError (''Failed to load '' @ kind @ '' plugin '' @ py_quote name @ '': '' @ x))
       | Some (Inr v) \<Rightarrow> Inr v)"

text \<open>What the attribute \<open>manifest\<close> of a loaded plugin does when it is called.\<close>

datatype manifest_result = NotCallable | NotImplemented | ManifestRaises string | NotASpec | Spec connector_spec

definition nonblank :: "json \<Rightarrow> bool" where
  "nonblank v = (case v of JStr s \<Rightarrow> strip s \<noteq> [] | _ \<Rightarrow> False)"

definition obj_of :: "json \<Rightarrow> obj option" where
  "obj_of v = (case v of JObj d \<Rightarrow> Some d | _ \<Rightarrow> None)"

definition str_items :: "json \<Rightarrow> string list option" where
  "str_items v = (case v of JList xs \<Rightarrow> (if list_all is_str xs
     then Some (map (\<lambda>x. case x of JStr s \<Rightarrow> s | _ \<Rightarrow> []) xs) else None) | _ \<Rightarrow> None)"

definition is_bool :: "json \<Rightarrow> bool" where
  "is_bool v = (case v of JBool _ \<Rightarrow> True | _ \<Rightarrow> False)"

definition validate_connector_manifest :: "connector_spec \<Rightarrow> string \<Rightarrow> string \<Rightarrow> plugin_error + unit" where
  "validate_connector_manifest spec kind name =
     (let prefix = kind @ '' plugin '' @ py_quote name @ '' manifest'' in
      if \<not> nonblank (sp_name spec) then Inl (PluginError (prefix @ '' has an empty name''))
      else if \<not> nonblank (sp_version spec) then Inl (PluginError (prefix @ '' has an empty version''))
      else case sp_capabilities spec of
        None \<Rightarrow> Inl (PluginError (prefix @ '' has invalid capabilities''))
      | Some flags \<Rightarrow>
        if \<not> list_all is_bool flags then Inl (PluginError (prefix @ '' capability flags must be booleans''))
        else case obj_of (sp_config_schema spec) of
          None \<Rightarrow> Inl (PluginError (prefix @ '' config_schema must be an object schema''))
        | Some schema \<Rightarrow>
          if obj_get schema ''type'' \<noteq> JStr ''object''
          then Inl (PluginError (prefix @ '' config_schema must be an object schema''))
          else case obj_of (obj_get schema ''properties'') of
            None \<Rightarrow> Inl (PluginError (prefix @ '' config_schema.properties must be an object''))
          | Some properties \<Rightarrow>
            if \<not> list_all (\<lambda>k. k \<noteq> []) (dict_keys properties)
            then Inl (PluginError (prefix @ '' config field names must be nonempty strings''))
            else if \<not> list_all is_obj (map snd properties)
            then Inl (PluginError (prefix @ '' config fields must be schema objects''))
            else case str_items (dict_get_or schema ''required'' (JList [])) of
              None \<Rightarrow> Inl (PluginError (prefix @ '' config_schema.required must be a string array''))
            | Some required \<Rightarrow>
              let unknown = remdups (filter (\<lambda>f. f \<notin> set (dict_keys properties)) required) in
              if unknown \<noteq> []
              then Inl (PluginError (prefix @ '' requires unknown fields: '' @ comma_sep (sort unknown)))
              else Inr ())"

definition load_connector_manifest :: "(string \<Rightarrow> (string \<times> (string + 'o)) list) \<Rightarrow> ('o \<Rightarrow> manifest_result)
    \<Rightarrow> (json \<Rightarrow> string) \<Rightarrow> string \<Rightarrow> string \<Rightarrow> plugin_error + connector_spec" where
  "load_connector_manifest entry_points manifest repr kind name =
     bind_res (load_plugin entry_points kind name) (\<lambda>plugin.
       case manifest plugin of
         NotCallable \<Rightarrow> Inl (PluginError (kind @ '' plugin '' @ py_quote name @ '' does not expose manifest()''))
       | NotImplemented \<Rightarrow> Inl (PluginError (kind @ '' plugin '' @ py_quote name @ '' does not expose manifest()''))
       | ManifestRaises x \<Rightarrow> Inl (PluginError (''Failed to load '' @ kind @ '' plugin '' @ py_quote name
           @ '' manifest: '' @ x))
       | NotASpec \<Rightarrow> Inl (PluginError (kind @ '' plugin '' @ py_quote name
           @ '' manifest() did not return ConnectorSpec''))
       | Spec spec \<Rightarrow>
           if sp_name spec \<noteq> JStr name
           then Inl (PluginError (kind @ '' plugin entry point '' @ py_quote name @ '' returned manifest name ''
             @ repr (sp_name spec)))
           else bind_res (validate_connector_manifest spec kind name) (\<lambda>_. Inr spec))"

lemma collect_points_spec:
  "collect_points ps found duplicates = (found', duplicates') \<Longrightarrow> dict_wf found \<Longrightarrow>
     dict_wf found' \<and> set duplicates \<subseteq> set duplicates' \<and>
     (duplicates' = [] \<longrightarrow> found' = found @ ps \<and> distinct (map fst ps) \<and> fst ` set ps \<inter> fst ` set found = {})"
proof (induction ps arbitrary: found duplicates)
  case (Cons p ps)
  obtain name point where p: "p = (name, point)" by (cases p)
  show ?case
  proof (cases "dict_has found name")
    case True
    let ?d = "if name \<in> set duplicates then duplicates else duplicates @ [name]"
    have "dict_wf found' \<and> set ?d \<subseteq> set duplicates' \<and> (duplicates' = [] \<longrightarrow>
        found' = found @ ps \<and> distinct (map fst ps) \<and> fst ` set ps \<inter> fst ` set found = {})"
      by (rule Cons.IH) (use Cons.prems True in \<open>simp_all add: p\<close>)
    moreover have "name \<in> set ?d" by simp
    ultimately show ?thesis by (auto split: if_splits)
  next
    case False
    have "dict_wf found' \<and> set duplicates \<subseteq> set duplicates' \<and> (duplicates' = [] \<longrightarrow>
        found' = dict_set name point found @ ps \<and> distinct (map fst ps) \<and>
        fst ` set ps \<inter> fst ` set (dict_set name point found) = {})"
      by (rule Cons.IH) (use Cons.prems False in \<open>simp_all add: p dict_wf_set\<close>)
    then show ?thesis using False by (auto simp: p dict_set_new dict_has_def)
  qed
qed simp

lemma load_plugin_found:
  assumes "load_plugin entry_points kind name = Inr plugin"
  shows "\<exists>plugins. discover_plugins entry_points kind = Inr plugins \<and> dict_get plugins name = Some (Inr plugin)"
proof -
  obtain plugins where d: "discover_plugins entry_points kind = Inr plugins"
    using assms by (auto simp: load_plugin_def bind_res_Inr)
  then show ?thesis using assms
    by (cases "dict_get plugins name"; cases "the (dict_get plugins name)") (auto simp: load_plugin_def)
qed

text \<open>
  A manifest is loaded only from exactly one installed entry point of a known kind, and is valid:
  it bears the name of the entry point, has a version and boolean capability flags, and an object schema
  whose required fields are declared.
\<close>

theorem load_connector_manifest_valid:
  assumes "load_connector_manifest entry_points manifest repr kind name = Inr spec"
  shows "\<exists>grp plugin schema properties required.
    (kind, grp) \<in> set plugin_groups \<and> distinct (map fst (entry_points grp)) \<and>
    (name, Inr plugin) \<in> set (entry_points grp) \<and> manifest plugin = Spec spec \<and>
    sp_name spec = JStr name \<and> strip name \<noteq> [] \<and> sp_config_schema spec = JObj schema \<and>
    obj_get schema ''properties'' = JObj properties \<and>
    str_items (dict_get_or schema ''required'' (JList [])) = Some required \<and> set required \<subseteq> set (dict_keys properties)"
proof -
  obtain plugin where load: "load_plugin entry_points kind name = Inr plugin" "manifest plugin = Spec spec"
      "sp_name spec = JStr name" "validate_connector_manifest spec kind name = Inr ()"
  proof -
    obtain plugin where l: "load_plugin entry_points kind name = Inr plugin"
      using assms by (auto simp: load_connector_manifest_def bind_res_Inr)
    show thesis
    proof (cases "manifest plugin")
      case (Spec sp)
      then show thesis using assms that [OF l] by (auto simp: load_connector_manifest_def l bind_res_Inr split: if_splits)
    qed (use assms in \<open>simp_all add: load_connector_manifest_def l\<close>)
  qed
  obtain plugins where d: "discover_plugins entry_points kind = Inr plugins" "dict_get plugins name = Some (Inr plugin)"
    using load_plugin_found [OF load(1)] by blast
  obtain grp where g: "dict_get plugin_groups kind = Some grp"
      "collect_points (entry_points grp) [] [] = (plugins, [])"
    using d(1) by (auto simp: discover_plugins_def split: option.splits prod.splits if_splits)
  have points: "plugins = entry_points grp" "distinct (map fst (entry_points grp))"
    using collect_points_spec [OF g(2)] by auto
  obtain schema properties required where "sp_config_schema spec = JObj schema"
      "obj_get schema ''properties'' = JObj properties"
      "str_items (dict_get_or schema ''required'' (JList [])) = Some required" "set required \<subseteq> set (dict_keys properties)"
      "nonblank (sp_name spec)"
    using load(4)
    by (auto simp: validate_connector_manifest_def obj_of_def Let_def filter_empty_conv
        split: option.splits if_splits json.splits) blast
  then show ?thesis using points load(2,3) d(2) g(1)
    by (intro exI [of _ grp] exI [of _ plugin]) (auto simp: nonblank_def dest: map_of_SomeD)
qed

definition demo_manifest :: connector_spec where
  "demo_manifest = \<lparr>sp_name = JStr ''csv'', sp_version = JStr ''1'',
     sp_config_schema = JObj [(''type'', JStr ''object''), (''properties'', JObj [(''path'', JObj [])]),
       (''required'', JList [JStr ''path''])], sp_capabilities = Some [JBool True]\<rparr>"

theorem load_connector_manifest_valid_witness:
  "\<exists>schema. sp_config_schema demo_manifest = JObj schema \<and>
     load_connector_manifest (\<lambda>_. [(''csv'', Inr ())]) (\<lambda>_. Spec demo_manifest) (\<lambda>_. []) ''sources'' ''csv'' = Inr demo_manifest"
proof -
  have "is_ok (load_connector_manifest (\<lambda>_. [(''csv'', Inr ())]) (\<lambda>_. Spec demo_manifest) (\<lambda>_. []) ''sources'' ''csv'')"
    by code_simp
  then have load: "load_connector_manifest (\<lambda>_. [(''csv'', Inr ())]) (\<lambda>_. Spec demo_manifest) (\<lambda>_. []) ''sources'' ''csv''
      = Inr demo_manifest"
    by (auto simp: is_ok_def load_connector_manifest_def bind_res_def split: sum.splits if_splits)
  from load_connector_manifest_valid [OF load] load show ?thesis by blast
qed

end
