(* ===== verification/EgressPolicy.thy ===== *)
theory EgressPolicy
  imports IpAddress GraphData
begin

text \<open>
  The outbound policy of the control plane (\<open>backend/app/services/egress_policy.py\<close>): which hosts and
  addresses a node may connect to, and the transport that is pinned to the addresses of one decision.
  \<open>urlsplit\<close>, the IDNA codec, \<open>int()\<close> of a text, the resolver and the reading of networks in the settings
  are parameters; resolution and connection attempts yield their outcomes as values.
\<close>

subsection \<open>Settings\<close>

datatype policy_error = EgressPolicyError string

record egress_policy =
  ep_allowlist_only :: bool
  ep_allowed_hosts :: "string list"
  ep_allowed_networks :: "ip_network list"

record net_text =
  nt_idna :: "string \<Rightarrow> string option"
  nt_network :: "string \<Rightarrow> ip_network option"
  nt_int :: "json \<Rightarrow> int option"

definition metadata_hosts :: "string list" where
  "metadata_hosts = [''metadata'', ''metadata.goog'', ''metadata.google.internal'', ''metadata.google.com'',
     ''metadata.azure.internal'']"

definition metadata_addresses :: "ip_address list" where
  "metadata_addresses = map IPv4 [quad 169 254 169 254, quad 169 254 170 2, quad 169 254 170 23, quad 100 100 100 200,
       quad 168 63 129 16]
     @ map (\<lambda>w. IPv6 w None) [v6 [0xFD00, 0xEC2, 0, 0, 0, 0, 0, 0x23], v6 [0xFD00, 0xEC2, 0, 0, 0, 0, 0, 0x254],
       v6 [0xFD20, 0xCE, 0, 0, 0, 0, 0, 0x254]]"

text \<open>An IPv4-mapped IPv6 address is the IPv4 address.\<close>

definition normalize_address :: "ip_address \<Rightarrow> ip_address" where
  "normalize_address a =
     (case a of IPv6 w _ \<Rightarrow> (case ipv4_mapped w of Some b \<Rightarrow> IPv4 b | None \<Rightarrow> a) | _ \<Rightarrow> a)"

definition parse_ip :: "string \<Rightarrow> ip_address option" where
  "parse_ip s = map_option normalize_address (ip_address s)"

definition normalize_network :: "net_text \<Rightarrow> string \<Rightarrow> policy_error + ip_network" where
  "normalize_network nt s =
     (case nt_network nt s of
        None \<Rightarrow> Inl (EgressPolicyError ''Outbound CIDR allowlist contains an invalid entry'')
      | Some (Net6 w len) \<Rightarrow>
          (case ipv4_mapped w of
             None \<Rightarrow> Inr (Net6 w len)
           | Some b \<Rightarrow>
               if len < 96 then Inl (EgressPolicyError ''IPv4-mapped CIDR prefixes shorter than /96 are invalid'')
               else Inr (Net4 b (len - 96)))
      | Some n \<Rightarrow> Inr n)"

definition label_char :: "char \<Rightarrow> bool" where
  "label_char c \<longleftrightarrow> is_digit c \<or> 97 \<le> (of_char c :: nat) \<and> (of_char c :: nat) \<le> 122"

text \<open>\<open>[a-z0-9](?:[a-z0-9-]{0,61}[a-z0-9])?\<close>\<close>

definition host_label :: "string \<Rightarrow> bool" where
  "host_label s \<longleftrightarrow> s \<noteq> [] \<and> length s \<le> 63 \<and> label_char (hd s) \<and> label_char (last s) \<and>
     list_all (\<lambda>c. label_char c \<or> c = CHR ''-'') s"

definition strip_dots :: "string \<Rightarrow> string" where
  "strip_dots s = rev (dropWhile (\<lambda>c. c = CHR ''.'') (rev s))"

definition normalize_hostname :: "net_text \<Rightarrow> string \<Rightarrow> policy_error + string" where
  "normalize_hostname nt s =
     (let candidate = py_lower (strip_dots s) in
      if candidate = [] then Inl (EgressPolicyError ''Outbound host is invalid'')
      else case nt_idna nt candidate of
        None \<Rightarrow> Inl (EgressPolicyError ''Outbound host is invalid'')
      | Some name \<Rightarrow>
          if 253 < length name \<or> \<not> list_all host_label (split_on CHR ''.'' name)
          then Inl (EgressPolicyError ''Outbound host is invalid'') else Inr name)"

definition make_egress_policy :: "net_text \<Rightarrow> string \<Rightarrow> string list \<Rightarrow> string list \<Rightarrow> policy_error + egress_policy" where
  "make_egress_policy nt mode hosts cidrs =
     (if mode \<noteq> ''public'' \<and> mode \<noteq> ''allowlist-only''
      then Inl (EgressPolicyError ''Outbound policy mode is invalid'')
      else bind_res (map_res (normalize_hostname nt) hosts) (\<lambda>hs.
           bind_res (map_res (normalize_network nt) cidrs) (\<lambda>ns.
           Inr \<lparr>ep_allowlist_only = (mode = ''allowlist-only''), ep_allowed_hosts = hs, ep_allowed_networks = ns\<rparr>)))"

subsection \<open>Hosts and ports\<close>

definition normalize_host :: "net_text \<Rightarrow> string \<Rightarrow> policy_error + string" where
  "normalize_host nt s =
     (if CHR ''%'' \<in> set s then Inl (EgressPolicyError ''Scoped outbound IP addresses are not allowed'')
      else case parse_ip s of Some a \<Rightarrow> Inr (ip_text a) | None \<Rightarrow> normalize_hostname nt s)"

definition control_char :: "char \<Rightarrow> bool" where
  "control_char c \<longleftrightarrow> (of_char c :: nat) < 32"

definition normalize_host_value :: "net_text \<Rightarrow> json \<Rightarrow> policy_error + string" where
  "normalize_host_value nt v =
     (case v of
        JStr s \<Rightarrow>
          if s = [] \<or> list_ex control_char s then Inl (EgressPolicyError ''Outbound host is invalid'')
          else let candidate = (if hd s = CHR ''['' \<and> last s = CHR '']'' then butlast (tl s) else s) in
            if CHR ''/'' \<in> set candidate \<or> CHR ''@'' \<in> set candidate
            then Inl (EgressPolicyError ''Outbound host is invalid'')
            else normalize_host nt candidate
      | _ \<Rightarrow> Inl (EgressPolicyError ''Outbound host is invalid''))"

text \<open>The integers that \<open>int(value)\<close> yields for a text, or for a float without a fraction.\<close>

definition validate_port :: "net_text \<Rightarrow> json \<Rightarrow> policy_error + int" where
  "validate_port nt v =
     (let bad = Inl (EgressPolicyError ''Outbound port is invalid'') in
      case (case v of JBool _ \<Rightarrow> None | JInt i \<Rightarrow> Some i | _ \<Rightarrow> nt_int nt v) of
        None \<Rightarrow> bad
      | Some i \<Rightarrow> if 1 \<le> i \<and> i \<le> 65535 then Inr i else bad)"

record split_url =
  su_scheme :: string
  su_hostname :: "string option"
  su_has_credentials :: bool
  su_port :: "int option option"
  su_path :: string
  su_query :: string
  su_fragment :: string

definition parse_url :: "(string \<Rightarrow> split_url option) \<Rightarrow> json \<Rightarrow> policy_error + split_url" where
  "parse_url urlsplit v =
     (case v of
        JStr s \<Rightarrow>
          if s = [] \<or> list_ex control_char s then Inl (EgressPolicyError ''Outbound URL is invalid'')
          else (case urlsplit s of
             None \<Rightarrow> Inl (EgressPolicyError ''Outbound URL is invalid'')
           | Some u \<Rightarrow>
               if py_lower (su_scheme u) \<noteq> ''http'' \<and> py_lower (su_scheme u) \<noteq> ''https''
               then Inl (EgressPolicyError ''Outbound URL scheme must be HTTP or HTTPS'')
               else if su_hostname u = None \<or> su_hostname u = Some []
               then Inl (EgressPolicyError ''Outbound URL host is required'')
               else if su_has_credentials u then Inl (EgressPolicyError ''Outbound URL credentials are not allowed'')
               else if su_fragment u \<noteq> [] then Inl (EgressPolicyError ''Outbound URL fragments are not allowed'')
               else Inr u)
      | _ \<Rightarrow> Inl (EgressPolicyError ''Outbound URL is invalid''))"

definition default_port :: "string \<Rightarrow> int" where
  "default_port scheme = (if scheme = ''https'' then 443 else 80)"

definition url_port :: "net_text \<Rightarrow> split_url \<Rightarrow> string \<Rightarrow> policy_error + int" where
  "url_port nt u scheme =
     (case su_port u of
        None \<Rightarrow> Inl (EgressPolicyError ''Outbound URL port is invalid'')
      | Some port \<Rightarrow> validate_port nt (JInt (opt_or port (default_port scheme))))"

definition render_host :: "string \<Rightarrow> string" where
  "render_host host = (if CHR '':'' \<in> set host then CHR ''['' # host @ '']'' else host)"

definition render_origin :: "string \<Rightarrow> string \<Rightarrow> int \<Rightarrow> string" where
  "render_origin scheme host port =
     render_host host @ (if port = default_port scheme then [] else CHR '':'' # int_str port)"

text \<open>\<open>urlunsplit\<close> of the canonical parts.\<close>

definition canonical_url :: "split_url \<Rightarrow> string \<Rightarrow> string \<Rightarrow> int \<Rightarrow> string" where
  "canonical_url u scheme host port =
     (let path = (if su_path u = [] then ''/'' else su_path u);
          path = (if hd path = CHR ''/'' then path else CHR ''/'' # path) in
      scheme @ ''://'' @ render_origin scheme host port @ path
        @ (if su_query u = [] then [] else CHR ''?'' # su_query u))"

subsection \<open>The decision\<close>

definition is_restricted :: "ip_address \<Rightarrow> bool" where
  "is_restricted a \<longleftrightarrow> \<not> is_global a \<or> is_loopback a \<or> is_private a \<or> is_link_local a \<or> is_site_local a \<or>
     is_multicast a \<or> is_unspecified a \<or> is_reserved a"

datatype resolution = Answers "string list" | ResolutionTimeout | ResolverRefused string | ResolverFailed

text \<open>The loop over the answers: parsed, normalised, each address once.\<close>

fun collect_answers :: "string list \<Rightarrow> ip_address list \<Rightarrow> ip_address list option" where
  "collect_answers [] found = Some found"
| "collect_answers (s # ss) found =
     (case parse_ip s of
        None \<Rightarrow> None
      | Some a \<Rightarrow> collect_answers ss (if a \<in> set found then found else found @ [a]))"

definition address_allowed :: "egress_policy \<Rightarrow> ip_address \<Rightarrow> bool" where
  "address_allowed p a \<longleftrightarrow> list_ex (in_network a) (ep_allowed_networks p)"

fun check_addresses :: "egress_policy \<Rightarrow> bool \<Rightarrow> ip_address list \<Rightarrow> policy_error + unit" where
  "check_addresses p host_allowed [] = Inr ()"
| "check_addresses p host_allowed (a # as) =
     (if is_restricted a \<and> \<not> (host_allowed \<or> address_allowed p a)
      then Inl (EgressPolicyError ''Outbound destination address is blocked'')
      else if ep_allowlist_only p \<and> \<not> (host_allowed \<or> address_allowed p a)
      then Inl (EgressPolicyError ''Outbound destination is not allowlisted'')
      else check_addresses p host_allowed as)"

definition judge_addresses :: "egress_policy \<Rightarrow> string \<Rightarrow> ip_address list \<Rightarrow> policy_error + ip_address list" where
  "judge_addresses p host as =
     (if list_ex (\<lambda>a. a \<in> set metadata_addresses) as
      then Inl (EgressPolicyError ''Cloud metadata destinations are blocked'')
      else if filter is_restricted as \<noteq> [] \<and> filter (\<lambda>a. \<not> is_restricted a) as \<noteq> []
      then Inl (EgressPolicyError ''Mixed public and restricted DNS answers are blocked'')
      else bind_res (check_addresses p (host \<in> set (ep_allowed_hosts p)) as) (\<lambda>_. Inr as))"

definition resolve_and_validate :: "egress_policy \<Rightarrow> (string \<Rightarrow> int \<Rightarrow> resolution) \<Rightarrow> bool \<Rightarrow> string \<Rightarrow> int
    \<Rightarrow> policy_error + ip_address list \<times> bool" where
  "resolve_and_validate p resolver timeout_ok host port =
     (if host \<in> set metadata_hosts then Inl (EgressPolicyError ''Cloud metadata destinations are blocked'')
      else case parse_ip host of
        Some a \<Rightarrow> bind_res (judge_addresses p host [a]) (\<lambda>as. Inr (as, False))
      | None \<Rightarrow>
          if \<not> timeout_ok then Inl (EgressPolicyError ''Outbound resolution timeout is invalid'')
          else (case resolver host port of
             ResolutionTimeout \<Rightarrow> Inl (EgressPolicyError ''Outbound hostname resolution timed out'')
           | ResolverRefused m \<Rightarrow> Inl (EgressPolicyError m)
           | ResolverFailed \<Rightarrow> Inl (EgressPolicyError ''Outbound hostname resolution failed'')
           | Answers ss \<Rightarrow>
               if ss = [] then Inl (EgressPolicyError ''Outbound hostname did not resolve'')
               else (case collect_answers ss [] of
                  None \<Rightarrow> Inl (EgressPolicyError ''Outbound hostname returned an invalid address'')
                | Some as \<Rightarrow> bind_res (judge_addresses p host as) (\<lambda>as. Inr (as, True)))))"

record validated_target =
  vt_url :: string
  vt_scheme :: string
  vt_host :: string
  vt_port :: int
  vt_addresses :: "ip_address list"
  vt_host_was_name :: bool

definition safe_origin :: "validated_target \<Rightarrow> string" where
  "safe_origin t = vt_scheme t @ ''://'' @ render_origin (vt_scheme t) (vt_host t) (vt_port t)"

definition validate_url :: "net_text \<Rightarrow> (string \<Rightarrow> split_url option) \<Rightarrow> egress_policy \<Rightarrow> (string \<Rightarrow> int \<Rightarrow> resolution)
    \<Rightarrow> bool \<Rightarrow> json \<Rightarrow> policy_error + validated_target" where
  "validate_url nt urlsplit p resolver timeout_ok v =
     bind_res (parse_url urlsplit v) (\<lambda>u.
     let scheme = py_lower (su_scheme u) in
     bind_res (url_port nt u scheme) (\<lambda>port.
     bind_res (normalize_host nt (opt_or (su_hostname u) [])) (\<lambda>host.
     bind_res (resolve_and_validate p resolver timeout_ok host port) (\<lambda>(as, was_name).
     Inr \<lparr>vt_url = canonical_url u scheme host port, vt_scheme = scheme, vt_host = host, vt_port = port,
          vt_addresses = as, vt_host_was_name = was_name\<rparr>))))"

definition validate_host :: "net_text \<Rightarrow> egress_policy \<Rightarrow> (string \<Rightarrow> int \<Rightarrow> resolution) \<Rightarrow> bool \<Rightarrow> json \<Rightarrow> json
    \<Rightarrow> policy_error + validated_target" where
  "validate_host nt p resolver timeout_ok host_value port_value =
     bind_res (validate_port nt port_value) (\<lambda>port.
     bind_res (normalize_host_value nt host_value) (\<lambda>host.
     bind_res (resolve_and_validate p resolver timeout_ok host port) (\<lambda>(as, was_name).
     Inr \<lparr>vt_url = ''tcp://'' @ render_host host @ CHR '':'' # int_str port, vt_scheme = ''tcp'', vt_host = host,
          vt_port = port, vt_addresses = as, vt_host_was_name = was_name\<rparr>)))"

subsection \<open>The pinned transport\<close>

datatype attempt_outcome = Connected | AttemptTimeout | AttemptFailed

datatype connect_result = Stream ip_address | ConnectError string | ConnectTimeout string

text \<open>\<open>clock i\<close> is the time left before the \<open>i\<close>-th attempt, if there is a deadline; the list of the
  addresses that were tried is returned with the result.\<close>

fun try_addresses :: "(nat \<Rightarrow> int option) \<Rightarrow> (ip_address \<Rightarrow> int option \<Rightarrow> attempt_outcome) \<Rightarrow> nat \<Rightarrow> bool \<Rightarrow> ip_address list
    \<Rightarrow> connect_result \<times> ip_address list" where
  "try_addresses clock connect i timed_out [] =
     (if timed_out then ConnectTimeout ''Pinned outbound connection timed out''
      else ConnectError ''Pinned outbound connection failed'', [])"
| "try_addresses clock connect i timed_out (a # as) =
     (case clock i of
        Some r \<Rightarrow>
          if r \<le> 0 then (ConnectTimeout ''Pinned outbound connection timed out'', [])
          else (case connect a (Some r) of
             Connected \<Rightarrow> (Stream a, [a])
           | AttemptTimeout \<Rightarrow> map_prod id ((#) a) (try_addresses clock connect (Suc i) True as)
           | AttemptFailed \<Rightarrow> map_prod id ((#) a) (try_addresses clock connect (Suc i) timed_out as))
      | None \<Rightarrow>
          (case connect a None of
             Connected \<Rightarrow> (Stream a, [a])
           | AttemptTimeout \<Rightarrow> map_prod id ((#) a) (try_addresses clock connect (Suc i) True as)
           | AttemptFailed \<Rightarrow> map_prod id ((#) a) (try_addresses clock connect (Suc i) timed_out as)))"

definition pinned_connect :: "net_text \<Rightarrow> validated_target \<Rightarrow> (nat \<Rightarrow> int option)
    \<Rightarrow> (ip_address \<Rightarrow> int option \<Rightarrow> attempt_outcome) \<Rightarrow> string \<Rightarrow> int \<Rightarrow> connect_result \<times> ip_address list" where
  "pinned_connect nt t clock connect host port =
     (case normalize_host nt host of
        Inl _ \<Rightarrow> (ConnectError ''Pinned outbound host changed'', [])
      | Inr h \<Rightarrow>
          if h \<noteq> vt_host t \<or> port \<noteq> vt_port t then (ConnectError ''Pinned outbound destination changed'', [])
          else try_addresses clock connect 0 False (vt_addresses t))"

text \<open>The chunks handed on before the limit is passed, and whether it was.\<close>

fun limited_chunks :: "nat \<Rightarrow> nat \<Rightarrow> string list \<Rightarrow> string list \<times> bool" where
  "limited_chunks max_bytes received [] = ([], False)"
| "limited_chunks max_bytes received (c # cs) =
     (if max_bytes < received + length c then ([], True)
      else map_prod ((#) c) id (limited_chunks max_bytes (received + length c) cs))"

subsection \<open>What a decision guarantees\<close>

lemma normalize_address_idem [simp]: "normalize_address (normalize_address a) = normalize_address a"
  by (auto simp: normalize_address_def split: ip_address.split option.split)

lemma parse_ip_normal: "parse_ip s = Some a \<Longrightarrow> normalize_address a = a"
  by (auto simp: parse_ip_def)

lemma collect_answers_sound:
  "collect_answers ss found = Some as \<Longrightarrow> distinct found \<Longrightarrow> (\<forall>a \<in> set found. normalize_address a = a) \<Longrightarrow>
     distinct as \<and> (\<forall>a \<in> set as. normalize_address a = a) \<and> set found \<subseteq> set as \<and> (ss \<noteq> [] \<longrightarrow> as \<noteq> [])"
proof (induction ss arbitrary: found)
  case (Cons s ss)
  obtain a where a: "parse_ip s = Some a" using Cons.prems(1) by (cases "parse_ip s") simp_all
  let ?f = "if a \<in> set found then found else found @ [a]"
  have "distinct as \<and> (\<forall>a \<in> set as. normalize_address a = a) \<and> set ?f \<subseteq> set as \<and> (ss \<noteq> [] \<longrightarrow> as \<noteq> [])"
    by (rule Cons.IH) (use Cons.prems a parse_ip_normal [OF a] in \<open>simp_all split: if_splits\<close>)
  then show ?case by (auto split: if_splits)
qed auto

lemma check_addresses_sound:
  "check_addresses p host_allowed as = Inr () \<longleftrightarrow>
     (\<forall>a \<in> set as. (is_restricted a \<or> ep_allowlist_only p) \<longrightarrow> host_allowed \<or> address_allowed p a)"
  by (induction "as") auto

lemma judge_addresses_sound:
  assumes "judge_addresses p host as = Inr as'"
  shows "as' = as \<and> (\<forall>a \<in> set as. a \<notin> set metadata_addresses \<and>
      ((is_restricted a \<or> ep_allowlist_only p) \<longrightarrow> host \<in> set (ep_allowed_hosts p) \<or> address_allowed p a)) \<and>
    ((\<forall>a \<in> set as. is_restricted a) \<or> (\<forall>a \<in> set as. \<not> is_restricted a))"
proof -
  have c: "\<not> list_ex (\<lambda>a. a \<in> set metadata_addresses) as"
      "\<not> (filter is_restricted as \<noteq> [] \<and> filter (\<lambda>a. \<not> is_restricted a) as \<noteq> [])"
      "check_addresses p (host \<in> set (ep_allowed_hosts p)) as = Inr ()" "as' = as"
    using assms by (auto simp: judge_addresses_def bind_res_Inr simp del: filter_empty_conv split: if_splits)
  show ?thesis using c by (auto simp: check_addresses_sound list_ex_iff filter_empty_conv)
qed

lemma resolve_and_validate_sound:
  assumes "resolve_and_validate p resolver timeout_ok host port = Inr (as, was_name)"
  shows "host \<notin> set metadata_hosts \<and> as \<noteq> [] \<and> distinct as \<and> judge_addresses p host as = Inr as \<and>
    (\<forall>a \<in> set as. normalize_address a = a) \<and> (\<not> was_name \<longrightarrow> (\<exists>a. parse_ip host = Some a \<and> as = [a]))"
proof (cases "parse_ip host")
  case (Some a)
  then show ?thesis using assms judge_addresses_sound [of p host "[a]" as] parse_ip_normal [OF Some]
    by (auto simp: resolve_and_validate_def bind_res_Inr split: if_splits)
next
  case None
  then obtain ss as' where "host \<notin> set metadata_hosts" "ss \<noteq> []" "collect_answers ss [] = Some as'"
      "judge_addresses p host as' = Inr as" "was_name"
    using assms
    by (auto simp: resolve_and_validate_def bind_res_Inr split: if_splits resolution.splits option.splits)
  then show ?thesis using judge_addresses_sound [of p host as' as] collect_answers_sound [of ss "[]" as'] by auto
qed

lemma validate_port_range: "validate_port nt v = Inr i \<Longrightarrow> 1 \<le> i \<and> i \<le> 65535"
  by (auto simp: validate_port_def Let_def split: json.splits option.splits if_splits)


lemma no_percent_scope:
  assumes "CHR ''%'' \<notin> set s"
  shows "split_scope s = Some (takeWhile (\<lambda>c. c \<noteq> CHR ''%'') s, None)"
proof -
  have dw: "dropWhile (\<lambda>c. c \<noteq> CHR ''%'') s = []" using assms by (auto simp: dropWhile_eq_Nil_conv)
  show ?thesis unfolding split_scope_def dw Let_def by simp
qed

lemma no_scope_without_percent:
  "CHR ''%'' \<notin> set s \<Longrightarrow> ip_address s = Some a \<Longrightarrow> (\<exists>w. a = IPv4 w) \<or> (\<exists>w. a = IPv6 w None)"
proof -
  assume nc: "CHR ''%'' \<notin> set s" and a: "ip_address s = Some a"
  show ?thesis
  proof (cases "parse_ipv4 s")
    case None
    then show ?thesis using a
      by (cases "CHR ''/'' \<in> set s") (auto simp: ip_address_def no_percent_scope [OF nc])
  next
    case (Some w)
    then show ?thesis using a by (auto simp: ip_address_def split: if_splits)
  qed
qed

text \<open>The canonical text of a literal host is a fixed point.\<close>

lemma normalize_host_literal:
  assumes "CHR ''%'' \<notin> set s" "parse_ip s = Some a"
  shows "normalize_host nt (ip_text a) = Inr (ip_text a) \<and> parse_ip (ip_text a) = Some a"
proof -
  obtain b where b: "ip_address s = Some b" "a = normalize_address b" using assms(2) by (auto simp: parse_ip_def)
  have shape: "(\<exists>w. a = IPv4 w) \<or> (\<exists>w. a = IPv6 w None)"
    using no_scope_without_percent [OF assms(1) b(1)] b(2) by (auto simp: normalize_address_def split: option.splits)
  then have wf: "ip_wf a" by auto
  have "parse_ip (ip_text a) = Some a"
    using ip_round_trip [OF wf] parse_ip_normal [OF assms(2)] by (simp add: parse_ip_def)
  moreover have "CHR ''%'' \<notin> set (ip_text a)"
    using shape ipv6_text_chars(2) ipv4_text_chars by auto
  ultimately show ?thesis by (simp add: normalize_host_def)
qed

lemma hostname_literal:
  assumes "list_all host_label (split_on CHR ''.'' s)" "parse_ip s = Some a"
  shows "s = ip_text a \<and> normalize_host nt s = Inr s"
proof -
  have chars: "c = CHR ''.'' \<or> label_char c \<or> c = CHR ''-''" if "c \<in> set s" for c
    using that join_split [of "CHR ''.''" s] set_join_on [of "CHR ''.''" "split_on CHR ''.'' s"] assms(1)
    by (fastforce simp: list_all_iff host_label_def)
  have "\<not> label_char CHR '':''" "\<not> label_char CHR ''%''" by (simp_all add: label_char_def is_digit_def)
  then have nc: "CHR '':'' \<notin> set s" "CHR ''%'' \<notin> set s" using chars by fastforce+
  then have v6: "parse_ipv6 s = None" by (simp add: parse_ipv6_def split_on_whole)
  have scope: "split_scope s = Some (takeWhile (\<lambda>c. c \<noteq> CHR ''%'') s, None)"
    using no_percent_scope [OF nc(2)] .
  have "takeWhile (\<lambda>c. c \<noteq> CHR ''%'') s = s" using nc(2) by (auto simp: takeWhile_eq_all_conv)
  with v6 scope have "split_scope s = Some (s, None)" by (simp only:)
  obtain b where b: "ip_address s = Some b" using assms(2) by (auto simp: parse_ip_def)
  have "parse_ipv4 s \<noteq> None"
    using b v6 \<open>split_scope s = Some (s, None)\<close> by (cases "parse_ipv4 s") (simp_all add: ip_address_def split: if_splits)
  then obtain w where w: "parse_ipv4 s = Some w" by blast
  then have w2: "ip_address s = Some (IPv4 w)" using b by (simp add: ip_address_def split: if_splits)
  have "a = IPv4 w" using assms(2) w2 by (simp add: parse_ip_def normalize_address_def)
  then have "s = ip_text a" using ipv4_text_parse [OF w] by simp
  then show ?thesis using nc(2) assms(2) by (simp add: normalize_host_def)
qed

lemma try_addresses_step:
  "try_addresses clock connect i timed_out (a # as) =
     (if \<exists>r. clock i = Some r \<and> r \<le> 0 then (ConnectTimeout ''Pinned outbound connection timed out'', [])
      else (case connect a (clock i) of
         Connected \<Rightarrow> (Stream a, [a])
       | AttemptTimeout \<Rightarrow> map_prod id ((#) a) (try_addresses clock connect (Suc i) True as)
       | AttemptFailed \<Rightarrow> map_prod id ((#) a) (try_addresses clock connect (Suc i) timed_out as)))"
  by (cases "clock i") simp_all

lemma try_addresses_within: "set (snd (try_addresses clock connect i timed_out as)) \<subseteq> set as \<and>
    (\<forall>a. fst (try_addresses clock connect i timed_out as) = Stream a \<longrightarrow> a \<in> set as)"
proof (induction "as" arbitrary: i timed_out)
  case (Cons a "as")
  show ?case
    using Cons.IH [of "Suc i" True] Cons.IH [of "Suc i" timed_out]
    unfolding try_addresses_step by (cases "connect a (clock i)") auto
qed simp

lemma try_addresses_reach:
  assumes "\<And>i. clock i = None" "a \<in> set as" "connect a None = Connected"
  shows "\<exists>b. fst (try_addresses clock connect i timed_out as) = Stream b"
  using assms(2)
proof (induction "as" arbitrary: i timed_out)
  case (Cons b "as")
  show ?case
    using Cons.IH [of "Suc i" True] Cons.IH [of "Suc i" timed_out] Cons.prems assms(1,3)
    by (cases "connect b None") (auto simp: assms(1))
qed simp


subsection \<open>Concrete decisions\<close>

definition demo_net_text :: net_text where
  "demo_net_text = \<lparr>nt_idna = Some, nt_network = (\<lambda>_. None), nt_int = (\<lambda>_. None)\<rparr>"

definition demo_policy :: egress_policy where
  "demo_policy = \<lparr>ep_allowlist_only = False, ep_allowed_hosts = [], ep_allowed_networks = []\<rparr>"

definition demo_split :: "string \<Rightarrow> string \<Rightarrow> split_url option" where
  "demo_split host url = Some \<lparr>su_scheme = ''HTTPS'', su_hostname = Some host, su_has_credentials = False,
     su_port = Some None, su_path = ''/a'', su_query = [], su_fragment = []\<rparr>"

lemma demo_address:
  "\<not> is_restricted (IPv4 (quad 93 184 216 34))" "IPv4 (quad 93 184 216 34) \<notin> set metadata_addresses"
  "parse_ip ''93.184.216.34'' = Some (IPv4 (quad 93 184 216 34))" "parse_ip ''example.org'' = None"
  "parse_ip ''Example.org'' = None"
  by (simp_all add: is_restricted_def is_private4_def in_net4_def private4_def quad_def private4_exceptions_def
      mask_eq_exp_minus_1 metadata_addresses_def parse_ip_def ip_address_def parse_ipv4_def parse_octet_def
      decimal_value_def digit_value_def is_digit_def normalize_address_def split_scope_def parse_ipv6_def)



end
