(* ===== verification/ProcessingNodes.thy ===== *)
theory ProcessingNodes
  imports NodeRunner PyText
begin

text \<open>
  The built-in nodes that compute on their input alone: \<open>nodes/filter.py\<close>, \<open>merge.py\<close>, \<open>split.py\<close>,
  \<open>transform.py\<close>, \<open>webhook_source.py\<close>. The code of a node is a function of its configuration and its
  input; an exception is its text, and where Python words the text of a \<open>TypeError\<close> or
  \<open>AttributeError\<close> itself, the model keeps the name of the exception. User expressions are Python and
  Jinja programs: what parsing and evaluating them yields is a parameter, and they are taken not to
  change the items they look at. The counters that a result repeats in its metadata are left out.
\<close>

subsection \<open>Python values in node code\<close>

type_synonym 'a py = "string + 'a"
type_synonym node_code = "obj \<Rightarrow> (json, json) dict \<Rightarrow> node_result py"

abbreviation type_error :: string where "type_error \<equiv> ''TypeError''"
abbreviation attribute_error :: string where "attribute_error \<equiv> ''AttributeError''"

definition input_get :: "(json, json) dict \<Rightarrow> string \<Rightarrow> json \<Rightarrow> json" where
  "input_get inp k d = dict_get_or inp (JStr k) d"

fun type_name :: "json \<Rightarrow> string" where
  "type_name JNull = ''NoneType''"
| "type_name (JBool _) = ''bool''"
| "type_name (JInt _) = ''int''"
| "type_name (JFloat _) = ''float''"
| "type_name (JStr _) = ''str''"
| "type_name (JList _) = ''list''"
| "type_name (JObj _) = ''dict''"

text \<open>\<open>for x in v\<close>: a string yields its characters, a dictionary its keys.\<close>

fun py_iter :: "json \<Rightarrow> json list py" where
  "py_iter (JList xs) = Inr xs"
| "py_iter (JStr s) = Inr (map (\<lambda>c. JStr [c]) s)"
| "py_iter (JObj d) = Inr (map (\<lambda>(k, _). JStr k) d)"
| "py_iter _ = Inl type_error"

text \<open>\<open>v.get(k, d)\<close>.\<close>

fun py_get :: "json \<Rightarrow> string \<Rightarrow> json \<Rightarrow> json py" where
  "py_get (JObj dict) k d = Inr (dict_get_or dict k d)"
| "py_get _ k d = Inl attribute_error"

text \<open>A number used as a size: \<open>True\<close> and \<open>False\<close> are 1 and 0; a float is no slice index.\<close>

fun int_setting :: "json \<Rightarrow> int py" where
  "int_setting (JInt i) = Inr i"
| "int_setting (JBool b) = Inr (if b then 1 else 0)"
| "int_setting _ = Inl type_error"

definition node_ok :: "obj \<Rightarrow> nat \<Rightarrow> node_result" where
  "node_ok out n = \<lparr>rs_success = True, rs_output = out, rs_items = int n, rs_error = None\<rparr>"

definition node_failed :: "obj \<Rightarrow> string \<Rightarrow> node_result" where
  "node_failed out msg = \<lparr>rs_success = False, rs_output = out, rs_items = 0, rs_error = Some msg\<rparr>"

lemma node_result_sel [simp]:
  "rs_success (node_ok out n)" "rs_output (node_ok out n) = out" "rs_items (node_ok out n) = int n"
  "rs_error (node_ok out n) = None" "\<not> rs_success (node_failed out m)" "rs_error (node_failed out m) = Some m"
  "rs_items (node_failed out m) = 0" "rs_output (node_failed out m) = out"
  by (simp_all add: node_ok_def node_failed_def)

subsection \<open>Expressions\<close>

datatype ast_node =
    AstImport
  | AstDefinition
  | AstGlobal
  | AstNonlocal
  | AstAttribute string
  | AstOther

datatype parse_error = InvalidSyntax string | InvalidValue string | ParseFailed string

text \<open>
  \<open>el_parse\<close>: the nodes of the tree in the order of \<open>ast.walk\<close>. \<open>el_test\<close>: the truth of the value for
  one item, \<open>None\<close> when the evaluation raises. \<open>el_eval\<close>, \<open>el_render\<close>: an exception's text or a value.
\<close>

record expression_language =
  el_parse :: "json \<Rightarrow> parse_error + ast_node list"
  el_test :: "json \<Rightarrow> json \<Rightarrow> bool option"
  el_eval :: "json \<Rightarrow> json \<Rightarrow> json py"
  el_render :: "json \<Rightarrow> obj \<Rightarrow> string py"

subsection \<open>Filter\<close>

fun private_attribute :: "string \<Rightarrow> bool" where
  "private_attribute (c # _) = (c = CHR ''_'')"
| "private_attribute [] = False"

fun check_filter_ast :: "ast_node list \<Rightarrow> unit py" where
  "check_filter_ast [] = Inr ()"
| "check_filter_ast (AstImport # ns) = Inl ''Imports are not allowed in filter expressions''"
| "check_filter_ast (AstDefinition # ns) = Inl ''Function/class definitions are not allowed''"
| "check_filter_ast (AstGlobal # ns) = Inl ''Global variables are not allowed''"
| "check_filter_ast (AstNonlocal # ns) = Inl ''Nonlocal variables are not allowed''"
| "check_filter_ast (AstAttribute a # ns) =
     (if private_attribute a then Inl (''Access to private attribute '' @ py_quote a @ '' is not allowed'')
      else check_filter_ast ns)"
| "check_filter_ast (AstOther # ns) = check_filter_ast ns"

text \<open>\<open>Inl\<close> for an exception that is no \<open>ValueError\<close>, \<open>Inr (Inl m)\<close> for a \<open>ValueError\<close>.\<close>

definition validate_expression :: "expression_language \<Rightarrow> json \<Rightarrow> (unit py) py" where
  "validate_expression el cond =
     (case el_parse el cond of
        Inl (InvalidSyntax m) \<Rightarrow> Inr (Inl (''Invalid syntax: '' @ m))
      | Inl (InvalidValue m) \<Rightarrow> Inr (Inl m)
      | Inl (ParseFailed m) \<Rightarrow> Inl m
      | Inr ns \<Rightarrow> Inr (check_filter_ast ns))"

fun filter_items :: "(json \<Rightarrow> bool option) \<Rightarrow> json list \<Rightarrow> json list \<Rightarrow> json list \<Rightarrow> json list \<times> json list" where
  "filter_items test [] matched rejected = (matched, rejected)"
| "filter_items test (x # xs) matched rejected =
     (case test x of
        Some True \<Rightarrow> filter_items test xs (matched @ [x]) rejected
      | Some False \<Rightarrow> filter_items test xs matched (rejected @ [x])
      | None \<Rightarrow> filter_items test xs matched (rejected @ [x]))"

definition matched_out :: "json list \<Rightarrow> json list \<Rightarrow> obj" where
  "matched_out matched rejected = [(''matched'', JList matched), (''rejected'', JList rejected)]"

definition filter_node :: "expression_language \<Rightarrow> node_code" where
  "filter_node el config inp =
     (let items = input_get inp ''items'' (JList []); cond = dict_get_or config ''condition'' (JStr [])
      in if \<not> truthy cond then Inr (node_failed (matched_out [] []) ''No condition expression provided'')
         else if \<not> truthy items then Inr (node_ok (matched_out [] []) 0)
         else bind_res (validate_expression el cond) (\<lambda>checked.
           case checked of
             Inl m \<Rightarrow> Inr (node_failed (matched_out [] []) (''Invalid condition: '' @ m))
           | Inr _ \<Rightarrow> bind_res (py_iter items) (\<lambda>xs.
               let (matched, rejected) = filter_items (el_test el cond) xs [] []
               in Inr (node_ok (matched_out matched rejected) (length xs)))))"

subsection \<open>Merge\<close>

definition as_list :: "json \<Rightarrow> json list" where
  "as_list v = (case v of JList xs \<Rightarrow> xs | _ \<Rightarrow> [v])"

text \<open>The port \<open>inputs\<close> first, then every other key in the order of the dictionary.\<close>

definition gather_inputs :: "(json, json) dict \<Rightarrow> json list list" where
  "gather_inputs inp =
     (case dict_get inp (JStr ''inputs'') of None \<Rightarrow> [] | Some v \<Rightarrow> [as_list v]) @
     map (\<lambda>(k, v). as_list v) (filter (\<lambda>(k, v). k \<noteq> JStr ''inputs'') inp)"

definition merge_concat :: "json list list \<Rightarrow> json list" where
  "merge_concat vals = concat vals"

function zip_lists :: "'a list list \<Rightarrow> 'a list list" where
  "zip_lists vals = (if vals = [] \<or> list_ex (\<lambda>xs. xs = []) vals then [] else map hd vals # zip_lists (map tl vals))"
  by pat_completeness auto
termination
  by (relation "measure (\<lambda>vals. length (hd vals))") (auto simp: list_ex_iff neq_Nil_conv)

declare zip_lists.simps [simp del]

function deep_merge :: "obj \<Rightarrow> obj \<Rightarrow> obj" where
  "deep_merge target [] = target"
| "deep_merge target ((k, v) # source) =
     deep_merge
       (case (dict_get target k, v) of
          (Some (JObj t), JObj s) \<Rightarrow> dict_set k (JObj (deep_merge t s)) target
        | _ \<Rightarrow> dict_set k v target)
       source"
  by pat_completeness auto
termination
  by (relation "measure (\<lambda>(t, s). size (JObj s))") auto

fun merge_item :: "obj \<Rightarrow> json \<Rightarrow> obj py" where
  "merge_item result (JObj d) = Inr (deep_merge result d)"
| "merge_item result x =
     (case dict_get result ''_items'' of
        None \<Rightarrow> Inr (dict_set ''_items'' (JList [x]) result)
      | Some (JList xs) \<Rightarrow> Inr (dict_set ''_items'' (JList (xs @ [x])) result)
      | Some v \<Rightarrow> Inl (py_quote (type_name v) @ '' object has no attribute '' @ py_quote ''append''))"

fun merge_items :: "obj \<Rightarrow> json list \<Rightarrow> obj py" where
  "merge_items result [] = Inr result"
| "merge_items result (x # xs) = bind_res (merge_item result x) (\<lambda>r. merge_items r xs)"

fun merge_objects :: "obj \<Rightarrow> json list list \<Rightarrow> obj py" where
  "merge_objects result [] = Inr result"
| "merge_objects result (v # vs) = bind_res (merge_items result v) (\<lambda>r. merge_objects r vs)"

definition merge_node :: "(json \<Rightarrow> string) \<Rightarrow> node_code" where
  "merge_node repr config inp =
     (let mode = dict_get_or config ''mode'' (JStr ''concat''); vals = gather_inputs inp
      in if vals = [] then Inr (node_ok [(''merged'', JList [])] 0)
         else if mode = JStr ''concat''
         then Inr (node_ok [(''merged'', JList (merge_concat vals))] (length (merge_concat vals)))
         else if mode = JStr ''zip''
         then Inr (node_ok [(''merged'', JList (map JList (zip_lists vals)))] (length (zip_lists vals)))
         else if mode = JStr ''merge_objects''
         then (case merge_objects [] vals of
                 Inl m \<Rightarrow> Inr (node_failed [(''merged'', JList [])] m)
               | Inr r \<Rightarrow> Inr (node_ok [(''merged'', JObj r)] 1))
         else Inr (node_failed [(''merged'', JList [])] (''Unknown merge mode: '' @ py_str repr mode)))"

subsection \<open>Split\<close>

definition split_node :: node_code where
  "split_node config inp =
     (case input_get inp ''items'' (JList []) of
        JList items \<Rightarrow>
          bind_res (int_setting (dict_get_or config ''batch_size'' (JInt 1))) (\<lambda>n.
            let size = (if n < 1 then 1 else nat n)
            in Inr (node_ok [(''item'', JList (map JList (slices size items)))] (length items)))
      | v \<Rightarrow> Inr (node_failed [(''item'', JList [])] (''Expected list input, got '' @ type_name v)))"

subsection \<open>Transform\<close>

fun check_transform_ast :: "ast_node list \<Rightarrow> unit py" where
  "check_transform_ast [] = Inr ()"
| "check_transform_ast (AstImport # ns) = Inl ''Imports are not allowed in transform expressions''"
| "check_transform_ast (AstDefinition # ns) = Inl ''Definitions are not allowed''"
| "check_transform_ast (AstGlobal # ns) = Inl ''Global/nonlocal variables are not allowed''"
| "check_transform_ast (AstNonlocal # ns) = Inl ''Global/nonlocal variables are not allowed''"
| "check_transform_ast (AstAttribute a # ns) = check_transform_ast ns"
| "check_transform_ast (AstOther # ns) = check_transform_ast ns"

definition eval_python :: "expression_language \<Rightarrow> json \<Rightarrow> json \<Rightarrow> json py" where
  "eval_python el expr data =
     (case el_parse el expr of
        Inl (InvalidSyntax m) \<Rightarrow> Inl (''Invalid Python expression: '' @ m)
      | Inl (InvalidValue m) \<Rightarrow> Inl m
      | Inl (ParseFailed m) \<Rightarrow> Inl m
      | Inr ns \<Rightarrow> bind_res (check_transform_ast ns) (\<lambda>_. el_eval el expr data))"

definition render_jinja2 :: "expression_language \<Rightarrow> json \<Rightarrow> json \<Rightarrow> json py" where
  "render_jinja2 el template data =
     map_sum id JStr (el_render el template (case data of JObj d \<Rightarrow> d | _ \<Rightarrow> [(''data'', data), (''item'', data)]))"

definition transform_node :: "(json \<Rightarrow> string) \<Rightarrow> expression_language \<Rightarrow> node_code" where
  "transform_node repr el config inp =
     (let data = input_get inp ''data'' JNull; mode = dict_get_or config ''mode'' (JStr ''python'');
          expr = dict_get_or config ''expression'' (JStr []);
          failed = node_failed [(''result'', JNull)];
          finished = (\<lambda>r. case r of
             Inl m \<Rightarrow> failed m
           | Inr v \<Rightarrow> node_ok [(''result'', v)] (if v = JNull then 0 else 1))
      in Inr (if \<not> truthy expr then failed ''No expression provided''
              else if mode = JStr ''python'' then finished (eval_python el expr data)
              else if mode = JStr ''jinja2'' then finished (render_jinja2 el expr data)
              else failed (''Unknown transform mode: '' @ py_str repr mode)))"

subsection \<open>Webhook source\<close>

definition webhook_node :: node_code where
  "webhook_node config inp = Inr (node_ok [(''json'', input_get inp ''webhook_payload'' (JObj []))] 1)"

subsection \<open>What the filter does\<close>

lemma filter_items_partition:
  "filter_items test xs matched rejected =
     (matched @ filter (\<lambda>x. test x = Some True) xs, rejected @ filter (\<lambda>x. test x \<noteq> Some True) xs)"
  by (induction test xs matched rejected rule: filter_items.induct) (auto split: option.split)

definition harmless_node :: "ast_node \<Rightarrow> bool" where
  "harmless_node n \<longleftrightarrow> (case n of AstAttribute a \<Rightarrow> \<not> private_attribute a | AstOther \<Rightarrow> True | _ \<Rightarrow> False)"

lemma check_filter_ast_ok: "check_filter_ast ns = Inr u \<longleftrightarrow> list_all harmless_node ns"
  by (induction ns rule: check_filter_ast.induct) (auto simp: harmless_node_def)

text \<open>
  The filter node splits its items in two without losing, repeating or reordering any: an item is
  matched when the condition holds for it and rejected otherwise, also when evaluating it raises. And a
  condition is evaluated only if its syntax tree has no import, definition, global statement or private
  attribute.
\<close>

theorem filter_node_partition:
  assumes "filter_node el config inp = Inr r" "rs_success r" "input_get inp ''items'' (JList []) = JList xs"
  defines "holds \<equiv> \<lambda>x. el_test el (dict_get_or config ''condition'' (JStr [])) x = Some True"
  shows "rs_output r = matched_out (filter holds xs) (filter (\<lambda>x. \<not> holds x) xs) \<and> rs_items r = int (length xs) \<and>
    (xs \<noteq> [] \<longrightarrow> (\<exists>ns. el_parse el (dict_get_or config ''condition'' (JStr [])) = Inr ns \<and> list_all harmless_node ns))"
proof (cases "xs = []")
  case False
  have "truthy (dict_get_or config ''condition'' (JStr []))" using assms(1,2) by (auto simp: filter_node_def Let_def split: if_splits)
  note run = this assms(1-3) False
  show ?thesis
  proof (cases "validate_expression el (dict_get_or config ''condition'' (JStr []))")
    case (Inr c)
    have "c = Inr ()"
    proof (cases c)
      case (Inl m)
      then show ?thesis using run \<open>_ = Inr c\<close> by (auto simp: filter_node_def)
    qed simp
    then have r: "r = node_ok (matched_out (filter holds xs) (filter (\<lambda>x. \<not> holds x) xs)) (length xs)"
      using run Inr unfolding holds_def by (simp add: filter_node_def filter_items_partition Let_def)
    moreover have "\<exists>ns. el_parse el (dict_get_or config ''condition'' (JStr [])) = Inr ns \<and> list_all harmless_node ns"
      using Inr \<open>c = Inr ()\<close>
      by (auto simp: validate_expression_def check_filter_ast_ok split: sum.splits parse_error.splits)
    ultimately show ?thesis by simp
  qed (use run in \<open>simp add: filter_node_def\<close>)
qed (use assms in \<open>auto simp: filter_node_def Let_def split: if_splits\<close>)

theorem filter_node_partition_witness:
  "\<exists>r. filter_node \<lparr>el_parse = \<lambda>_. Inr [AstOther, AstAttribute ''size''],
         el_test = \<lambda>_ x. (case x of JInt i \<Rightarrow> Some (3 < i) | _ \<Rightarrow> None), el_eval = \<lambda>_ _. Inl [], el_render = \<lambda>_ _. Inl []\<rparr>
       [(''condition'', JStr ''item > 3'')] [(JStr ''items'', JList [JInt 5, JNull, JInt 2, JInt 7])] = Inr r \<and>
     rs_output r = matched_out [JInt 5, JInt 7] [JNull, JInt 2]"
  (is "\<exists>r. filter_node ?el ?c ?i = Inr r \<and> _")
proof -
  obtain r where r: "filter_node ?el ?c ?i = Inr r" "rs_success r"
    by (simp add: filter_node_def input_get_def dict_get_or_def validate_expression_def private_attribute.simps)
  have "input_get ?i ''items'' (JList []) = JList [JInt 5, JNull, JInt 2, JInt 7]"
    by (simp add: input_get_def dict_get_or_def)
  from filter_node_partition [OF r this] r(1) show ?thesis by (simp add: dict_get_or_def)
qed

subsection \<open>What the merge does\<close>

lemma deep_merge_get:
  "distinct (map fst source) \<Longrightarrow> dict_get (deep_merge target source) k =
     (case dict_get source k of
        None \<Rightarrow> dict_get target k
      | Some v \<Rightarrow> Some (case (dict_get target k, v) of
          (Some (JObj t), JObj s) \<Rightarrow> JObj (deep_merge t s)
        | _ \<Rightarrow> v))"
proof (induction source arbitrary: target)
  case (Cons p source)
  obtain j v where p: "p = (j, v)" by (cases p)
  have j: "dict_get source j = None" using Cons.prems by (auto simp: p map_of_eq_None_iff)
  have IH: "dict_get (deep_merge t source) k = (case dict_get source k of None \<Rightarrow> dict_get t k
      | Some v \<Rightarrow> Some (case (dict_get t k, v) of (Some (JObj t), JObj s) \<Rightarrow> JObj (deep_merge t s) | _ \<Rightarrow> v))" for t
    using Cons by simp
  show ?case
    using j by (cases "j = k") (simp_all add: p IH split: option.split json.split)
qed simp

text \<open>The value at a path of keys.\<close>

fun path_get :: "json \<Rightarrow> string list \<Rightarrow> json option" where
  "path_get v [] = Some v"
| "path_get (JObj d) (k # ks) = (case dict_get d k of None \<Rightarrow> None | Some v \<Rightarrow> path_get v ks)"
| "path_get _ (k # ks) = None"

text \<open>The source says nothing about a path: following it ends at a missing key, inside objects.\<close>

fun path_open :: "json \<Rightarrow> string list \<Rightarrow> bool" where
  "path_open v [] = False"
| "path_open (JObj d) (k # ks) = (case dict_get d k of None \<Rightarrow> True | Some v \<Rightarrow> path_open v ks)"
| "path_open _ (k # ks) = False"

lemma path_get_not_obj: "\<not> is_obj v \<Longrightarrow> path_get v (k # ks) = None"
  by (cases v) simp_all

lemma path_open_obj: "path_open v ks \<Longrightarrow> is_obj v \<and> ks \<noteq> []"
  by (induction v ks rule: path_open.induct) simp_all

lemma path_open_none: "path_open v ks \<Longrightarrow> path_get v ks = None"
  by (induction v ks rule: path_open.induct) (simp_all split: option.splits)

text \<open>
  Merging objects is deep and the later object wins: at every path where the source has a value
  that is not an object, the result has that value; at every path on which the source says nothing,
  the result has what the target had.
\<close>

theorem deep_merge_paths:
  assumes "json_wf (JObj source)"
  shows "(\<forall>v. path_get (JObj source) ks = Some v \<and> \<not> is_obj v \<longrightarrow> path_get (JObj (deep_merge target source)) ks = Some v) \<and>
    (path_open (JObj source) ks \<longrightarrow> path_get (JObj (deep_merge target source)) ks = path_get (JObj target) ks)"
  using assms
proof (induction ks arbitrary: source target)
  case (Cons k ks)
  have d: "distinct (map fst source)" using Cons.prems by simp
  show ?case
  proof (cases "dict_get source k")
    case (Some v)
    then have wf: "json_wf v" using Cons.prems by (auto simp: list_all_iff dest: map_of_SomeD)
    show ?thesis
    proof (cases "\<exists>t s. dict_get target k = Some (JObj t) \<and> v = JObj s")
      case True
      then obtain t s where ts: "dict_get target k = Some (JObj t)" "v = JObj s" by blast
      then show ?thesis using Cons.IH [of s t] wf Some by (simp add: deep_merge_get [OF d])
    next
      case False
      then have m: "dict_get (deep_merge target source) k = Some v"
        using Some by (auto simp: deep_merge_get [OF d] split: option.split json.split)
      have "path_get v ks = None \<and> (\<forall>u. dict_get target k = Some u \<longrightarrow> path_get u ks = None)" if "path_open v ks"
      proof -
        note opened = path_open_obj [OF that] path_open_none [OF that]
        then obtain j js where ks: "ks = j # js" and v: "is_obj v" by (cases ks) auto
        have "\<not> is_obj u" if "dict_get target k = Some u" for u
          using False v that by (cases u; cases v) auto
        then show ?thesis using opened by (auto simp: ks path_get_not_obj)
      qed
      then show ?thesis using Some m by (auto split: option.split)
    qed
  qed (simp add: deep_merge_get [OF d])
qed simp

theorem deep_merge_paths_witness:
  "path_get (JObj (deep_merge [(''a'', JObj [(''x'', JInt 1)])] [(''a'', JObj [(''y'', JInt 2)])])) [''a'', ''x''] = Some (JInt 1)"
proof -
  have "json_wf (JObj [(''a'', JObj [(''y'', JInt 2)])])" by simp
  from deep_merge_paths [OF this, of "[''a'', ''x'']" "[(''a'', JObj [(''x'', JInt 1)])]"] show ?thesis by simp
qed

lemma zip_lists_length: "ys \<in> set (zip_lists vals) \<Longrightarrow> length ys = length vals"
  by (induction vals rule: zip_lists.induct) (subst (asm) zip_lists.simps, auto split: if_splits)

lemma split_batches:
  "0 < n \<Longrightarrow> concat (slices n xs) = xs \<and> list_all (\<lambda>b. 0 < length b \<and> length b \<le> n) (slices n xs)"
  using slices_bound [of n] by (auto simp: concat_slices list_all_iff)

end
