(* ===== verification/ChunkNodes.thy ===== *)
theory ChunkNodes
  imports ProcessingNodes
begin

text \<open>
  The built-in nodes that cut documents into chunks: \<open>nodes/text_chunker.py\<close>,
  \<open>recursive_splitter.py\<close>, \<open>html_splitter.py\<close>, and \<open>chunk_preview.py\<close>. The tokenizer \<open>tiktoken\<close> and
  the events of \<open>html.parser\<close> are parameters. A size that is no integer makes a node raise as soon as
  it cuts a document.
\<close>

subsection \<open>Texts\<close>

text \<open>\<open>xs[i:j]\<close>: an index below zero counts from the end, one outside the list is clamped.\<close>

definition slice_index :: "int \<Rightarrow> 'a list \<Rightarrow> nat" where
  "slice_index i xs = nat (if i < 0 then max 0 (i + int (length xs)) else min i (int (length xs)))"

definition py_slice :: "int \<Rightarrow> int \<Rightarrow> 'a list \<Rightarrow> 'a list" where
  "py_slice i j xs = drop (slice_index i xs) (take (slice_index j xs) xs)"

lemma py_slice_take: "0 \<le> i \<Longrightarrow> 0 \<le> n \<Longrightarrow> py_slice i (i + n) xs = take (nat n) (drop (nat i) xs)"
  by (auto simp: py_slice_def slice_index_def take_drop min_def nat_add_distrib add.commute)

text \<open>\<open>s.split(sep)\<close> for a non-empty separator, \<open>sep.join(ps)\<close>, \<open>s.replace(old, new)\<close>.\<close>

function split_str :: "string \<Rightarrow> string \<Rightarrow> string list" where
  "split_str sep s =
     (if s = [] then [[]]
      else if sep \<noteq> [] \<and> take (length sep) s = sep then [] # split_str sep (drop (length sep) s)
      else (case split_str sep (tl s) of p # ps \<Rightarrow> (hd s # p) # ps | [] \<Rightarrow> [[hd s]]))"
  by pat_completeness auto
termination
  by (relation "measure (\<lambda>(sep, s). length s)") auto

declare split_str.simps [simp del]

fun join_str :: "string \<Rightarrow> string list \<Rightarrow> string" where
  "join_str sep [] = []"
| "join_str sep [p] = p"
| "join_str sep (p # ps) = p @ sep @ join_str sep ps"

definition py_replace :: "string \<Rightarrow> string \<Rightarrow> string \<Rightarrow> string" where
  "py_replace old new s = join_str new (split_str old s)"

text \<open>\<open>[s[i : i + n] for i in range(0, len(s), n)]\<close>.\<close>

definition split_by_char :: "string \<Rightarrow> int \<Rightarrow> string list py" where
  "split_by_char s n =
     (if n = 0 then Inl ''range() arg 3 must not be zero''
      else Inr (if n < 0 then [] else slices (nat n) s))"

text \<open>A text chunk as a JSON object.\<close>

definition doc_field :: "json \<Rightarrow> string \<Rightarrow> json \<Rightarrow> json" where
  "doc_field v k d = (case v of JObj dict \<Rightarrow> dict_get_or dict k d | _ \<Rightarrow> d)"

definition text_of :: "json \<Rightarrow> string" where
  "text_of v = (case v of JStr s \<Rightarrow> s | _ \<Rightarrow> [])"

text \<open>The loop over the documents: \<open>step\<close> makes the chunks of one document from the number of chunks so far.\<close>

fun each_document :: "(nat \<Rightarrow> nat \<Rightarrow> json \<Rightarrow> json list py) \<Rightarrow> nat \<Rightarrow> nat \<Rightarrow> json list \<Rightarrow> json list py" where
  "each_document step i n [] = Inr []"
| "each_document step i n (d # ds) =
     bind_res (step i n d) (\<lambda>cs. bind_res (each_document step (Suc i) (n + length cs) ds) (\<lambda>rest. Inr (cs @ rest)))"

text \<open>\<open>doc.get("text", "")\<close> that must be a string; a blank document is skipped.\<close>

definition with_text :: "json \<Rightarrow> (string \<Rightarrow> json list py) \<Rightarrow> json list py" where
  "with_text doc f = bind_res (py_get doc ''text'' (JStr [])) (\<lambda>t. case t of
       JStr s \<Rightarrow> if strip s = [] then Inr [] else f s
     | _ \<Rightarrow> Inl attribute_error)"

definition chunks_out :: "json list \<Rightarrow> obj" where
  "chunks_out cs = [(''chunks'', JList cs)]"

subsection \<open>Text chunker\<close>

datatype token = TokInt int | TokStr string

text \<open>\<open>tk_encode\<close> is \<open>None\<close> when \<open>tiktoken\<close> is not installed; \<open>tk_decode\<close> is \<open>None\<close> where it raises.\<close>

record tokenizer_env =
  tk_encode :: "(string \<Rightarrow> int list) option"
  tk_decode :: "int list \<Rightarrow> string option"

definition get_tokenizer :: "(json \<Rightarrow> string) \<Rightarrow> tokenizer_env \<Rightarrow> json \<Rightarrow> (string \<Rightarrow> token list) py" where
  "get_tokenizer repr env mode =
     (if mode = JStr ''tiktoken_cl100k''
      then Inr (case tk_encode env of Some enc \<Rightarrow> (\<lambda>s. map TokInt (enc s)) | None \<Rightarrow> (\<lambda>s. map TokStr (space_words s [])))
      else if mode = JStr ''words'' then Inr (\<lambda>s. map TokStr (space_words s []))
      else if mode = JStr ''chars'' then Inr (\<lambda>s. map (\<lambda>c. TokStr [c]) s)
      else Inl (''Unknown tokenizer mode: '' @ py_str repr mode))"

fun token_strings :: "token list \<Rightarrow> string list py" where
  "token_strings [] = Inr []"
| "token_strings (TokStr s # ts) = bind_res (token_strings ts) (\<lambda>ss. Inr (s # ss))"
| "token_strings (TokInt i # ts) = Inl type_error"

definition join_tokens :: "string \<Rightarrow> token list \<Rightarrow> string py" where
  "join_tokens sep ts = bind_res (token_strings ts) (\<lambda>ss. Inr (join_str sep ss))"

definition decode_tokens :: "tokenizer_env \<Rightarrow> token list \<Rightarrow> string py" where
  "decode_tokens env ts =
     (case (tk_encode env, ts) of
        (Some _, TokInt i # _) \<Rightarrow>
          (case tk_decode env (List.map_filter (\<lambda>t. case t of TokInt j \<Rightarrow> Some j | TokStr _ \<Rightarrow> None) ts) of
             Some s \<Rightarrow> Inr s
           | None \<Rightarrow> join_tokens '' '' ts)
      | _ \<Rightarrow> join_tokens '' '' ts)"

definition chunk_text :: "tokenizer_env \<Rightarrow> json \<Rightarrow> token list \<Rightarrow> string py" where
  "chunk_text env mode ts =
     (if mode = JStr ''chars'' then join_tokens [] ts
      else if mode = JStr ''words'' then join_tokens '' '' ts
      else decode_tokens env ts)"

definition chunk_step :: "int \<Rightarrow> int \<Rightarrow> int" where
  "chunk_step limit overlap = (if limit - overlap \<le> 0 then 1 else limit - overlap)"

text \<open>The loop of \<open>_create_chunks\<close> over the tokens from index \<open>i\<close> on.\<close>

function chunk_windows :: "int \<Rightarrow> int \<Rightarrow> 'a list \<Rightarrow> int \<Rightarrow> 'a list list" where
  "chunk_windows limit overlap tokens i =
     (if i < int (length tokens)
      then (let w = py_slice i (i + limit) tokens in
            if w = [] then [] else w # chunk_windows limit overlap tokens (i + chunk_step limit overlap))
      else [])"
  by pat_completeness auto
termination
  by (relation "measure (\<lambda>(limit, overlap, tokens, i). nat (int (length tokens) - i))") (auto simp: chunk_step_def)

declare chunk_windows.simps [simp del]

definition make_chunk :: "tokenizer_env \<Rightarrow> json \<Rightarrow> nat \<Rightarrow> json \<Rightarrow> json \<Rightarrow> nat \<Rightarrow> token list \<Rightarrow> json py" where
  "make_chunk env mode doc_index metadata page_count index ts =
     bind_res (chunk_text env mode ts) (\<lambda>s.
       case metadata of
         JObj md \<Rightarrow> Inr (JObj [(''text'', JStr s), (''chunk_index'', JInt (int index)),
           (''metadata'', JObj (dict_merge md [(''doc_index'', JInt (int doc_index)),
              (''chunk_tokens'', JInt (int (length ts))), (''page_count'', page_count)]))])
       | _ \<Rightarrow> Inl type_error)"

definition create_chunks :: "tokenizer_env \<Rightarrow> json \<Rightarrow> int \<Rightarrow> int \<Rightarrow> nat \<Rightarrow> nat \<Rightarrow> json \<Rightarrow> json \<Rightarrow> token list \<Rightarrow> json list py" where
  "create_chunks env mode limit overlap doc_index start metadata page_count tokens =
     map_res (\<lambda>(k, w). make_chunk env mode doc_index metadata page_count (start + k) w)
       (enumerate 0 (chunk_windows limit overlap tokens 0))"

definition text_chunker_node :: "(json \<Rightarrow> string) \<Rightarrow> tokenizer_env \<Rightarrow> node_code" where
  "text_chunker_node repr env config inp =
     (let documents = input_get inp ''documents'' (JList []);
          mode = dict_get_or config ''tokenizer'' (JStr ''tiktoken_cl100k'')
      in if \<not> truthy documents then Inr (node_ok (chunks_out []) 0)
         else bind_res (int_setting (dict_get_or config ''chunk_size'' (JInt 512))) (\<lambda>limit.
           bind_res (int_setting (dict_get_or config ''chunk_overlap'' (JInt 50))) (\<lambda>overlap.
           if limit \<le> overlap
           then Inr (node_failed (chunks_out []) (''chunk_overlap ('' @ int_str overlap @ '') must be less than chunk_size ('' @
             int_str limit @ '')''))
           else bind_res (get_tokenizer repr env mode) (\<lambda>tokenize.
             bind_res (py_iter documents) (\<lambda>docs.
             bind_res (each_document (\<lambda>i n doc. with_text doc (\<lambda>s.
                 create_chunks env mode limit overlap i n (doc_field doc ''metadata'' (JObj []))
                   (doc_field doc ''page_count'' (JInt 0)) (tokenize s))) 0 0 docs) (\<lambda>cs.
             Inr (node_ok (chunks_out cs) (length cs))))))))"

subsection \<open>Recursive splitter\<close>

definition parse_separators :: "string \<Rightarrow> string list" where
  "parse_separators raw =
     map (\<lambda>p. py_replace (CHR 0x5C # CHR 0x5C # []) [CHR 0x5C] (py_replace (CHR 0x5C # ''r'') [CHR 0x0D]
       (py_replace (CHR 0x5C # ''t'') [CHR 0x09] (py_replace (CHR 0x5C # ''n'') [CHR 0x0A] p))))
       (split_on CHR '','' raw)"

text \<open>The loop over the pieces: \<open>sub\<close> splits a piece that is too large, \<open>cur\<close> is the open chunk.\<close>

fun pack_pieces :: "(string \<Rightarrow> string list py) \<Rightarrow> int \<Rightarrow> string \<Rightarrow> string list \<Rightarrow> string list \<Rightarrow> string \<Rightarrow> string list py" where
  "pack_pieces sub limit sep [] chunks cur = Inr (if cur = [] then chunks else chunks @ [cur])"
| "pack_pieces sub limit sep (p # ps) chunks cur =
     (let flushed = (if cur = [] then chunks else chunks @ [cur]) in
      if limit < int (length p)
      then bind_res (sub p) (\<lambda>cs. pack_pieces sub limit sep ps (flushed @ cs) [])
      else if (if cur = [] then int (length p) \<le> limit else int (length cur) + int (length sep) + int (length p) \<le> limit)
      then pack_pieces sub limit sep ps chunks (if cur = [] then p else cur @ sep @ p)
      else pack_pieces sub limit sep ps flushed p)"

fun recursive_split :: "int \<Rightarrow> string list \<Rightarrow> string \<Rightarrow> string list py" where
  "recursive_split limit [] s =
     (if s = [] then Inr [] else if int (length s) \<le> limit then Inr [s] else split_by_char s limit)"
| "recursive_split limit (sep # seps) s =
     (if s = [] then Inr [] else if int (length s) \<le> limit then Inr [s]
      else if sep = [] then Inl ''empty separator''
      else pack_pieces (recursive_split limit seps) limit sep (split_str sep s) [] [])"

text \<open>Each chunk but the last is followed by the beginning of the next.\<close>

fun overlapped :: "nat \<Rightarrow> string list \<Rightarrow> string list" where
  "overlapped n (c # d # cs) = (c @ take n d) # overlapped n (d # cs)"
| "overlapped n cs = cs"

definition add_overlap :: "string list \<Rightarrow> int \<Rightarrow> string list" where
  "add_overlap chunks n = (if n \<le> 0 \<or> length chunks \<le> 1 then chunks else overlapped (nat n) chunks)"

text \<open>\<open>doc_metadata.get("source", doc_metadata.get("name", ""))\<close>.\<close>

definition source_of :: "json \<Rightarrow> json py" where
  "source_of metadata = bind_res (py_get metadata ''name'' (JStr [])) (\<lambda>name. py_get metadata ''source'' name)"

definition splitter_chunk :: "obj \<Rightarrow> json \<Rightarrow> nat \<Rightarrow> nat \<Rightarrow> string \<Rightarrow> json" where
  "splitter_chunk md source doc_index index s =
     JObj [(''text'', JStr s), (''metadata'', JObj (dict_merge md
       [(''source'', source), (''doc_index'', JInt (int doc_index)), (''chunk_index'', JInt (int index))]))]"

fun obj_or_empty :: "json \<Rightarrow> obj" where
  "obj_or_empty (JObj d) = d" | "obj_or_empty _ = []"

definition recursive_splitter_node :: node_code where
  "recursive_splitter_node config inp =
     (let documents = input_get inp ''documents'' (JList []);
          raw = dict_get_or config ''separators'' (JStr (CHR 0x5C # ''n'' @ CHR 0x5C # ''n,'' @ CHR 0x5C # ''n,. , , ''))
      in if \<not> truthy documents then Inr (node_ok (chunks_out []) 0)
         else bind_res (int_setting (dict_get_or config ''chunk_size'' (JInt 1000))) (\<lambda>limit.
           bind_res (int_setting (dict_get_or config ''chunk_overlap'' (JInt 200))) (\<lambda>overlap.
           if limit \<le> overlap
           then Inr (node_failed (chunks_out []) (''chunk_overlap ('' @ int_str overlap @ '') must be less than chunk_size ('' @
             int_str limit @ '')''))
           else (case raw of
               JStr seps \<Rightarrow>
                 bind_res (py_iter documents) (\<lambda>docs.
                 bind_res (each_document (\<lambda>i n doc. with_text doc (\<lambda>s.
                     let metadata = doc_field doc ''metadata'' (JObj []) in
                     bind_res (source_of metadata) (\<lambda>source.
                     bind_res (recursive_split limit (parse_separators seps) s) (\<lambda>pieces.
                     Inr (map (\<lambda>(k, t). splitter_chunk (obj_or_empty metadata) source i (n + k) t)
                       (enumerate 0 (filter (\<lambda>t. strip t \<noteq> []) (add_overlap pieces overlap)))))))) 0 0 docs) (\<lambda>cs.
                 Inr (node_ok (chunks_out cs) (length cs))))
             | _ \<Rightarrow> Inl attribute_error))))"

subsection \<open>HTML splitter\<close>

datatype html_event = StartTag string | EndTag string | HtmlText string

record html_section =
  hs_text :: string
  hs_tags :: "string list"

record section_parser =
  sp_sections :: "html_section list"
  sp_parts :: "string list"
  sp_tags :: "string list"
  sp_skip :: bool

definition flush_section :: "section_parser \<Rightarrow> section_parser" where
  "flush_section p =
     (let s = strip (concat (sp_parts p)) in
      p\<lparr>sp_sections := (if s = [] then sp_sections p
          else sp_sections p @ [\<lparr>hs_text = s, hs_tags = sp_tags p\<rparr>]), sp_parts := []\<rparr>)"

definition script_or_style :: "string \<Rightarrow> bool" where
  "script_or_style tag \<longleftrightarrow> tag = ''script'' \<or> tag = ''style''"

definition handle_starttag :: "string list \<Rightarrow> string \<Rightarrow> section_parser \<Rightarrow> section_parser" where
  "handle_starttag priority tag p =
     (if script_or_style tag then p\<lparr>sp_skip := True\<rparr>
      else (let q = (if tag \<in> set priority \<and> sp_parts p \<noteq> [] then flush_section p else p)
            in q\<lparr>sp_tags := sp_tags q @ [tag]\<rparr>))"

definition handle_endtag :: "string list \<Rightarrow> string \<Rightarrow> section_parser \<Rightarrow> section_parser" where
  "handle_endtag priority tag p =
     (if script_or_style tag then p\<lparr>sp_skip := False\<rparr>
      else (let q = (if tag \<in> set (sp_tags p) then p\<lparr>sp_tags := butlast (sp_tags p)\<rparr> else p)
            in if tag \<in> set priority then flush_section q else q))"

definition handle_data :: "string \<Rightarrow> section_parser \<Rightarrow> section_parser" where
  "handle_data s p = (if sp_skip p then p else p\<lparr>sp_parts := sp_parts p @ [s]\<rparr>)"

fun html_step :: "string list \<Rightarrow> html_event \<Rightarrow> section_parser \<Rightarrow> section_parser" where
  "html_step priority (StartTag t) p = handle_starttag priority t p"
| "html_step priority (EndTag t) p = handle_endtag priority t p"
| "html_step priority (HtmlText s) p = handle_data s p"

text \<open>\<open>parser.feed(text)\<close> and \<open>get_sections\<close>.\<close>

definition get_sections :: "string list \<Rightarrow> html_event list \<Rightarrow> html_section list" where
  "get_sections priority events =
     sp_sections (flush_section (fold (html_step priority) events
       \<lparr>sp_sections = [], sp_parts = [], sp_tags = [], sp_skip = False\<rparr>))"

text \<open>The loop of \<open>_merge_sections\<close>; \<open>merged\<close> is in reverse order, its head is \<open>merged[-1]\<close>.\<close>

fun merge_loop :: "int \<Rightarrow> html_section list \<Rightarrow> html_section list \<Rightarrow> html_section list" where
  "merge_loop limit [] merged = rev merged"
| "merge_loop limit (s # ss) [] = merge_loop limit ss [s]"
| "merge_loop limit (s # ss) (prev # merged) =
     (if int (length (hs_text prev)) + int (length (hs_text s)) \<le> limit
      then merge_loop limit ss (\<lparr>hs_text = hs_text prev @ [CHR 0x0A, CHR 0x0A] @ hs_text s,
             hs_tags = (if hs_tags s = [] then hs_tags prev else hs_tags s)\<rparr> # merged)
      else merge_loop limit ss (s # prev # merged))"

definition merge_sections :: "int \<Rightarrow> html_section list \<Rightarrow> html_section list" where
  "merge_sections limit ss = merge_loop limit ss []"

definition html_pieces :: "int \<Rightarrow> html_section \<Rightarrow> (string \<times> string list) list py" where
  "html_pieces limit s =
     (if int (length (hs_text s)) \<le> limit then Inr [(hs_text s, hs_tags s)]
      else bind_res (split_by_char (hs_text s) limit) (\<lambda>ts. Inr (map (\<lambda>t. (t, hs_tags s)) ts)))"

definition html_chunk :: "bool \<Rightarrow> json \<Rightarrow> json \<Rightarrow> nat \<Rightarrow> string \<Rightarrow> string list \<Rightarrow> json py" where
  "html_chunk include_metadata metadata source index s tags =
     (let base = [(''source'', source), (''tag_hierarchy'', JList (map JStr tags)), (''chunk_index'', JInt (int index))]
      in Inr (JObj [(''text'', JStr s), (''metadata'', JObj (if include_metadata
           then dict_merge base (filter (\<lambda>(k, v). k \<notin> {''source'', ''name''}) (obj_or_empty metadata)) else base))]))"

definition priority_tags :: "string \<Rightarrow> string list" where
  "priority_tags s = map (\<lambda>t. py_lower (strip t)) (filter (\<lambda>t. strip t \<noteq> []) (split_on CHR '','' s))"

definition html_document :: "(string \<Rightarrow> html_event list) \<Rightarrow> string list \<Rightarrow> json \<Rightarrow> bool \<Rightarrow> nat \<Rightarrow> json \<Rightarrow> string \<Rightarrow> json list py" where
  "html_document events priority limit include_metadata n doc s =
     (let metadata = doc_field doc ''metadata'' (JObj []);
          found = get_sections priority (events s);
          sections = (if found = [] then [\<lparr>hs_text = s, hs_tags = []\<rparr>] else found)
      in bind_res (source_of metadata) (\<lambda>source.
         bind_res (int_setting limit) (\<lambda>m.
         bind_res (map_res (html_pieces m) (merge_sections m sections)) (\<lambda>pieces.
         map_res (\<lambda>(k, t, tags). html_chunk include_metadata metadata source (n + k) t tags)
           (enumerate 0 (concat pieces))))))"

definition html_splitter_node :: "(string \<Rightarrow> html_event list) \<Rightarrow> node_code" where
  "html_splitter_node events config inp =
     (let documents = input_get inp ''documents'' (JList []) in
      if \<not> truthy documents then Inr (node_ok (chunks_out []) 0)
      else (case dict_get_or config ''tag_priority'' (JStr ''h1,h2,h3,p,table,section'') of
          JStr tags \<Rightarrow>
            bind_res (py_iter documents) (\<lambda>docs.
            bind_res (each_document (\<lambda>i n doc. with_text doc
                (html_document events (priority_tags tags) (dict_get_or config ''max_chunk_size'' (JInt 2000))
                   (truthy (dict_get_or config ''include_metadata'' (JBool True))) n doc)) 0 0 docs) (\<lambda>cs.
            Inr (node_ok (chunks_out cs) (length cs))))
        | _ \<Rightarrow> Inl attribute_error))"

subsection \<open>Chunk preview\<close>

text \<open>\<open>int(v)\<close>; the library reads texts and floats.\<close>

fun to_int :: "(json \<Rightarrow> int option) \<Rightarrow> json \<Rightarrow> int py" where
  "to_int read (JInt i) = Inr i"
| "to_int read (JBool b) = Inr (if b then 1 else 0)"
| "to_int read v = (case read v of Some i \<Rightarrow> Inr i | None \<Rightarrow> Inl type_error)"

definition preview_item :: "(json \<Rightarrow> string) \<Rightarrow> nat \<Rightarrow> nat \<Rightarrow> json \<Rightarrow> json" where
  "preview_item repr chars idx chunk =
     (let (s, md) = (case chunk of
            JObj d \<Rightarrow> (py_str repr (dict_get_or d ''text'' (dict_get_or d ''content'' (JStr []))),
                       filter (\<lambda>(k, v). k \<notin> {''text'', ''content''}) d)
          | _ \<Rightarrow> (py_str repr chunk, []))
      in JObj [(''index'', JInt (int idx)),
               (''text'', JStr (if chars < length s then take chars s @ ''...'' else s)),
               (''metadata'', JObj md)])"

definition chunk_preview_node :: "(json \<Rightarrow> string) \<Rightarrow> (json \<Rightarrow> int option) \<Rightarrow> node_code" where
  "chunk_preview_node repr read config inp =
     (let given = input_get inp ''chunks'' (JList []);
          chunks = (case given of JList xs \<Rightarrow> xs | v \<Rightarrow> if truthy v then [v] else [])
      in bind_res (to_int read (dict_get_or config ''max_preview_items'' (JInt 10))) (\<lambda>items.
         bind_res (to_int read (dict_get_or config ''max_chars_per_item'' (JInt 200))) (\<lambda>chars.
         let items = nat (max 1 items); chars = nat (max 1 chars);
             preview = map (\<lambda>(i, c). preview_item repr chars i c) (enumerate 0 (take items chunks))
         in Inr (node_ok [(''output'', JList chunks), (''chunks'', JList preview),
              (''total_items'', JInt (int (length chunks))), (''previewed_items'', JInt (int (length preview))),
              (''truncated'', JBool (items < length chunks))] (length chunks)))))"

subsection \<open>Windows of tokens\<close>

lemma chunk_windows_step:
  assumes "0 \<le> overlap" "overlap < limit" "0 \<le> i" "nat i < length tokens"
  shows "chunk_windows limit overlap tokens i =
    take (nat limit) (drop (nat i) tokens) # chunk_windows limit overlap tokens (i + (limit - overlap))"
proof -
  have w: "py_slice i (i + limit) tokens = take (nat limit) (drop (nat i) tokens)"
    using assms by (intro py_slice_take) auto
  moreover have "take (nat limit) (drop (nat i) tokens) \<noteq> []" using assms by auto
  ultimately show ?thesis using assms
    by (subst chunk_windows.simps) (simp add: Let_def chunk_step_def)
qed

lemma chunk_windows_end: "int (length tokens) \<le> i \<Longrightarrow> chunk_windows limit overlap tokens i = []"
  by (subst chunk_windows.simps) simp

text \<open>The windows are those of a fixed length at a fixed distance; what each adds to the one before
  makes up the tokens again.\<close>

lemma chunk_windows_nat:
  assumes "n = nat (limit - overlap)" "0 \<le> overlap" "overlap < limit"
  shows "chunk_windows limit overlap tokens (int i) =
    (if i < length tokens then take (nat limit) (drop i tokens) # chunk_windows limit overlap tokens (int (i + n)) else [])"
  using chunk_windows_step [OF assms(2,3), of "int i" tokens] chunk_windows_end [of tokens "int i"] assms
  by (simp add: add.commute)

lemma chunk_windows_cover:
  assumes "n = nat (limit - overlap)" "0 \<le> overlap" "overlap < limit"
  shows "concat (map (take n) (chunk_windows limit overlap tokens (int i))) = drop i tokens \<and>
    (\<forall>w \<in> set (chunk_windows limit overlap tokens (int i)). 0 < length w \<and> int (length w) \<le> limit)"
proof (induction "length tokens - i" arbitrary: i rule: less_induct)
  case less
  show ?case
  proof (cases "i < length tokens")
    case True
    have "0 < n" "n \<le> nat limit" using assms by auto
    then have IH: "concat (map (take n) (chunk_windows limit overlap tokens (int (i + n)))) = drop (i + n) tokens \<and>
      (\<forall>w \<in> set (chunk_windows limit overlap tokens (int (i + n))). 0 < length w \<and> int (length w) \<le> limit)"
      using less.hyps [of "i + n"] True by auto
    have "take n (take (nat limit) (drop i tokens)) @ drop (i + n) tokens = drop i tokens"
      using \<open>n \<le> nat limit\<close> by (metis add.commute append_take_drop_id drop_drop min.absorb1 take_take)
    then show ?thesis using IH True assms by (simp add: chunk_windows_nat [OF assms, of tokens i])
  qed (simp add: chunk_windows_nat [OF assms])
qed

subsection \<open>The chunks of all documents\<close>

definition chunk_str :: "json \<Rightarrow> string" where
  "chunk_str c = text_of (doc_field c ''text'' JNull)"

definition chunk_index :: "json \<Rightarrow> json" where
  "chunk_index c = doc_field c ''chunk_index'' JNull"

text \<open>The splitters keep the index of a chunk in its metadata.\<close>

definition chunk_md_index :: "json \<Rightarrow> json" where
  "chunk_md_index c = chunk_index (doc_field c ''metadata'' JNull)"

definition numbered :: "nat \<Rightarrow> json list \<Rightarrow> bool" where
  "numbered n ixs \<longleftrightarrow> ixs = map (\<lambda>k. JInt (int k)) [n..<n + length ixs]"

lemma numbered_append: "numbered n xs \<Longrightarrow> numbered (n + length xs) ys \<Longrightarrow> numbered n (xs @ ys)"
proof -
  assume n: "numbered n xs" "numbered (n + length xs) ys"
  have "[n..<n + (length xs + length ys)] = [n..<n + length xs] @ [n + length xs..<n + length xs + length ys]"
    by (metis add.assoc le_add1 upt_add_eq_append)
  then show ?thesis using n unfolding numbered_def by (simp add: add.assoc)
qed

lemma numbered_Nil [simp]: "numbered n []"
  by (simp add: numbered_def)

lemma each_document_chunks:
  assumes "\<And>i n d cs. d \<in> set ds \<Longrightarrow> step i n d = Inr cs \<Longrightarrow>
      numbered n (map idx cs) \<and> list_all Q cs \<and> concat (map g cs) = h d"
    and "each_document step i n ds = Inr cs"
  shows "numbered n (map idx cs) \<and> list_all Q cs \<and> concat (map g cs) = concat (map h ds)"
  using assms
proof (induction ds arbitrary: i n cs)
  case (Cons d ds)
  obtain xs ys where xs: "step i n d = Inr xs" "each_document step (Suc i) (n + length xs) ds = Inr ys" "cs = xs @ ys"
    using Cons.prems(2) by (auto simp: bind_res_Inr)
  have "numbered n (map idx xs) \<and> list_all Q xs \<and> concat (map g xs) = h d"
    by (rule Cons.prems(1) [OF _ xs(1)]) simp
  moreover have "numbered (n + length xs) (map idx ys) \<and> list_all Q ys \<and> concat (map g ys) = concat (map h ds)"
    by (rule Cons.IH [OF Cons.prems(1) xs(2)]) simp_all
  ultimately show ?case using numbered_append [of n "map idx xs" "map idx ys"] by (simp add: xs(3))
qed simp

lemma with_text_Inr:
  "with_text d f = Inr cs \<Longrightarrow> (if strip (text_of (doc_field d ''text'' (JStr []))) = [] then cs = []
     else f (text_of (doc_field d ''text'' (JStr []))) = Inr cs)"
  by (cases d) (auto simp: with_text_def bind_res_Inr doc_field_def text_of_def split: json.splits if_splits)

lemma numbered_enumerate:
  "list_all2 (\<lambda>(k, w) c. idx c = JInt (int (n + k))) (enumerate 0 ws) cs \<Longrightarrow> numbered n (map idx cs)"
  by (auto simp: numbered_def list_all2_conv_all_nth nth_enumerate_eq intro!: nth_equalityI)

lemma list_all2_enumerate:
  "list_all2 (\<lambda>(k, w) c. P w c) (enumerate n ws) cs \<longleftrightarrow> list_all2 P ws cs"
  by (auto simp: list_all2_conv_all_nth nth_enumerate_eq)

text \<open>A document in character mode.\<close>

lemma char_tokens: "join_tokens [] (map (\<lambda>c. TokStr [c]) s) = Inr s"
proof -
  have ts: "token_strings (map (\<lambda>c. TokStr [c]) s) = Inr (map (\<lambda>c. [c]) s)" by (induction s) simp_all
  have "join_str [] (map (\<lambda>c. [c]) s) = s"
    by (induction s) (simp, case_tac s, simp_all)
  then show ?thesis by (simp add: join_tokens_def ts)
qed

lemma py_slice_map: "py_slice i j (map f xs) = map f (py_slice i j xs)"
  by (simp add: py_slice_def slice_index_def drop_map take_map)

lemma chunk_windows_map: "chunk_windows limit overlap (map f xs) i = map (map f) (chunk_windows limit overlap xs i)"
proof (induction limit overlap xs i rule: chunk_windows.induct)
  case (1 limit overlap tokens i)
  show ?case
    using 1 by (simp add: chunk_windows.simps [of limit overlap "map f tokens" i]
        chunk_windows.simps [of limit overlap tokens i] Let_def py_slice_map)
qed

lemma create_chunks_chars:
  assumes "create_chunks env (JStr ''chars'') limit overlap i n md pc (map (\<lambda>c. TokStr [c]) s) = Inr cs"
    and "0 \<le> overlap" "overlap < limit"
  shows "numbered n (map chunk_index cs) \<and> list_all (\<lambda>c. int (length (chunk_str c)) \<le> limit) cs \<and>
    concat (map (\<lambda>c. take (nat (limit - overlap)) (chunk_str c)) cs) = s"
proof -
  let ?ws = "chunk_windows limit overlap s 0"
  have "chunk_windows limit overlap (map (\<lambda>c. TokStr [c]) s) 0 = map (map (\<lambda>c. TokStr [c])) ?ws"
    by (rule chunk_windows_map)
  then have all: "list_all2 (\<lambda>x c. make_chunk env (JStr ''chars'') i md pc (n + fst x) (snd x) = Inr c)
      (enumerate 0 (map (map (\<lambda>c. TokStr [c])) ?ws)) cs"
    using assms(1) by (simp add: create_chunks_def map_res_Inr_iff case_prod_beta)
  have made: "chunk_index c = JInt (int (n + k)) \<and> chunk_str c = w"
    if "make_chunk env (JStr ''chars'') i md pc (n + k) (map (\<lambda>c. TokStr [c]) w) = Inr c" for k w c
    using that char_tokens [of w]
    by (auto simp: make_chunk_def chunk_text_def bind_res_Inr chunk_index_def chunk_str_def doc_field_def
        dict_get_or_def text_of_def split: json.splits)
  have "list_all2 (\<lambda>(k, w) c. chunk_index c = JInt (int (n + k)) \<and> chunk_str c = w) (enumerate 0 ?ws) cs"
    using all made by (auto simp: list_all2_conv_all_nth nth_enumerate_eq)
  then have num: "list_all2 (\<lambda>(k, w) c. chunk_index c = JInt (int (n + k))) (enumerate 0 ?ws) cs"
      and str: "list_all2 (\<lambda>(k, w) c. chunk_str c = w) (enumerate 0 ?ws) cs"
    by (auto simp: list_all2_conv_all_nth nth_enumerate_eq)
  from str have ws: "map chunk_str cs = ?ws"
    by (auto simp: list_all2_conv_all_nth nth_enumerate_eq intro!: nth_equalityI)
  have cover: "concat (map (take (nat (limit - overlap))) ?ws) = s" "\<forall>w \<in> set ?ws. int (length w) \<le> limit"
    using chunk_windows_cover [OF refl assms(2,3), of s 0] by simp_all
  have "concat (map (\<lambda>c. take (nat (limit - overlap)) (chunk_str c)) cs) = concat (map (take (nat (limit - overlap))) (map chunk_str cs))"
    by (simp add: comp_def)
  then have "concat (map (\<lambda>c. take (nat (limit - overlap)) (chunk_str c)) cs) = s" using cover(1) ws by simp
  moreover have "list_all (\<lambda>c. int (length (chunk_str c)) \<le> limit) cs"
    using cover(2) unfolding ws [symmetric] by (simp add: list_all_iff)
  ultimately show ?thesis using numbered_enumerate [OF num] by blast
qed

text \<open>
  The text chunker in character mode covers its documents: no chunk is longer than the chunk size,
  the chunks are numbered consecutively across all documents, and what each chunk adds to the one before
  it, its first \<open>chunk_size - chunk_overlap\<close> characters, makes up the texts of the documents that are not
  blank, in order, with nothing lost or repeated.
\<close>

theorem text_chunker_covers:
  assumes "text_chunker_node repr env config inp = Inr r" "rs_success r"
    and "input_get inp ''documents'' (JList []) = JList docs" "dict_get config ''tokenizer'' = Some (JStr ''chars'')"
    and "dict_get config ''chunk_size'' = Some (JInt limit)" "dict_get config ''chunk_overlap'' = Some (JInt overlap)"
    and "0 \<le> overlap"
  shows "\<exists>cs. rs_output r = chunks_out cs \<and> rs_items r = int (length cs) \<and> numbered 0 (map chunk_index cs) \<and>
    list_all (\<lambda>c. int (length (chunk_str c)) \<le> limit) cs \<and>
    concat (map (\<lambda>c. take (nat (limit - overlap)) (chunk_str c)) cs) =
      concat (filter (\<lambda>s. strip s \<noteq> []) (map (\<lambda>d. text_of (doc_field d ''text'' (JStr []))) docs))"
proof (cases "docs = []")
  case False
  let ?step = "\<lambda>i n doc. with_text doc (\<lambda>s. create_chunks env (JStr ''chars'') limit overlap i n
      (doc_field doc ''metadata'' (JObj [])) (doc_field doc ''page_count'' (JInt 0)) (map (\<lambda>c. TokStr [c]) s))"
  have less: "overlap < limit"
    using assms(1-6) False by (auto simp: text_chunker_node_def dict_get_or_def Let_def split: if_splits)
  then obtain cs where cs: "each_document ?step 0 0 docs = Inr cs" "r = node_ok (chunks_out cs) (length cs)"
    using assms(1-6) False
    by (auto simp: text_chunker_node_def dict_get_or_def Let_def get_tokenizer_def bind_res_Inr)
  let ?h = "\<lambda>d. (if strip (text_of (doc_field d ''text'' (JStr []))) = [] then [] else text_of (doc_field d ''text'' (JStr [])))"
  have "numbered 0 (map chunk_index cs) \<and> list_all (\<lambda>c. int (length (chunk_str c)) \<le> limit) cs \<and>
      concat (map (\<lambda>c. take (nat (limit - overlap)) (chunk_str c)) cs) = concat (map ?h docs)"
  proof (rule each_document_chunks [OF _ cs(1)])
    fix i n d cs assume "?step i n d = Inr cs"
    then show "numbered n (map chunk_index cs) \<and> list_all (\<lambda>c. int (length (chunk_str c)) \<le> limit) cs \<and>
        concat (map (\<lambda>c. take (nat (limit - overlap)) (chunk_str c)) cs) = ?h d"
      using with_text_Inr create_chunks_chars [OF _ assms(7) less] by (fastforce split: if_splits)
  qed
  moreover have "concat (map ?h ds) = concat (filter (\<lambda>s. strip s \<noteq> []) (map (\<lambda>d. text_of (doc_field d ''text'' (JStr []))) ds))" for ds
    by (induction ds) simp_all
  ultimately show ?thesis using cs(2) by auto
qed (use assms in \<open>auto simp: text_chunker_node_def Let_def\<close>)

theorem text_chunker_covers_witness:
  "\<exists>r cs. text_chunker_node (\<lambda>_. []) \<lparr>tk_encode = None, tk_decode = \<lambda>_. None\<rparr>
      [(''tokenizer'', JStr ''chars''), (''chunk_size'', JInt 4), (''chunk_overlap'', JInt 1)]
      [(JStr ''documents'', JList [JObj [(''text'', JStr ''abcdef'')], JObj [], JObj [(''text'', JStr ''xyz'')]])] = Inr r \<and>
    rs_output r = chunks_out cs \<and> concat (map (\<lambda>c. take 3 (chunk_str c)) cs) = ''abcdefxyz''"
  (is "\<exists>r cs. text_chunker_node ?re ?env ?c ?i = Inr r \<and> _ r cs")
proof -
  have ws: "chunk_windows 4 1 (map (\<lambda>c. TokStr [c]) ''abcdef'') 0 = map (map (\<lambda>c. TokStr [c])) [''abcd'', ''def'']"
      "chunk_windows 4 1 (map (\<lambda>c. TokStr [c]) ''xyz'') 0 = map (map (\<lambda>c. TokStr [c])) [''xyz'']"
    by code_simp+
  have st: "strip ''abcdef'' = ''abcdef''" "strip ''xyz'' = ''xyz''" "strip [] = []" by code_simp+
  obtain r where r: "text_chunker_node ?re ?env ?c ?i = Inr r" "rs_success r"
    using ws by (simp add: text_chunker_node_def input_get_def dict_get_or_def Let_def get_tokenizer_def with_text_def
        st create_chunks_def doc_field_def make_chunk_def chunk_text_def join_tokens_def)
  have "input_get ?i ''documents'' (JList []) = JList [JObj [(''text'', JStr ''abcdef'')], JObj [], JObj [(''text'', JStr ''xyz'')]]"
    by (simp add: input_get_def dict_get_or_def)
  from text_chunker_covers [OF r this, of 4 1] r(1) show ?thesis
    by (auto simp: doc_field_def text_of_def dict_get_or_def st)
qed

subsection \<open>Recursive splitting\<close>

lemma split_str_ne [simp]: "split_str sep s \<noteq> []"
  by (subst split_str.simps) (auto split: list.split)

lemma join_str_Cons: "ps \<noteq> [] \<Longrightarrow> join_str sep (p # ps) = p @ sep @ join_str sep ps"
  by (cases ps) simp_all

lemma join_str_step: "join_str sep ((c # p) # ps) = c # join_str sep (p # ps)"
  by (cases ps) simp_all

lemma join_split_str: "join_str sep (split_str sep s) = s"
proof (induction sep s rule: split_str.induct)
  case (1 sep s)
  consider "s = []" | "s \<noteq> []" "sep \<noteq> []" "take (length sep) s = sep"
    | "s \<noteq> []" "\<not> (sep \<noteq> [] \<and> take (length sep) s = sep)" by blast
  then show ?case
  proof cases
    case 2
    then have "join_str sep (split_str sep s) = sep @ drop (length sep) s"
      using 1 by (simp add: split_str.simps [of sep s] join_str_Cons)
    then show ?thesis using 2 by (metis append_take_drop_id)
  next
    case 3
    obtain p ps where p: "split_str sep (tl s) = p # ps" by (meson neq_Nil_conv split_str_ne)
    then have "join_str sep (p # ps) = tl s" using 1(2) 3 by auto
    moreover have "split_str sep s = (hd s # p) # ps" using 3 by (subst split_str.simps) (auto simp: p)
    ultimately show ?thesis using 3(1) by (simp add: join_str_step)
  qed (simp add: split_str.simps)
qed

text \<open>A text that holds nothing but characters of the separators between its pieces.\<close>

lemma filter_join_str:
  "(\<forall>c \<in> set sep. \<not> P c) \<Longrightarrow> filter P (join_str sep ps) = concat (map (filter P) ps)"
  by (induction sep ps rule: join_str.induct) (auto simp: filter_empty_conv)

definition fits :: "int \<Rightarrow> string \<Rightarrow> bool" where
  "fits limit s \<longleftrightarrow> s \<noteq> [] \<and> int (length s) \<le> limit"

lemma split_by_char_fits:
  "split_by_char s limit = Inr cs \<Longrightarrow> 0 < limit \<Longrightarrow> list_all (fits limit) cs \<and> concat cs = s"
  using slices_bound [of "nat limit"] concat_slices [of "nat limit" s]
  by (fastforce simp: split_by_char_def fits_def list_all_iff split: if_splits)

lemma pack_pieces_fits:
  assumes "\<And>p cs. sub p = Inr cs \<Longrightarrow> list_all (fits limit) cs \<and> concat (map (filter P) cs) = filter P p"
    and "\<forall>c \<in> set sep. \<not> P c"
    and "pack_pieces sub limit sep ps chunks cur = Inr cs" "list_all (fits limit) chunks" "int (length cur) \<le> limit"
  shows "list_all (fits limit) cs \<and>
    concat (map (filter P) cs) = concat (map (filter P) chunks) @ filter P cur @ concat (map (filter P) ps)"
  using assms(3-5)
proof (induction ps arbitrary: chunks cur)
  case Nil
  then show ?case by (auto simp: fits_def [abs_def] split: if_splits)
next
  case (Cons p ps)
  let ?flushed = "if cur = [] then chunks else chunks @ [cur]"
  have flushed: "list_all (fits limit) ?flushed"
      "concat (map (filter P) ?flushed) = concat (map (filter P) chunks) @ filter P cur"
    using Cons.prems(2,3) by (auto simp: fits_def [abs_def])
  have sep: "filter P sep = []" using assms(2) by (simp add: filter_empty_conv)
  show ?case
  proof (cases "limit < int (length p)")
    case True
    then obtain xs where xs: "sub p = Inr xs" "pack_pieces sub limit sep ps (?flushed @ xs) [] = Inr cs"
      using Cons.prems(1) by (auto simp: Let_def bind_res_Inr)
    have "int (length ([] :: string)) \<le> limit" using Cons.prems(3) by simp
    from Cons.IH [OF xs(2) _ this] assms(1) [OF xs(1)] flushed show ?thesis by (simp del: if_split_asm)
  next
    case False
    show ?thesis
    proof (cases "if cur = [] then int (length p) \<le> limit else int (length cur) + int (length sep) + int (length p) \<le> limit")
      case True
      let ?cur = "if cur = [] then p else cur @ sep @ p"
      have run: "pack_pieces sub limit sep ps chunks ?cur = Inr cs" using Cons.prems(1) False True by (auto simp: Let_def)
      have "int (length ?cur) \<le> limit" using True by (auto split: if_splits)
      from Cons.IH [OF run Cons.prems(2) this] show ?thesis by (simp add: sep split: if_splits)
    next
      case c: False
      have run: "pack_pieces sub limit sep ps ?flushed p = Inr cs" using Cons.prems(1) False c by (auto simp: Let_def)
      from Cons.IH [OF run flushed(1)] False flushed(2) show ?thesis by simp
    qed
  qed
qed

lemma recursive_split_fits:
  assumes "0 < limit" "\<forall>sep \<in> set seps. \<forall>c \<in> set sep. \<not> P c" "recursive_split limit seps s = Inr cs"
  shows "list_all (fits limit) cs \<and> concat (map (filter P) cs) = filter P s"
  using assms(2,3)
proof (induction seps arbitrary: s cs)
  case Nil
  then show ?case
    using split_by_char_fits [of s limit cs] assms(1)
    by (auto simp: fits_def [abs_def] filter_concat [symmetric] split: if_splits)
next
  case (Cons sep seps)
  consider "s = []" | "s \<noteq> []" "int (length s) \<le> limit" | "s \<noteq> []" "limit < int (length s)" by linarith
  then show ?case
  proof cases
    case 3
    then have run: "pack_pieces (recursive_split limit seps) limit sep (split_str sep s) [] [] = Inr cs"
      using Cons.prems(2) by (auto split: if_splits)
    have "list_all (fits limit) cs \<and> concat (map (filter P) cs) =
        concat (map (filter P) []) @ filter P [] @ concat (map (filter P) (split_str sep s))"
      using Cons.prems(1) assms(1) by (intro pack_pieces_fits [OF Cons.IH _ run]) auto
    then show ?thesis using filter_join_str [of sep P "split_str sep s"] Cons.prems(1) by (simp add: join_split_str)
  qed (use Cons.prems in \<open>auto simp: fits_def [abs_def]\<close>)
qed

lemma fits_take: "fits limit c \<Longrightarrow> fits (limit + int n) (c @ take n d)"
  by (auto simp: fits_def min_def)

lemma overlapped_fits: "list_all (fits limit) cs \<Longrightarrow> list_all (fits (limit + int n)) (overlapped n cs)"
  using fits_take [of limit _ n "[]"]
  by (induction n cs rule: overlapped.induct) (simp_all add: fits_take)

lemma add_overlap_fits:
  "list_all (fits limit) cs \<Longrightarrow> list_all (fits (limit + max 0 overlap)) (add_overlap cs overlap)"
proof (cases "overlap \<le> 0 \<or> length cs \<le> 1")
  case True
  have "fits limit c \<Longrightarrow> fits (limit + max 0 overlap) c" for c by (auto simp: fits_def max_def)
  then show "list_all (fits limit) cs \<Longrightarrow> ?thesis" using True by (simp add: add_overlap_def list_all_iff)
next
  case False
  then show "list_all (fits limit) cs \<Longrightarrow> ?thesis"
    using overlapped_fits [of limit cs "nat overlap"] by (simp add: add_overlap_def)
qed

lemma splitter_chunk_fields:
  "chunk_str (splitter_chunk md source i k s) = s" "chunk_md_index (splitter_chunk md source i k s) = JInt (int k)"
  by (simp_all add: chunk_str_def chunk_md_index_def chunk_index_def splitter_chunk_def doc_field_def dict_get_or_def
      text_of_def dict_get_merge dict_wf_def)

definition plain_char :: "string list \<Rightarrow> char \<Rightarrow> bool" where
  "plain_char seps c \<longleftrightarrow> \<not> ascii_space c \<and> (\<forall>sep \<in> set seps. c \<notin> set sep)"

lemma filter_plain_blank: "strip s = [] \<Longrightarrow> filter (plain_char seps) s = []"
  by (auto simp: strip_Nil_iff list_all_iff plain_char_def filter_empty_conv)

lemma concat_nonblank:
  "concat (map (filter (plain_char seps)) (filter (\<lambda>t. strip t \<noteq> []) ts)) = concat (map (filter (plain_char seps)) ts)"
  by (induction ts) (auto simp: filter_plain_blank)



subsection \<open>HTML\<close>

lemma html_pieces_bound:
  "html_pieces m s = Inr ps \<Longrightarrow> 0 < m \<Longrightarrow> list_all (\<lambda>(t, tags). int (length t) \<le> m) ps \<and> concat (map fst ps) = hs_text s"
  using split_by_char_fits [of "hs_text s" m]
  by (fastforce simp: html_pieces_def bind_res_Inr list_all_iff fits_def comp_def split: if_splits)

lemma html_chunk_fields:
  "html_chunk inc md source k s tags = Inr c \<Longrightarrow> chunk_str c = s"
  by (auto simp: html_chunk_def chunk_str_def doc_field_def dict_get_or_def text_of_def Let_def)

text \<open>
  Sections are merged when their texts together fit, but the merged text has a blank line more: two
  sections of 5 characters with a limit of 10 become 12 characters, which are then cut in two by character.
\<close>

lemma html_merge_overflow:
  "\<exists>secs. list_all (\<lambda>s. int (length (hs_text s)) \<le> 10) secs \<and>
     map_res (html_pieces 10) (merge_sections 10 secs) =
       Inr [[(''aaaaa'' @ [CHR 0x0A, CHR 0x0A] @ ''bbb'', []), (''bb'', [])]]"
  by (rule exI [of _ "[\<lparr>hs_text = ''aaaaa'', hs_tags = []\<rparr>, \<lparr>hs_text = ''bbbbb'', hs_tags = []\<rparr>]"]) code_simp

lemma html_document_bound:
  assumes "html_document events priority (JInt m) inc n doc s = Inr cs" "0 < m"
  shows "list_all (\<lambda>c. int (length (chunk_str c)) \<le> m) cs"
proof -
  let ?md = "doc_field doc ''metadata'' (JObj [])"
  obtain source pieces secs where run: "map_res (html_pieces m) secs = Inr pieces"
      "map_res (\<lambda>(k, t, tags). html_chunk inc ?md source (n + k) t tags) (enumerate 0 (concat pieces)) = Inr cs"
    using assms(1) by (auto simp: html_document_def Let_def bind_res_Inr)
  have bound: "\<forall>q \<in> set (concat pieces). int (length (fst q)) \<le> m"
  proof
    fix q assume "q \<in> set (concat pieces)"
    then obtain ps where "ps \<in> set pieces" "q \<in> set ps" by auto
    moreover obtain sec where "html_pieces m sec = Inr ps"
      using run(1) \<open>ps \<in> set pieces\<close> by (auto simp: map_res_Inr_iff list_all2_conv_all_nth in_set_conv_nth)
    ultimately show "int (length (fst q)) \<le> m" using html_pieces_bound [of m sec ps] assms(2) by (auto simp: list_all_iff)
  qed
  have "int (length (chunk_str (cs ! j))) \<le> m" if j: "j < length cs" for j
  proof -
    have len: "length cs = length (concat pieces)"
      using run(2) by (auto simp: map_res_Inr_iff dest!: list_all2_lengthD)
    have "html_chunk inc ?md source (n + j) (fst (concat pieces ! j)) (snd (concat pieces ! j)) = Inr (cs ! j)"
      using run(2) j len
      by (auto simp: map_res_Inr_iff list_all2_conv_all_nth nth_enumerate_eq case_prod_beta simp del: length_concat)
    then have "chunk_str (cs ! j) = fst (concat pieces ! j)" by (rule html_chunk_fields)
    moreover have "concat pieces ! j \<in> set (concat pieces)" using j len by (intro nth_mem) (simp only:)
    ultimately show ?thesis using bound by (simp only:)
  qed
  then show ?thesis by (auto simp: list_all_iff in_set_conv_nth)
qed

lemma each_document_all:
  "each_document step i n ds = Inr cs \<Longrightarrow> (\<And>i n d xs. step i n d = Inr xs \<Longrightarrow> list_all Q xs) \<Longrightarrow> list_all Q cs"
proof (induction ds arbitrary: i n cs)
  case (Cons d ds)
  then obtain xs ys where "step i n d = Inr xs" "each_document step (Suc i) (n + length xs) ds = Inr ys" "cs = xs @ ys"
    by (auto simp: bind_res_Inr)
  then show ?case using Cons.IH [OF _ Cons.prems(2)] Cons.prems(2) by simp
qed simp

lemma html_splitter_bound:
  assumes "html_splitter_node events config inp = Inr r"
    and "input_get inp ''documents'' (JList []) = JList docs" "dict_get_or config ''max_chunk_size'' (JInt 2000) = JInt m" "0 < m"
  shows "\<exists>cs. rs_output r = chunks_out cs \<and> list_all (\<lambda>c. int (length (chunk_str c)) \<le> m) cs"
proof (cases "docs = []")
  case False
  obtain tags cs where cs: "each_document (\<lambda>i n doc. with_text doc (html_document events (priority_tags tags) (JInt m)
      (truthy (dict_get_or config ''include_metadata'' (JBool True))) n doc)) 0 0 docs = Inr cs"
      "rs_output r = chunks_out cs"
    using assms(1-3) False
    by (auto simp: html_splitter_node_def Let_def bind_res_Inr split: json.splits)
  have "list_all (\<lambda>c. int (length (chunk_str c)) \<le> m) cs"
  proof (rule each_document_all [OF cs(1)])
    fix i n d xs
    assume run: "with_text d (html_document events (priority_tags tags) (JInt m)
        (truthy (dict_get_or config ''include_metadata'' (JBool True))) n d) = Inr xs"
    show "list_all (\<lambda>c. int (length (chunk_str c)) \<le> m) xs"
      using with_text_Inr [OF run] html_document_bound [OF _ assms(4)] by (auto split: if_splits)
  qed
  then show ?thesis using cs(2) by blast
qed (use assms in \<open>auto simp: html_splitter_node_def Let_def\<close>)

end
