(* ===== verification/Uploads.thy ===== *)
theory Uploads
  imports Database PyText "HOL-Library.List_Lexorder" "HOL-Library.Char_ord"
begin

text \<open>
  Managed files: \<open>services/upload_service.py\<close> and the routes of \<open>api/files.py\<close>. An owner's directory
  is a dictionary of artifact directories, each with its parsed \<open>metadata.json\<close> (absent when missing or
  unreadable) and the sizes of its files, plus the staging directories with their modification times.
  Checks for symbolic links are left out: the directories are those the service made. Fresh artifact
  ids, clock readings and whether the quota lock is granted are arguments; under the lock a save is one
  step.
\<close>

datatype upload_error =
    HttpError nat string
  | InvalidReference string

record upload_meta =
  um_id :: string
  um_name :: string
  um_size :: nat
  um_type :: string
  um_created :: string

record upload_dir =
  ad_metadata :: "upload_meta option"
  ad_files :: "(string, nat) dict"

record owner_dir =
  od_staging :: "(uuid, int) dict"
  od_artifacts :: "(uuid, upload_dir) dict"

type_synonym upload_root = "(uuid, owner_dir) dict"

record upload_settings =
  us_max_file :: nat
  us_max_storage :: nat
  us_max_request :: nat
  us_max_files :: nat

text \<open>What the library does with UUIDs: \<open>str(id)\<close> and \<open>UUID(text)\<close>.\<close>

record uuid_text =
  ut_str :: "uuid \<Rightarrow> string"
  ut_parse :: "string \<Rightarrow> uuid option"

definition allowed_extensions :: "string list" where
  "allowed_extensions = [''.csv'', ''.doc'', ''.docx'', ''.eml'', ''.htm'', ''.html'', ''.json'', ''.md'', ''.pdf'', ''.png'',
     ''.jpg'', ''.jpeg'', ''.webp'', ''.tif'', ''.tiff'', ''.txt'', ''.xml'', ''.xlsx'']"

text \<open>\<open>Path(name).suffix\<close> of a name without slashes: from the last dot on, unless it is the first or
  the last character.\<close>

definition name_suffix :: "string \<Rightarrow> string" where
  "name_suffix s =
     (let ext = rev (takeWhile (\<lambda>c. c \<noteq> CHR ''.'') (rev s)) in
      if CHR ''.'' \<in> set s \<and> ext \<noteq> [] \<and> length ext + 1 < length s then CHR ''.'' # ext else [])"

definition validate_filename :: "string option \<Rightarrow> upload_error + string" where
  "validate_filename filename =
     (case filename of
        None \<Rightarrow> Inl (HttpError 400 ''Invalid filename'')
      | Some s \<Rightarrow>
          if s = [] \<or> 200 < length s then Inl (HttpError 400 ''Invalid filename'')
          else if s \<in> {''.'', ''..''} \<or> list_ex (\<lambda>c. (of_char c :: nat) < 32) s then Inl (HttpError 400 ''Invalid filename'')
          else if CHR ''/'' \<in> set s \<or> CHR 0x5C \<in> set s then Inl (HttpError 400 ''Filename must not contain a path'')
          else if py_lower (name_suffix s) \<notin> set allowed_extensions
          then Inl (HttpError 415 (''Unsupported file type. Allowed: '' @
            concat (map (\<lambda>e. e @ '', '') (butlast (sort allowed_extensions))) @ List.last (sort allowed_extensions)))
          else Inr s)"

definition owner_dir_of :: "upload_root \<Rightarrow> uuid \<Rightarrow> owner_dir" where
  "owner_dir_of root owner = dict_get_or root owner \<lparr>od_staging = [], od_artifacts = []\<rparr>"

definition read_dir :: "uuid_text \<Rightarrow> uuid \<Rightarrow> upload_dir \<Rightarrow> (upload_meta \<times> string) option" where
  "read_dir ut aid d =
     (case ad_metadata d of
        None \<Rightarrow> None
      | Some m \<Rightarrow>
          if um_id m \<noteq> ut_str ut aid then None
          else (case validate_filename (Some (um_name m)) of
             Inl _ \<Rightarrow> None
           | Inr name \<Rightarrow> (case dict_get (ad_files d) name of
                 None \<Rightarrow> None
               | Some n \<Rightarrow> Some (m\<lparr>um_size := n\<rparr>, name))))"

definition read_artifact :: "uuid_text \<Rightarrow> upload_root \<Rightarrow> uuid \<Rightarrow> uuid \<Rightarrow> (upload_meta \<times> string) option" where
  "read_artifact ut root owner aid =
     (case dict_get (od_artifacts (owner_dir_of root owner)) aid of None \<Rightarrow> None | Some d \<Rightarrow> read_dir ut aid d)"

definition staging_max_age :: int where
  "staging_max_age = 3600"

definition readable_items :: "uuid_text \<Rightarrow> (uuid, upload_dir) dict \<Rightarrow> upload_meta list" where
  "readable_items ut artifacts = List.map_filter (\<lambda>(aid, d). map_option fst (read_dir ut aid d)) artifacts"

text \<open>Listing removes staging directories that are too old; the newest file comes first.\<close>

definition list_uploads :: "uuid_text \<Rightarrow> int \<Rightarrow> uuid \<Rightarrow> upload_root \<Rightarrow> upload_meta list \<times> upload_root" where
  "list_uploads ut now owner root =
     (let d = owner_dir_of root owner
      in (rev (sort_key um_created (rev (readable_items ut (od_artifacts d)))),
          dict_set owner (d\<lparr>od_staging := filter (\<lambda>(i, t). \<not> staging_max_age < now - t) (od_staging d)\<rparr>) root))"

record upload_file =
  uf_name :: "string option"
  uf_type :: "string option"
  uf_chunks :: "string list"

text \<open>The loop over the chunks, up to the first empty one.\<close>

fun receive :: "upload_settings \<Rightarrow> nat \<Rightarrow> nat \<Rightarrow> string list \<Rightarrow> upload_error + nat" where
  "receive cfg existing got [] = Inr got"
| "receive cfg existing got (c # cs) =
     (if c = [] then Inr got
      else (let got' = got + length c in
        if us_max_file cfg < got'
        then Inl (HttpError 413 (''File exceeds the '' @ nat_str (us_max_file cfg div 1048576) @ '' MB limit''))
        else if us_max_storage cfg < existing + got'
        then Inl (HttpError 413 (''Owner storage exceeds the '' @ nat_str (us_max_storage cfg div 1048576) @ '' MB quota''))
        else receive cfg existing got' cs))"

definition total_size :: "upload_meta list \<Rightarrow> nat" where
  "total_size items = sum_list (map um_size items)"

text \<open>What the environment contributes to one save: the artifact id, the answer of the lock, the clock.\<close>

record save_env =
  sv_id :: uuid
  sv_locked :: bool
  sv_now :: int
  sv_created :: string

definition save_upload ::
  "uuid_text \<Rightarrow> upload_settings \<Rightarrow> uuid \<Rightarrow> upload_file \<Rightarrow> save_env \<Rightarrow> upload_root \<Rightarrow> (upload_error + upload_meta) \<times> upload_root" where
  "save_upload ut cfg owner u sv root =
     (case validate_filename (uf_name u) of
        Inl e \<Rightarrow> (Inl e, root)
      | Inr name \<Rightarrow>
          if \<not> sv_locked sv then (Inl (HttpError 503 ''Upload storage is busy; retry shortly''), root)
          else (let (items, root1) = list_uploads ut (sv_now sv) owner root; d = owner_dir_of root1 owner
            in case receive cfg (total_size items) 0 (uf_chunks u) of
              Inl e \<Rightarrow> (Inl e, root1)
            | Inr n \<Rightarrow>
                let m = \<lparr>um_id = ut_str ut (sv_id sv), um_name = name, um_size = n,
                      um_type = (case uf_type u of Some t \<Rightarrow> if t = [] then ''application/octet-stream'' else t
                                 | None \<Rightarrow> ''application/octet-stream''), um_created = sv_created sv\<rparr>
                in (Inr m, dict_set owner (d\<lparr>od_artifacts := dict_set (sv_id sv)
                      \<lparr>ad_metadata = Some m, ad_files = [(name, n)]\<rparr> (od_artifacts d)\<rparr>) root1)))"

definition resolve_uploads :: "uuid_text \<Rightarrow> upload_root \<Rightarrow> uuid \<Rightarrow> string list \<Rightarrow> upload_error + (uuid \<times> string) list" where
  "resolve_uploads ut root owner ids =
     bind_res (map_res (\<lambda>s. case ut_parse ut s of None \<Rightarrow> Inl (InvalidReference ''Invalid upload reference'')
         | Some i \<Rightarrow> Inr i) ids) (\<lambda>aids.
     map_res (\<lambda>i. case read_artifact ut root owner i of
         None \<Rightarrow> Inl (InvalidReference ''Upload not found or does not belong to graph owner'')
       | Some (m, name) \<Rightarrow> Inr (i, name)) aids)"

definition delete_upload :: "uuid_text \<Rightarrow> uuid \<Rightarrow> uuid \<Rightarrow> upload_root \<Rightarrow> bool \<times> upload_root" where
  "delete_upload ut owner aid root =
     (case read_artifact ut root owner aid of
        None \<Rightarrow> (False, root)
      | Some _ \<Rightarrow> (let d = owner_dir_of root owner
          in (True, dict_set owner (d\<lparr>od_artifacts := dict_pop aid (od_artifacts d)\<rparr>) root)))"

subsection \<open>Routes\<close>

text \<open>The loop of \<open>upload_files\<close>; \<open>saved\<close> are the files of this request so far.\<close>

fun save_files ::
  "uuid_text \<Rightarrow> upload_settings \<Rightarrow> uuid \<Rightarrow> (upload_file \<times> save_env) list \<Rightarrow> (uuid \<times> upload_meta) list \<Rightarrow> upload_root
     \<Rightarrow> (upload_error \<times> (uuid \<times> upload_meta) list + (uuid \<times> upload_meta) list) \<times> upload_root" where
  "save_files ut cfg owner [] saved root = (Inr saved, root)"
| "save_files ut cfg owner ((u, sv) # us) saved root =
     (case save_upload ut cfg owner u sv root of
        (Inl e, root1) \<Rightarrow> (Inl (e, saved), root1)
      | (Inr m, root1) \<Rightarrow>
          let saved1 = saved @ [(sv_id sv, m)] in
          if us_max_request cfg < total_size (map snd saved1)
          then (Inl (HttpError 413 (''Upload request exceeds '' @ nat_str (us_max_request cfg div 1048576) @ '' MB''), saved1), root1)
          else save_files ut cfg owner us saved1 root1)"

definition upload_files ::
  "uuid_text \<Rightarrow> upload_settings \<Rightarrow> uuid \<Rightarrow> (upload_file \<times> save_env) list \<Rightarrow> upload_root
     \<Rightarrow> (upload_error + upload_meta list) \<times> upload_root" where
  "upload_files ut cfg owner us root =
     (if us = [] then (Inl (HttpError 400 ''Select at least one file''), root)
      else if us_max_files cfg < length us
      then (Inl (HttpError 413 (''At most '' @ nat_str (us_max_files cfg) @ '' files may be uploaded at once'')), root)
      else (case save_files ut cfg owner us [] root of
          (Inr saved, root1) \<Rightarrow> (Inr (map snd saved), root1)
        | (Inl (e, saved), root1) \<Rightarrow>
            (Inl e, fold (\<lambda>(aid, m) r. snd (delete_upload ut owner aid r)) saved root1)))"

text \<open>A file that a saved version of one of the owner's graphs names cannot be deleted.\<close>

fun references_file :: "string \<Rightarrow> json \<Rightarrow> upload_error + bool" where
  "references_file fid (JList xs) = Inr (JStr fid \<in> set xs)"
| "references_file fid (JStr s) = Inr (list_ex (\<lambda>i. take (length fid) (drop i s) = fid) [0..<Suc (length s)])"
| "references_file fid (JObj d) = Inr (dict_has d fid)"
| "references_file fid v = (if truthy v then Inl (HttpError 500 ''TypeError'') else Inr False)"

fun any_reference :: "string \<Rightarrow> json list \<Rightarrow> upload_error + bool" where
  "any_reference fid [] = Inr False"
| "any_reference fid (JObj c # cs) =
     bind_res (references_file fid (obj_get c ''artifact_ids'')) (\<lambda>b. if b then Inr True else any_reference fid cs)"
| "any_reference fid (_ # cs) = any_reference fid cs"

text \<open>The configurations of the nodes in the saved versions of the user's graphs.\<close>

definition saved_configs :: "db \<Rightarrow> uuid \<Rightarrow> json list" where
  "saved_configs db user =
     concat (map (\<lambda>v. map snd (opt_or (gv_node_configs v) []))
       (filter (\<lambda>v. list_ex (\<lambda>g. gr_id g = gv_graph_id v \<and> gr_owner_id g = user) (db_graphs db)) (db_versions db)))"

definition delete_file ::
  "uuid_text \<Rightarrow> db \<Rightarrow> uuid \<Rightarrow> uuid \<Rightarrow> upload_root \<Rightarrow> (upload_error + unit) \<times> upload_root" where
  "delete_file ut db user fid root =
     (case any_reference (ut_str ut fid) (saved_configs db user) of
        Inl e \<Rightarrow> (Inl e, root)
      | Inr True \<Rightarrow> (Inl (HttpError 409 ''File is referenced by a saved graph version; remove it from the graph first''), root)
      | Inr False \<Rightarrow> (case delete_upload ut user fid root of
          (True, root1) \<Rightarrow> (Inr (), root1)
        | (False, root1) \<Rightarrow> (Inl (HttpError 404 ''File not found''), root1)))"

subsection \<open>Quota and atomicity\<close>

abbreviation arts :: "upload_root \<Rightarrow> uuid \<Rightarrow> (uuid, upload_dir) dict" where
  "arts root owner \<equiv> od_artifacts (owner_dir_of root owner)"

definition used_bytes :: "uuid_text \<Rightarrow> upload_root \<Rightarrow> uuid \<Rightarrow> nat" where
  "used_bytes ut root owner = total_size (readable_items ut (arts root owner))"

definition dir_of :: "upload_meta \<Rightarrow> upload_dir" where
  "dir_of m = \<lparr>ad_metadata = Some m, ad_files = [(um_name m, um_size m)]\<rparr>"

definition good_item :: "uuid_text \<Rightarrow> uuid \<Rightarrow> upload_meta \<Rightarrow> bool" where
  "good_item ut i m \<longleftrightarrow> um_id m = ut_str ut i \<and> validate_filename (Some (um_name m)) = Inr (um_name m)"

lemma owner_dir_set [simp]: "owner_dir_of (dict_set o1 d root) o2 = (if o2 = o1 then d else owner_dir_of root o2)"
  by (simp add: owner_dir_of_def dict_get_or_def)

lemma dict_set_fresh: "k \<notin> fst ` set d \<Longrightarrow> dict_set k v d = d @ [(k, v)]"
  by (induction d) auto

lemma read_good: "good_item ut i m \<Longrightarrow> read_dir ut i (dir_of m) = Some (m, um_name m)"
  by (simp add: read_dir_def dir_of_def good_item_def)

lemma validated_name: "validate_filename f = Inr s \<Longrightarrow> validate_filename (Some s) = Inr s"
  by (auto simp: validate_filename_def split: option.splits if_splits)

lemma list_uploads_total:
  "total_size (fst (list_uploads ut now owner root)) = used_bytes ut root owner"
  "arts (snd (list_uploads ut now owner root)) o' = arts root o'"
proof -
  have "mset (rev (sort_key um_created (rev xs))) = mset xs" for xs :: "upload_meta list" by simp
  then show "total_size (fst (list_uploads ut now owner root)) = used_bytes ut root owner"
    by (simp add: list_uploads_def Let_def total_size_def used_bytes_def flip: sum_mset_sum_list)
  show "arts (snd (list_uploads ut now owner root)) o' = arts root o'"
    by (simp add: list_uploads_def Let_def)
qed

lemma receive_sum:
  "receive cfg existing got cs = Inr n \<Longrightarrow> n = got + sum_list (map length (takeWhile (\<lambda>c. c \<noteq> []) cs))"
  by (induction cfg existing got cs rule: receive.induct) (auto simp: Let_def split: if_splits)

lemma receive_bounds:
  "receive cfg existing got cs = Inr n \<Longrightarrow> n = got \<or> n \<le> us_max_file cfg \<and> existing + n \<le> us_max_storage cfg"
  by (induction cfg existing got cs rule: receive.induct) (auto simp: Let_def split: if_splits simp del: length_greater_0_conv)

lemma save_upload_arts:
  assumes "save_upload ut cfg owner u sv root = (r, root')"
  shows "(\<forall>o'. o' \<noteq> owner \<longrightarrow> arts root' o' = arts root o') \<and>
    (case r of
       Inl e \<Rightarrow> arts root' owner = arts root owner
     | Inr m \<Rightarrow> arts root' owner = dict_set (sv_id sv) (dir_of m) (arts root owner) \<and> good_item ut (sv_id sv) m \<and>
         receive cfg (used_bytes ut root owner) 0 (uf_chunks u) = Inr (um_size m))"
proof (cases "validate_filename (uf_name u)")
  case (Inr name)
  show ?thesis
  proof (cases "sv_locked sv")
    case True
    obtain items root1 where l: "list_uploads ut (sv_now sv) owner root = (items, root1)"
      by (cases "list_uploads ut (sv_now sv) owner root")
    have a: "arts root1 o' = arts root o'" for o' using list_uploads_total(2) [of ut "sv_now sv" owner root o'] l by simp
    have t: "total_size items = used_bytes ut root owner" using list_uploads_total(1) [of ut "sv_now sv" owner root] l by simp
    show ?thesis
      using assms Inr True a validated_name [OF Inr]
      by (cases "receive cfg (used_bytes ut root owner) 0 (uf_chunks u)")
         (auto simp: save_upload_def Let_def l t good_item_def dir_of_def)
  qed (use assms Inr in \<open>auto simp: save_upload_def\<close>)
qed (use assms in \<open>auto simp: save_upload_def\<close>)

lemma readable_append: "readable_items ut (xs @ ys) = readable_items ut xs @ readable_items ut ys"
  by (simp add: readable_items_def List.map_filter_def)

text \<open>
  The quota holds: a save never takes its owner's readable files over the storage limit, whatever
  arrives. A file that was saved is read back with the number of bytes received, at most the limit of a
  file; a save that fails leaves all files as they were; and no save touches another owner.
\<close>

theorem save_upload_quota:
  assumes "save_upload ut cfg owner u sv root = (r, root')" "sv_id sv \<notin> fst ` set (arts root owner)"
    and "used_bytes ut root owner \<le> us_max_storage cfg"
  shows "used_bytes ut root' owner \<le> us_max_storage cfg \<and>
    (\<forall>o' i. o' \<noteq> owner \<or> i \<noteq> sv_id sv \<or> (\<exists>e. r = Inl e) \<longrightarrow> read_artifact ut root' o' i = read_artifact ut root o' i) \<and>
    (\<forall>m. r = Inr m \<longrightarrow> read_artifact ut root' owner (sv_id sv) = Some (m, um_name m) \<and>
       um_size m = sum_list (map length (takeWhile (\<lambda>c. c \<noteq> []) (uf_chunks u))) \<and> um_size m \<le> us_max_file cfg)"
proof -
  note saved = save_upload_arts [OF assms(1)]
  show ?thesis
  proof (cases r)
    case (Inl e)
    then have "arts root' o' = arts root o'" for o' using saved by (cases "o' = owner") auto
    then show ?thesis using assms(3) Inl by (simp add: used_bytes_def read_artifact_def)
  next
    case (Inr m)
    then have s: "arts root' owner = arts root owner @ [(sv_id sv, dir_of m)]" "good_item ut (sv_id sv) m"
        "receive cfg (used_bytes ut root owner) 0 (uf_chunks u) = Inr (um_size m)"
      using saved assms(2) by (simp_all add: dict_set_fresh)
    have other: "o' \<noteq> owner \<Longrightarrow> arts root' o' = arts root o'" for o' using saved by simp
    have none: "dict_get (arts root owner) (sv_id sv) = None" using assms(2) by (simp add: map_of_eq_None_iff)
    have "used_bytes ut root' owner = used_bytes ut root owner + um_size m"
      by (simp add: used_bytes_def s(1) readable_append total_size_def)
         (simp add: readable_items_def List.map_filter_def read_good [OF s(2)])
    moreover have "read_artifact ut root' owner (sv_id sv) = Some (m, um_name m)"
      using none by (simp add: read_artifact_def s(1) map_add_def read_good [OF s(2)])
    moreover have "read_artifact ut root' o' i = read_artifact ut root o' i" if "o' \<noteq> owner \<or> i \<noteq> sv_id sv" for o' i
      using that other by (cases "o' = owner") (auto simp: read_artifact_def s(1) map_add_def split: option.split)
    ultimately show ?thesis using receive_bounds [OF s(3)] receive_sum [OF s(3), symmetric] assms(3) Inr by auto
  qed
qed

lemma delete_last_saved:
  assumes "arts root owner = old @ (i, dir_of m) # rest" "good_item ut i m" "i \<notin> fst ` set old" "i \<notin> fst ` set rest"
  shows "arts (snd (delete_upload ut owner i root)) owner = old @ rest \<and>
    (\<forall>o'. o' \<noteq> owner \<longrightarrow> arts (snd (delete_upload ut owner i root)) o' = arts root o')"
proof -
  have none: "dict_get old i = None" using assms(3) by (simp add: map_of_eq_None_iff)
  have "read_artifact ut root owner i = Some (m, um_name m)"
    using none by (simp add: read_artifact_def assms(1) map_add_def read_good [OF assms(2)])
  moreover have "filter (\<lambda>p. fst p \<noteq> i) old = old" "filter (\<lambda>p. fst p \<noteq> i) rest = rest"
    using assms(3,4) by (auto intro!: filter_True)
  then have "dict_pop i (old @ (i, dir_of m) # rest) = old @ rest" by (simp add: dict_pop_def)
  ultimately show ?thesis by (simp add: delete_upload_def assms(1))
qed

lemma delete_saved:
  "arts root owner = old @ map (\<lambda>(i, m). (i, dir_of m)) new \<Longrightarrow> \<forall>(i, m) \<in> set new. good_item ut i m \<Longrightarrow>
     distinct (map fst new) \<Longrightarrow> fst ` set new \<inter> fst ` set old = {} \<Longrightarrow>
     arts (fold (\<lambda>(i, m) r. snd (delete_upload ut owner i r)) new root) owner = old \<and>
     (\<forall>o'. o' \<noteq> owner \<longrightarrow> arts (fold (\<lambda>(i, m) r. snd (delete_upload ut owner i r)) new root) o' = arts root o')"
proof (induction new arbitrary: root)
  case (Cons p new)
  obtain i m where p: "p = (i, m)" by (cases p)
  let ?root = "snd (delete_upload ut owner i root)"
  have d: "arts ?root owner = old @ map (\<lambda>(i, m). (i, dir_of m)) new \<and> (\<forall>o'. o' \<noteq> owner \<longrightarrow> arts ?root o' = arts root o')"
    using Cons.prems by (intro delete_last_saved [of _ _ _ _ m]) (auto simp: p image_iff)
  have "arts (fold (\<lambda>(i, m) r. snd (delete_upload ut owner i r)) new ?root) owner = old \<and>
     (\<forall>o'. o' \<noteq> owner \<longrightarrow> arts (fold (\<lambda>(i, m) r. snd (delete_upload ut owner i r)) new ?root) o' = arts ?root o')"
    using Cons.prems d by (intro Cons.IH) auto
  then show ?case using d by (simp add: p)
qed simp

lemma save_files_arts:
  "save_files ut cfg owner us saved root = (r, root') \<Longrightarrow> distinct (map (sv_id \<circ> snd) us) \<Longrightarrow>
     (sv_id \<circ> snd) ` set us \<inter> fst ` set (arts root owner) = {} \<Longrightarrow>
     \<exists>new. arts root' owner = arts root owner @ map (\<lambda>(i, m). (i, dir_of m)) new \<and>
       (\<forall>o'. o' \<noteq> owner \<longrightarrow> arts root' o' = arts root o') \<and> (\<forall>(i, m) \<in> set new. good_item ut i m) \<and>
       map fst new = take (length new) (map (sv_id \<circ> snd) us) \<and>
       (case r of Inl (e, sv) \<Rightarrow> sv = saved @ new
        | Inr sv \<Rightarrow> sv = saved @ new \<and> length new = length us \<and> (us \<noteq> [] \<longrightarrow> total_size (map snd sv) \<le> us_max_request cfg))"
proof (induction us arbitrary: saved root)
  case Nil
  then show ?case by (intro exI [of _ "[]"]) auto
next
  case (Cons x us)
  obtain u sv where x: "x = (u, sv)" by (cases x)
  obtain q root1 where q: "save_upload ut cfg owner u sv root = (q, root1)" by fastforce
  note one = save_upload_arts [OF q]
  show ?case
  proof (cases q)
    case (Inl e)
    then show ?thesis using Cons.prems(1) one by (intro exI [of _ "[]"]) (auto simp: x q)
  next
    case (Inr m)
    have new: "sv_id sv \<notin> fst ` set (arts root owner)" using Cons.prems(3) by (auto simp: x)
    have s: "arts root1 owner = arts root owner @ [(sv_id sv, dir_of m)]" "good_item ut (sv_id sv) m"
        "\<forall>o'. o' \<noteq> owner \<longrightarrow> arts root1 o' = arts root o'"
      using one Inr new by (simp_all add: dict_set_fresh)
    show ?thesis
    proof (cases "us_max_request cfg < total_size (map snd (saved @ [(sv_id sv, m)]))")
      case True
      then have "r = Inl (HttpError 413 (''Upload request exceeds '' @ nat_str (us_max_request cfg div 1048576) @ '' MB''),
          saved @ [(sv_id sv, m)]) \<and> root' = root1"
        using Cons.prems(1) by (simp add: x q Inr)
      then show ?thesis using s by (intro exI [of _ "[(sv_id sv, m)]"]) (simp add: x)
    next
      case False
      then have run: "save_files ut cfg owner us (saved @ [(sv_id sv, m)]) root1 = (r, root')"
        using Cons.prems(1) by (simp add: x q Inr)
      have disj: "(sv_id \<circ> snd) ` set us \<inter> fst ` set (arts root1 owner) = {}"
        using Cons.prems(2,3) by (auto simp: x s(1))
      have dist: "distinct (map (sv_id \<circ> snd) us)" using Cons.prems(2) by (simp add: comp_def)
      obtain new where n: "arts root' owner = arts root1 owner @ map (\<lambda>(i, m). (i, dir_of m)) new"
          "\<forall>o'. o' \<noteq> owner \<longrightarrow> arts root' o' = arts root1 o'" "\<forall>(i, m) \<in> set new. good_item ut i m"
          "map fst new = take (length new) (map (sv_id \<circ> snd) us)"
          "case r of Inl (e, sv') \<Rightarrow> sv' = (saved @ [(sv_id sv, m)]) @ new
           | Inr sv' \<Rightarrow> sv' = (saved @ [(sv_id sv, m)]) @ new \<and> length new = length us \<and>
               (us \<noteq> [] \<longrightarrow> total_size (map snd sv') \<le> us_max_request cfg)"
        using Cons.IH [OF run _ disj] dist by blast
      show ?thesis using n s False
        by (intro exI [of _ "(sv_id sv, m) # new"]) (auto simp: x comp_def split: sum.splits)
    qed
  qed
qed


definition demo_uuids :: uuid_text where
  "demo_uuids = \<lparr>ut_str = nat_str, ut_parse = (\<lambda>s. if s = ''5'' then Some 5 else None)\<rparr>"

definition demo_limits :: upload_settings where
  "demo_limits = \<lparr>us_max_file = 10, us_max_storage = 12, us_max_request = 9, us_max_files = 2\<rparr>"

definition demo_upload :: "string \<Rightarrow> upload_file" where
  "demo_upload s = \<lparr>uf_name = Some ''a.txt'', uf_type = None, uf_chunks = [s, [], ''ignored'']\<rparr>"

definition demo_save :: "uuid \<Rightarrow> save_env" where
  "demo_save i = \<lparr>sv_id = i, sv_locked = True, sv_now = 0, sv_created = ''2026''\<rparr>"

theorem save_upload_quota_witness:
  "\<exists>m root'. save_upload demo_uuids demo_limits 7 (demo_upload ''hello'') (demo_save 5) [] = (Inr m, root') \<and>
     um_size m = 5 \<and> used_bytes demo_uuids root' 7 \<le> 12"
proof -
  obtain m root' where r: "save_upload demo_uuids demo_limits 7 (demo_upload ''hello'') (demo_save 5) [] = (Inr m, root')"
    by (simp add: save_upload_def demo_upload_def demo_save_def validate_filename_def name_suffix_def allowed_extensions_def
        py_lower_def lower_char_def ascii_upper_def demo_limits_def list_uploads_def owner_dir_of_def dict_get_or_def
        readable_items_def total_size_def List.map_filter_def Let_def)
  have "used_bytes demo_uuids [] 7 \<le> us_max_storage demo_limits"
    by (simp add: used_bytes_def total_size_def readable_items_def owner_dir_of_def dict_get_or_def List.map_filter_def)
  from save_upload_quota [OF r _ this] r show ?thesis
    by (auto simp: owner_dir_of_def dict_get_or_def demo_upload_def demo_limits_def)
qed


end
