(* ===== verification/SdkDocumentNode.thy ===== *)
theory SdkDocumentNode
  imports ChunkNodes Uploads
begin

text \<open>
  The source node \<open>nodes/sdk_document_source.py\<close>: it reads the managed files its configuration names
  through the document connector of the SDK, incrementally, and stages one checkpoint per file in the
  session of the run. The connector is a parameter given by its interface (a check, the streams it
  discovers, the messages of a stream from a saved state, the exception that ends them if any), as are
  the size of serialised JSON, the reading of numbers, the answers of the advisory locks and the clock.
  The injected state store of the tests is left out.
\<close>

definition source_name :: string where
  "source_name = ''local_documents''"

definition stream_prefix :: string where
  "stream_prefix = ''upload-''"

definition max_output_items_limit :: int where
  "max_output_items_limit = 10000"

definition max_output_bytes_limit :: int where
  "max_output_bytes_limit = 67108864"

datatype doc_message = DocRecord obj | DocState obj | DocOther

record document_settings =
  ds_checkpoint_interval :: int
  ds_text_chunk_chars :: int
  ds_table_batch_rows :: int
  ds_ocr_mode :: string
  ds_table_mode :: string
  ds_failure_mode :: string
  ds_quality :: json
  ds_max_items :: int
  ds_max_bytes :: int

text \<open>The two node types differ in the files they accept and in their OCR modes.\<close>

record document_kind =
  dk_extensions :: "string list"
  dk_default_ocr :: string
  dk_ocr_modes :: "string list"

text \<open>A configured file: its artifact, its stream, and its name, absent when the file is gone.\<close>

type_synonym configured_file = "uuid \<times> string \<times> string option"

record document_connector =
  dc_check :: bool
  dc_streams :: "string list"
  dc_read :: "string \<Rightarrow> obj \<Rightarrow> doc_message list \<times> string option"

record document_env =
  de_uuids :: uuid_text
  de_uploads :: upload_root
  de_repr :: "json \<Rightarrow> string"
  de_int :: "json \<Rightarrow> int option"
  de_float :: "json \<Rightarrow> bool"
  de_bytes :: "json \<Rightarrow> nat"
  de_connect :: "document_settings \<Rightarrow> configured_file list \<Rightarrow> string + document_connector"
  de_fences :: "nat \<Rightarrow> (state_error + unit) \<times> (state_error + unit)"
  de_clock :: "nat \<Rightarrow> nat \<Rightarrow> time"

subsection \<open>Configuration\<close>

definition document_failure :: "string \<Rightarrow> node_result" where
  "document_failure msg = node_failed [(''items'', JList [])] msg"

definition forbidden_keys :: "string list" where
  "forbidden_keys = [''path'', ''paths'', ''file_path'', ''file_pattern'', ''source_type'']"

definition artifact_ids_of :: "document_env \<Rightarrow> obj \<Rightarrow> string + uuid list" where
  "artifact_ids_of env config =
     (case or_else (obj_get config ''artifact_ids'') (JList []) of
        JList xs \<Rightarrow>
          (case map_res (\<lambda>x. case ut_parse (de_uuids env) (py_str (de_repr env) x) of None \<Rightarrow> Inl () | Some i \<Rightarrow> Inr i) xs of
             Inl _ \<Rightarrow> Inl ''Invalid upload reference''
           | Inr ids \<Rightarrow>
               if \<not> distinct ids then Inl ''Duplicate upload references are not allowed''
               else if 100 < length ids then Inl ''Document Source accepts at most 100 artifacts per node''
               else Inr ids)
      | _ \<Rightarrow> Inl ''artifact_ids must be an array of managed upload IDs'')"

definition read_settings :: "document_env \<Rightarrow> document_kind \<Rightarrow> obj \<Rightarrow> document_settings py" where
  "read_settings env kind config =
     (let num = (\<lambda>k d. to_int (de_int env) (dict_get_or config k (JInt d)));
          str = (\<lambda>k d. py_str (de_repr env) (dict_get_or config k (JStr d)));
          quality = dict_get_or config ''min_native_text_quality'' JNull
      in bind_res (num ''checkpoint_interval'' 50) (\<lambda>interval.
         bind_res (num ''text_chunk_chars'' 12000) (\<lambda>chars.
         bind_res (num ''table_batch_rows'' 500) (\<lambda>rows.
         bind_res (if dict_has config ''min_native_text_quality'' \<and> \<not> de_float env quality then Inl type_error else Inr ()) (\<lambda>_.
         bind_res (num ''max_output_items'' 5000) (\<lambda>items.
         bind_res (num ''max_output_bytes'' 16777216) (\<lambda>bytes.
         Inr \<lparr>ds_checkpoint_interval = interval, ds_text_chunk_chars = chars, ds_table_batch_rows = rows,
              ds_ocr_mode = str ''ocr_mode'' (dk_default_ocr kind), ds_table_mode = str ''table_mode'' ''off'',
              ds_failure_mode = str ''failure_mode'' ''strict'', ds_quality = quality,
              ds_max_items = items, ds_max_bytes = bytes\<rparr>)))))))"

definition check_settings :: "document_kind \<Rightarrow> document_settings \<Rightarrow> string + document_settings" where
  "check_settings kind s =
     (if ds_table_mode s \<notin> {''off'', ''native''}
      then Inl ''Studio supports table_mode 'off' or 'native'; local and vision adapters must be injected through the SDK''
      else if ds_ocr_mode s \<notin> set (dk_ocr_modes kind) then Inl ''Document OCR mode is not supported by this Studio node''
      else if \<not> (1 \<le> ds_max_items s \<and> ds_max_items s \<le> max_output_items_limit)
      then Inl (''max_output_items must be between 1 and '' @ int_str max_output_items_limit)
      else if \<not> (1024 \<le> ds_max_bytes s \<and> ds_max_bytes s \<le> max_output_bytes_limit)
      then Inl (''max_output_bytes must be between 1024 and '' @ int_str max_output_bytes_limit)
      else if \<not> (1 \<le> ds_checkpoint_interval s \<and> ds_checkpoint_interval s \<le> 1000)
      then Inl ''checkpoint_interval must be between 1 and 1000''
      else if \<not> (256 \<le> ds_text_chunk_chars s \<and> ds_text_chunk_chars s \<le> 1000000)
      then Inl ''text_chunk_chars must be between 256 and 1000000''
      else if \<not> (1 \<le> ds_table_batch_rows s \<and> ds_table_batch_rows s \<le> 5000)
      then Inl ''table_batch_rows must be between 1 and 5000''
      else Inr s)"

subsection \<open>Which files to read\<close>

definition stream_name :: "document_env \<Rightarrow> uuid \<Rightarrow> string" where
  "stream_name env i = stream_prefix @ ut_str (de_uuids env) i"

definition artifact_id_of :: "document_env \<Rightarrow> string \<Rightarrow> uuid option" where
  "artifact_id_of env stream =
     (if take (length stream_prefix) stream = stream_prefix
      then ut_parse (de_uuids env) (drop (length stream_prefix) stream) else None)"

fun configure_selected :: "document_env \<Rightarrow> document_kind \<Rightarrow> uuid \<Rightarrow> string list \<Rightarrow> uuid list \<Rightarrow> string + configured_file list" where
  "configure_selected env kind owner saved [] = Inr []"
| "configure_selected env kind owner saved (i # is) =
     bind_res (case resolve_uploads (de_uuids env) (de_uploads env) owner [ut_str (de_uuids env) i] of
         Inr ((_, name) # _) \<Rightarrow>
           if py_lower (name_suffix name) \<notin> set (dk_extensions kind)
           then Inl (''Upload type '' @ (if name_suffix name = [] then ''<none>'' else py_lower (name_suffix name)) @
                     '' is not supported by Document Source'')
           else Inr (i, stream_name env i, Some name)
       | _ \<Rightarrow>
           if stream_name env i \<notin> set saved then Inl ''Upload not found or does not belong to graph owner''
           else Inr (i, stream_name env i, None)) (\<lambda>c.
     bind_res (configure_selected env kind owner saved is) (\<lambda>cs. Inr (c # cs)))"

text \<open>A saved stream that is no longer selected is read from a missing file: the connector deletes its records.\<close>

definition configure_removed :: "document_env \<Rightarrow> string list \<Rightarrow> string list \<Rightarrow> configured_file list" where
  "configure_removed env saved selected =
     List.map_filter (\<lambda>s. map_option (\<lambda>i. (i, s, None)) (artifact_id_of env s))
       (sort (remdups (filter (\<lambda>s. s \<notin> set selected) saved)))"

subsection \<open>Reading\<close>

definition path_keys :: "string list" where
  "path_keys = [''path'', ''root'', ''source_path'', ''original_path'', ''absolute_path'']"

definition sanitized_envelope :: "document_env \<Rightarrow> obj \<Rightarrow> uuid \<Rightarrow> obj" where
  "sanitized_envelope env v i =
     (let id_text = JStr (ut_str (de_uuids env) i);
          metadata = dict_set ''artifact_id'' id_text (fold dict_pop path_keys (obj_or_empty (obj_get v ''metadata'')));
          provenance = dict_set ''artifact_id'' id_text (dict_pop ''path'' (obj_or_empty (obj_get v ''provenance'')))
      in dict_set ''provenance'' (JObj provenance) (dict_set ''metadata'' (JObj metadata) v))"

datatype document_error = OutputLimit string | SourceFailed string | StateFailed state_error

type_synonym read_progress = "json list \<times> nat \<times> obj option"

fun read_messages ::
  "document_env \<Rightarrow> document_settings \<Rightarrow> uuid option \<Rightarrow> doc_message list \<Rightarrow> read_progress \<Rightarrow> document_error + read_progress" where
  "read_messages env s aid [] p = Inr p"
| "read_messages env s aid (DocRecord v # ms) (items, bytes, final) =
     (if ds_max_items s \<le> int (length items) then Inl (OutputLimit ''max_output_items'')
      else case aid of None \<Rightarrow> Inl (SourceFailed ''KeyError'')
      | Some i \<Rightarrow> (let item = JObj (sanitized_envelope env v i); n = de_bytes env item in
          if ds_max_bytes s < int (bytes + n) then Inl (OutputLimit ''max_output_bytes'')
          else read_messages env s aid ms (items @ [item], bytes + n, final)))"
| "read_messages env s aid (DocState d # ms) (items, bytes, final) = read_messages env s aid ms (items, bytes, Some d)"
| "read_messages env s aid (DocOther # ms) p = read_messages env s aid ms p"

text \<open>The loop over the discovered streams: all items, and the last state of every stream.\<close>

fun read_streams ::
  "document_env \<Rightarrow> document_settings \<Rightarrow> studio_store \<Rightarrow> db \<Rightarrow> configured_file list \<Rightarrow> (string \<Rightarrow> obj \<Rightarrow> doc_message list \<times> string option)
     \<Rightarrow> string list \<Rightarrow> json list \<Rightarrow> nat \<Rightarrow> (string, obj) dict \<Rightarrow> document_error + (json list \<times> (string, obj) dict)" where
  "read_streams env s sx db files rd [] items bytes pending = Inr (items, pending)"
| "read_streams env s sx db files rd (name # names) items bytes pending =
     (case store_load sx (store_key sx) source_name name db of
        Inl e \<Rightarrow> Inl (StateFailed e)
      | Inr saved \<Rightarrow>
          (let (messages, ended) = rd name saved;
               aid = map_option fst (find (\<lambda>(i, stream, _). stream = name) files)
           in bind_res (read_messages env s aid messages (items, bytes, None)) (\<lambda>(items', bytes', final).
              case (ended, final) of
                (Some exn, _) \<Rightarrow> Inl (SourceFailed exn)
              | (None, None) \<Rightarrow> Inl (SourceFailed ''RuntimeError'')
              | (None, Some d) \<Rightarrow> read_streams env s sx db files rd names items' bytes' (dict_set name d pending))))"

subsection \<open>Staging\<close>

fun stage_states ::
  "document_env \<Rightarrow> nat \<Rightarrow> string list \<Rightarrow> (string, obj) dict \<Rightarrow> studio_store \<Rightarrow> db \<Rightarrow> state_error + (studio_store \<times> db)" where
  "stage_states env k selected [] sx db = Inr (sx, db)"
| "stage_states env k selected ((stream, state) # rest) sx db =
     (case (if stream \<in> set selected
            then store_save sx (store_key sx) source_name stream state (de_fences env k) (de_clock env k) db
            else store_delete sx (store_key sx) source_name stream (de_fences env k) (de_clock env k) db) of
        (Inl e, _) \<Rightarrow> Inl e
      | (Inr sx', db') \<Rightarrow> stage_states env k selected rest sx' db')"

text \<open>The writes of a staging that goes through.\<close>

definition stage_all :: "string list \<Rightarrow> (string, obj) dict \<Rightarrow> studio_store \<Rightarrow> db \<Rightarrow> db" where
  "stage_all selected pending sx db =
     fold (\<lambda>(stream, state). if stream \<in> set selected then stage_save sx source_name stream state
                             else stage_delete sx source_name stream) pending db"

fun state_exception :: "state_error \<Rightarrow> exn + string" where
  "state_exception StateLeaseLost = Inl LeaseError"
| "state_exception LeaseOwnerNeedsJob = Inl LeaseError"
| "state_exception CompletionLeaseLost = Inl LeaseError"
| "state_exception LockTimeout = Inr ''TimeoutError''"
| "state_exception WrongPipeline = Inr ''ValueError''"
| "state_exception StaleCandidate = Inr ''StaleSDKSourceStateCandidateError''"
| "state_exception _ = Inr ''RuntimeError''"

text \<open>The handlers at the end of \<open>execute\<close>.\<close>

fun handle_error :: "document_error \<Rightarrow> exn + node_result" where
  "handle_error (OutputLimit what) =
     Inr (document_failure (''Document delta exceeds '' @ what @ ''; narrow the selection or raise the limit''))"
| "handle_error (SourceFailed name) = Inr (document_failure (''Document SDK source failed: '' @ name))"
| "handle_error (StateFailed e) = (case state_exception e of
     Inl x \<Rightarrow> Inl x | Inr name \<Rightarrow> Inr (document_failure (''Document SDK source failed: '' @ name)))"

subsection \<open>The node\<close>

definition document_store :: "node_context \<Rightarrow> studio_store" where
  "document_store ctx =
     \<lparr>sx_run = cx_run ctx, sx_owner = st_owner (cx_state ctx), sx_graph = st_graph (cx_state ctx), sx_node = cx_node ctx,
      sx_job = cx_job ctx, sx_lease_owner = cx_lease_owner ctx, sx_fenced = False, sx_rows_locked = False\<rparr>"

text \<open>From the open connector to the staged states: the items, and the write of the savepoint.\<close>

definition run_connector ::
  "document_env \<Rightarrow> nat \<Rightarrow> document_settings \<Rightarrow> studio_store \<Rightarrow> string list \<Rightarrow> configured_file list \<Rightarrow> document_connector
     \<Rightarrow> db \<Rightarrow> document_error + (json list \<times> (string, obj) dict)" where
  "run_connector env k s sx selected files con db =
     bind_res (read_streams env s sx db files (dc_read con) (dc_streams con) [] 0 []) (\<lambda>(items, pending).
     case stage_states env k selected pending sx db of
       Inl e \<Rightarrow> Inl (StateFailed e)
     | Inr (sx', db') \<Rightarrow> (case revalidate_lease sx' (de_clock env k 5) db' of
           Inl e \<Rightarrow> Inl (StateFailed e)
         | Inr _ \<Rightarrow> Inr (items, pending)))"

definition read_documents ::
  "document_env \<Rightarrow> document_kind \<Rightarrow> document_settings \<Rightarrow> uuid list \<Rightarrow> studio_store \<Rightarrow> nat \<Rightarrow> db
     \<Rightarrow> (exn + node_result) \<times> (db \<Rightarrow> db)" where
  "read_documents env kind s ids sx0 k db =
     (case acquire_lock sx0 (de_fences env k) (de_clock env k) db of
        Inl e \<Rightarrow> (handle_error (StateFailed e), \<lambda>d. d)
      | Inr sx \<Rightarrow> (case store_list_streams sx (store_key sx) source_name db of
          Inl e \<Rightarrow> (handle_error (StateFailed e), \<lambda>d. d)
        | Inr saved \<Rightarrow> (case configure_selected env kind (sx_owner sx) saved ids of
            Inl m \<Rightarrow> (Inr (document_failure m), \<lambda>d. d)
          | Inr chosen \<Rightarrow>
              let selected = map (stream_name env) ids; files = chosen @ configure_removed env saved selected
              in if files = [] then (Inr (node_ok [(''items'', JList [])] 0), \<lambda>d. d)
                 else (case de_connect env s files of
                     Inl name \<Rightarrow> (handle_error (SourceFailed name), \<lambda>d. d)
                   | Inr con \<Rightarrow>
                       if \<not> dc_check con then (Inr (document_failure ''Document SDK source check failed''), \<lambda>d. d)
                       else (case run_connector env k s sx selected files con db of
                           Inl e \<Rightarrow> (handle_error e, \<lambda>d. d)
                         | Inr (items, pending) \<Rightarrow>
                             (Inr (node_ok [(''items'', JList items)] (length items)), stage_all selected pending sx))))))"

definition sdk_document_node :: "document_env \<Rightarrow> document_kind \<Rightarrow> node_impl" where
  "sdk_document_node env kind ctx k db =
     (let config = cx_config ctx; failed = (\<lambda>m. (Inr (document_failure m), \<lambda>d. d)) in
      if list_ex (dict_has config) forbidden_keys
      then failed ''Document Source accepts managed upload artifact IDs only''
      else (case artifact_ids_of env config of
          Inl m \<Rightarrow> failed m
        | Inr ids \<Rightarrow> (case read_settings env kind config of
            Inl _ \<Rightarrow> failed ''Document parser limits must be integers''
          | Inr s0 \<Rightarrow> (case check_settings kind s0 of
              Inl m \<Rightarrow> failed m
            | Inr s \<Rightarrow> read_documents env kind s ids (document_store ctx) k db))))"

subsection \<open>What staging leaves behind\<close>

lemma get_row_upd:
  "(\<And>r. key r = k \<Longrightarrow> key (f r) = k) \<Longrightarrow>
     get_row key j (upd_row key k f rows) = (if j = k then map_option f (get_row key j rows) else get_row key j rows)"
  by (induction rows) (auto simp: get_row_def upd_row_def)

lemma get_row_filter:
  "get_row key j (filter (\<lambda>r. key r \<noteq> k) rows) = (if j = k then None else get_row key j rows)"
  by (induction rows) (auto simp: get_row_def)

abbreviation doc_key :: "studio_store \<Rightarrow> string \<Rightarrow> state_key" where
  "doc_key sx stream \<equiv> scope_key sx source_name stream"

lemma scope_key_eq [simp]: "scope_key sx src a = scope_key sx src b \<longleftrightarrow> a = b"
  by (simp add: scope_key_def)

lemma committed_after [simp]:
  "committed_state (stage_save sx src st d db) k = committed_state db k"
  "committed_state (stage_delete sx src st db) k = committed_state db k"
  by (simp_all add: committed_state_def stage_save_def stage_delete_def Let_def add_candidate_def upd_candidate_def
      del_candidate_def split: option.split)

lemma restage_fields [simp]:
  "cd_key (restage op d m c) = cd_key c" "cd_run_id (restage op d m c) = cd_run_id c"
  "cd_operation (restage op d m c) = op" "cd_state_data (restage op d m c) = d"
  by (simp_all add: restage_def cd_key_def)

lemma new_candidate_fields [simp]:
  "cd_key (new_candidate sx src st op d m) = scope_key sx src st" "cd_run_id (new_candidate sx src st op d m) = sx_run sx"
  "cd_operation (new_candidate sx src st op d m) = op" "cd_state_data (new_candidate sx src st op d m) = d"
  by (simp_all add: new_candidate_def cd_key_def scope_key_def)

lemma find_candidate_upd:
  "(\<And>c. cd_key (f c) = cd_key c \<and> cd_run_id (f c) = cd_run_id c) \<Longrightarrow>
     find_candidate (upd_candidate run k f db) run j =
       (if j = k then map_option f (find_candidate db run j) else find_candidate db run j)"
  unfolding find_candidate_def upd_candidate_def by (simp add: get_row_upd)

lemma find_candidate_del:
  "find_candidate (del_candidate run k db) run j = (if j = k then None else find_candidate db run j)"
  unfolding find_candidate_def del_candidate_def
  using get_row_filter [of "\<lambda>c. (cd_run_id c, cd_key c)" "(run, j)" "(run, k)" "db_candidates db"] by simp

lemma find_candidate_add:
  "find_candidate (add_candidate c db) run j =
     (case find_candidate db run j of Some x \<Rightarrow> Some x | None \<Rightarrow> if (cd_run_id c, cd_key c) = (run, j) then Some c else None)"
  unfolding find_candidate_def add_candidate_def by (simp add: get_row_append)

definition intent :: "state_candidate option \<Rightarrow> (string \<times> obj option) option" where
  "intent = map_option (\<lambda>c. (cd_operation c, cd_state_data c))"

lemma intent_save:
  "intent (find_candidate (stage_save sx src st d db) (sx_run sx) k) =
     (if k = scope_key sx src st then Some (save_operation, Some d) else intent (find_candidate db (sx_run sx) k))"
  by (auto simp: stage_save_def Let_def intent_def find_candidate_upd find_candidate_add split: option.split)

lemma intent_delete:
  "intent (find_candidate (stage_delete sx src st db) (sx_run sx) k) =
     (if k = scope_key sx src st
      then (if visible_state (committed_state db k) = None then None else Some (delete_operation, None))
      else intent (find_candidate db (sx_run sx) k))"
  by (auto simp: stage_delete_def Let_def intent_def find_candidate_upd find_candidate_add find_candidate_del
      split: option.split)

text \<open>What staging means for one stream, given the state its reading ended with.\<close>

definition staged_intent :: "string list \<Rightarrow> studio_store \<Rightarrow> db \<Rightarrow> string \<Rightarrow> obj \<Rightarrow> (string \<times> obj option) option" where
  "staged_intent selected sx db stream d =
     (if stream \<in> set selected then Some (save_operation, Some d)
      else if visible_state (committed_state db (doc_key sx stream)) = None then None else Some (delete_operation, None))"

lemma stage_all_committed: "committed_state (stage_all selected pending sx db) k = committed_state db k"
  unfolding stage_all_def by (induction pending arbitrary: db) auto

lemma stage_all_other:
  "stream \<notin> fst ` set pending \<Longrightarrow> intent (find_candidate (stage_all selected pending sx db) (sx_run sx) (doc_key sx stream)) =
     intent (find_candidate db (sx_run sx) (doc_key sx stream))"
  unfolding stage_all_def by (induction pending arbitrary: db) (auto simp: intent_save intent_delete)

lemma stage_all_intent:
  "distinct (map fst pending) \<Longrightarrow> (stream, d) \<in> set pending \<Longrightarrow>
     intent (find_candidate (stage_all selected pending sx db) (sx_run sx) (doc_key sx stream)) =
     staged_intent selected sx db stream d"
proof (induction pending arbitrary: db)
  case (Cons p pending)
  obtain s e where p: "p = (s, e)" by (cases p)
  let ?db = "if s \<in> set selected then stage_save sx source_name s e db else stage_delete sx source_name s db"
  have step: "stage_all selected (p # pending) sx db = stage_all selected pending sx ?db"
    by (simp add: stage_all_def p)
  have same: "staged_intent selected sx ?db stream d = staged_intent selected sx db stream d"
    by (cases "s \<in> set selected") (simp_all add: staged_intent_def)
  show ?case
  proof (cases "s = stream")
    case True
    then have "stream \<notin> fst ` set pending" "d = e" using Cons.prems by (auto simp: p image_iff)
    then have "intent (find_candidate (stage_all selected (p # pending) sx db) (sx_run sx) (doc_key sx stream)) =
        intent (find_candidate ?db (sx_run sx) (doc_key sx stream))"
      unfolding step by (intro stage_all_other)
    also have "\<dots> = staged_intent selected sx db stream d"
      unfolding staged_intent_def \<open>d = e\<close> True by (simp only: intent_save intent_delete if_distrib split: if_split) simp
    finally show ?thesis .
  next
    case False
    then show ?thesis unfolding step using Cons by (simp add: p same)
  qed
qed simp

lemma stage_all_rows:
  "db_runs (stage_all selected pending sx db) = db_runs db" "db_jobs (stage_all selected pending sx db) = db_jobs db"
  "db_next (stage_all selected pending sx db) = db_next db"
  unfolding stage_all_def
  by (induction pending arbitrary: db)
     (auto simp: stage_save_def stage_delete_def Let_def add_candidate_def upd_candidate_def del_candidate_def
       split: option.split)

subsection \<open>What reading yields\<close>

fun last_state :: "doc_message list \<Rightarrow> obj option" where
  "last_state [] = None"
| "last_state (DocState d # ms) = (case last_state ms of None \<Rightarrow> Some d | Some e \<Rightarrow> Some e)"
| "last_state (_ # ms) = last_state ms"

lemma read_messages_final:
  "read_messages env s aid ms (items, bytes, final) = Inr (items', bytes', final') \<Longrightarrow>
     final' = (case last_state ms of None \<Rightarrow> final | Some d \<Rightarrow> Some d)"
proof (induction ms arbitrary: items bytes final rule: last_state.induct)
  case (2 d ms)
  then have "read_messages env s aid ms (items, bytes, Some d) = Inr (items', bytes', final')" by simp
  from "2.IH" [OF this] show ?case by (simp split: option.split)
qed (auto simp: Let_def split: if_splits option.splits)

lemma read_streams_pending:
  "read_streams env s sx db files rd names items bytes pending = Inr (items', pending') \<Longrightarrow> dict_wf pending \<Longrightarrow>
     dict_wf pending' \<and> fst ` set pending' = fst ` set pending \<union> set names \<and>
     (\<forall>n. dict_get pending' n = (if n \<in> set names then
        (case store_load sx (store_key sx) source_name n db of Inl _ \<Rightarrow> None | Inr saved \<Rightarrow> last_state (fst (rd n saved)))
        else dict_get pending n)) \<and>
     (\<forall>n \<in> set names. \<exists>saved. store_load sx (store_key sx) source_name n db = Inr saved \<and> snd (rd n saved) = None)"
proof (induction names arbitrary: items bytes pending)
  case (Cons name names)
  obtain saved where saved: "store_load sx (store_key sx) source_name name db = Inr saved"
    using Cons.prems(1) by (cases "store_load sx (store_key sx) source_name name db") auto
  obtain ms ended where rd: "rd name saved = (ms, ended)" by fastforce
  let ?aid = "map_option fst (find (\<lambda>(i, stream, _). stream = name) files)"
  obtain p where p: "read_messages env s ?aid ms (items, bytes, None) = Inr p"
    using Cons.prems(1) by (cases "read_messages env s ?aid ms (items, bytes, None)") (simp_all add: saved rd)
  obtain its bs fin where p3: "p = (its, bs, fin)" by (cases p) auto
  obtain d where e: "ended = None" "fin = Some d"
    using Cons.prems(1) by (cases ended; cases fin) (simp_all add: saved rd p p3)
  have run: "read_streams env s sx db files rd names its bs (dict_set name d pending) = Inr (items', pending')"
    using Cons.prems(1) by (simp add: saved rd p p3 e)
  have "last_state ms = Some d"
    using read_messages_final [of env s ?aid ms items bytes None its bs fin] p p3 e by (simp split: option.splits)
  with Cons.IH [OF run dict_wf_set [OF Cons.prems(2)]] show ?case
    by (auto simp: saved rd e(1) dom_update)
qed simp

lemma store_load_key: "\<exists>saved. store_load sx (store_key sx) source stream db = Inr saved"
  by (simp add: store_load_def require_pipeline_def)

text \<open>Items of a delta.\<close>

definition pathless :: "document_env \<Rightarrow> uuid set \<Rightarrow> json \<Rightarrow> bool" where
  "pathless env ids item \<longleftrightarrow> (\<exists>i \<in> ids. \<exists>v m p. item = JObj v \<and>
     obj_get v ''metadata'' = JObj m \<and> obj_get v ''provenance'' = JObj p \<and>
     (\<forall>key \<in> set path_keys. dict_get m key = None) \<and> dict_get p ''path'' = None \<and>
     dict_get m ''artifact_id'' = Some (JStr (ut_str (de_uuids env) i)) \<and>
     dict_get p ''artifact_id'' = Some (JStr (ut_str (de_uuids env) i)))"

lemma pathless_sanitized: "i \<in> ids \<Longrightarrow> pathless env ids (JObj (sanitized_envelope env v i))"
  unfolding pathless_def
  by (rule bexI [of _ i])
     (auto simp: sanitized_envelope_def Let_def obj_get_def dict_get_or_def path_keys_def)

definition delta_ok :: "document_env \<Rightarrow> document_settings \<Rightarrow> uuid set \<Rightarrow> json list \<Rightarrow> nat \<Rightarrow> bool" where
  "delta_ok env s ids items bytes \<longleftrightarrow> list_all (pathless env ids) items \<and> bytes = sum_list (map (de_bytes env) items) \<and>
     (items \<noteq> [] \<longrightarrow> int (length items) \<le> ds_max_items s \<and> int bytes \<le> ds_max_bytes s)"

lemma read_messages_delta:
  "read_messages env s aid ms (items, bytes, final) = Inr (items', bytes', final') \<Longrightarrow> delta_ok env s ids items bytes \<Longrightarrow>
     (\<And>i. aid = Some i \<Longrightarrow> i \<in> ids) \<Longrightarrow> delta_ok env s ids items' bytes'"
proof (induction ms arbitrary: items bytes final)
  case (Cons m ms)
  show ?case
  proof (cases m)
    case (DocRecord v)
    with Cons.prems(1) obtain i where i: "aid = Some i" by (cases aid) (auto split: if_splits)
    let ?item = "JObj (sanitized_envelope env v i)"
    have run: "read_messages env s aid ms (items @ [?item], bytes + de_bytes env ?item, final) = Inr (items', bytes', final')"
      and lim: "int (length items) < ds_max_items s" "int (bytes + de_bytes env ?item) \<le> ds_max_bytes s"
      using Cons.prems(1) DocRecord by (auto simp: i Let_def split: if_splits)
    have "delta_ok env s ids (items @ [?item]) (bytes + de_bytes env ?item)"
      using Cons.prems(2) lim pathless_sanitized [of i ids env v] Cons.prems(3) [OF i] by (auto simp: delta_ok_def)
    from Cons.IH [OF run this Cons.prems(3)] show ?thesis .
  next
    case (DocState d)
    with Cons show ?thesis by simp
  next
    case DocOther
    with Cons show ?thesis by simp
  qed
qed simp

lemma read_streams_delta:
  "read_streams env s sx db files rd names items bytes pending = Inr (items', pending') \<Longrightarrow>
     delta_ok env s (fst ` set files) items bytes \<Longrightarrow> \<exists>bytes'. delta_ok env s (fst ` set files) items' bytes'"
proof (induction names arbitrary: items bytes pending)
  case (Cons name names)
  obtain saved where saved: "store_load sx (store_key sx) source_name name db = Inr saved"
    using store_load_key by blast
  obtain ms ended where rd: "rd name saved = (ms, ended)" by fastforce
  let ?aid = "map_option fst (find (\<lambda>(i, stream, _). stream = name) files)"
  have aid: "i \<in> fst ` set files" if ai: "?aid = Some i" for i
  proof -
    obtain q where "find (\<lambda>(i, stream, _). stream = name) files = Some q" "fst q = i"
      using ai unfolding map_option_eq_Some by blast
    then show ?thesis by (metis find_Some_iff imageI nth_mem)
  qed
  obtain p where p: "read_messages env s ?aid ms (items, bytes, None) = Inr p"
    using Cons.prems(1) by (cases "read_messages env s ?aid ms (items, bytes, None)") (simp_all add: saved rd)
  obtain its bs fin where p3: "p = (its, bs, fin)" by (cases p) auto
  have ok: "delta_ok env s (fst ` set files) its bs"
    using read_messages_delta [of env s ?aid ms items bytes None its bs fin] p p3 Cons.prems(2) aid by blast
  obtain d where "ended = None" "fin = Some d"
    using Cons.prems(1) by (cases ended; cases fin) (simp_all add: saved rd p p3)
  then have "read_streams env s sx db files rd names its bs (dict_set name d pending) = Inr (items', pending')"
    using Cons.prems(1) by (simp add: saved rd p p3)
  from Cons.IH [OF this ok] show ?case .
qed auto

subsection \<open>Outcomes of the node\<close>

definition staged_run ::
  "document_env \<Rightarrow> nat \<Rightarrow> node_context \<Rightarrow> db \<Rightarrow> uuid list \<Rightarrow> document_settings \<Rightarrow> configured_file list \<Rightarrow> document_connector
     \<Rightarrow> studio_store \<Rightarrow> json list \<Rightarrow> (string, obj) dict \<Rightarrow> bool" where
  "staged_run env k ctx db ids s files con sx items pending \<longleftrightarrow>
     acquire_lock (document_store ctx) (de_fences env k) (de_clock env k) db = Inr sx \<and>
     de_connect env s files = Inr con \<and>
     run_connector env k s sx (map (stream_name env) ids) files con db = Inr (items, pending)"

lemma handle_error_failed: "handle_error e = Inr x \<Longrightarrow> \<not> rs_success x"
  by (cases e) (auto simp: document_failure_def split: sum.splits)

lemma read_documents_cases:
  assumes "read_documents env kind s ids (document_store ctx) k db = (r, f)"
  shows "(f = (\<lambda>d. d) \<and> (\<forall>x. r = Inr x \<and> rs_success x \<longrightarrow> rs_output x = [(''items'', JList [])])) \<or>
    (\<exists>files con sx items pending. staged_run env k ctx db ids s files con sx items pending \<and>
       r = Inr (node_ok [(''items'', JList items)] (length items)) \<and>
       f = stage_all (map (stream_name env) ids) pending sx)"
proof (cases "acquire_lock (document_store ctx) (de_fences env k) (de_clock env k) db")
  case (Inl e)
  then show ?thesis using assms handle_error_failed by (auto simp: read_documents_def simp del: handle_error.simps)
next
  case sx: (Inr sx)
  show ?thesis
  proof (cases "store_list_streams sx (store_key sx) source_name db")
    case (Inl e)
    then show ?thesis using assms sx handle_error_failed by (auto simp: read_documents_def simp del: handle_error.simps)
  next
    case saved: (Inr saved)
    show ?thesis
    proof (cases "configure_selected env kind (sx_owner sx) saved ids")
      case (Inl m)
      then show ?thesis using assms sx saved by (auto simp: read_documents_def document_failure_def)
    next
      case chosen: (Inr chosen)
      let ?selected = "map (stream_name env) ids"
      let ?files = "chosen @ configure_removed env saved ?selected"
      note upto = assms sx saved chosen
      show ?thesis
      proof (cases "?files = []")
        case True
        then show ?thesis using upto by (auto simp: read_documents_def Let_def)
      next
        case files: False
        show ?thesis
        proof (cases "de_connect env s ?files")
          case (Inl n)
          then show ?thesis using upto files handle_error_failed by (auto simp: read_documents_def Let_def simp del: handle_error.simps)
        next
          case con: (Inr con)
          show ?thesis
          proof (cases "run_connector env k s sx ?selected ?files con db")
            case (Inl e)
            then show ?thesis using upto files con handle_error_failed
              by (auto simp: read_documents_def Let_def document_failure_def split: if_splits simp del: handle_error.simps)
          next
            case (Inr p)
            then show ?thesis using upto files con
              by (cases p) (auto simp: read_documents_def Let_def document_failure_def staged_run_def split: if_splits)
          qed
        qed
      qed
    qed
  qed
qed

lemma document_node_cases:
  assumes "sdk_document_node env kind ctx k db = (r, f)"
  shows "(f = (\<lambda>d. d) \<and> (\<forall>x. r = Inr x \<and> rs_success x \<longrightarrow> rs_output x = [(''items'', JList [])])) \<or>
    (\<exists>ids s0 s files con sx items pending. artifact_ids_of env (cx_config ctx) = Inr ids \<and>
       check_settings kind s0 = Inr s \<and> staged_run env k ctx db ids s files con sx items pending \<and>
       r = Inr (node_ok [(''items'', JList items)] (length items)) \<and>
       f = stage_all (map (stream_name env) ids) pending sx)"
proof (cases "list_ex (dict_has (cx_config ctx)) forbidden_keys")
  case True
  then show ?thesis using assms by (auto simp: sdk_document_node_def document_failure_def)
next
  case ok: False
  show ?thesis
  proof (cases "artifact_ids_of env (cx_config ctx)")
    case (Inl m)
    then show ?thesis using assms ok by (auto simp: sdk_document_node_def document_failure_def)
  next
    case ids: (Inr ids)
    show ?thesis
    proof (cases "read_settings env kind (cx_config ctx)")
      case (Inl m)
      then show ?thesis using assms ok ids by (auto simp: sdk_document_node_def document_failure_def)
    next
      case s0: (Inr s0)
      show ?thesis
      proof (cases "check_settings kind s0")
        case (Inl m)
        then show ?thesis using assms ok ids s0 by (auto simp: sdk_document_node_def document_failure_def)
      next
        case (Inr s)
        then have "read_documents env kind s ids (document_store ctx) k db = (r, f)"
          using assms ok ids s0 by (simp add: sdk_document_node_def)
        from read_documents_cases [OF this] show ?thesis using ids Inr by blast
      qed
    qed
  qed
qed

lemma run_connector_read:
  assumes run: "run_connector env k s sx selected files con db = Inr (items, pending)"
  shows "read_streams env s sx db files (dc_read con) (dc_streams con) [] 0 [] = Inr (items, pending)"
proof -
  obtain a b where read: "read_streams env s sx db files (dc_read con) (dc_streams con) [] 0 [] = Inr (a, b)"
    using run by (cases "read_streams env s sx db files (dc_read con) (dc_streams con) [] 0 []")
      (auto simp: run_connector_def)
  obtain sx' db' where st: "stage_states env k selected b sx db = Inr (sx', db')"
    using run by (cases "stage_states env k selected b sx db") (auto simp: run_connector_def read)
  show ?thesis using run
    by (cases "revalidate_lease sx' (de_clock env k 5) db'") (simp_all add: run_connector_def read st)
qed

lemma acquire_lock_run: "acquire_lock sx fences clock db = Inr sx1 \<Longrightarrow> sx_run sx1 = sx_run sx"
  by (auto simp: acquire_lock_def bind_res_Inr split: if_splits)

text \<open>
  C17. The document source stages all or nothing. Either it writes nothing to the session, or it
  succeeds, and then every stream that the connector discovered was read to its end without an exception
  from the state that the last completed run committed for it, and the candidate of the stream is the
  last state it reported, to be saved if the file is still selected and to be deleted if not.
\<close>

theorem document_node_all_or_nothing:
  assumes "sdk_document_node env kind ctx k db = (r, f)"
  shows "f = (\<lambda>d. d) \<or>
    (\<exists>x ids s files con sx. r = Inr x \<and> rs_success x \<and> artifact_ids_of env (cx_config ctx) = Inr ids \<and>
       de_connect env s files = Inr con \<and> sx_run sx = cx_run ctx \<and>
       (\<forall>stream \<in> set (dc_streams con). \<exists>saved messages d.
          store_load sx (store_key sx) source_name stream db = Inr saved \<and> dc_read con stream saved = (messages, None) \<and>
          last_state messages = Some d \<and>
          intent (find_candidate (f db) (cx_run ctx) (doc_key sx stream)) =
            staged_intent (map (stream_name env) ids) sx db stream d))"
proof -
  from document_node_cases [OF assms] show ?thesis
  proof (elim disjE exE conjE)
    fix ids s0 s files con sx items pending
    assume ids: "artifact_ids_of env (cx_config ctx) = Inr ids"
      and run: "staged_run env k ctx db ids s files con sx items pending"
      and r: "r = Inr (node_ok [(''items'', JList items)] (length items))"
      and f: "f = stage_all (map (stream_name env) ids) pending sx"
    have sx: "sx_run sx = cx_run ctx" using run acquire_lock_run by (fastforce simp: staged_run_def document_store_def)
    have rs: "read_streams env s sx db files (dc_read con) (dc_streams con) [] 0 [] = Inr (items, pending)"
      using run run_connector_read unfolding staged_run_def by blast
    note p = read_streams_pending [OF rs dict_wf_empty]
    have all: "\<exists>saved messages d. store_load sx (store_key sx) source_name stream db = Inr saved \<and>
        dc_read con stream saved = (messages, None) \<and> last_state messages = Some d \<and>
        intent (find_candidate (f db) (cx_run ctx) (doc_key sx stream)) =
          staged_intent (map (stream_name env) ids) sx db stream d"
      if st: "stream \<in> set (dc_streams con)" for stream
    proof -
      obtain saved where saved: "store_load sx (store_key sx) source_name stream db = Inr saved"
          "snd (dc_read con stream saved) = None"
        using p st by blast
      have "stream \<in> fst ` set pending" using p st by simp
      then obtain d where d: "(stream, d) \<in> set pending" by auto
      then have "dict_get pending stream = Some d"
        using p by - (rule map_of_is_SomeI, simp_all add: dict_wf_def)
      then have "last_state (fst (dc_read con stream saved)) = Some d" using p st saved(1) by simp
      moreover have "intent (find_candidate (f db) (sx_run sx) (doc_key sx stream)) =
          staged_intent (map (stream_name env) ids) sx db stream d"
        unfolding f using p d by (intro stage_all_intent) (simp_all add: dict_wf_def)
      ultimately show ?thesis using saved sx by (cases "dc_read con stream saved") auto
    qed
    show ?thesis
      by (rule disjI2, rule exI [of _ "node_ok [(''items'', JList items)] (length items)"], rule exI [of _ ids],
          rule exI [of _ s], rule exI [of _ files], rule exI [of _ con], rule exI [of _ sx])
         (use all ids run r sx in \<open>simp add: staged_run_def\<close>)
  qed simp
qed

text \<open>
  A delta leaks no path and respects its limits: every item it delivers carries the id of a configured
  file as its only trace in metadata and provenance, all path keys are gone, there are at most 10000 items
  and at most 64 MiB of them.
\<close>

theorem document_delta_sanitized:
  assumes "sdk_document_node env kind ctx k db = (Inr x, f)" "rs_success x"
  shows "\<exists>items ids. rs_output x = [(''items'', JList items)] \<and> list_all (pathless env ids) items \<and>
    int (length items) \<le> max_output_items_limit \<and> int (sum_list (map (de_bytes env) items)) \<le> max_output_bytes_limit"
proof -
  from document_node_cases [OF assms(1)] show ?thesis
  proof (elim disjE exE conjE)
    fix ids s0 s files con sx items pending
    assume s: "check_settings kind s0 = Inr s" and run: "staged_run env k ctx db ids s files con sx items pending"
      and r: "(Inr x :: exn + node_result) = Inr (node_ok [(''items'', JList items)] (length items))"
    have lim: "ds_max_items s \<le> max_output_items_limit" "ds_max_bytes s \<le> max_output_bytes_limit"
      using s by (auto simp: check_settings_def split: if_splits)
    have "read_streams env s sx db files (dc_read con) (dc_streams con) [] 0 [] = Inr (items, pending)"
      using run run_connector_read unfolding staged_run_def by blast
    then obtain bytes where ok: "delta_ok env s (fst ` set files) items bytes"
      using read_streams_delta [of env s sx db files _ _ "[]" 0 "[]" items pending] by (auto simp: delta_ok_def)
    then have "int (length items) \<le> max_output_items_limit \<and> int (sum_list (map (de_bytes env) items)) \<le> max_output_bytes_limit"
      using lim by (cases "items = []") (auto simp: delta_ok_def max_output_items_limit_def max_output_bytes_limit_def)
    then show ?thesis using ok r by (auto simp: delta_ok_def)
  next
    assume "\<forall>y. (Inr x :: exn + node_result) = Inr y \<and> rs_success y \<longrightarrow> rs_output y = [(''items'', JList [])]"
    then show ?thesis using assms(2)
      by (auto simp: max_output_items_limit_def max_output_bytes_limit_def)
  qed
qed

subsection \<open>A selected file and a removed one\<close>

definition demo_connector :: document_connector where
  "demo_connector = \<lparr>dc_check = True, dc_streams = [''upload-5''],
     dc_read = (\<lambda>name saved. ([DocRecord [(''metadata'', JObj [(''path'', JStr ''/srv/a.txt''), (''page'', JInt 1)])],
        DocOther, DocState [(''offset'', JInt 9)]], None))\<rparr>"

definition demo_document_env :: document_env where
  "demo_document_env = \<lparr>de_uuids = demo_uuids,
     de_uploads = [(7, \<lparr>od_staging = [], od_artifacts = [(5, \<lparr>ad_metadata = Some \<lparr>um_id = ''5'', um_name = ''a.txt'',
       um_size = 1, um_type = [], um_created = []\<rparr>, ad_files = [(''a.txt'', 1)]\<rparr>)]\<rparr>)],
     de_repr = (\<lambda>_. []), de_int = (\<lambda>_. None), de_float = (\<lambda>_. True), de_bytes = (\<lambda>_. 4),
     de_connect = (\<lambda>_ _. Inr demo_connector), de_fences = (\<lambda>_. (Inr (), Inr ())), de_clock = (\<lambda>_ _. 0)\<rparr>"

definition demo_document_kind :: document_kind where
  "demo_document_kind = \<lparr>dk_extensions = [''.txt''], dk_default_ocr = ''off'', dk_ocr_modes = [''off'']\<rparr>"

definition demo_document_context :: node_context where
  "demo_document_context = \<lparr>cx_run = 50, cx_node = ''n'', cx_config = [(''artifact_ids'', JList [JStr ''5''])], cx_input = [],
     cx_state = \<lparr>st_connections = [], st_owner = 7, st_graph = 1\<rparr>, cx_job = None, cx_lease_owner = None\<rparr>"

definition demo_document_db :: db where
  "demo_document_db = one_graph_db\<lparr>db_runs := [\<lparr>rn_id = 50, rn_graph_id = 1, rn_version_id = Some 2,
     rn_trigger_type = ''manual'', rn_triggered_by = Some 7, rn_status = RUNNING, rn_error = None, rn_payload = None,
     rn_created_at = 0\<rparr>]\<rparr>"

definition demo_document_run :: "(exn + node_result) \<times> (db \<Rightarrow> db)" where
  "demo_document_run = sdk_document_node demo_document_env demo_document_kind demo_document_context 1 demo_document_db"

lemma demo_document_result:
  "case fst demo_document_run of Inl _ \<Rightarrow> False | Inr x \<Rightarrow> rs_success x \<and> (case rs_output x of [(_, JList [_])] \<Rightarrow> True | _ \<Rightarrow> False)"
  "db_candidates (snd demo_document_run demo_document_db) \<noteq> db_candidates demo_document_db"
  by code_simp+

theorem document_node_all_or_nothing_witness:
  "\<exists>sx saved messages. sx_run sx = 50 \<and> dc_read demo_connector ''upload-5'' saved = (messages, None) \<and>
     intent (find_candidate (snd demo_document_run demo_document_db) 50 (doc_key sx ''upload-5'')) =
       Some (save_operation, last_state messages)"
proof -
  obtain r f where rf: "demo_document_run = (r, f)" by fastforce
  have f: "f \<noteq> (\<lambda>d. d)" using demo_document_result(2) by (auto simp: rf)
  from document_node_all_or_nothing [OF rf [unfolded demo_document_run_def]] f obtain ids s files con sx where
      run: "artifact_ids_of demo_document_env (cx_config demo_document_context) = Inr ids"
      "de_connect demo_document_env s files = Inr con" "sx_run sx = cx_run demo_document_context"
      "\<forall>stream \<in> set (dc_streams con). \<exists>saved messages d.
         store_load sx (store_key sx) source_name stream demo_document_db = Inr saved \<and>
         dc_read con stream saved = (messages, None) \<and> last_state messages = Some d \<and>
         intent (find_candidate (f demo_document_db) (cx_run demo_document_context) (doc_key sx stream)) =
            staged_intent (map (stream_name demo_document_env) ids) sx demo_document_db stream d"
    by blast
  have ids: "ids = [5]" using run(1)
    by (simp add: artifact_ids_of_def demo_document_context_def obj_get_def dict_get_or_def or_else_def
        demo_document_env_def demo_uuids_def)
  have con: "con = demo_connector" using run(2) by (simp add: demo_document_env_def)
  have "map (stream_name demo_document_env) [5] = [''upload-5'']" by code_simp
  moreover have "''upload-5'' \<in> set (dc_streams con)" by (simp add: con demo_connector_def)
  ultimately obtain saved messages d where d: "dc_read demo_connector ''upload-5'' saved = (messages, None)"
      "last_state messages = Some d"
      "intent (find_candidate (f demo_document_db) (cx_run demo_document_context) (doc_key sx ''upload-5'')) =
         Some (save_operation, Some d)"
    using run(4) by (auto simp: ids con staged_intent_def)
  have "cx_run demo_document_context = 50" by (simp add: demo_document_context_def)
  then show ?thesis using d run(3)
    by - (rule exI [of _ sx], rule exI [of _ saved], rule exI [of _ messages], simp add: rf)
qed

theorem document_delta_sanitized_witness:
  "\<exists>x item ids. fst demo_document_run = Inr x \<and> rs_output x = [(''items'', JList [item])] \<and> pathless demo_document_env ids item"
proof -
  obtain x where x: "fst demo_document_run = Inr x" "rs_success x"
      "case rs_output x of [(_, JList [_])] \<Rightarrow> True | _ \<Rightarrow> False"
    using demo_document_result(1) by (auto split: sum.splits)
  have "sdk_document_node demo_document_env demo_document_kind demo_document_context 1 demo_document_db =
      (Inr x, snd demo_document_run)"
    using x(1) by (simp add: demo_document_run_def prod_eq_iff)
  from document_delta_sanitized [OF this x(2)] obtain items ids where
      "rs_output x = [(''items'', JList items)]" "list_all (pathless demo_document_env ids) items" by blast
  moreover then obtain item where "items = [item]" using x(3) by (auto split: list.splits)
  ultimately show ?thesis using x(1) by auto
qed

end
