(* ===== verification/BuiltinNodes.thy ===== *)
theory BuiltinNodes
  imports ExecutionSafety SdkDocumentNode
begin

text \<open>
  The library of the built-in nodes that are modelled, as the worker finds it after
  \<open>discover_nodes\<close>: the processing nodes of \<open>ProcessingNodes\<close> and \<open>ChunkNodes\<close>, which leave the
  session alone, and the two document sources of \<open>SdkDocumentNode\<close>, which write staged checkpoints to it.
  The library meets the locale \<open>node_library\<close>, so the contract of job processing holds of it outright.
\<close>

record builtin_env =
  be_repr :: "json \<Rightarrow> string"
  be_language :: expression_language
  be_tokenizer :: tokenizer_env
  be_html :: "string \<Rightarrow> html_event list"
  be_int :: "json \<Rightarrow> int option"
  be_documents :: document_env
  be_supported :: "string list"
  be_images :: "string list"

text \<open>A node that computes on its input; its exceptions reach the runner.\<close>

definition code_node :: "node_code \<Rightarrow> node_impl" where
  "code_node code ctx k db = (map_sum Error id (code (cx_config ctx) (cx_input ctx)), \<lambda>d. d)"

definition document_source :: "builtin_env \<Rightarrow> document_kind" where
  "document_source env = \<lparr>dk_extensions = be_supported env, dk_default_ocr = ''off'', dk_ocr_modes = [''off'', ''auto'', ''always'']\<rparr>"

definition ocr_document_source :: "builtin_env \<Rightarrow> document_kind" where
  "ocr_document_source env =
     \<lparr>dk_extensions = be_supported env @ be_images env, dk_default_ocr = ''auto'', dk_ocr_modes = [''auto'', ''always'']\<rparr>"

definition builtin_table :: "builtin_env \<Rightarrow> (string, node_impl) dict" where
  "builtin_table env =
     [(''filter'', code_node (filter_node (be_language env))),
      (''merge'', code_node (merge_node (be_repr env))),
      (''split'', code_node split_node),
      (''transform'', code_node (transform_node (be_repr env) (be_language env))),
      (''webhook_source'', code_node webhook_node),
      (''text_chunker'', code_node (text_chunker_node (be_repr env) (be_tokenizer env))),
      (''recursive_splitter'', code_node recursive_splitter_node),
      (''html_splitter'', code_node (html_splitter_node (be_html env))),
      (''chunk_preview'', code_node (chunk_preview_node (be_repr env) (be_int env))),
      (''sdk_document_source'', sdk_document_node (be_documents env) (document_source env)),
      (''sdk_ocr_document_source'', sdk_document_node (be_documents env) (ocr_document_source env))]"

definition builtin_nodes :: "builtin_env \<Rightarrow> implementations" where
  "builtin_nodes env ty = dict_get (builtin_table env) ty"

lemma code_node_writes: "row_write (snd (code_node code ctx k db))"
  by (simp add: code_node_def)

lemma document_node_writes: "row_write (snd (sdk_document_node env kind ctx k db))"
proof -
  obtain r f where rf: "sdk_document_node env kind ctx k db = (r, f)" by fastforce
  have "row_write (stage_all selected pending sx)" for selected pending sx
    by (simp add: row_write_def stage_all_rows)
  then show ?thesis using document_node_cases [OF rf] by (auto simp: rf)
qed

interpretation builtin: node_library "builtin_nodes env" for env
proof
  fix ty impl ctx k db
  assume "builtin_nodes env ty = Some impl"
  then have "(ty, impl) \<in> set (builtin_table env)" unfolding builtin_nodes_def by (rule map_of_SomeD)
  then show "row_write (snd (impl ctx k db))"
    by (auto simp: builtin_table_def code_node_writes document_node_writes)
qed

text \<open>
  A worker with the built-in nodes keeps the contract of the control plane: whatever job it
  processes, whatever the graph and the other clients do, the tables stay consistent and every run moves
  by legal steps only, with its graph and version unchanged.
\<close>

theorem builtin_worker_contract:
  assumes "world_ok w"
  shows "world_ok (snd (process_job (rt\<lparr>rt_impls := builtin_nodes env\<rparr>) job run worker w)) \<and>
    evolves_path (w_db w) (w_db (snd (process_job (rt\<lparr>rt_impls := builtin_nodes env\<rparr>) job run worker w))) \<and>
    (\<forall>i r. find_run (w_db w) i = Some r \<longrightarrow>
       (\<exists>r'. find_run (w_db (snd (process_job (rt\<lparr>rt_impls := builtin_nodes env\<rparr>) job run worker w))) i = Some r' \<and>
          rn_graph_id r' = rn_graph_id r \<and> rn_version_id r' = rn_version_id r))"
proof -
  have s: "safe (process_job (rt\<lparr>rt_impls := builtin_nodes env\<rparr>) job run worker)" by (rule builtin.safe_process) simp
  show ?thesis using s assms evolves_path_run unfolding safe_def by blast
qed

theorem builtin_worker_contract_witness:
  "\<forall>env. \<exists>r. find_run (w_db (snd (process_job (echo_runtime\<lparr>rt_impls := builtin_nodes env\<rparr>) 100 50 ''w1'' echo_world))) 50 =
     Some r \<and> rn_version_id r = Some 2"
proof
  fix env
  have "find_run (w_db echo_world) 50 = Some (the (find_run leased_db 50))"
    "rn_version_id (the (find_run leased_db 50)) = Some 2"
    by code_simp+
  with builtin_worker_contract [OF echo_world_ok, where rt = echo_runtime and env = env and job = 100 and run = 50
      and worker = "''w1''"]
  show "\<exists>r. find_run (w_db (snd (process_job (echo_runtime\<lparr>rt_impls := builtin_nodes env\<rparr>) 100 50 ''w1'' echo_world))) 50 =
     Some r \<and> rn_version_id r = Some 2" by metis
qed

end
