(* ===== verification/TriggerTables.thy ===== *)
theory TriggerTables
  imports Webhooks
begin

text \<open>
  The invariant of the tables of \<open>models/trigger.py\<close> and that every operation on triggers keeps it, so
  that no request can make the database refuse a row (which the code would report as a name conflict).
\<close>

subsection \<open>The tables of triggers and deliveries\<close>

definition schedule_ok :: "string option \<Rightarrow> int option \<Rightarrow> string option \<Rightarrow> bool" where
  "schedule_ok kind secs cron \<longleftrightarrow>
     (case secs of
        Some n \<Rightarrow> kind = Some ''interval'' \<and> 60 \<le> n \<and> n \<le> 31536000 \<and> cron = None
      | None \<Rightarrow> kind = Some ''cron'' \<and> cron \<noteq> None)"

lemma schedule_ok_validated: "validate_schedule_configuration env kind secs cron tz = Inr (k, n, e, z) \<Longrightarrow> schedule_ok (Some k) n e"
  using validated_schedule(3,4) [of env kind secs cron tz k n e z] by (cases n) (auto simp: schedule_ok_def)

text \<open>The check constraints of \<open>graph_triggers\<close>, and that exactly the enabled schedules have a next run.\<close>

definition trigger_row_ok :: "graph_trigger \<Rightarrow> bool" where
  "trigger_row_ok t \<longleftrightarrow> text_field (tg_name t) \<and> rate_field (tg_rate_limit t) \<and>
     (tg_type t = WEBHOOK \<longleftrightarrow> tg_webhook_secret t \<noteq> None) \<and>
     (if tg_type t = WEBHOOK
      then tg_schedule_kind t = None \<and> tg_interval_seconds t = None \<and> tg_cron_expression t = None \<and> tg_next_run_at t = None
      else (tg_enabled t \<longleftrightarrow> tg_next_run_at t \<noteq> None) \<and>
        schedule_ok (tg_schedule_kind t) (tg_interval_seconds t) (tg_cron_expression t))"

text \<open>With the unique constraints: ids, names within a graph, deliveries within a trigger.\<close>

definition triggers_ok :: "db \<Rightarrow> bool" where
  "triggers_ok db \<longleftrightarrow>
     (\<forall>t \<in> set (db_triggers db). trigger_row_ok t \<and> tg_id t < db_next db) \<and>
     distinct (map tg_id (db_triggers db)) \<and>
     distinct (map (\<lambda>t. (tg_graph_id t, tg_name t)) (db_triggers db)) \<and>
     distinct (map (\<lambda>d. (wd_trigger_id d, wd_delivery_id d)) (db_deliveries db))"

lemma triggers_ok_find: "triggers_ok db \<Longrightarrow> find_trigger db i = Some t \<Longrightarrow> trigger_row_ok t \<and> t \<in> set (db_triggers db) \<and> tg_id t = i"
  unfolding triggers_ok_def find_trigger_def by (auto dest: get_row_Some)

lemma distinct_upd_row:
  assumes "distinct (map col rows)" "distinct (map key rows)"
    and "\<And>r. r \<in> set rows \<Longrightarrow> key r \<noteq> k \<Longrightarrow> col r \<noteq> v" "\<And>r. r \<in> set rows \<Longrightarrow> key r = k \<Longrightarrow> col (f r) = v"
  shows "distinct (map col (upd_row key k f rows))"
proof -
  let ?g = "\<lambda>r. if key r = k then f r else r"
  have "inj_on (col \<circ> ?g) (set rows)"
  proof (rule inj_onI)
    fix x y assume "x \<in> set rows" "y \<in> set rows" "(col \<circ> ?g) x = (col \<circ> ?g) y"
    then show "x = y" using assms(3,4) [of x] assms(3,4) [of y] assms(1,2)
      by (cases "key x = k"; cases "key y = k") (simp_all add: distinct_map inj_on_def)
  qed
  then show ?thesis using assms(1) by (simp add: upd_row_def distinct_map)
qed

lemma own_name: "triggers_ok db \<Longrightarrow> t \<in> set (db_triggers db) \<Longrightarrow> \<not> name_taken db (tg_id t) (tg_graph_id t) (tg_name t)"
  unfolding triggers_ok_def name_taken_def list_ex_iff by (auto simp: distinct_map inj_on_def)

lemma triggers_ok_upd:
  assumes ok: "triggers_ok db" and id: "\<And>x. tg_id (f x) = tg_id x"
    and row: "\<And>x. x \<in> set (db_triggers db) \<Longrightarrow> tg_id x = i \<Longrightarrow>
      trigger_row_ok (f x) \<and> tg_graph_id (f x) = g \<and> tg_name (f x) = n"
    and name: "\<not> name_taken db i g n"
  shows "triggers_ok (upd_trigger i f db)"
proof -
  have "map tg_id (upd_row tg_id i f (db_triggers db)) = map tg_id (db_triggers db)"
    by (rule upd_row_keys) (simp add: id)
  then have keys: "distinct (map tg_id (upd_row tg_id i f (db_triggers db)))"
    using ok by (simp add: triggers_ok_def)
  have names: "distinct (map (\<lambda>t. (tg_graph_id t, tg_name t)) (upd_row tg_id i f (db_triggers db)))"
    by (rule distinct_upd_row [where v = "(g, n)"])
      (use ok row name in \<open>auto simp: triggers_ok_def name_taken_def list_ex_iff\<close>)
  have "\<forall>t \<in> set (upd_row tg_id i f (db_triggers db)). trigger_row_ok t \<and> tg_id t < db_next db"
    using ok row id by (auto simp: triggers_ok_def upd_row_def)
  with keys names ok show ?thesis by (simp add: triggers_ok_def upd_trigger_def)
qed

lemma update_one_keeps:
  assumes ok: "triggers_ok db" and t: "find_trigger db i = Some t" and id: "\<And>x. tg_id (f x) = tg_id x"
    and row: "trigger_row_ok (f t)" "tg_graph_id (f t) = tg_graph_id t" "tg_name (f t) = tg_name t"
  shows "triggers_ok (upd_trigger i f db)"
proof -
  note f = triggers_ok_find [OF ok t]
  have "x = t" if "x \<in> set (db_triggers db)" "tg_id x = i" for x
    using f that ok by (auto simp: triggers_ok_def distinct_map inj_on_def)
  then show ?thesis using own_name [OF ok, of t] f row
    by (intro triggers_ok_upd [OF ok id, where g = "tg_graph_id t" and n = "tg_name t"]) auto
qed

lemma triggers_ok_same: "triggers_ok db \<Longrightarrow> db_triggers d = db_triggers db \<Longrightarrow> db_deliveries d = db_deliveries db \<Longrightarrow>
    db_next db \<le> db_next d \<Longrightarrow> triggers_ok d"
  by (fastforce simp: triggers_ok_def)


subsection \<open>Management\<close>

lemma validated_create:
  assumes "validate_trigger_create env request = Inr r"
  shows "text_field (tc_name r)" "rate_field (tc_rate_limit r)"
    "tc_type r = WEBHOOK \<Longrightarrow> tc_schedule_kind r = None \<and> tc_interval_seconds r = None \<and> tc_cron_expression r = None"
    "tc_type r \<noteq> WEBHOOK \<Longrightarrow> schedule_ok (tc_schedule_kind r) (tc_interval_seconds r) (tc_cron_expression r)"
  using assms
  by (auto simp: validate_trigger_create_def Let_def bind_res_Inr schedule_ok_validated split: if_splits prod.splits)

lemma triggers_ok_add:
  assumes ok: "triggers_ok db" and t: "trigger_row_ok t" "tg_id t = db_next db"
    and name: "\<not> name_taken db (db_next db) (tg_graph_id t) (tg_name t)"
  shows "triggers_ok (db\<lparr>db_triggers := db_triggers db @ [t], db_next := Suc (db_next db)\<rparr>)"
proof -
  have fresh: "tg_id x \<noteq> db_next db" if "x \<in> set (db_triggers db)" for x
    using ok that unfolding triggers_ok_def by fastforce
  have "(tg_graph_id x, tg_name x) \<noteq> (tg_graph_id t, tg_name t)" if x: "x \<in> set (db_triggers db)" for x
    using name fresh [OF x] x by (auto simp: name_taken_def list_ex_iff)
  then show ?thesis using ok t fresh by (fastforce simp: triggers_ok_def)
qed

lemma map_sum_Some: "map_sum id Some r = Inr x \<Longrightarrow> \<exists>y. x = Some y"
  by (cases r) auto

lemma create_keeps:
  assumes ok: "triggers_ok db"
  shows "triggers_ok (snd (create_graph_trigger env g u request secret now db))"
proof (cases "validate_trigger_create env request")
  case (Inr r)
  have "triggers_ok (snd (create_trigger env k o2 r secret now db))" for k o2
  proof -
    have row: "trigger_row_ok t \<and> tg_id t = db_next db \<and> tg_graph_id t = k \<and> \<not> name_taken db (db_next db) k (tg_name t)
        \<and> db' = db\<lparr>db_triggers := db_triggers db @ [t], db_next := Suc (db_next db)\<rparr>"
      if c: "create_trigger env k o2 r secret now db = (Inr (t, s), db')" for t s db'
    proof (cases "tc_type r = WEBHOOK")
      case True
      with c validated_create [OF Inr] show ?thesis
        by (auto simp: create_trigger_def Let_def trigger_row_ok_def split: option.splits if_splits)
    next
      case False
      with c validated_create [OF Inr] show ?thesis
        by (auto simp: create_trigger_def Let_def trigger_row_ok_def dest: map_sum_Some
            split: option.splits if_splits sum.splits)
    qed
    show ?thesis
    proof (cases "create_trigger env k o2 r secret now db")
      case (Pair a db')
      show ?thesis
      proof (cases a)
        case (Inl e)
        with Pair ok show ?thesis by (auto simp: create_trigger_def Let_def split: option.splits sum.splits if_splits)
      next
        case (Inr q)
        obtain t s where q: "q = (t, s)" by fastforce
        from row [of t s db'] Pair Inr q ok show ?thesis by (auto intro: triggers_ok_add)
      qed
    qed
  qed
  then show ?thesis using Inr ok
    by (simp add: create_graph_trigger_def split: option.split)
qed (use ok in \<open>simp add: create_graph_trigger_def\<close>)


lemma validated_update:
  assumes "validate_trigger_update env request = Inr r"
  shows "text_field (opt_or (tu_name r) ''n'')" "rate_field (opt_or (tu_rate_limit r) 1)"
  using assms
  by (auto simp: validate_trigger_update_def Let_def bind_res_Inr split: if_splits option.splits)

lemma patched_row:
  assumes row: "trigger_row_ok t" and v: "validate_trigger_update env request = Inr r"
    and p: "patched_trigger env t r now = Inr t'"
  shows "trigger_row_ok t' \<and> tg_id t' = tg_id t \<and> tg_graph_id t' = tg_graph_id t"
proof -
  have name: "text_field (opt_or (tu_name r) (tg_name t))" "rate_field (opt_or (tu_rate_limit r) (tg_rate_limit t))"
    using validated_update [OF v] row by (auto simp: opt_or_def trigger_row_ok_def split: option.splits)
  show ?thesis
  proof (cases "tg_type t = WEBHOOK")
    case True
    with p name row show ?thesis
      by (auto simp: patched_trigger_def patch_fields_def trigger_row_ok_def split: if_splits)
  next
    case False
    with p obtain k n e z where s: "patched_schedule env t r = Inr (k, n, e, z)"
      by (auto simp: patched_trigger_def bind_res_Inr)
    have "schedule_ok (Some k) n e" using s unfolding patched_schedule_def Let_def by (rule schedule_ok_validated)
    moreover define t1 where "t1 = (patch_fields r t)\<lparr>tg_schedule_kind := Some k, tg_interval_seconds := n,
        tg_cron_expression := e, tg_timezone := z\<rparr>"
    ultimately have t1: "schedule_ok (tg_schedule_kind t1) (tg_interval_seconds t1) (tg_cron_expression t1)"
        "text_field (tg_name t1)" "rate_field (tg_rate_limit t1)" "tg_type t1 \<noteq> WEBHOOK" "tg_webhook_secret t1 = None"
        "tg_id t1 = tg_id t" "tg_graph_id t1 = tg_graph_id t" "tg_next_run_at t1 = tg_next_run_at t"
        "tg_enabled t1 = opt_or (tu_enabled r) (tg_enabled t)"
      using name row False by (simp_all add: patch_fields_def trigger_row_ok_def)
    have "(t' = t1 \<and> tu_enabled r = None) \<or> (\<not> tg_enabled t1 \<and> t' = t1\<lparr>tg_next_run_at := None\<rparr>) \<or>
        (tg_enabled t1 \<and> (\<exists>m. t' = t1\<lparr>tg_next_run_at := Some m\<rparr>))"
      using p s False by (auto simp: patched_trigger_def Let_def bind_res_Inr t1_def [symmetric] split: if_splits)
    then show ?thesis
    proof (elim disjE conjE exE)
      assume "t' = t1" "tu_enabled r = None"
      with t1 row False show ?thesis by (simp add: trigger_row_ok_def opt_or_def)
    next
      assume "\<not> tg_enabled t1" "t' = t1\<lparr>tg_next_run_at := None\<rparr>"
      with t1 show ?thesis by (simp add: trigger_row_ok_def)
    next
      fix m assume "tg_enabled t1" "t' = t1\<lparr>tg_next_run_at := Some m\<rparr>"
      with t1 show ?thesis by (simp add: trigger_row_ok_def)
    qed
  qed
qed


lemma patch_keeps:
  assumes ok: "triggers_ok db"
  shows "triggers_ok (snd (patch_trigger env i u request now db))"
proof (cases "validate_trigger_update env request")
  case (Inr r)
  have "triggers_ok (snd (update_trigger env t r now db))" if t: "find_trigger db i = Some t" for t
  proof -
    have row: "trigger_row_ok t" using triggers_ok_find [OF ok t] by blast
    have step: "triggers_ok (upd_trigger (tg_id t) (\<lambda>_. t2) db)"
      if p: "patched_trigger env t1 r now = Inr t2" and t1: "t1 = t\<lparr>tg_version_id := tg_version_id t1\<rparr>"
        and name: "\<not> name_taken db (tg_id t) (tg_graph_id t) (tg_name t2)" for t1 t2
    proof -
      have "trigger_row_ok t1" "tg_id t1 = tg_id t" "tg_graph_id t1 = tg_graph_id t"
        using row by (subst t1, simp add: trigger_row_ok_def)+
      then have t2: "trigger_row_ok t2" "tg_id t2 = tg_id t" "tg_graph_id t2 = tg_graph_id t"
        using patched_row [OF _ Inr p] by auto
      have "upd_trigger (tg_id t) (\<lambda>_. t2) db = upd_trigger (tg_id t) (\<lambda>x. if tg_id x = tg_id t then t2 else x) db"
        by (simp add: upd_trigger_def upd_row_def cong: if_cong)
      also have "triggers_ok \<dots>"
        by (rule triggers_ok_upd [OF ok _ _ name]) (simp_all add: t2)
      finally show ?thesis .
    qed
    show ?thesis unfolding update_trigger_def
      by (auto split: option.split sum.split intro!: step simp: ok)
  qed
  then show ?thesis using Inr ok
    by (auto simp: patch_trigger_def trigger_or_404_def get_accessible_trigger_def split: option.split)
qed (use ok in \<open>simp add: patch_trigger_def\<close>)

lemma remove_keeps: "triggers_ok db \<Longrightarrow> triggers_ok (snd (remove_trigger i u db))"
  by (auto simp: remove_trigger_def delete_trigger_def triggers_ok_def distinct_map_filter split: sum.split)

lemma rotate_keeps:
  assumes ok: "triggers_ok db"
  shows "triggers_ok (snd (rotate_trigger_secret env i u secret db))"
proof -
  have "triggers_ok (snd (rotate_webhook_secret env t secret db))" if "find_trigger db i = Some t" for t
  proof -
    note t = triggers_ok_find [OF ok that]
    then show ?thesis using ok that
      by (auto simp: rotate_webhook_secret_def trigger_row_ok_def intro!: update_one_keeps [OF ok])
  qed
  then show ?thesis using ok
    by (auto simp: rotate_trigger_secret_def trigger_or_404_def get_accessible_trigger_def split: option.split)
qed


subsection \<open>Dispatch, webhooks and pruning\<close>

lemma next_of_create_run: "db_next db \<le> db_next (snd (create_run g u ty v job p now db))"
  by (simp add: create_run_eq Let_def add_run_def enqueue_run_job_def add_job_def upd_job_def create_base_def
      supersede_inactive_failed_runs_def split: option.split)

lemma create_run_keeps: "triggers_ok db \<Longrightarrow> triggers_ok (snd (create_run g u ty v job p now db))"
  by (erule triggers_ok_same) (simp_all add: next_of_create_run)

lemma dispatch_one_keeps_rows:
  assumes ok: "triggers_ok db" and t: "find_trigger db (tg_id t) = Some t" "due now t"
  shows "triggers_ok (snd (dispatch_one env now clock t db))"
proof -
  have "trigger_row_ok (t\<lparr>tg_last_run_at := a, tg_last_run_id := b, tg_next_run_at := Some n\<rparr>)" for a b n
    using triggers_ok_find [OF ok t(1)] t(2) by (auto simp: trigger_row_ok_def due_def split: option.splits)
  with t(1) show ?thesis using ok
    by (auto simp: dispatch_one_def Let_def case_prod_beta split: sum.split
        intro!: update_one_keeps [where t = t] create_run_keeps)
qed

lemma dispatch_all_keeps:
  assumes "triggers_ok db" "db_ok db" "distinct (map tg_id ts)"
    "\<And>t. t \<in> set ts \<Longrightarrow> find_trigger db (tg_id t) = Some t \<and> due now t"
  shows "triggers_ok (snd (dispatch_all env now clock ts db))"
  using assms
proof (induction ts arbitrary: db)
  case (Cons t ts)
  obtain k db1 where one: "dispatch_one env now clock t db = (k, db1)" by fastforce
  have t: "triggers_ok db1" using dispatch_one_keeps_rows [of db t now env clock] Cons.prems(1,4) one by simp
  have "find_trigger db1 (tg_id u) = Some u \<and> due now u" if u: "u \<in> set ts" for u
  proof -
    have "tg_id u \<noteq> tg_id t" using Cons.prems(3) imageI [OF u, of tg_id] by auto
    then show ?thesis using Cons.prems(4) [of u] u dispatch_one_keeps(2) [OF Cons.prems(2) one, of "tg_id u"] by simp
  qed
  from Cons.IH [OF t dispatch_one_keeps(1) [OF Cons.prems(2) one] _ this] Cons.prems(3) one
  show ?case by (simp add: Let_def case_prod_beta)
qed simp

lemma record_keeps:
  assumes ok: "triggers_ok db" and t: "find_trigger db (tg_id t) = Some t" and new: "\<not> already_delivered db (tg_id t) delivery"
  shows "triggers_ok (snd (record_delivery env t delivery body payload received db))"
proof -
  have row: "trigger_row_ok (t\<lparr>tg_last_run_at := a, tg_last_run_id := b\<rparr>)" for a b
    using triggers_ok_find [OF ok t] by (auto simp: trigger_row_ok_def)
  have "triggers_ok (d\<lparr>db_deliveries := db_deliveries d @ [\<lparr>wd_trigger_id = tg_id t, wd_delivery_id = delivery,
      wd_body_sha256 = h, wd_received_at = r, wd_run_id = w\<rparr>]\<rparr>)"
    if "triggers_ok d" "db_deliveries d = db_deliveries db" for d h r w
    using that new by (auto simp: triggers_ok_def already_delivered_def list_ex_iff)
  then have led: "triggers_ok ((snd (create_run g u ty v job p now db))\<lparr>db_deliveries := db_deliveries db @
      [\<lparr>wd_trigger_id = tg_id t, wd_delivery_id = delivery, wd_body_sha256 = h, wd_received_at = r, wd_run_id = w\<rparr>]\<rparr>)"
    for g u ty v job p now h r w
    using create_run_keeps [OF ok] by (metis triggers_of_create_run(2))
  have "find_trigger (d\<lparr>db_deliveries := x\<rparr>) i = find_trigger d i" for d x i by (simp add: find_trigger_def)
  with row t led show ?thesis
    by (simp add: record_delivery_def Let_def case_prod_beta update_one_keeps [where t = t])
qed

lemma receive_keeps:
  assumes ok: "triggers_ok db"
  shows "triggers_ok (snd (receive_webhook env cfg i r parsed_at received db))"
proof -
  obtain res db' where run: "receive_webhook env cfg i r parsed_at received db = (res, db')" by fastforce
  have "tg_id t = i" if "find_trigger db i = Some t" for t using triggers_ok_find [OF ok that] by simp
  with receive_cases [OF run] ok record_keeps [OF ok] show ?thesis by (auto simp: run) (metis snd_conv)
qed

lemma prune_keeps: "triggers_ok db \<Longrightarrow> triggers_ok (snd (prune_webhook_deliveries now hours db))"
  by (auto simp: prune_webhook_deliveries_def Let_def triggers_ok_def distinct_map_filter)

lemma ids_of_triggers: "triggers_ok db \<Longrightarrow> distinct (map tg_id (db_triggers db))"
  by (simp add: triggers_ok_def)



end
