(* ===== verification/SdkRest.thy ===== *)
theory SdkRest
  imports SdkPipeline IpAddress
begin

text \<open>
  The resumable REST source (SDK \<open>sources/rest.py\<close>): configuration, the checks of every URL, requests
  with retries, pages, primary keys and field types, checkpoints, and the reader. The functions of
  \<open>urllib.parse\<close>, the parser of \<open>Retry-After\<close> and the JSON printer are library functions, gathered in
  one record; the HTTP client is the sequence of its answers. Sets and dictionaries whose order the
  code cannot observe are kept sorted.
\<close>

subsection \<open>Library functions and the remote service\<close>

record url_parts =
  up_scheme :: string
  up_netloc :: string
  up_path :: string
  up_query :: string
  up_fragment :: string
  up_hostname :: "string option"
  up_username :: "string option"
  up_password :: "string option"
  up_port :: "int option option"

text \<open>\<open>urlsplit\<close> raises \<open>ValueError\<close> (no value); an invalid port raises it when it is read.\<close>

record rest_lib =
  rl_urlsplit :: "string \<Rightarrow> url_parts option"
  rl_urlunsplit :: "string \<times> string \<times> string \<times> string \<Rightarrow> string"
  rl_urljoin :: "string \<Rightarrow> string \<Rightarrow> string option"
  rl_parse_qsl :: "string \<Rightarrow> (string \<times> string) list"
  rl_urlencode :: "(string \<times> string) list \<Rightarrow> string"
  rl_unquote :: "string \<Rightarrow> string"
  rl_unquote_plus :: "string \<Rightarrow> string"
  rl_retry_seconds :: "string \<Rightarrow> time option"
  rl_dumps :: "json \<Rightarrow> string"
  rl_text :: pytext

abbreviation rl_sha :: "rest_lib \<Rightarrow> string \<Rightarrow> string" where
  "rl_sha L \<equiv> tx_sha (rl_text L)"

record http_response =
  hr_status :: int
  hr_headers :: "(string \<times> json) list option"
  hr_body :: "json option"

record http_request =
  hq_url :: string
  hq_headers :: "(string \<times> string) list"

text \<open>The client answers the n-th request with a response or raises; the secret provider may raise.\<close>

record rest_world =
  rw_web :: "nat \<Rightarrow> string \<Rightarrow> http_response option"
  rw_secret :: "nat \<Rightarrow> string option"
  rw_sent :: "string list"
  rw_log :: "http_request list"
  rw_sleeps :: "time list"

subsection \<open>Configuration\<close>

datatype auth_type = AuthNone | AuthBearer | AuthApiKey
datatype pagination = PageNone | PageCursor | PageLink

record rest_source =
  rs_base_url :: string
  rs_path :: string
  rs_stream :: string
  rs_records_path :: "string list"
  rs_primary_key :: "string list"
  rs_pagination :: pagination
  rs_next_cursor_path :: "string list"
  rs_cursor_param :: string
  rs_query_params :: obj
  rs_auth :: auth_type
  rs_has_secret :: bool
  rs_api_key_header :: string
  rs_allow_http :: bool
  rs_cross_origin_next :: bool
  rs_max_pages :: nat
  rs_max_records :: nat
  rs_max_retries :: nat
  rs_endpoint_url :: string
  rs_fingerprint :: string

definition max_completed_hashes :: int where
  "max_completed_hashes = 100000"

definition sensitive_components :: "string list" where
  "sensitive_components = [''apikey'', ''auth'', ''authorization'', ''credential'', ''key'', ''password'', ''secret'',
     ''signature'', ''sig'', ''token'']"

definition sensitive_suffixes :: "string list" where
  "sensitive_suffixes = [''apikey'', ''credential'', ''password'', ''secret'', ''signature'', ''token'']"

definition url_control_char :: "char \<Rightarrow> bool" where
  "url_control_char c \<longleftrightarrow> (of_char c :: nat) < 32"

definition ascii_lower :: "char \<Rightarrow> bool" where
  "ascii_lower c \<longleftrightarrow> 97 \<le> (of_char c :: nat) \<and> (of_char c :: nat) \<le> 122"

definition ascii_alnum :: "char \<Rightarrow> bool" where
  "ascii_alnum c \<longleftrightarrow> ascii_lower c \<or> ascii_upper c \<or> is_digit c"

definition is_loopback_host :: "string \<Rightarrow> bool" where
  "is_loopback_host host \<longleftrightarrow> py_lower host = ''localhost'' \<or>
     (case ip_address host of None \<Rightarrow> False | Some a \<Rightarrow> is_loopback a)"

definition strip_slashes_right :: "string \<Rightarrow> string" where
  "strip_slashes_right s = rev (dropWhile (\<lambda>c. c = CHR ''/'') (rev s))"

definition strip_slashes_left :: "string \<Rightarrow> string" where
  "strip_slashes_left s = dropWhile (\<lambda>c. c = CHR ''/'') s"

definition validate_base_url :: "rest_lib \<Rightarrow> bool \<Rightarrow> string \<Rightarrow> sdk_error + string" where
  "validate_base_url L allow_http v =
     (if strip v = [] \<or> list_ex url_control_char v then Inl (ConfigurationError ''REST base_url must be a non-empty URL'')
      else case rl_urlsplit L (strip v) of
        None \<Rightarrow> Inl (ValueError ''Invalid IPv6 URL'')
      | Some u \<Rightarrow>
          if up_scheme u \<notin> {''https'', ''http''} \<or> opt_or (up_hostname u) [] = []
          then Inl (ConfigurationError ''REST base_url must be an absolute HTTPS URL'')
          else if up_username u \<noteq> None \<or> up_password u \<noteq> None
          then Inl (ConfigurationError ''REST base_url must not contain credentials'')
          else if up_query u \<noteq> [] \<or> up_fragment u \<noteq> []
          then Inl (ConfigurationError ''REST base_url must not contain a query string or fragment'')
          else case up_port u of
            None \<Rightarrow> Inl (ConfigurationError ''REST base_url contains an invalid port'')
          | Some port \<Rightarrow>
              if up_scheme u = ''http'' \<and> (\<not> allow_http \<or> \<not> is_loopback_host (opt_or (up_hostname u) []))
              then Inl (ConfigurationError ''Plain HTTP is allowed only for loopback hosts with allow_http=True'')
              else (let host = py_lower (opt_or (up_hostname u) []);
                        shown = (if CHR '':'' \<in> set host then ''['' @ host @ '']'' else host);
                        suffix = (case port of None \<Rightarrow> [] | Some n \<Rightarrow> CHR '':'' # int_str n)
                    in Inr (rl_urlunsplit L (py_lower (up_scheme u), shown @ suffix, strip_slashes_right (up_path u), []))))"

definition validate_path :: "rest_lib \<Rightarrow> string \<Rightarrow> sdk_error + string" where
  "validate_path L v =
     (if strip v = [] then Inl (ConfigurationError ''REST path must be a non-empty relative or absolute path'')
      else if list_ex url_control_char v \<or> CHR 0x5C \<in> set v then Inl (ConfigurationError ''REST path contains unsafe characters'')
      else case rl_urlsplit L (strip v) of
        None \<Rightarrow> Inl (ValueError ''Invalid IPv6 URL'')
      | Some u \<Rightarrow>
          if up_scheme u \<noteq> [] \<or> up_netloc u \<noteq> [] \<or> up_query u \<noteq> [] \<or> up_fragment u \<noteq> []
          then Inl (ConfigurationError ''REST path must not contain an origin, query string, or fragment'')
          else if take 2 (up_path u) = ''//'' then Inl (ConfigurationError ''REST path must not be a network-path reference'')
          else if list_ex (\<lambda>s. rl_unquote L s = ''.'' \<or> rl_unquote L s = ''..'') (split_on CHR ''/'' (up_path u))
          then Inl (ConfigurationError ''REST path must not contain traversal segments'')
          else Inr (CHR ''/'' # strip_slashes_left (up_path u)))"

text \<open>A path option is a dotted string or an array.\<close>

definition check_data_path :: "json list \<Rightarrow> string \<Rightarrow> sdk_error + string list" where
  "check_data_path pieces field =
     (if list_ex (\<lambda>p. case p of JStr s \<Rightarrow> s = [] \<or> CHR ''.'' \<in> set s \<or> list_ex url_control_char s | _ \<Rightarrow> True) pieces
      then Inl (ConfigurationError (''REST '' @ field @ '' contains an invalid path component''))
      else Inr (map (\<lambda>p. case p of JStr s \<Rightarrow> s | _ \<Rightarrow> []) pieces))"

definition normalize_data_path :: "json \<Rightarrow> string \<Rightarrow> sdk_error + string list" where
  "normalize_data_path v field =
     (case v of
        JStr s \<Rightarrow> check_data_path (if s = [] then [] else map JStr (split_on CHR ''.'' s)) field
      | JList xs \<Rightarrow> check_data_path xs field
      | _ \<Rightarrow> Inl (ConfigurationError (''REST '' @ field @ '' must be a dotted string or string array'')))"

definition normalize_key_field :: "json \<Rightarrow> sdk_error + string" where
  "normalize_key_field item =
     (case item of
        JStr s \<Rightarrow> bind_res (normalize_data_path (JStr s) ''primary_key'') (\<lambda>path.
          if path = [] then Inl (ConfigurationError ''REST primary_key fields must not be empty'')
          else Inr (join_on CHR ''.'' path))
      | _ \<Rightarrow> Inl (ConfigurationError ''REST primary_key must contain only strings''))"

definition normalize_primary_key :: "json \<Rightarrow> sdk_error + string list" where
  "normalize_primary_key v =
     (case v of
        JList xs \<Rightarrow>
          if xs = [] then Inl (ConfigurationError ''REST primary_key must be a non-empty string array'')
          else bind_res (map_res normalize_key_field xs) (\<lambda>fields.
            if distinct fields then Inr fields
            else Inl (ConfigurationError ''REST primary_key must not contain duplicate fields''))
      | _ \<Rightarrow> Inl (ConfigurationError ''REST primary_key must be a non-empty string array''))"

definition parameter_name :: "string \<Rightarrow> bool" where
  "parameter_name s \<longleftrightarrow> s \<noteq> [] \<and> (ascii_lower (hd s) \<or> ascii_upper (hd s) \<or> hd s = CHR ''_'') \<and>
     list_all (\<lambda>c. ascii_alnum c \<or> c \<in> {CHR ''_'', CHR ''.'', CHR ''-''}) (tl s)"

definition validate_parameter_name :: "string \<Rightarrow> string \<Rightarrow> sdk_error + string" where
  "validate_parameter_name v field =
     (if parameter_name v then Inr v
      else Inl (ConfigurationError (''REST '' @ field @ '' is not a safe query parameter name'')))"

subsection \<open>Names that look like credentials\<close>

text \<open>An underscore goes between a lower-case letter or digit and an upper-case letter.\<close>

fun camel_split :: "string \<Rightarrow> string" where
  "camel_split (a # b # cs) =
     (if (ascii_lower a \<or> is_digit a) \<and> ascii_upper b then a # CHR ''_'' # camel_split (b # cs)
      else a # camel_split (b # cs))"
| "camel_split cs = cs"

fun alnum_words :: "string \<Rightarrow> string \<Rightarrow> string list" where
  "alnum_words [] word = (if word = [] then [] else [word])"
| "alnum_words (c # cs) word =
     (if ascii_alnum c then alnum_words cs (word @ [c])
      else if word = [] then alnum_words cs [] else word # alnum_words cs [])"

definition query_name_components :: "string \<Rightarrow> string list \<times> string" where
  "query_name_components v =
     (let ws = alnum_words (py_lower (camel_split v)) [] in (ws, concat ws))"

definition pagination_token_patterns :: "string list list" where
  "pagination_token_patterns =
     [[''after'', ''token''], [''before'', ''token''], [''continuation'', ''token''], [''cursor'', ''token''],
      [''next'', ''page'', ''token''], [''next'', ''token''], [''page'', ''token''], [''pagination'', ''token'']]"

definition is_pagination_token_query_name :: "string \<Rightarrow> bool" where
  "is_pagination_token_query_name v =
     (let (ws, collapsed) = query_name_components v
      in ws \<in> set pagination_token_patterns \<or> collapsed \<in> concat ` set pagination_token_patterns)"

definition ends_with :: "string \<Rightarrow> string \<Rightarrow> bool" where
  "ends_with s suffix \<longleftrightarrow> length suffix \<le> length s \<and> drop (length s - length suffix) s = suffix"

definition is_sensitive_query_name :: "string \<Rightarrow> bool" where
  "is_sensitive_query_name v =
     (let (ws, collapsed) = query_name_components v
      in list_ex (\<lambda>w. w \<in> set sensitive_components) ws \<or> collapsed \<in> set sensitive_components \<or>
         list_ex (\<lambda>s. length s < length collapsed \<and> ends_with collapsed s) sensitive_suffixes)"

definition nonfinite :: "64 word \<Rightarrow> bool" where
  "nonfinite w \<longleftrightarrow> take_bit 11 (drop_bit 52 w) = 2047"

definition is_json_scalar :: "json \<Rightarrow> bool" where
  "is_json_scalar v = (case v of JFloat w \<Rightarrow> \<not> nonfinite w | JList _ \<Rightarrow> False | JObj _ \<Rightarrow> False | _ \<Rightarrow> True)"

fun validate_query_params :: "(string \<times> json) list \<Rightarrow> string \<Rightarrow> sdk_error + obj" where
  "validate_query_params [] cursor = Inr []"
| "validate_query_params ((key, v) # kvs) cursor =
     bind_res (validate_parameter_name key ''query_params key'') (\<lambda>k.
       if is_sensitive_query_name k
       then Inl (ConfigurationError ''REST authentication credentials must use SecretRef-backed headers, not URLs'')
       else if k = cursor then Inl (ConfigurationError ''REST query_params must not preconfigure cursor_param'')
       else if \<not> is_json_scalar v then Inl (ConfigurationError ''REST query_params values must be JSON scalars'')
       else bind_res (validate_query_params kvs cursor) (\<lambda>rest. Inr ((k, v) # rest)))"

definition query_value :: "rest_lib \<Rightarrow> json \<Rightarrow> string" where
  "query_value L v = (case v of JNull \<Rightarrow> [] | JBool b \<Rightarrow> (if b then ''true'' else ''false'')
     | _ \<Rightarrow> py_str (tx_repr (rl_text L)) v)"

text \<open>These split URLs that have been split before.\<close>

definition append_query :: "rest_lib \<Rightarrow> string \<Rightarrow> obj \<Rightarrow> string" where
  "append_query L url values =
     (if values = [] then url
      else case rl_urlsplit L url of
        None \<Rightarrow> []
      | Some u \<Rightarrow> rl_urlunsplit L (up_scheme u, up_netloc u, up_path u,
          rl_urlencode L (map (\<lambda>(k, v). (k, query_value L v)) values)))"

definition replace_query_parameter :: "rest_lib \<Rightarrow> string \<Rightarrow> string \<Rightarrow> json \<Rightarrow> string" where
  "replace_query_parameter L url name v =
     (case rl_urlsplit L url of
        None \<Rightarrow> []
      | Some u \<Rightarrow> rl_urlunsplit L (up_scheme u, up_netloc u, up_path u,
          rl_urlencode L (filter (\<lambda>p. fst p \<noteq> name) (rl_parse_qsl L (up_query u)) @ [(name, query_value L v)])))"

subsection \<open>Checks of a request URL\<close>

definition origin :: "rest_lib \<Rightarrow> string \<Rightarrow> sdk_error + (string \<times> string \<times> int option)" where
  "origin L url =
     (case rl_urlsplit L url of
        None \<Rightarrow> Inl (ValueError ''Invalid IPv6 URL'')
      | Some u \<Rightarrow> (case up_port u of
          None \<Rightarrow> Inl (ProtocolError ''REST URL contains an invalid port'')
        | Some port \<Rightarrow>
            let scheme = py_lower (up_scheme u)
            in Inr (scheme, py_lower (opt_or (up_hostname u) []),
                 case port of Some n \<Rightarrow> Some n
                 | None \<Rightarrow> if scheme = ''https'' then Some 443 else if scheme = ''http'' then Some 80 else None)))"

definition same_origin :: "rest_lib \<Rightarrow> string \<Rightarrow> string \<Rightarrow> sdk_error + bool" where
  "same_origin L a b = bind_res (origin L a) (\<lambda>x. bind_res (origin L b) (\<lambda>y. Inr (x = y)))"

definition allowed_query_name :: "rest_source \<Rightarrow> string \<Rightarrow> bool" where
  "allowed_query_name src key \<longleftrightarrow>
     (rs_pagination src = PageCursor \<and> py_lower key = py_lower (rs_cursor_param src)) \<or>
     (rs_pagination src = PageLink \<and> is_pagination_token_query_name key)"

definition validate_request_url :: "rest_lib \<Rightarrow> rest_source \<Rightarrow> string \<Rightarrow> sdk_error + string" where
  "validate_request_url L src v =
     (if list_ex url_control_char v then Inl (ProtocolError ''REST pagination produced an invalid next URL'')
      else case rl_urlsplit L v of
        None \<Rightarrow> Inl (ValueError ''Invalid IPv6 URL'')
      | Some u \<Rightarrow>
          if up_scheme u \<notin> {''https'', ''http''} \<or> opt_or (up_hostname u) [] = []
          then Inl (ProtocolError ''REST pagination next URL must be absolute HTTP(S)'')
          else if up_username u \<noteq> None \<or> up_password u \<noteq> None
          then Inl (ProtocolError ''REST pagination next URL must not contain credentials'')
          else if up_fragment u \<noteq> [] then Inl (ProtocolError ''REST pagination next URL must not contain a fragment'')
          else if up_scheme u = ''http'' \<and> (\<not> rs_allow_http src \<or> \<not> is_loopback_host (opt_or (up_hostname u) []))
          then Inl (ProtocolError ''REST pagination attempted an unsafe plain-HTTP request'')
          else bind_res (if rs_cross_origin_next src then Inr True else same_origin L v (rs_base_url src)) (\<lambda>same.
            if \<not> same then Inl (ProtocolError ''REST pagination attempted a cross-origin next link'')
            else if list_ex (\<lambda>(key, _). is_sensitive_query_name key \<and> \<not> allowed_query_name src key)
                (rl_parse_qsl L (up_query u))
            then Inl (ProtocolError ''REST pagination next URL appears to contain credentials'')
            else Inr v))"

text \<open>A credential is searched through up to eight nested decodings; deeper nesting counts as found.\<close>

definition occurs_in :: "string \<Rightarrow> string \<Rightarrow> bool" where
  "occurs_in needle s \<longleftrightarrow> list_ex (\<lambda>i. take (length needle) (drop i s) = needle) [0..<Suc (length s)]"

fun decoded_contains :: "(string \<Rightarrow> string) \<Rightarrow> nat \<Rightarrow> string \<Rightarrow> string \<Rightarrow> bool" where
  "decoded_contains decode 0 s needle = True"
| "decoded_contains decode (Suc n) s needle =
     (if occurs_in needle s then True
      else if decode s = s then False else decoded_contains decode n (decode s) needle)"

definition decoded_component_contains :: "rest_lib \<Rightarrow> bool \<Rightarrow> string \<Rightarrow> string \<Rightarrow> bool" where
  "decoded_component_contains L form s needle =
     decoded_contains (if form then rl_unquote_plus L else rl_unquote L) 8 s needle"

definition reject_credential_url :: "rest_lib \<Rightarrow> string list \<Rightarrow> string \<Rightarrow> sdk_error + unit" where
  "reject_credential_url L sent url =
     (case rl_urlsplit L url of
        None \<Rightarrow> Inl (ValueError ''Invalid IPv6 URL'')
      | Some u \<Rightarrow>
          if list_ex (\<lambda>c. decoded_component_contains L False (up_netloc u) c \<or> decoded_component_contains L False (up_path u) c \<or>
              decoded_component_contains L True (up_query u) c \<or> decoded_component_contains L False (up_fragment u) c) sent
          then Inl (ProtocolError ''REST request URL must not contain the authentication secret'') else Inr ())"

subsection \<open>Requests\<close>

definition header_value :: "http_response \<Rightarrow> string \<Rightarrow> sdk_error + json" where
  "header_value r name =
     (case hr_headers r of
        None \<Rightarrow> Inl (ProtocolError ''REST response headers are malformed'')
      | Some hs \<Rightarrow> Inr (case find (\<lambda>(k, _). py_lower k = py_lower name) hs of None \<Rightarrow> JNull | Some (_, v) \<Rightarrow> v))"

definition retry_after :: "rest_lib \<Rightarrow> json \<Rightarrow> time option" where
  "retry_after L v =
     (case v of
        JStr s \<Rightarrow> if strip s = [] then None
                  else map_option (\<lambda>t. min (max t 0) (seconds 300)) (rl_retry_seconds L s)
      | _ \<Rightarrow> None)"

definition backoff :: "nat \<Rightarrow> time" where
  "backoff attempt = min (seconds (2 ^ attempt)) (seconds 30)"

definition resolve_credential :: "rest_source \<Rightarrow> string option \<Rightarrow> sdk_error + string" where
  "resolve_credential src answer =
     (if \<not> rs_has_secret src then Inl (ConfigurationError ''REST authentication secret is not configured'')
      else case answer of
        None \<Rightarrow> Inl (ConfigurationError ''REST authentication secret could not be resolved'')
      | Some c \<Rightarrow>
          if c = [] \<or> CHR 0x0D \<in> set c \<or> CHR 0x0A \<in> set c
          then Inl (ConfigurationError ''REST authentication secret is empty or invalid'') else Inr c)"

definition auth_headers :: "rest_source \<Rightarrow> string option \<Rightarrow> (string \<times> string) list" where
  "auth_headers src credential =
     (case credential of
        None \<Rightarrow> []
      | Some c \<Rightarrow> if rs_auth src = AuthBearer then [(''Authorization'', ''Bearer '' @ c)]
                  else [(rs_api_key_header src, c)])"

text \<open>The credential of one attempt: remembered, and none for another origin.\<close>

definition attempt_credential :: "rest_source \<Rightarrow> bool \<Rightarrow> rest_world \<Rightarrow> sdk_error + (string option \<times> rest_world)" where
  "attempt_credential src cross w =
     (if rs_auth src = AuthNone \<or> cross then Inr (None, w)
      else bind_res (resolve_credential src (rw_secret w (length (rw_log w)))) (\<lambda>c.
        Inr (Some c, w\<lparr>rw_sent := List.insert c (rw_sent w)\<rparr>)))"

definition send :: "string \<Rightarrow> (string \<times> string) list \<Rightarrow> rest_world \<Rightarrow> http_response option \<times> rest_world" where
  "send url headers w =
     (rw_web w (length (rw_log w)) url, w\<lparr>rw_log := rw_log w @ [\<lparr>hq_url = url, hq_headers = headers\<rparr>]\<rparr>)"

definition status_error :: "int \<Rightarrow> sdk_error option" where
  "status_error status =
     (if status = 401 then Some (AuthenticationError ''REST credentials were rejected'')
      else if status = 403 then Some (PermissionDeniedError ''REST credentials lack endpoint permission'')
      else if status = 429 \<or> (500 \<le> status \<and> status < 600) then None
      else if 400 \<le> status \<or> (300 \<le> status \<and> status < 400)
      then Some (ConfigurationError (''REST endpoint returned HTTP '' @ int_str status))
      else None)"

definition retryable :: "int \<Rightarrow> bool" where
  "retryable status \<longleftrightarrow> status = 429 \<or> (500 \<le> status \<and> status < 600)"

definition budget_exhausted :: "int \<Rightarrow> sdk_error" where
  "budget_exhausted status =
     (if status = 429 then RateLimitError ''REST rate-limit retry budget was exhausted''
      else ProtocolError ''REST server error retry budget was exhausted'')"

text \<open>The attempts that are left after \<open>attempt\<close> ones; the last failing one raises.\<close>

fun request_from ::
  "rest_lib \<Rightarrow> rest_source \<Rightarrow> bool \<Rightarrow> string \<Rightarrow> nat \<Rightarrow> nat \<Rightarrow> rest_world \<Rightarrow> (sdk_error + http_response) \<times> rest_world" where
  "request_from L src cross url attempt 0 w = (Inl (ProtocolError ''REST retry loop ended unexpectedly''), w)"
| "request_from L src cross url attempt (Suc left) w =
     (case attempt_credential src cross w of
        Inl e \<Rightarrow> (Inl e, w)
      | Inr (credential, w1) \<Rightarrow>
          (case reject_credential_url L (rw_sent w1) url of
             Inl e \<Rightarrow> (Inl e, w1)
           | Inr _ \<Rightarrow>
               (case send url (auth_headers src credential) w1 of
                  (None, w2) \<Rightarrow> (Inl (ConfigurationError ''REST request failed before receiving a response''), w2)
                | (Some r, w2) \<Rightarrow>
                    (case status_error (hr_status r) of
                       Some e \<Rightarrow> (Inl e, w2)
                     | None \<Rightarrow>
                         if \<not> retryable (hr_status r) then (Inr r, w2)
                         else if left = 0 then (Inl (budget_exhausted (hr_status r)), w2)
                         else (case header_value r ''Retry-After'' of
                             Inl e \<Rightarrow> (Inl e, w2)
                           | Inr h \<Rightarrow> request_from L src cross url (Suc attempt) left
                               (w2\<lparr>rw_sleeps := rw_sleeps w2 @ [opt_or (retry_after L h) (backoff attempt)]\<rparr>))))))"

definition rest_request :: "rest_lib \<Rightarrow> rest_source \<Rightarrow> string \<Rightarrow> rest_world \<Rightarrow> (sdk_error + http_response) \<times> rest_world" where
  "rest_request L src url w =
     (case bind_res (validate_request_url L src url) (\<lambda>_. same_origin L url (rs_base_url src)) of
        Inl e \<Rightarrow> (Inl e, w)
      | Inr same \<Rightarrow> request_from L src (\<not> same) url 0 (Suc (rs_max_retries src)) w)"

subsection \<open>Links\<close>

record link_scan =
  lk_entries :: "string list"
  lk_word :: string
  lk_angle :: bool
  lk_quote :: bool
  lk_escaped :: bool

definition link_step :: "char \<Rightarrow> link_scan \<Rightarrow> link_scan" where
  "link_step c s =
     (if lk_escaped s then s\<lparr>lk_escaped := False, lk_word := lk_word s @ [c]\<rparr>
      else if c = CHR 0x5C \<and> lk_quote s then s\<lparr>lk_escaped := True, lk_word := lk_word s @ [c]\<rparr>
      else if c = CHR 0x22 then s\<lparr>lk_quote := \<not> lk_quote s, lk_word := lk_word s @ [c]\<rparr>
      else if c = CHR ''<'' \<and> \<not> lk_quote s then s\<lparr>lk_angle := True, lk_word := lk_word s @ [c]\<rparr>
      else if c = CHR ''>'' \<and> \<not> lk_quote s then s\<lparr>lk_angle := False, lk_word := lk_word s @ [c]\<rparr>
      else if c = CHR '','' \<and> \<not> lk_angle s \<and> \<not> lk_quote s
      then s\<lparr>lk_entries := lk_entries s @ [strip (lk_word s)], lk_word := []\<rparr>
      else s\<lparr>lk_word := lk_word s @ [c]\<rparr>)"

definition split_link_header :: "string \<Rightarrow> sdk_error + string list" where
  "split_link_header v =
     (let s = fold link_step v \<lparr>lk_entries = [], lk_word = [], lk_angle = False, lk_quote = False, lk_escaped = False\<rparr>;
          entries = lk_entries s @ [strip (lk_word s)]
      in if lk_angle s \<or> lk_quote s \<or> [] \<in> set entries then Inl (ProtocolError ''REST Link header is malformed'')
         else Inr entries)"

definition strip_quotes :: "string \<Rightarrow> string" where
  "strip_quotes s = rev (dropWhile (\<lambda>c. c = CHR 0x22) (rev (dropWhile (\<lambda>c. c = CHR 0x22) s)))"

fun link_relations :: "string list \<Rightarrow> sdk_error + string list" where
  "link_relations [] = Inr []"
| "link_relations (p # ps) =
     (if strip p = [] then link_relations ps
      else if CHR ''='' \<notin> set p then Inl (ProtocolError ''REST Link header parameter is malformed'')
      else let name = takeWhile (\<lambda>c. c \<noteq> CHR ''='') p; raw = tl (dropWhile (\<lambda>c. c \<noteq> CHR ''='') p)
        in bind_res (link_relations ps) (\<lambda>rest.
          Inr ((if py_lower (strip name) = ''rel'' then space_words (py_lower (strip_quotes (strip raw))) [] else []) @ rest)))"

text \<open>\<open>\s*<([^>]*)>(.*)$\<close>\<close>

definition link_entry :: "string \<Rightarrow> sdk_error + (string \<times> string list)" where
  "link_entry entry =
     (let e = lstrip entry; inner = tl e; target = takeWhile (\<lambda>c. c \<noteq> CHR ''>'') inner;
          after = dropWhile (\<lambda>c. c \<noteq> CHR ''>'') inner
      in if e = [] \<or> hd e \<noteq> CHR ''<'' \<or> after = [] \<or> CHR 0x0A \<in> set (tl after)
         then Inl (ProtocolError ''REST Link header is malformed'')
         else bind_res (link_relations (split_on CHR '';'' (tl after))) (\<lambda>rels. Inr (target, rels)))"

definition parse_next_link :: "json \<Rightarrow> sdk_error + string option" where
  "parse_next_link v =
     (case v of
        JNull \<Rightarrow> Inr None
      | JStr s \<Rightarrow> bind_res (split_link_header s) (\<lambda>entries.
          bind_res (map_res link_entry entries) (\<lambda>links.
            let matches = map fst (filter (\<lambda>(_, rels). ''next'' \<in> set rels) links)
            in if 1 < length matches then Inl (ProtocolError ''REST Link header contains multiple rel=next targets'')
               else Inr (case matches of [] \<Rightarrow> None | m # _ \<Rightarrow> Some m)))
      | _ \<Rightarrow> Inl (ProtocolError ''REST Link header must be a string''))"

subsection \<open>Pages\<close>

record rest_page =
  pg_records :: "obj list"
  pg_next :: "string option"
  pg_fingerprint :: string

fun extract_path :: "json \<Rightarrow> string list \<Rightarrow> json option" where
  "extract_path v [] = Some v"
| "extract_path v (c # cs) =
     (case v of JObj d \<Rightarrow> (case dict_get d c of None \<Rightarrow> None | Some x \<Rightarrow> extract_path x cs) | _ \<Rightarrow> None)"

definition extract_required :: "json \<Rightarrow> string list \<Rightarrow> string \<Rightarrow> sdk_error + json" where
  "extract_required v path label =
     (case extract_path v path of
        None \<Rightarrow> Inl (ProtocolError (''REST '' @ label @ '' path '' @
          py_quote (if path = [] then ''<root>'' else join_on CHR ''.'' path) @ '' is missing from the response''))
      | Some x \<Rightarrow> Inr x)"

definition extract_optional :: "json \<Rightarrow> string list \<Rightarrow> json" where
  "extract_optional v path = opt_or (extract_path v path) JNull"

fun all_finite :: "json \<Rightarrow> bool" where
  "all_finite (JFloat w) = (\<not> nonfinite w)"
| "all_finite (JList xs) = list_all all_finite xs"
| "all_finite (JObj d) = list_all (\<lambda>(k, v). all_finite v) d"
| "all_finite v = True"

definition page_fingerprint :: "rest_lib \<Rightarrow> obj list \<Rightarrow> string option \<Rightarrow> sdk_error + string" where
  "page_fingerprint L records next_url =
     (let v = JObj [(''records'', JList (map JObj records)), (''next_url'', opt_text next_url)]
      in if all_finite v then Inr (rl_sha L (rl_dumps L (sorted_json v)))
         else Inl (ProtocolError ''REST response contains values that are not valid JSON''))"

definition page_records :: "rest_source \<Rightarrow> json \<Rightarrow> sdk_error + obj list" where
  "page_records src payload =
     bind_res (extract_required payload (rs_records_path src) ''records_path'') (\<lambda>x. case x of
       JList items \<Rightarrow>
         if list_all is_obj items then Inr (map (\<lambda>i. case i of JObj d \<Rightarrow> d | _ \<Rightarrow> []) items)
         else Inl (ProtocolError ''REST records array must contain only JSON objects'')
     | _ \<Rightarrow> Inl (ProtocolError ''REST records_path must resolve to a JSON array''))"

definition next_target :: "rest_lib \<Rightarrow> rest_source \<Rightarrow> string \<Rightarrow> http_response \<Rightarrow> json \<Rightarrow> sdk_error + string option" where
  "next_target L src url r payload =
     (case rs_pagination src of
        PageNone \<Rightarrow> Inr None
      | PageCursor \<Rightarrow>
          (let cursor = extract_optional payload (rs_next_cursor_path src)
           in if cursor = JNull \<or> cursor = JStr [] then Inr None
              else if \<not> is_json_scalar cursor then Inl (ProtocolError ''REST next cursor must be a JSON scalar'')
              else Inr (Some (replace_query_parameter L (rs_endpoint_url src) (rs_cursor_param src) cursor)))
      | PageLink \<Rightarrow>
          bind_res (header_value r ''Link'') (\<lambda>h. bind_res (parse_next_link h) (\<lambda>target. case target of
             None \<Rightarrow> Inr None
           | Some t \<Rightarrow> (case rl_urljoin L url t of
                 None \<Rightarrow> Inl (ValueError ''Invalid IPv6 URL'') | Some u \<Rightarrow> Inr (Some u)))))"

definition checked_next :: "rest_lib \<Rightarrow> rest_source \<Rightarrow> string list \<Rightarrow> string option \<Rightarrow> sdk_error + string option" where
  "checked_next L src sent target =
     (case target of
        None \<Rightarrow> Inr None
      | Some u \<Rightarrow> bind_res (validate_request_url L src u) (\<lambda>v.
          bind_res (reject_credential_url L sent v) (\<lambda>_. Inr (Some v))))"

definition response_page :: "rest_lib \<Rightarrow> rest_source \<Rightarrow> string \<Rightarrow> string list \<Rightarrow> http_response \<Rightarrow> sdk_error + rest_page" where
  "response_page L src url sent r =
     (case hr_body r of
        None \<Rightarrow> Inl (ProtocolError ''REST endpoint returned malformed JSON'')
      | Some payload \<Rightarrow>
          bind_res (page_records src payload) (\<lambda>records.
          bind_res (bind_res (next_target L src url r payload) (checked_next L src sent)) (\<lambda>next_url.
          bind_res (page_fingerprint L records next_url) (\<lambda>fp.
            Inr \<lparr>pg_records = records, pg_next = next_url, pg_fingerprint = fp\<rparr>))))"

definition fetch_page :: "rest_lib \<Rightarrow> rest_source \<Rightarrow> string \<Rightarrow> rest_world \<Rightarrow> (sdk_error + rest_page) \<times> rest_world" where
  "fetch_page L src url w =
     (case rest_request L src url w of
        (Inl e, w1) \<Rightarrow> (Inl e, w1)
      | (Inr r, w1) \<Rightarrow> (response_page L src url (rw_sent w1) r, w1))"

subsection \<open>Identities\<close>

definition scalar_type :: "json \<Rightarrow> string" where
  "scalar_type v = (case v of JNull \<Rightarrow> ''null'' | JBool _ \<Rightarrow> ''boolean'' | JInt _ \<Rightarrow> ''integer'' | JFloat _ \<Rightarrow> ''number''
     | _ \<Rightarrow> ''string'')"

definition canonical_identity :: "rest_lib \<Rightarrow> json list \<Rightarrow> string" where
  "canonical_identity L vs =
     rl_dumps L (JList (map (\<lambda>v. JObj [(''type'', JStr (scalar_type v)), (''value'', v)]) vs))"

definition key_value :: "json \<Rightarrow> string \<Rightarrow> sdk_error + json" where
  "key_value record_value field =
     bind_res (extract_required record_value (split_on CHR ''.'' field) (''primary key '' @ py_quote field)) (\<lambda>v.
       if v = JNull \<or> \<not> is_json_scalar v
       then Inl (ProtocolError (''REST primary key field '' @ py_quote field @ '' must be a non-null JSON scalar''))
       else Inr v)"

definition record_identity :: "rest_source \<Rightarrow> obj \<Rightarrow> sdk_error + json list" where
  "record_identity src r = map_res (key_value (JObj r)) (rs_primary_key src)"

fun page_identities ::
  "rest_lib \<Rightarrow> rest_source \<Rightarrow> obj list \<Rightarrow> string list option \<Rightarrow> string list \<Rightarrow> sdk_error + (json list list \<times> string list option)" where
  "page_identities L src [] types seen = Inr ([], types)"
| "page_identities L src (r # rs) types seen =
     bind_res (record_identity src r) (\<lambda>vs.
       let key_types = map scalar_type vs; enc = canonical_identity L vs in
       if (case types of None \<Rightarrow> False | Some t \<Rightarrow> t \<noteq> key_types)
       then Inl (ProtocolError ''REST primary key types changed between response records'')
       else if enc \<in> set seen then Inl (ProtocolError ''REST response page contains duplicate primary keys'')
       else bind_res (page_identities L src rs (Some key_types) (enc # seen)) (\<lambda>(ids, t). Inr (vs # ids, t)))"

definition validate_page_identities ::
  "rest_lib \<Rightarrow> rest_source \<Rightarrow> obj list \<Rightarrow> string list option \<Rightarrow> sdk_error + (json list list \<times> string list option)" where
  "validate_page_identities L src records expected = page_identities L src records expected []"

definition rest_envelope :: "rest_lib \<Rightarrow> rest_source \<Rightarrow> obj \<Rightarrow> json list \<Rightarrow> string \<Rightarrow> int \<Rightarrow> time \<Rightarrow> envelope" where
  "rest_envelope L src r identity url cycle now =
     (let native = canonical_identity L identity;
          shown = (case rl_urlsplit L url of None \<Rightarrow> []
            | Some u \<Rightarrow> rl_urlunsplit L (up_scheme u, up_netloc u, up_path u, []))
      in \<lparr>en_id = stable_record_id (rl_text L) ''rest'' (rs_stream src) native, en_source = ''rest'',
          en_stream = rs_stream src, en_payload = RecordPayload r, en_operation = SNAPSHOT, en_schema_version = ''1'',
          en_observed_at = now, en_event_time = None, en_cursor = Some native, en_checksum = None,
          en_metadata = [(''key'', JObj (zip (rs_primary_key src) identity)),
            (''query_fingerprint'', JStr (rs_fingerprint src)), (''snapshot_cycle'', JInt cycle)],
          en_provenance = [(''connector'', JStr ''rest''), (''endpoint'', JStr shown)]\<rparr>)"

subsection \<open>Types of fields\<close>

definition json_type :: "json \<Rightarrow> string" where
  "json_type v = (case v of JNull \<Rightarrow> ''null'' | JBool _ \<Rightarrow> ''boolean'' | JInt _ \<Rightarrow> ''integer'' | JFloat _ \<Rightarrow> ''number''
     | JStr _ \<Rightarrow> ''string'' | JObj _ \<Rightarrow> ''object'' | JList _ \<Rightarrow> ''array'')"

type_synonym field_types = "(string, string list) dict"

fun escape_key :: "string \<Rightarrow> string" where
  "escape_key [] = []"
| "escape_key (c # cs) =
     (if c = CHR ''~'' then ''~0'' else if c = CHR ''/'' then ''~1'' else [c]) @ escape_key cs"

definition observe :: "string \<Rightarrow> string \<Rightarrow> field_types \<Rightarrow> field_types" where
  "observe path ty seen = (if ty = ''null'' then seen else dict_set path (List.insert ty (dict_get_or seen path [])) seen)"

fun visit_value :: "json \<Rightarrow> string \<Rightarrow> field_types \<Rightarrow> field_types" where
  "visit_value (JObj d) path seen =
     fold (\<lambda>(k, v). visit_value v (path @ ''/'' @ escape_key k)) d (observe path ''object'' seen)"
| "visit_value (JList xs) path seen = fold (\<lambda>v. visit_value v (path @ ''/*'')) xs (observe path ''array'' seen)"
| "visit_value v path seen = observe path (json_type v) seen"

definition visit_record :: "obj \<Rightarrow> field_types \<Rightarrow> field_types" where
  "visit_record r seen = fold (\<lambda>(k, v). visit_value v (''/'' @ escape_key k)) r seen"

definition record_field_types :: "obj list \<Rightarrow> field_types" where
  "record_field_types records = map (\<lambda>(p, ts). (p, sort ts)) (fold visit_record records [])"

text \<open>The merged dictionary is kept sorted by path.\<close>

fun merge_types :: "field_types \<Rightarrow> field_types \<Rightarrow> sdk_error + field_types" where
  "merge_types merged [] = Inr merged"
| "merge_types merged ((path, types) # rest) =
     (if 1 < length types
      then Inl (ProtocolError (''REST response field '' @ py_quote path @ '' changed JSON type within a page''))
      else let combined = sort (remdups (dict_get_or merged path [] @ types)) in
        if 1 < length combined
        then Inl (ProtocolError (''REST response field '' @ py_quote path @ '' changed JSON type between pages''))
        else merge_types (sort_key fst (dict_set path combined merged)) rest)"

definition merge_record_field_types :: "field_types \<Rightarrow> field_types \<Rightarrow> sdk_error + field_types" where
  "merge_record_field_types existing observed = merge_types existing observed"

subsection \<open>Checkpoints\<close>

record resume_point =
  rp_url :: string
  rp_cycle :: int
  rp_offset :: nat
  rp_page :: "string option"
  rp_key_types :: "string list option"
  rp_field_types :: field_types
  rp_completed :: "string list"

definition request_hash :: "rest_lib \<Rightarrow> string \<Rightarrow> string" where
  "request_hash L url = rl_sha L url"

definition start_point :: "string \<Rightarrow> int \<Rightarrow> resume_point" where
  "start_point url cycle = \<lparr>rp_url = url, rp_cycle = cycle, rp_offset = 0, rp_page = None, rp_key_types = None,
     rp_field_types = [], rp_completed = []\<rparr>"

definition encode_state :: "rest_source \<Rightarrow> resume_point \<Rightarrow> sdk_error + obj" where
  "encode_state src p =
     (if max_completed_hashes < int (length (rp_completed p))
      then Inl (ProtocolError ''REST pagination exceeded the cycle page-history limit'')
      else Inr ([(''version'', JInt 1), (''configuration_fingerprint'', JStr (rs_fingerprint src)),
          (''request_url'', JStr (rp_url p)), (''cycle'', JInt (rp_cycle p)), (''record_offset'', JInt (int (rp_offset p)))]
        @ (case rp_page p of None \<Rightarrow> [] | Some f \<Rightarrow> [(''page_fingerprint'', JStr f)])
        @ (case rp_key_types p of None \<Rightarrow> [] | Some ts \<Rightarrow> [(''primary_key_types'', JList (map JStr ts))])
        @ (if rp_field_types p = [] then []
           else [(''record_field_types'', JObj (map (\<lambda>(k, ts). (k, JList (map JStr ts))) (sort_key fst (rp_field_types p))))])
        @ (if rp_completed p = [] then [] else [(''completed_request_hashes'', JList (map JStr (sort (rp_completed p))))])))"

definition hex64 :: "string \<Rightarrow> bool" where
  "hex64 s \<longleftrightarrow> length s = 64 \<and> list_all (\<lambda>c. is_digit c \<or> (97 \<le> (of_char c :: nat) \<and> (of_char c :: nat) \<le> 102)) s"

definition bad_state :: "string \<Rightarrow> sdk_error" where
  "bad_state what = ConfigurationError (''REST checkpoint '' @ what)"

definition decode_page :: "obj \<Rightarrow> nat \<Rightarrow> sdk_error + string option" where
  "decode_page d offset =
     (let v = obj_get d ''page_fingerprint'' in
      if v \<noteq> JNull \<and> (case v of JStr s \<Rightarrow> \<not> hex64 s | _ \<Rightarrow> True) then Inl (bad_state ''page_fingerprint is invalid'')
      else if 0 < offset \<and> v = JNull then Inl (bad_state ''with record_offset requires page_fingerprint'')
      else if offset = 0 \<and> v \<noteq> JNull then Inl (bad_state ''page_fingerprint requires a positive record_offset'')
      else Inr (case v of JStr s \<Rightarrow> Some s | _ \<Rightarrow> None))"

definition key_type_names :: "string list" where
  "key_type_names = [''boolean'', ''integer'', ''number'', ''string'']"

definition field_type_names :: "string list" where
  "field_type_names = [''array'', ''boolean'', ''integer'', ''number'', ''object'', ''string'']"

definition json_strings :: "json list \<Rightarrow> string list" where
  "json_strings xs = map (\<lambda>x. case x of JStr s \<Rightarrow> s | _ \<Rightarrow> []) xs"

text \<open>Membership in a set of names raises for values that cannot be hashed.\<close>

definition check_names :: "string list \<Rightarrow> string \<Rightarrow> json list \<Rightarrow> sdk_error + string list" where
  "check_names names what xs =
     (case find (\<lambda>x. x \<notin> JStr ` set names) xs of
        None \<Rightarrow> Inr (json_strings xs)
      | Some x \<Rightarrow> Inl (if hashable x then bad_state what else Foreign ''TypeError''))"

definition decode_key_types :: "obj \<Rightarrow> sdk_error + string list option" where
  "decode_key_types d =
     (case obj_get d ''primary_key_types'' of
        JNull \<Rightarrow> Inr None
      | JList xs \<Rightarrow> if xs = [] then Inl (bad_state ''primary_key_types is invalid'')
                   else bind_res (check_names key_type_names ''primary_key_types is invalid'' xs) (\<lambda>ts. Inr (Some ts))
      | _ \<Rightarrow> Inl (bad_state ''primary_key_types is invalid''))"

definition decode_field :: "string \<times> json \<Rightarrow> sdk_error + (string \<times> string list)" where
  "decode_field = (\<lambda>(path, types). case types of
       JList xs \<Rightarrow> if path = [] \<or> hd path \<noteq> CHR ''/'' \<or> 1 < length xs then Inl (bad_state ''record_field_types is invalid'')
                    else bind_res (check_names field_type_names ''record_field_types is invalid'' xs) (\<lambda>ts. Inr (path, ts))
     | _ \<Rightarrow> Inl (bad_state ''record_field_types is invalid''))"

definition decode_field_types :: "obj \<Rightarrow> sdk_error + field_types" where
  "decode_field_types d =
     (case obj_get d ''record_field_types'' of
        JNull \<Rightarrow> Inr []
      | JObj kvs \<Rightarrow> bind_res (map_res decode_field kvs) (\<lambda>fs. Inr (sort_key fst fs))
      | _ \<Rightarrow> Inl (bad_state ''record_field_types is invalid''))"

definition decode_completed :: "obj \<Rightarrow> sdk_error + string list" where
  "decode_completed d =
     (case dict_get_or d ''completed_request_hashes'' (JList []) of
        JList xs \<Rightarrow>
          if int (length xs) \<le> max_completed_hashes \<and> \<not> list_all hashable xs then Inl (Foreign ''TypeError'')
          else if max_completed_hashes < int (length xs) \<or> \<not> distinct xs \<or> \<not> list_all (\<lambda>x. case x of JStr s \<Rightarrow> hex64 s | _ \<Rightarrow> False) xs
          then Inl (bad_state ''completed_request_hashes is invalid'') else Inr (sort (json_strings xs))
      | _ \<Rightarrow> Inl (bad_state ''completed_request_hashes is invalid''))"

definition decode_state :: "rest_source \<Rightarrow> obj \<Rightarrow> sdk_error + resume_point" where
  "decode_state src d =
     (if d = [] then Inr (start_point (rs_endpoint_url src) 0)
      else if obj_get d ''version'' \<notin> {JInt 1, JBool True, JFloat 0x3FF0000000000000} then Inl (bad_state ''version is unsupported'')
      else if obj_get d ''configuration_fingerprint'' \<noteq> JStr (rs_fingerprint src)
      then Inl (bad_state ''does not match this source configuration; clear saved state'')
      else case obj_get d ''request_url'' of JStr url \<Rightarrow>
          (if url = [] then Inl (bad_state ''request_url must be a non-empty string'')
           else case obj_get d ''cycle'' of JInt cycle \<Rightarrow>
             (if cycle < 0 then Inl (bad_state ''cycle must be a non-negative integer'')
              else case dict_get_or d ''record_offset'' (JInt 0) of JInt offset \<Rightarrow>
                (if offset < 0 then Inl (bad_state ''record_offset must be a non-negative integer'')
                 else bind_res (decode_page d (nat offset)) (\<lambda>page.
                   bind_res (decode_key_types d) (\<lambda>keys.
                   bind_res (decode_field_types d) (\<lambda>fields.
                   bind_res (decode_completed d) (\<lambda>done.
                     Inr \<lparr>rp_url = url, rp_cycle = cycle, rp_offset = nat offset, rp_page = page, rp_key_types = keys,
                       rp_field_types = fields, rp_completed = done\<rparr>)))))
              | _ \<Rightarrow> Inl (bad_state ''record_offset must be a non-negative integer''))
           | _ \<Rightarrow> Inl (bad_state ''cycle must be a non-negative integer''))
      | _ \<Rightarrow> Inl (bad_state ''request_url must be a non-empty string''))"

subsection \<open>The reader\<close>

definition unstable_page :: sdk_error where
  "unstable_page = ProtocolError (''REST response page changed after a partial-page checkpoint; '' @
     ''clear state or restore a stable API snapshot'')"

text \<open>The checks of a fetched page against the point to resume at, and the types after it.\<close>

definition admit_page :: "rest_lib \<Rightarrow> rest_source \<Rightarrow> resume_point \<Rightarrow> rest_page \<Rightarrow> sdk_error + (json list list \<times> resume_point)" where
  "admit_page L src p pg =
     bind_res (validate_page_identities L src (pg_records pg) (rp_key_types p)) (\<lambda>(ids, page_types).
     bind_res (merge_record_field_types (rp_field_types p) (record_field_types (pg_records pg))) (\<lambda>fields.
       let p1 = p\<lparr>rp_key_types := (case rp_key_types p of None \<Rightarrow> page_types | Some t \<Rightarrow> Some t), rp_field_types := fields\<rparr>
       in case rp_page p of
            Some f \<Rightarrow> if pg_fingerprint pg \<noteq> f then Inl unstable_page
                      else if length (pg_records pg) \<le> rp_offset p
                      then Inl (bad_state ''record_offset is outside its page'') else Inr (ids, p1)
          | None \<Rightarrow> if rp_offset p \<noteq> 0 then Inl (bad_state ''with record_offset requires page_fingerprint'')
                    else Inr (ids, p1)))"

definition page_messages ::
  "rest_lib \<Rightarrow> rest_source \<Rightarrow> (nat \<Rightarrow> time) \<Rightarrow> resume_point \<Rightarrow> rest_page \<Rightarrow> json list list \<Rightarrow> nat \<Rightarrow> nat \<Rightarrow> source_message list" where
  "page_messages L src clock p pg ids stop emitted =
     map (\<lambda>i. RecordMessage (rest_envelope L src (pg_records pg ! i) (ids ! i) (rp_url p) (rp_cycle p)
       (clock (emitted + (i - rp_offset p))))) [rp_offset p..<stop]"

definition repeated_request :: sdk_error where
  "repeated_request = ProtocolError ''REST pagination repeated a request URL without progress''"

text \<open>The point after a page that was read to its end: the next request, or the next cycle.\<close>

definition after_page :: "rest_source \<Rightarrow> resume_point \<Rightarrow> string \<Rightarrow> string option \<Rightarrow> resume_point" where
  "after_page src p hash next_url =
     (case next_url of
        None \<Rightarrow> p\<lparr>rp_url := rs_endpoint_url src, rp_cycle := rp_cycle p + 1, rp_offset := 0, rp_page := None,
                  rp_completed := []\<rparr>
      | Some u \<Rightarrow> p\<lparr>rp_url := u, rp_offset := 0, rp_page := None, rp_completed := insort hash (rp_completed p)\<rparr>)"

text \<open>What the generator yields after the records \<open>out\<close> when a checkpoint follows.\<close>

definition with_state :: "rest_source \<Rightarrow> resume_point \<Rightarrow> source_message list \<Rightarrow> source_message list \<times> sdk_error option" where
  "with_state src p out =
     (case encode_state src p of Inl e \<Rightarrow> (out, Some e) | Inr st \<Rightarrow> (out @ [StateMessage (rs_stream src) st], None))"

text \<open>How many records of a page are sent.\<close>

definition page_take :: "nat \<Rightarrow> nat \<Rightarrow> resume_point \<Rightarrow> rest_page \<Rightarrow> nat" where
  "page_take limit emitted p pg = min (limit - emitted) (length (pg_records pg) - rp_offset p)"

text \<open>\<open>n\<close> pages and \<open>limit\<close> records at most; \<open>emitted\<close> records are out.\<close>

fun read_pages ::
  "rest_lib \<Rightarrow> rest_source \<Rightarrow> (nat \<Rightarrow> time) \<Rightarrow> nat \<Rightarrow> nat \<Rightarrow> resume_point \<Rightarrow> nat \<Rightarrow> rest_world
     \<Rightarrow> (source_message list \<times> sdk_error option) \<times> rest_world" where
  "read_pages L src clock limit 0 p emitted w = (([], None), w)"
| "read_pages L src clock limit (Suc n) p emitted w =
     (if max_completed_hashes \<le> int (length (rp_completed p))
      then (([], Some (ProtocolError ''REST pagination exceeded the cycle page-history limit'')), w)
      else if request_hash L (rp_url p) \<in> set (rp_completed p) then (([], Some repeated_request), w)
      else case fetch_page L src (rp_url p) w of
        (Inl e, w1) \<Rightarrow> (([], Some e), w1)
      | (Inr pg, w1) \<Rightarrow> (case admit_page L src p pg of
          Inl e \<Rightarrow> (([], Some e), w1)
        | Inr (ids, p1) \<Rightarrow>
            (let took = page_take limit emitted p1 pg;
                 stop = rp_offset p1 + took; emitted1 = emitted + took;
                 out = page_messages L src clock p1 pg ids stop emitted
             in if stop < length (pg_records pg)
                then (with_state src (p1\<lparr>rp_offset := stop, rp_page := Some (pg_fingerprint pg)\<rparr>) out, w1)
                else (let p2 = after_page src p1 (request_hash L (rp_url p1)) (pg_next pg) in
                  case pg_next pg of
                    None \<Rightarrow> (with_state src p2 out, w1)
                  | Some u \<Rightarrow> (case encode_state src p2 of
                        Inl e \<Rightarrow> ((out, Some e), w1)
                      | Inr st \<Rightarrow>
                          if request_hash L u \<in> set (rp_completed p2) then ((out, Some repeated_request), w1)
                          else if limit \<le> emitted1
                          then ((out @ [StateMessage (rs_stream src) st], None), w1)
                          else (let ((ms, e), w2) = read_pages L src clock limit n p2 emitted1 w1
                            in ((out @ StateMessage (rs_stream src) st # ms, e), w2)))))))"

definition rest_read ::
  "rest_lib \<Rightarrow> rest_source \<Rightarrow> (nat \<Rightarrow> time) \<Rightarrow> string \<Rightarrow> obj \<Rightarrow> rest_world
     \<Rightarrow> (source_message list \<times> sdk_error option) \<times> rest_world" where
  "rest_read L src clock stream state w =
     (if stream \<noteq> rs_stream src
      then (([], Some (ConfigurationError (''REST stream '' @ py_quote stream @ '' is not configured''))), w)
      else case decode_state src state of
        Inl e \<Rightarrow> (([], Some e), w)
      | Inr p \<Rightarrow> read_pages L src clock (rs_max_records src) (rs_max_pages src) p 0 w)"

subsection \<open>Checkpoints round-trip\<close>

definition point_ok :: "resume_point \<Rightarrow> bool" where
  "point_ok p \<longleftrightarrow> rp_url p \<noteq> [] \<and> 0 \<le> rp_cycle p \<and>
     (case rp_page p of None \<Rightarrow> rp_offset p = 0 | Some f \<Rightarrow> 0 < rp_offset p \<and> hex64 f) \<and>
     (case rp_key_types p of None \<Rightarrow> True | Some ts \<Rightarrow> ts \<noteq> [] \<and> set ts \<subseteq> set key_type_names) \<and>
     list_all (\<lambda>(path, ts). path \<noteq> [] \<and> hd path = CHR ''/'' \<and> length ts \<le> 1 \<and> set ts \<subseteq> set field_type_names) (rp_field_types p) \<and>
     sorted (map fst (rp_field_types p)) \<and>
     list_all hex64 (rp_completed p) \<and> distinct (rp_completed p) \<and> sorted (rp_completed p)"

lemma json_strings_map [simp]: "json_strings (map JStr ss) = ss"
  by (induction ss) (simp_all add: json_strings_def)

lemma check_names_Inr: "check_names names what xs = Inr ts \<longleftrightarrow> list_all (\<lambda>x. x \<in> JStr ` set names) xs \<and> ts = json_strings xs"
proof (cases "find (\<lambda>x. x \<notin> JStr ` set names) xs")
  case None
  then have "list_all (\<lambda>x. x \<in> JStr ` set names) xs" by (simp add: find_None_iff list_all_iff)
  then show ?thesis by (auto simp: check_names_def None)
next
  case (Some x)
  then obtain i where "i < length xs" "xs ! i \<notin> JStr ` set names" by (auto simp: find_Some_iff)
  then have "\<not> list_all (\<lambda>x. x \<in> JStr ` set names) xs" by (auto simp: list_all_length)
  then show ?thesis by (simp add: check_names_def Some)
qed

lemma decode_fields_map:
  assumes "list_all (\<lambda>(path, ts). path \<noteq> [] \<and> hd path = CHR ''/'' \<and> length ts \<le> 1 \<and> set ts \<subseteq> set field_type_names) fs"
  shows "map_res decode_field (map (\<lambda>(k, ts). (k, JList (map JStr ts))) fs) = Inr fs"
  using assms
proof (induction fs)
  case (Cons f fs)
  obtain k ts where f: "f = (k, ts)" by fastforce
  have "list_all (\<lambda>x. x \<in> JStr ` set field_type_names) (map JStr ts)" using Cons.prems by (auto simp: f list_all_iff)
  then have "check_names field_type_names ''record_field_types is invalid'' (map JStr ts) = Inr ts" by (simp add: check_names_Inr)
  with Cons show ?case by (simp add: f decode_field_def)
qed simp

lemma state_entries:
  assumes "encode_state src p = Inr d"
  shows "obj_get d ''version'' = JInt 1" "obj_get d ''configuration_fingerprint'' = JStr (rs_fingerprint src)"
    "obj_get d ''request_url'' = JStr (rp_url p)" "obj_get d ''cycle'' = JInt (rp_cycle p)"
    "dict_get_or d ''record_offset'' (JInt 0) = JInt (int (rp_offset p))"
    "obj_get d ''page_fingerprint'' = (case rp_page p of None \<Rightarrow> JNull | Some f \<Rightarrow> JStr f)"
    "obj_get d ''primary_key_types'' = (case rp_key_types p of None \<Rightarrow> JNull | Some ts \<Rightarrow> JList (map JStr ts))"
    "obj_get d ''record_field_types'' = (if rp_field_types p = [] then JNull
       else JObj (map (\<lambda>(k, ts). (k, JList (map JStr ts))) (sort_key fst (rp_field_types p))))"
    "dict_get_or d ''completed_request_hashes'' (JList []) = JList (map JStr (sort (rp_completed p)))"
    "d \<noteq> []" "int (length (rp_completed p)) \<le> max_completed_hashes"
proof -
  have d: "d = [(''version'', JInt 1), (''configuration_fingerprint'', JStr (rs_fingerprint src)),
          (''request_url'', JStr (rp_url p)), (''cycle'', JInt (rp_cycle p)), (''record_offset'', JInt (int (rp_offset p)))]
        @ (case rp_page p of None \<Rightarrow> [] | Some f \<Rightarrow> [(''page_fingerprint'', JStr f)])
        @ (case rp_key_types p of None \<Rightarrow> [] | Some ts \<Rightarrow> [(''primary_key_types'', JList (map JStr ts))])
        @ (if rp_field_types p = [] then []
           else [(''record_field_types'', JObj (map (\<lambda>(k, ts). (k, JList (map JStr ts))) (sort_key fst (rp_field_types p))))])
        @ (if rp_completed p = [] then [] else [(''completed_request_hashes'', JList (map JStr (sort (rp_completed p))))])"
    and n: "int (length (rp_completed p)) \<le> max_completed_hashes"
    using assms by (auto simp: encode_state_def split: if_splits)
  show "d \<noteq> []" "int (length (rp_completed p)) \<le> max_completed_hashes" by (simp add: d) (rule n)
  show "obj_get d ''version'' = JInt 1" "obj_get d ''configuration_fingerprint'' = JStr (rs_fingerprint src)"
    "obj_get d ''request_url'' = JStr (rp_url p)" "obj_get d ''cycle'' = JInt (rp_cycle p)"
    "dict_get_or d ''record_offset'' (JInt 0) = JInt (int (rp_offset p))"
    by (simp_all add: d obj_get_def dict_get_or_def)
  show "obj_get d ''page_fingerprint'' = (case rp_page p of None \<Rightarrow> JNull | Some f \<Rightarrow> JStr f)"
    "obj_get d ''primary_key_types'' = (case rp_key_types p of None \<Rightarrow> JNull | Some ts \<Rightarrow> JList (map JStr ts))"
    "obj_get d ''record_field_types'' = (if rp_field_types p = [] then JNull
       else JObj (map (\<lambda>(k, ts). (k, JList (map JStr ts))) (sort_key fst (rp_field_types p))))"
    "dict_get_or d ''completed_request_hashes'' (JList []) = JList (map JStr (sort (rp_completed p)))"
    unfolding d by (cases "rp_page p"; cases "rp_key_types p"; simp add: obj_get_def dict_get_or_def)+
qed

lemma decode_encoded:
  assumes ok: "point_ok p" and enc: "encode_state src p = Inr d"
  shows "decode_state src d = Inr p"
proof -
  note e = state_entries [OF enc]
  have page: "decode_page d (rp_offset p) = Inr (rp_page p)"
    using ok by (auto simp: decode_page_def e(6) point_ok_def split: option.splits)
  have keys: "decode_key_types d = Inr (rp_key_types p)"
    using ok by (auto simp: decode_key_types_def e(7) point_ok_def list_all_iff bind_res_Inr check_names_Inr split: option.splits)
  have fields: "decode_field_types d = Inr (rp_field_types p)"
    using ok decode_fields_map [of "rp_field_types p"]
    by (simp add: decode_field_types_def e(8) point_ok_def sort_key_id_if_sorted)
  have "decode_completed d = Inr (rp_completed p)"
    using ok e(11) by (auto simp: decode_completed_def e(9) point_ok_def list_all_iff hashable_def sorted_sort_id distinct_map inj_on_def)
  with page keys fields ok show ?thesis
    by (simp add: decode_state_def e(1-5,10) point_ok_def)
qed


subsection \<open>Points stay well-formed\<close>

text \<open>Documented behaviour of the library: hexadecimal digests, and no host in an empty URL.\<close>

definition lib_ok :: "rest_lib \<Rightarrow> bool" where
  "lib_ok L \<longleftrightarrow> (\<forall>s. hex64 (rl_sha L s)) \<and> (\<forall>u. rl_urlsplit L [] = Some u \<longrightarrow> opt_or (up_hostname u) [] = [])"

lemma validated_url_nonempty: "lib_ok L \<Longrightarrow> validate_request_url L src [] \<noteq> Inr v"
  by (auto simp: validate_request_url_def lib_ok_def split: option.split if_splits)

lemma validate_request_url_same: "validate_request_url L src u = Inr v \<Longrightarrow> v = u"
  by (auto simp: validate_request_url_def bind_res_Inr split: if_splits option.splits)

lemma fetched_page:
  assumes L: "lib_ok L" and f: "fetch_page L src url w = (Inr pg, w')"
  shows "hex64 (pg_fingerprint pg)" "pg_next pg \<noteq> Some []"
proof -
  obtain sent r where "response_page L src url sent r = Inr pg"
    using f by (auto simp: fetch_page_def split: prod.splits sum.splits)
  then obtain records target where n: "checked_next L src sent target = Inr (pg_next pg)"
    and fp: "page_fingerprint L records (pg_next pg) = Inr (pg_fingerprint pg)"
    by (auto simp: response_page_def bind_res_Inr split: option.splits)
  have "\<exists>s. pg_fingerprint pg = rl_sha L s"
    using fp by (simp add: page_fingerprint_def Let_def split: if_splits del: sorted_json.simps) metis
  then show "hex64 (pg_fingerprint pg)" using L by (auto simp: lib_ok_def)
  show "pg_next pg \<noteq> Some []"
  proof (cases target)
    case None
    then show ?thesis using n by (simp add: checked_next_def)
  next
    case (Some u)
    then obtain v where v: "validate_request_url L src u = Inr v" "pg_next pg = Some v"
      using n by (auto simp: checked_next_def bind_res_Inr split: if_splits)
    with validate_request_url_same [OF v(1)] validated_url_nonempty [OF L, of src v] show ?thesis by auto
  qed
qed

lemma identity_types:
  assumes "record_identity src r = Inr vs"
  shows "set (map scalar_type vs) \<subseteq> set key_type_names" "length vs = length (rs_primary_key src)"
proof -
  have *: "list_all2 (\<lambda>f v. key_value (JObj r) f = Inr v) (rs_primary_key src) vs"
    using assms by (simp add: record_identity_def map_res_Inr_iff)
  then show "length vs = length (rs_primary_key src)" by (simp add: list_all2_lengthD)
  have "scalar_type v \<in> set key_type_names" if v: "v \<in> set vs" for v
  proof -
    obtain i where "i < length vs" "vs ! i = v" using v by (auto simp: in_set_conv_nth)
    with * have "key_value (JObj r) (rs_primary_key src ! i) = Inr v" by (auto simp: list_all2_conv_all_nth)
    then show ?thesis
      by (auto simp: key_value_def bind_res_Inr is_json_scalar_def scalar_type_def key_type_names_def split: if_splits json.splits)
  qed
  then show "set (map scalar_type vs) \<subseteq> set key_type_names" by auto
qed

definition key_types_ok :: "string list option \<Rightarrow> bool" where
  "key_types_ok ts \<longleftrightarrow> (case ts of None \<Rightarrow> True | Some ts \<Rightarrow> ts \<noteq> [] \<and> set ts \<subseteq> set key_type_names)"

lemma page_identities_types:
  "page_identities L src rs types seen = Inr (ids, t) \<Longrightarrow> rs_primary_key src \<noteq> [] \<Longrightarrow> key_types_ok types \<Longrightarrow>
     key_types_ok t \<and> (types \<noteq> None \<longrightarrow> t = types) \<and> length ids = length rs"
proof (induction rs arbitrary: types seen ids)
  case (Cons r rs)
  obtain vs where vs: "record_identity src r = Inr vs" using Cons.prems(1) by (auto simp: bind_res_Inr)
  have vs_ok: "key_types_ok (Some (map scalar_type vs))"
    using identity_types [OF vs] Cons.prems(2) by (auto simp: key_types_ok_def)
  obtain ids' where "page_identities L src rs (Some (map scalar_type vs)) (canonical_identity L vs # seen) = Inr (ids', t)"
      "ids = vs # ids'" "types = None \<or> types = Some (map scalar_type vs)"
    using Cons.prems(1) by (auto simp: vs Let_def bind_res_Inr split: if_splits option.splits)
  with Cons.IH [OF this(1) Cons.prems(2) vs_ok] show ?case by auto
qed simp

lemma page_identities_some: "page_identities L src rs (Some k) seen = Inr (ids, t) \<Longrightarrow> t = Some k"
  by (induction rs arbitrary: seen ids) (auto simp: Let_def bind_res_Inr split: if_splits)

text \<open>Checking a page again with the types it gave changes nothing.\<close>

lemma page_identities_again:
  "page_identities L src rs types seen = Inr (ids, t) \<Longrightarrow> page_identities L src rs t seen = Inr (ids, t)"
proof (induction rs arbitrary: types seen ids)
  case (Cons r rs)
  obtain vs where vs: "record_identity src r = Inr vs" using Cons.prems(1) by (auto simp: bind_res_Inr)
  let ?k = "Some (map scalar_type vs)"
  obtain ids' where r: "page_identities L src rs ?k (canonical_identity L vs # seen) = Inr (ids', t)"
      "ids = vs # ids'" "canonical_identity L vs \<notin> set seen"
    using Cons.prems(1) by (auto simp: vs Let_def bind_res_Inr split: if_splits option.splits)
  have "t = ?k" by (rule page_identities_some [OF r(1)])
  with r show ?case by (simp add: vs Let_def)
qed simp


definition field_entry_ok :: "string \<times> string list \<Rightarrow> bool" where
  "field_entry_ok = (\<lambda>(path, ts). path \<noteq> [] \<and> hd path = CHR ''/'' \<and> set ts \<subseteq> set field_type_names)"

lemma dict_set_entries: "p \<in> set (dict_set k v d) \<Longrightarrow> p = (k, v) \<or> p \<in> set d"
  by (induction d) (auto split: if_splits)

lemma observe_ok:
  assumes "list_all field_entry_ok seen" "path \<noteq> []" "hd path = CHR ''/''"
  shows "list_all field_entry_ok (observe path (json_type v) seen)"
proof -
  have ty: "json_type v = ''null'' \<or> json_type v \<in> set field_type_names"
    by (cases v) (simp_all add: json_type_def field_type_names_def)
  have "set (dict_get_or seen path []) \<subseteq> set field_type_names"
  proof (cases "dict_get seen path")
    case (Some ts)
    then have "field_entry_ok (path, ts)" using assms(1) map_of_SomeD [OF Some] unfolding list_all_iff by blast
    with Some show ?thesis by (simp add: dict_get_or_def field_entry_ok_def)
  qed (simp add: dict_get_or_def)
  then show ?thesis using assms ty
    by (auto simp: observe_def list_all_iff field_entry_ok_def dest!: dict_set_entries)
qed

lemma visit_value_ok:
  "list_all field_entry_ok seen \<Longrightarrow> path \<noteq> [] \<Longrightarrow> hd path = CHR ''/'' \<Longrightarrow> list_all field_entry_ok (visit_value v path seen)"
proof (induction v path seen rule: visit_value.induct)
  case (1 d path seen)
  have "list_all field_entry_ok (fold (\<lambda>(k, v). visit_value v (path @ ''/'' @ escape_key k)) kvs s)"
    if "set kvs \<subseteq> set d" "list_all field_entry_ok s" for kvs s
    using that
  proof (induction kvs arbitrary: s)
    case (Cons kv kvs)
    obtain k v where kv: "kv = (k, v)" by fastforce
    have "list_all field_entry_ok (visit_value v (path @ ''/'' @ escape_key k) s)"
      by (rule "1.IH" [of kv k v s]) (use Cons.prems kv 1 in auto)
    with Cons kv show ?case by simp
  qed simp
  then show ?case using observe_ok [OF 1(2-4), of "JObj []"] by (simp add: json_type_def)
next
  case (2 xs path seen)
  have "list_all field_entry_ok (fold (\<lambda>v. visit_value v (path @ ''/*'')) vs s)"
    if "set vs \<subseteq> set xs" "list_all field_entry_ok s" for vs s
    using that
  proof (induction vs arbitrary: s)
    case (Cons v vs)
    have "list_all field_entry_ok (visit_value v (path @ ''/*'') s)"
      by (rule "2.IH" [of v s]) (use Cons.prems 2 in auto)
    with Cons show ?case by simp
  qed simp
  then show ?case using observe_ok [OF 2(2-4), of "JList []"] by (simp add: json_type_def)
qed (simp_all add: observe_ok)

lemma record_field_types_ok: "list_all field_entry_ok (record_field_types records)"
proof -
  have r: "list_all field_entry_ok (visit_record r s)" if "list_all field_entry_ok s" for r s
    using that
  proof (induction r arbitrary: s)
    case (Cons kv r)
    obtain k v where kv: "kv = (k, v)" by fastforce
    have "list_all field_entry_ok (visit_value v (''/'' @ escape_key k) s)" by (rule visit_value_ok) (use Cons.prems in auto)
    with Cons.IH show ?case by (simp add: visit_record_def kv)
  qed (simp add: visit_record_def)
  have "list_all field_entry_ok (fold visit_record rs s)" if "list_all field_entry_ok s" for rs s
    using that by (induction rs arbitrary: s) (simp_all add: r)
  then have "list_all field_entry_ok (fold visit_record records [])" by simp
  then have "field_entry_ok (k, ts)" if "(k, ts) \<in> set (fold visit_record records [])" for k ts
    using that unfolding list_all_iff by blast
  then show ?thesis by (fastforce simp: record_field_types_def list_all_iff field_entry_ok_def)
qed


text \<open>Merging keeps the dictionary sorted, with at most one type per path, and a second merge of the same
  observation changes nothing.\<close>

definition field_types_ok :: "field_types \<Rightarrow> bool" where
  "field_types_ok fs \<longleftrightarrow> sorted (map fst fs) \<and> distinct (map fst fs) \<and> list_all field_entry_ok fs \<and>
     list_all (\<lambda>(path, ts). length ts \<le> 1) fs"

definition covers :: "field_types \<Rightarrow> field_types \<Rightarrow> bool" where
  "covers fs observed \<longleftrightarrow> (\<forall>(path, ts) \<in> set observed. \<exists>t. dict_get fs path = Some t \<and> set ts \<subseteq> set t \<and>
     length t \<le> 1 \<and> length ts \<le> 1)"

lemma short_sort: "length (sort (remdups xs)) \<le> 1 \<Longrightarrow> set ys \<subseteq> set (sort (remdups xs)) \<Longrightarrow> length ys \<le> 1 \<Longrightarrow>
    sort (remdups (sort (remdups xs) @ ys)) = sort (remdups xs)"
  by (cases "sort (remdups xs)"; cases ys) (auto simp: Let_def)

lemma set_dict_set: "set (dict_set k v d) \<subseteq> insert (k, v) (set d)"
  by (auto dest: dict_set_entries)

lemma merge_step_ok:
  assumes "field_types_ok fs" "field_entry_ok (path, types)" "length (sort (remdups (dict_get_or fs path [] @ types))) \<le> 1"
  shows "field_types_ok (sort_key fst (dict_set path (sort (remdups (dict_get_or fs path [] @ types))) fs))"
proof -
  let ?c = "sort (remdups (dict_get_or fs path [] @ types))"
  have "set (dict_get_or fs path []) \<subseteq> set field_type_names"
  proof (cases "dict_get fs path")
    case (Some ts)
    then have "field_entry_ok (path, ts)" using assms(1) map_of_SomeD [OF Some]
      unfolding list_all_iff field_types_ok_def by blast
    with Some show ?thesis by (simp add: dict_get_or_def field_entry_ok_def)
  qed (simp add: dict_get_or_def)
  then have c: "field_entry_ok (path, ?c)" using assms(2) by (auto simp: field_entry_ok_def)
  have "distinct (map fst (dict_set path ?c fs))"
    using assms(1) by (simp add: field_types_ok_def distinct_update)
  then have "distinct (map fst (sort_key fst (dict_set path ?c fs)))"
    by (simp add: distinct_map)
  moreover have "\<forall>p \<in> set (dict_set path ?c fs). field_entry_ok p \<and> (case p of (path, ts) \<Rightarrow> length ts \<le> 1)"
    using assms(1,3) c by (auto simp: field_types_ok_def list_all_iff dest!: dict_set_entries)
  ultimately show ?thesis by (simp add: field_types_ok_def list_all_iff)
qed

lemma map_of_sort_key: "distinct (map fst d) \<Longrightarrow> map_of (sort_key fst d) = map_of d"
  by (subst map_of_inject_set) (simp_all add: distinct_map)

lemma merge_types_ok:
  "merge_types fs observed = Inr out \<Longrightarrow> field_types_ok fs \<Longrightarrow> list_all field_entry_ok observed \<Longrightarrow>
     field_types_ok out \<and> covers out observed \<and> (\<forall>path t. dict_get fs path = Some t \<longrightarrow> (\<exists>t'. dict_get out path = Some t' \<and> set t \<subseteq> set t'))"
proof (induction observed arbitrary: fs)
  case (Cons o1 observed)
  obtain path types where o1: "o1 = (path, types)" by fastforce
  let ?c = "sort (remdups (dict_get_or fs path [] @ types))"
  let ?m = "sort_key fst (dict_set path ?c fs)"
  have run: "merge_types ?m observed = Inr out" "length types \<le> 1" "length ?c \<le> 1"
    using Cons.prems(1) by (auto simp: o1 Let_def split: if_splits)
  have ok: "field_types_ok ?m" by (rule merge_step_ok) (use Cons.prems run o1 in auto)
  have get: "dict_get ?m q = (if q = path then Some ?c else dict_get fs q)" for q
    using Cons.prems(2) by (simp add: map_of_sort_key field_types_ok_def distinct_update)
  from Cons.IH [OF run(1) ok] Cons.prems(3) have ih: "field_types_ok out" "covers out observed"
      "\<And>q t. dict_get ?m q = Some t \<Longrightarrow> \<exists>t'. dict_get out q = Some t' \<and> set t \<subseteq> set t'" by auto
  obtain t' where t': "dict_get out path = Some t'" "set ?c \<subseteq> set t'" using ih(3) get by (metis (full_types))
  have "length t' \<le> 1"
    using ih(1) map_of_SomeD [OF t'(1)] by (auto simp: field_types_ok_def list_all_iff)
  with t' run(2) have cov: "covers out (o1 # observed)" using ih(2) by (auto simp: covers_def o1)
  have "\<exists>t'. dict_get out q = Some t' \<and> set t \<subseteq> set t'" if "dict_get fs q = Some t" for q t
  proof (cases "q = path")
    case True
    then have "set t \<subseteq> set ?c" using that by (auto simp: dict_get_or_def)
    then show ?thesis using t' True by auto
  next
    case False
    then show ?thesis using ih(3) [of q t] get that by simp
  qed
  with ih(1) cov show ?case by blast
qed (simp add: covers_def)

lemma merge_types_again: "covers fs observed \<Longrightarrow> field_types_ok fs \<Longrightarrow> merge_types fs observed = Inr fs"
proof (induction observed)
  case (Cons o1 observed)
  obtain path types where o1: "o1 = (path, types)" by fastforce
  from Cons.prems(1) obtain t where t: "dict_get fs path = Some t" "set types \<subseteq> set t" "length t \<le> 1" "length types \<le> 1"
    by (auto simp: covers_def o1)
  have "sort (remdups (t @ types)) = t" using t(2-4) by (cases t; cases types) auto
  moreover have "covers fs observed" using Cons.prems(1) by (simp add: covers_def)
  ultimately show ?case using Cons t
    by (simp add: o1 dict_get_or_def update_triv field_types_ok_def sort_key_id_if_sorted)
qed simp

definition point_inv :: "resume_point \<Rightarrow> bool" where
  "point_inv p \<longleftrightarrow> point_ok p \<and> distinct (map fst (rp_field_types p))"

lemma point_inv_fields: "point_inv p \<Longrightarrow> field_types_ok (rp_field_types p)"
  by (auto simp: point_inv_def point_ok_def field_types_ok_def field_entry_ok_def list_all_iff)

lemma field_types_point: "field_types_ok fs \<Longrightarrow>
    list_all (\<lambda>(path, ts). path \<noteq> [] \<and> hd path = CHR ''/'' \<and> length ts \<le> 1 \<and> set ts \<subseteq> set field_type_names) fs"
  by (fastforce simp: field_types_ok_def field_entry_ok_def list_all_iff)

text \<open>What admitting a page gives, and that admitting it again from a point inside it changes nothing.\<close>

lemma admit_page_cases:
  assumes a: "admit_page L src p pg = Inr (ids, p1)"
  obtains types fields where
    "validate_page_identities L src (pg_records pg) (rp_key_types p) = Inr (ids, types)"
    "merge_record_field_types (rp_field_types p) (record_field_types (pg_records pg)) = Inr fields"
    "p1 = p\<lparr>rp_key_types := (case rp_key_types p of None \<Rightarrow> types | Some t \<Rightarrow> Some t), rp_field_types := fields\<rparr> \<and>
      (rp_offset p < length (pg_records pg) \<or> rp_offset p = 0) \<and> (rp_page p = None \<or> rp_page p = Some (pg_fingerprint pg))"
proof -
  obtain v0 where v0: "validate_page_identities L src (pg_records pg) (rp_key_types p) = Inr v0"
    using a unfolding admit_page_def bind_res_Inr by blast
  obtain ids' types where v: "validate_page_identities L src (pg_records pg) (rp_key_types p) = Inr (ids', types)"
    using v0 by (cases v0) auto
  obtain fields where m: "merge_record_field_types (rp_field_types p) (record_field_types (pg_records pg)) = Inr fields"
    using a unfolding admit_page_def v bind_res_simps prod.case bind_res_Inr by blast
  let ?p1 = "p\<lparr>rp_key_types := (case rp_key_types p of None \<Rightarrow> types | Some t \<Rightarrow> Some t), rp_field_types := fields\<rparr>"
  have "ids' = ids \<and> p1 = ?p1 \<and> (rp_offset p < length (pg_records pg) \<or> rp_offset p = 0) \<and>
      (rp_page p = None \<or> rp_page p = Some (pg_fingerprint pg))"
  proof (cases "rp_page p")
    case None
    then show ?thesis using a by (auto simp: admit_page_def v m Let_def split: if_split_asm)
  next
    case (Some f)
    then show ?thesis using a by (auto simp: admit_page_def v m Let_def split: if_split_asm)
  qed
  then show thesis using that [OF _ m, of types] v by blast
qed

lemma admit_page_facts:
  assumes a: "admit_page L src p pg = Inr (ids, p1)" and p: "point_inv p" and k: "rs_primary_key src \<noteq> []"
  shows "validate_page_identities L src (pg_records pg) (rp_key_types p1) = Inr (ids, rp_key_types p1)"
    "merge_record_field_types (rp_field_types p1) (record_field_types (pg_records pg)) = Inr (rp_field_types p1)"
    "p1 = p\<lparr>rp_key_types := rp_key_types p1, rp_field_types := rp_field_types p1\<rparr>" "point_inv p1"
    "rp_offset p1 < length (pg_records pg) \<or> rp_offset p1 = 0" "rp_page p1 = None \<or> rp_page p1 = Some (pg_fingerprint pg)"
proof -
  obtain types fields where v: "validate_page_identities L src (pg_records pg) (rp_key_types p) = Inr (ids, types)"
    and m: "merge_record_field_types (rp_field_types p) (record_field_types (pg_records pg)) = Inr fields"
    and r: "p1 = p\<lparr>rp_key_types := (case rp_key_types p of None \<Rightarrow> types | Some t \<Rightarrow> Some t), rp_field_types := fields\<rparr> \<and>
      (rp_offset p < length (pg_records pg) \<or> rp_offset p = 0) \<and> (rp_page p = None \<or> rp_page p = Some (pg_fingerprint pg))"
    by (rule admit_page_cases [OF a])
  note p1 = r [THEN conjunct1] and pg = r [THEN conjunct2, THEN conjunct1] r [THEN conjunct2, THEN conjunct2]
  have types: "(case rp_key_types p of None \<Rightarrow> types | Some t \<Rightarrow> Some t) = types"
    using v by (auto simp: validate_page_identities_def dest: page_identities_some split: option.split)
  have kt: "key_types_ok types"
    using page_identities_types [OF v [unfolded validate_page_identities_def] k] p
    by (simp add: point_inv_def point_ok_def key_types_ok_def)
  note mo = merge_types_ok [OF m [unfolded merge_record_field_types_def] point_inv_fields [OF p] record_field_types_ok]
  show "validate_page_identities L src (pg_records pg) (rp_key_types p1) = Inr (ids, rp_key_types p1)"
    using page_identities_again [OF v [unfolded validate_page_identities_def]]
    by (simp add: p1 types validate_page_identities_def)
  show "merge_record_field_types (rp_field_types p1) (record_field_types (pg_records pg)) = Inr (rp_field_types p1)"
    using mo by (simp add: p1 merge_record_field_types_def merge_types_again)
  show "p1 = p\<lparr>rp_key_types := rp_key_types p1, rp_field_types := rp_field_types p1\<rparr>" by (simp add: p1)
  show "rp_offset p1 < length (pg_records pg) \<or> rp_offset p1 = 0" "rp_page p1 = None \<or> rp_page p1 = Some (pg_fingerprint pg)"
    using pg by (simp_all add: p1)
  have "field_types_ok fields" using mo by blast
  with p kt field_types_point [OF this] show "point_inv p1"
    by (cases "rp_page p") (simp_all add: p1 types point_inv_def point_ok_def key_types_ok_def field_types_ok_def)
qed

lemma admit_page_again:
  assumes a: "admit_page L src p pg = Inr (ids, p1)" and p: "point_inv p" and k: "rs_primary_key src \<noteq> []"
    and n: "0 < n" "n < length (pg_records pg)"
  defines "q \<equiv> p1\<lparr>rp_offset := n, rp_page := Some (pg_fingerprint pg)\<rparr>"
  shows "admit_page L src q pg = Inr (ids, q)"
  using admit_page_facts(1,2) [OF a p k] n
  by (simp add: admit_page_def q_def split: option.split)

lemma encode_point: "point_inv p \<Longrightarrow> int (length (rp_completed p)) \<le> max_completed_hashes \<Longrightarrow>
    \<exists>st. encode_state src p = Inr st \<and> decode_state src st = Inr p"
  using decode_encoded by (auto simp: encode_state_def point_inv_def)

subsection \<open>The rest of a cycle, and resuming it\<close>

text \<open>A server whose answers do not depend on when they are asked for: \<open>P\<close> is what each URL gives while
  \<open>okw\<close> holds of the world.\<close>

type_synonym page_map = "string \<Rightarrow> sdk_error + rest_page"

definition stable_api :: "rest_lib \<Rightarrow> rest_source \<Rightarrow> page_map \<Rightarrow> (rest_world \<Rightarrow> bool) \<Rightarrow> bool" where
  "stable_api L src P okw \<longleftrightarrow> (\<forall>u w. okw w \<longrightarrow> fst (fetch_page L src u w) = P u \<and> okw (snd (fetch_page L src u w)))"

definition timeless :: "envelope \<Rightarrow> envelope" where
  "timeless e = e\<lparr>en_observed_at := 0\<rparr>"

definition page_rest :: "rest_lib \<Rightarrow> rest_source \<Rightarrow> resume_point \<Rightarrow> rest_page \<Rightarrow> json list list \<Rightarrow> nat \<Rightarrow> envelope list" where
  "page_rest L src p pg ids stop =
     map (\<lambda>i. rest_envelope L src (pg_records pg ! i) (ids ! i) (rp_url p) (rp_cycle p) 0) [rp_offset p..<stop]"

text \<open>The records that an unlimited reader would still send in this cycle, in at most \<open>n\<close> pages, and where the
  next cycle starts; \<open>None\<close> when it fails or is longer.\<close>

fun cycle_run :: "rest_lib \<Rightarrow> rest_source \<Rightarrow> page_map \<Rightarrow> nat \<Rightarrow> resume_point \<Rightarrow> (envelope list \<times> resume_point) option" where
  "cycle_run L src P 0 p = None"
| "cycle_run L src P (Suc n) p =
     (if max_completed_hashes \<le> int (length (rp_completed p)) \<or> request_hash L (rp_url p) \<in> set (rp_completed p) then None
      else case P (rp_url p) of Inl e \<Rightarrow> None | Inr pg \<Rightarrow>
        (case admit_page L src p pg of Inl e \<Rightarrow> None | Inr (ids, p1) \<Rightarrow>
          (let rs = page_rest L src p1 pg ids (length (pg_records pg));
               p2 = after_page src p1 (request_hash L (rp_url p1)) (pg_next pg)
           in case pg_next pg of
                None \<Rightarrow> Some (rs, p2)
              | Some u \<Rightarrow> if request_hash L u \<in> set (rp_completed p2) then None
                  else map_option (\<lambda>(rs', fin). (rs @ rs', fin)) (cycle_run L src P n p2))))"

text \<open>Each checkpoint of a message list with the records sent before it.\<close>

fun checkpoints :: "envelope list \<Rightarrow> source_message list \<Rightarrow> (envelope list \<times> obj) list" where
  "checkpoints sent [] = []"
| "checkpoints sent (RecordMessage e # ms) = checkpoints (sent @ [timeless e]) ms"
| "checkpoints sent (StateMessage s st # ms) = (sent, st) # checkpoints sent ms"
| "checkpoints sent (m # ms) = checkpoints sent ms"

lemma checkpoints_records: "checkpoints sent (map RecordMessage es @ ms) = checkpoints (sent @ map timeless es) ms"
  by (induction es arbitrary: sent) simp_all

lemma checkpoints_page: "checkpoints sent (page_messages L src clock p pg ids stop emitted @ ms) =
    checkpoints (sent @ page_rest L src p pg ids stop) ms"
proof -
  have "page_messages L src clock p pg ids stop emitted = map RecordMessage (map (\<lambda>i. rest_envelope L src (pg_records pg ! i)
      (ids ! i) (rp_url p) (rp_cycle p) (clock (emitted + (i - rp_offset p)))) [rp_offset p..<stop])"
    by (simp add: page_messages_def)
  then show ?thesis by (simp only: checkpoints_records) (simp add: page_rest_def timeless_def rest_envelope_def Let_def comp_def)
qed

lemma page_rest_split:
  assumes "rp_offset p \<le> m" "m \<le> n"
  shows "page_rest L src p pg ids n = page_rest L src p pg ids m @ page_rest L src (p\<lparr>rp_offset := m, rp_page := f\<rparr>) pg ids n"
proof -
  obtain k where "n = m + k" using assms(2) by (auto simp: le_iff_add)
  then show ?thesis by (simp add: page_rest_def upt_add_eq_append [OF assms(1), of k])
qed

text \<open>A checkpoint is where it should be: reading on from it gives what is missing of \<open>whole\<close>, in less.\<close>

definition resumable ::
  "rest_lib \<Rightarrow> rest_source \<Rightarrow> page_map \<Rightarrow> nat \<Rightarrow> envelope list \<Rightarrow> resume_point \<Rightarrow> envelope list \<times> obj \<Rightarrow> bool" where
  "resumable L src P bound whole fin = (\<lambda>(sent, st). \<exists>q. decode_state src st = Inr q \<and> distinct (map fst (rp_field_types q)) \<and>
     (q = fin \<and> sent = whole \<or>
      (\<exists>k rest. cycle_run L src P k q = Some (rest, fin) \<and> whole = sent @ rest \<and> k + length rest < bound)))"

definition cycle_tail ::
  "rest_lib \<Rightarrow> rest_source \<Rightarrow> page_map \<Rightarrow> nat \<Rightarrow> resume_point \<Rightarrow> string option \<Rightarrow> envelope list \<Rightarrow> resume_point \<Rightarrow> bool" where
  "cycle_tail L src P n p2 next_url rest fin =
     (case next_url of None \<Rightarrow> rest = [] \<and> fin = p2
      | Some u \<Rightarrow> request_hash L u \<notin> set (rp_completed p2) \<and> cycle_run L src P n p2 = Some (rest, fin))"

lemma cycle_run_step:
  assumes "int (length (rp_completed p)) < max_completed_hashes" "request_hash L (rp_url p) \<notin> set (rp_completed p)"
    "P (rp_url p) = Inr pg" "admit_page L src p pg = Inr (ids, p1)"
    "cycle_tail L src P n (after_page src p1 (request_hash L (rp_url p1)) (pg_next pg)) (pg_next pg) rest fin"
  shows "cycle_run L src P (Suc n) p = Some (page_rest L src p1 pg ids (length (pg_records pg)) @ rest, fin)"
  using assms by (cases "pg_next pg") (simp_all add: cycle_tail_def Let_def)

lemma cycle_run_SomeE:
  assumes "cycle_run L src P n p = Some (rest, fin)"
  obtains n' pg ids p1 tail where "n = Suc n'" "int (length (rp_completed p)) < max_completed_hashes"
    "request_hash L (rp_url p) \<notin> set (rp_completed p)" "P (rp_url p) = Inr pg" "admit_page L src p pg = Inr (ids, p1)"
    "rest = page_rest L src p1 pg ids (length (pg_records pg)) @ tail"
    "cycle_tail L src P n' (after_page src p1 (request_hash L (rp_url p1)) (pg_next pg)) (pg_next pg) tail fin"
proof -
  obtain n' where n: "n = Suc n'" using assms by (cases n) auto
  have b: "int (length (rp_completed p)) < max_completed_hashes" "request_hash L (rp_url p) \<notin> set (rp_completed p)"
    using assms by (simp_all add: n split: if_splits)
  obtain pg where pg: "P (rp_url p) = Inr pg" using assms b by (cases "P (rp_url p)") (simp_all add: n)
  obtain a where a: "admit_page L src p pg = Inr a" using assms b pg by (cases "admit_page L src p pg") (simp_all add: n)
  obtain ids p1 where p1: "a = (ids, p1)" by fastforce
  have "\<exists>tail. rest = page_rest L src p1 pg ids (length (pg_records pg)) @ tail \<and>
      cycle_tail L src P n' (after_page src p1 (request_hash L (rp_url p1)) (pg_next pg)) (pg_next pg) tail fin"
    using assms b pg a p1 by (cases "pg_next pg") (auto simp: n cycle_tail_def Let_def split: if_splits)
  then show thesis using that [OF n b pg] a p1 by blast
qed

lemma after_page_inv:
  assumes "lib_ok L" "point_inv p" "rs_endpoint_url src \<noteq> []" "next_url \<noteq> Some []"
    "request_hash L url \<notin> set (rp_completed p)"
  shows "point_inv (after_page src p (request_hash L url) next_url)"
proof -
  have "hex64 (request_hash L url)" using assms(1) by (simp add: lib_ok_def request_hash_def)
  then have "list_all hex64 (insort (request_hash L url) (rp_completed p))" if "list_all hex64 (rp_completed p)"
    using that by (simp add: list_all_iff set_insort_key)
  then show ?thesis using assms(2-5)
    by (cases next_url) (simp_all add: after_page_def point_inv_def point_ok_def sorted_insort distinct_insort)
qed

lemma stable_page:
  assumes "lib_ok L" "stable_api L src P okw" "okw w" "P u = Inr pg"
  shows "hex64 (pg_fingerprint pg)" "pg_next pg \<noteq> Some []"
    "\<exists>w1. fetch_page L src u w = (Inr pg, w1) \<and> okw w1"
proof -
  obtain r w1 where f: "fetch_page L src u w = (r, w1)" by fastforce
  with assms(2-4) have "r = Inr pg" "okw w1" by (auto simp: stable_api_def dest!: spec [of _ u])
  with f fetched_page [OF assms(1)] show "hex64 (pg_fingerprint pg)" "pg_next pg \<noteq> Some []"
    "\<exists>w1. fetch_page L src u w = (Inr pg, w1) \<and> okw w1" by blast+
qed

text \<open>One page of the reader, when the rest of the cycle succeeds.\<close>

lemma read_pages_step:
  fixes limit emitted :: nat and clock :: "nat \<Rightarrow> time"
  assumes b: "int (length (rp_completed p)) < max_completed_hashes" "request_hash L (rp_url p) \<notin> set (rp_completed p)"
    and f: "fetch_page L src (rp_url p) w = (Inr pg, w1)" and a: "admit_page L src p pg = Inr (ids, p1)"
  defines "took \<equiv> page_take limit emitted p1 pg"
    and "stop \<equiv> rp_offset p1 + page_take limit emitted p1 pg"
  defines "out \<equiv> page_messages L src clock p1 pg ids stop emitted"
  defines "p2 \<equiv> after_page src p1 (request_hash L (rp_url p1)) (pg_next pg)"
  shows "stop < length (pg_records pg) \<Longrightarrow> read_pages L src clock limit (Suc m) p emitted w =
      (with_state src (p1\<lparr>rp_offset := stop, rp_page := Some (pg_fingerprint pg)\<rparr>) out, w1)"
    "\<not> stop < length (pg_records pg) \<Longrightarrow> pg_next pg = None \<Longrightarrow>
      read_pages L src clock limit (Suc m) p emitted w = (with_state src p2 out, w1)"
    "\<not> stop < length (pg_records pg) \<Longrightarrow> pg_next pg = Some u \<Longrightarrow> request_hash L u \<notin> set (rp_completed p2) \<Longrightarrow>
      encode_state src p2 = Inr st \<Longrightarrow> read_pages L src clock limit (Suc m) p emitted w =
        (if limit \<le> emitted + took then ((out @ [StateMessage (rs_stream src) st], None), w1)
         else (let ((ms, e), w2) = read_pages L src clock limit m p2 (emitted + took) w1
           in ((out @ StateMessage (rs_stream src) st # ms, e), w2)))"
  using b f a unfolding out_def stop_def took_def p2_def by (simp_all add: Let_def)

text \<open>The rest of the cycle from a point inside a page.\<close>

lemma cycle_run_inside:
  assumes b: "int (length (rp_completed p)) < max_completed_hashes" "request_hash L (rp_url p) \<notin> set (rp_completed p)"
    and P: "P (rp_url p) = Inr pg" and a: "admit_page L src p pg = Inr (ids, p1)"
    and t: "cycle_tail L src P n (after_page src p1 (request_hash L (rp_url p1)) (pg_next pg)) (pg_next pg) tail fin"
    and p: "point_inv p" and k: "rs_primary_key src \<noteq> []" and i: "rp_offset p1 < i" "i < length (pg_records pg)"
  defines "q \<equiv> p1\<lparr>rp_offset := i, rp_page := Some (pg_fingerprint pg)\<rparr>"
  shows "cycle_run L src P (Suc n) q = Some (page_rest L src q pg ids (length (pg_records pg)) @ tail, fin)"
proof (rule cycle_run_step)
  have same: "rp_url p1 = rp_url p" "rp_completed p1 = rp_completed p" by (subst admit_page_facts(3) [OF a p k], simp)+
  then show "int (length (rp_completed q)) < max_completed_hashes" "request_hash L (rp_url q) \<notin> set (rp_completed q)"
    "P (rp_url q) = Inr pg" using b P by (simp_all add: q_def)
  show "admit_page L src q pg = Inr (ids, q)" unfolding q_def by (rule admit_page_again [OF a p k]) (use i in simp_all)
  have "after_page src q (request_hash L (rp_url q)) (pg_next pg) = after_page src p1 (request_hash L (rp_url p1)) (pg_next pg)"
    by (simp add: after_page_def q_def split: option.split)
  with t show "cycle_tail L src P n (after_page src q (request_hash L (rp_url q)) (pg_next pg)) (pg_next pg) tail fin" by simp
qed

lemma length_page_rest: "length (page_rest L src p pg ids stop) = stop - rp_offset p"
  by (simp add: page_rest_def)

lemma read_pages_resumable:
  assumes L: "lib_ok L" and api: "stable_api L src P okw" and k: "rs_primary_key src \<noteq> []" and ep: "rs_endpoint_url src \<noteq> []"
  shows "cycle_run L src P n p = Some (rest, fin) \<Longrightarrow> point_inv p \<Longrightarrow> okw w \<Longrightarrow> emitted < limit \<Longrightarrow>
      whole = sent @ rest \<Longrightarrow> n + length rest \<le> bound \<Longrightarrow>
      read_pages L src clock limit m p emitted w = ((ms, e), w') \<Longrightarrow>
      e = None \<and> list_all (resumable L src P bound whole fin) (checkpoints sent ms) \<and>
      (0 < m \<longrightarrow> ms \<noteq> [] \<and> (\<exists>st. List.last ms = StateMessage (rs_stream src) st))"
proof (induction m arbitrary: n p rest w emitted sent ms e w')
  case (Suc m)
  obtain n' pg ids p1 tail where run: "n = Suc n'" "int (length (rp_completed p)) < max_completed_hashes"
    "request_hash L (rp_url p) \<notin> set (rp_completed p)" "P (rp_url p) = Inr pg" "admit_page L src p pg = Inr (ids, p1)"
    "rest = page_rest L src p1 pg ids (length (pg_records pg)) @ tail"
    "cycle_tail L src P n' (after_page src p1 (request_hash L (rp_url p1)) (pg_next pg)) (pg_next pg) tail fin"
    by (rule cycle_run_SomeE [OF Suc.prems(1)])
  obtain w1 where f: "fetch_page L src (rp_url p) w = (Inr pg, w1)" and w1: "okw w1"
    using stable_page(3) [OF L api Suc.prems(3) run(4)] by blast
  note sp = stable_page(1,2) [OF L api Suc.prems(3) run(4)]
  note af = admit_page_facts [OF run(5) Suc.prems(2) k]
  have same: "rp_url p1 = rp_url p" "rp_completed p1 = rp_completed p" by (subst af(3), simp)+
  define took where "took = page_take limit emitted p1 pg"
  define stop where "stop = rp_offset p1 + took"
  let ?all = "length (pg_records pg)"
  let ?p2 = "after_page src p1 (request_hash L (rp_url p1)) (pg_next pg)"
  note step = read_pages_step [OF run(2,3) f run(5), where limit = limit and emitted = emitted and m = m and clock = clock,
      folded took_def, folded stop_def]
  have inv2: "point_inv ?p2"
    by (rule after_page_inv [OF L af(4) ep sp(2)]) (use run(3) same in simp)
  have len2: "int (length (rp_completed ?p2)) \<le> max_completed_hashes"
    using run(2) same by (cases "pg_next pg") (simp_all add: after_page_def)
  show ?case
  proof (cases "stop < ?all")
    case True
    define q where "q = p1\<lparr>rp_offset := stop, rp_page := Some (pg_fingerprint pg)\<rparr>"
    have pos: "rp_offset p1 < stop" using True Suc.prems(4) by (simp add: stop_def took_def page_take_def min_def split: if_splits)
    have q: "point_inv q" using af(4) pos sp(1) by (simp add: q_def point_inv_def point_ok_def)
    then obtain st where st: "encode_state src q = Inr st" "decode_state src st = Inr q"
      using encode_point [of q] run(2) same by (auto simp: q_def)
    have r: "cycle_run L src P n q = Some (page_rest L src q pg ids ?all @ tail, fin)"
      unfolding q_def run(1) by (rule cycle_run_inside [OF run(2-5,7) Suc.prems(2) k pos True])
    have split: "rest = page_rest L src p1 pg ids stop @ (page_rest L src q pg ids ?all @ tail)"
      using page_rest_split [of p1 stop ?all L src pg ids "Some (pg_fingerprint pg)"] pos True run(6) by (simp add: q_def)
    then have "n + length (page_rest L src q pg ids ?all @ tail) < bound"
      using Suc.prems(6) pos by (simp add: length_page_rest)
    moreover have "whole = (sent @ page_rest L src p1 pg ids stop) @ (page_rest L src q pg ids ?all @ tail)"
      using Suc.prems(5) split by simp
    moreover have "distinct (map fst (rp_field_types q))" using q by (simp add: point_inv_def)
    ultimately have "resumable L src P bound whole fin (sent @ page_rest L src p1 pg ids stop, st)"
      unfolding resumable_def prod.case using st(2) r by blast
    then show ?thesis using Suc.prems(7) step(1) [OF True] st(1) by (auto simp: with_state_def checkpoints_page q_def)
  next
    case full: False
    have stop: "stop = ?all" using full af(5) by (auto simp: stop_def took_def page_take_def)
    obtain st where st: "encode_state src ?p2 = Inr st" "decode_state src st = Inr ?p2"
      using encode_point [OF inv2 len2] by blast
    have d2: "distinct (map fst (rp_field_types ?p2))" using inv2 by (simp add: point_inv_def)
    show ?thesis
    proof (cases "pg_next pg")
      case None
      then have "resumable L src P bound whole fin (sent @ page_rest L src p1 pg ids ?all, st)"
        using st(2) d2 run(6,7) Suc.prems(5) by (auto simp: resumable_def cycle_tail_def)
      then show ?thesis using Suc.prems(7) step(2) [OF full None] st(1) stop by (auto simp: with_state_def checkpoints_page)
    next
      case (Some u)
      have t: "request_hash L u \<notin> set (rp_completed ?p2)" "cycle_run L src P n' ?p2 = Some (tail, fin)"
        using run(7) by (simp_all add: Some cycle_tail_def)
      let ?sent = "sent @ page_rest L src p1 pg ids ?all"
      have whole': "whole = ?sent @ tail" and less: "n' + length tail < bound" using Suc.prems(5,6) run(1,6) by simp_all
      have r: "resumable L src P bound whole fin (?sent, st)"
        unfolding resumable_def prod.case using st(2) d2 t(2) whole' less by blast
      note s3 = step(3) [OF full Some t(1) st(1)]
      show ?thesis
      proof (cases "limit \<le> emitted + took")
        case True
        then show ?thesis using Suc.prems(7) s3 r stop by (auto simp: checkpoints_page)
      next
        case False
        obtain ms' e' w2 where rec: "read_pages L src clock limit m ?p2 (emitted + took) w1 = ((ms', e'), w2)"
          by (metis surj_pair)
        have "e' = None \<and> list_all (resumable L src P bound whole fin) (checkpoints ?sent ms') \<and>
            (0 < m \<longrightarrow> ms' \<noteq> [] \<and> (\<exists>st. List.last ms' = StateMessage (rs_stream src) st))"
          by (rule Suc.IH [OF t(2) inv2 w1 _ _ _ rec]) (use False Suc.prems(5,6) run(1,6) in simp_all)
        then show ?thesis using Suc.prems(7) s3 r rec False stop
          by (cases m) (auto simp: checkpoints_page)
      qed
    qed
  qed
qed simp

lemma decode_point:
  assumes d: "decode_state src d = Inr p" and ep: "rs_endpoint_url src \<noteq> []" and dist: "distinct (map fst (rp_field_types p))"
  shows "point_inv p"
proof (cases "d = []")
  case True
  then have "p = start_point (rs_endpoint_url src) 0" using d by (simp add: decode_state_def)
  then show ?thesis using ep by (simp add: start_point_def point_inv_def point_ok_def)
next
  case False
  obtain page keys fields completed where p: "decode_page d (rp_offset p) = Inr page" "decode_key_types d = Inr keys"
      "decode_field_types d = Inr fields" "decode_completed d = Inr completed" "rp_url p \<noteq> []" "0 \<le> rp_cycle p"
      "rp_page p = page" "rp_key_types p = keys" "rp_field_types p = fields" "rp_completed p = completed"
    using d False by (simp add: decode_state_def bind_res_Inr split: if_split_asm json.splits) fastforce+
  have page: "case page of None \<Rightarrow> rp_offset p = 0 | Some f \<Rightarrow> 0 < rp_offset p \<and> hex64 f"
    using p(1) by (auto simp: decode_page_def Let_def split: if_split_asm json.splits)
  have strings: "set (json_strings xs) \<subseteq> set names" if "list_all (\<lambda>x. x \<in> JStr ` set names) xs" for xs names
    using that by (auto simp: json_strings_def list_all_iff)
  have keys: "case keys of None \<Rightarrow> True | Some ts \<Rightarrow> ts \<noteq> [] \<and> set ts \<subseteq> set key_type_names"
    using p(2) strings [of key_type_names]
    by (auto simp: decode_key_types_def json_strings_def bind_res_Inr check_names_Inr split: if_split_asm json.splits)
  have entry: "case f of (path, ts) \<Rightarrow> path \<noteq> [] \<and> hd path = CHR ''/'' \<and> length ts \<le> 1 \<and> set ts \<subseteq> set field_type_names"
    if "decode_field kv = Inr f" for kv f
    using that strings [of field_type_names]
    by (cases kv; cases f) (auto simp: decode_field_def json_strings_def bind_res_Inr check_names_Inr split: if_split_asm json.splits)
  have fields: "list_all (\<lambda>(path, ts). path \<noteq> [] \<and> hd path = CHR ''/'' \<and> length ts \<le> 1 \<and> set ts \<subseteq> set field_type_names) fields
      \<and> sorted (map fst fields)"
  proof (cases "obj_get d ''record_field_types''")
    case (JObj kvs)
    then obtain fs where fs: "map_res decode_field kvs = Inr fs" "fields = sort_key fst fs"
      using p(3) by (auto simp: decode_field_types_def bind_res_Inr)
    have "\<exists>kv. decode_field kv = Inr f" if f: "f \<in> set fs" for f
    proof -
      obtain i where "i < length fs" "fs ! i = f" using f by (auto simp: in_set_conv_nth)
      with fs(1) have "decode_field (kvs ! i) = Inr f" by (auto simp: map_res_Inr_iff list_all2_conv_all_nth)
      then show ?thesis ..
    qed
    then show ?thesis using entry unfolding fs(2) list_all_iff by (simp only: set_sort sorted_sort_key simp_thms) blast
  qed (use p(3) in \<open>simp_all add: decode_field_types_def\<close>)
  have "distinct (json_strings xs)" "list_all hex64 (json_strings xs)"
    if "distinct xs" "list_all (\<lambda>x. case x of JStr s \<Rightarrow> hex64 s | _ \<Rightarrow> False) xs" for xs
    using that by (auto simp: json_strings_def distinct_map inj_on_def list_all_iff split: json.splits)
  then have "list_all hex64 completed \<and> distinct completed \<and> sorted completed"
    using p(4) by (auto simp: decode_completed_def list_all_iff split: if_split_asm json.splits)
  with page keys fields p dist show ?thesis by (simp add: point_inv_def point_ok_def)
qed

lemma read_pages_world: "stable_api L src P okw \<Longrightarrow> okw w \<Longrightarrow> okw (snd (read_pages L src clock limit m p emitted w))"
proof (induction m arbitrary: p emitted w)
  case (Suc m)
  obtain r w1 where f: "fetch_page L src (rp_url p) w = (r, w1)" by fastforce
  with Suc.prems have w1: "okw w1" by (auto simp: stable_api_def dest!: spec [of _ "rp_url p"])
  have ih: "okw (snd (read_pages L src clock limit m q k w1))" for q k by (rule Suc.IH [OF Suc.prems(1) w1])
  show ?case using Suc.prems(2) w1 ih
    by (simp add: f Let_def split: sum.split prod.split option.split) (metis snd_conv)
qed simp

definition last_state :: "source_message list \<Rightarrow> obj \<Rightarrow> obj" where
  "last_state ms st = fold (\<lambda>m s. case m of StateMessage _ st' \<Rightarrow> st' | _ \<Rightarrow> s) ms st"

definition sent_records :: "source_message list \<Rightarrow> envelope list" where
  "sent_records ms = concat (map (\<lambda>m. case m of RecordMessage e \<Rightarrow> [timeless e] | _ \<Rightarrow> []) ms)"

lemma last_checkpoint:
  "ms \<noteq> [] \<Longrightarrow> List.last ms = StateMessage s st \<Longrightarrow> (sent @ sent_records ms, last_state ms st0) \<in> set (checkpoints sent ms)"
proof (induction sent ms arbitrary: st0 rule: checkpoints.induct)
  case (2 sent e ms)
  then show ?case by (cases ms) (simp_all add: sent_records_def last_state_def)
next
  case (3 sent s' st' ms)
  then show ?case by (cases ms) (simp_all add: sent_records_def last_state_def)
qed (auto simp: sent_records_def last_state_def split: if_splits)

text \<open>A caller that reads again and again, each time from the last state it was given.\<close>

fun repeat_reads :: "rest_lib \<Rightarrow> rest_source \<Rightarrow> (nat \<Rightarrow> time) \<Rightarrow> nat \<Rightarrow> obj \<Rightarrow> rest_world \<Rightarrow> envelope list \<times> obj" where
  "repeat_reads L src clock 0 st w = ([], st)"
| "repeat_reads L src clock (Suc k) st w =
     (let ((ms, e), w1) = rest_read L src clock (rs_stream src) st w;
          (es, st') = repeat_reads L src clock k (last_state ms st) w1
      in (sent_records ms @ es, st'))"

text \<open>What both theorems need of the source: keys, a URL, and limits that let it move.\<close>

definition usable_source :: "rest_source \<Rightarrow> bool" where
  "usable_source src \<longleftrightarrow> rs_primary_key src \<noteq> [] \<and> rs_endpoint_url src \<noteq> [] \<and> 0 < rs_max_records src \<and> 0 < rs_max_pages src"

lemma rest_read_run:
  assumes L: "lib_ok L" and api: "stable_api L src P okw" and w: "okw w" and src: "usable_source src"
    and d: "decode_state src state = Inr p" "distinct (map fst (rp_field_types p))"
    and run: "cycle_run L src P n p = Some (whole, fin)"
    and r: "rest_read L src clock (rs_stream src) state w = ((ms, e), w')"
  shows "e = None \<and> list_all (resumable L src P (n + length whole) whole fin) (checkpoints [] ms)"
    "ms \<noteq> [] \<and> (\<exists>st. List.last ms = StateMessage (rs_stream src) st)" "okw w'"
proof -
  have rp: "read_pages L src clock (rs_max_records src) (rs_max_pages src) p 0 w = ((ms, e), w')"
    using r d(1) by (simp add: rest_read_def)
  have p: "point_inv p" using decode_point [OF d(1) _ d(2)] src by (simp add: usable_source_def)
  note k = src [unfolded usable_source_def]
  have "e = None \<and> list_all (resumable L src P (n + length whole) whole fin) (checkpoints [] ms) \<and>
      (0 < rs_max_pages src \<longrightarrow> ms \<noteq> [] \<and> (\<exists>st. List.last ms = StateMessage (rs_stream src) st))"
    by (rule read_pages_resumable [OF L api _ _ run p w _ _ _ rp]) (use k in simp_all)
  with k show "e = None \<and> list_all (resumable L src P (n + length whole) whole fin) (checkpoints [] ms)"
    "ms \<noteq> [] \<and> (\<exists>st. List.last ms = StateMessage (rs_stream src) st)" by simp_all
  show "okw w'" using read_pages_world [OF api w, of clock "rs_max_records src" "rs_max_pages src" p 0] rp by simp
qed

text \<open>C3. A reader that is stopped anywhere loses and repeats nothing: when the rest of a cycle succeeds against
  an API that does not change, a bounded read of it never fails, and from every checkpoint it writes, reading on
  gives exactly the records that the cycle has after those sent before the checkpoint, or the cycle is complete.\<close>

theorem rest_read_resumes:
  assumes "lib_ok L" "stable_api L src P okw" "okw w" "usable_source src"
    and "decode_state src state = Inr p" "distinct (map fst (rp_field_types p))"
    and "cycle_run L src P n p = Some (whole, fin)"
    and "rest_read L src clock (rs_stream src) state w = ((ms, e), w')"
  shows "e = None \<and> list_all (resumable L src P (n + length whole) whole fin) (checkpoints [] ms)"
  by (rule rest_read_run(1) [OF assms])

lemma reads_finish:
  assumes L: "lib_ok L" and api: "stable_api L src P okw" and w: "okw w" and src: "usable_source src"
    and d: "decode_state src state = Inr p" "distinct (map fst (rp_field_types p))"
    and run: "cycle_run L src P n p = Some (whole, fin)"
  shows "\<exists>k st. repeat_reads L src clock k state w = (whole, st) \<and> decode_state src st = Inr fin"
  using w d run
proof (induction "n + length whole" arbitrary: n whole p state w rule: less_induct)
  case less
  obtain ms e w1 where r: "rest_read L src clock (rs_stream src) state w = ((ms, e), w1)" by (metis surj_pair)
  note rr = rest_read_run [OF L api less.prems(1) src less.prems(2-4) r]
  from rr(2) obtain s st where "ms \<noteq> []" "List.last ms = StateMessage s st" by blast
  then have "resumable L src P (n + length whole) whole fin (sent_records ms, last_state ms state)"
    using last_checkpoint [of ms s st "[]" state] rr(1) by (simp add: list_all_iff)
  then obtain q where q: "decode_state src (last_state ms state) = Inr q" "distinct (map fst (rp_field_types q))"
    and more: "q = fin \<and> sent_records ms = whole \<or> (\<exists>k rest. cycle_run L src P k q = Some (rest, fin) \<and>
      whole = sent_records ms @ rest \<and> k + length rest < n + length whole)"
    by (auto simp: resumable_def)
  from more show ?case
  proof
    assume "q = fin \<and> sent_records ms = whole"
    then have "repeat_reads L src clock 1 state w = (whole, last_state ms state)" by (simp add: r)
    with q(1) \<open>q = fin \<and> sent_records ms = whole\<close> show ?thesis by blast
  next
    assume "\<exists>k rest. cycle_run L src P k q = Some (rest, fin) \<and> whole = sent_records ms @ rest \<and> k + length rest < n + length whole"
    then obtain k rest where k: "cycle_run L src P k q = Some (rest, fin)" "whole = sent_records ms @ rest"
      "k + length rest < n + length whole" by blast
    obtain j st' where "repeat_reads L src clock j (last_state ms state) w1 = (rest, st')" "decode_state src st' = Inr fin"
      using less.hyps [OF k(3) rr(3) q k(1)] by blast
    then have "repeat_reads L src clock (Suc j) state w = (whole, st')" by (simp add: r k(2))
    with \<open>decode_state src st' = Inr fin\<close> show ?thesis by blast
  qed
qed

text \<open>C4. Repeated bounded reads finish a cycle: after finitely many of them, each from the last checkpoint of
  the one before, the records sent are those of the whole cycle, in order and once each, and the checkpoint is
  the start of the next cycle.\<close>

theorem repeated_reads_finish:
  assumes "lib_ok L" "stable_api L src P okw" "okw w" "usable_source src"
    and "decode_state src state = Inr p" "distinct (map fst (rp_field_types p))"
    and "cycle_run L src P n p = Some (whole, fin)"
  shows "\<exists>k st. repeat_reads L src clock k state w = (whole, st) \<and> decode_state src st = Inr fin"
  by (rule reads_finish [OF assms])

subsection \<open>What is sent where\<close>

definition url_holds :: "rest_lib \<Rightarrow> string \<Rightarrow> string \<Rightarrow> bool" where
  "url_holds L url c \<longleftrightarrow> (\<exists>u. rl_urlsplit L url = Some u \<and>
     (decoded_component_contains L False (up_path u) c \<or> decoded_component_contains L True (up_query u) c))"

text \<open>A request over TLS or to a loopback host that may be plain, without a user in its URL; a credential goes
  only to the origin of the base URL, in the configured header, and is not in the URL.\<close>

definition safe_request :: "rest_lib \<Rightarrow> rest_source \<Rightarrow> http_request \<Rightarrow> bool" where
  "safe_request L src q \<longleftrightarrow>
     (\<exists>u. rl_urlsplit L (hq_url q) = Some u \<and> up_username u = None \<and> up_password u = None \<and>
        (up_scheme u = ''https'' \<or>
         up_scheme u = ''http'' \<and> rs_allow_http src \<and> is_loopback_host (opt_or (up_hostname u) []))) \<and>
     (hq_headers q = [] \<or>
      (\<exists>c. hq_headers q = auth_headers src (Some c) \<and> rs_auth src \<noteq> AuthNone \<and>
         same_origin L (hq_url q) (rs_base_url src) = Inr True \<and> CHR 0x0D \<notin> set c \<and> CHR 0x0A \<notin> set c \<and>
         \<not> url_holds L (hq_url q) c))"

definition requests_safe :: "rest_lib \<Rightarrow> rest_source \<Rightarrow> rest_world \<Rightarrow> rest_world \<Rightarrow> bool" where
  "requests_safe L src w w' \<longleftrightarrow> (\<exists>new. rw_log w' = rw_log w @ new \<and> list_all (safe_request L src) new)"

lemma requests_safe_refl [simp, intro]: "requests_safe L src w w"
  by (auto simp: requests_safe_def)

lemma requests_safe_trans: "requests_safe L src a b \<Longrightarrow> requests_safe L src b c \<Longrightarrow> requests_safe L src a c"
  by (fastforce simp: requests_safe_def)

lemma attempt_credential_facts:
  assumes "attempt_credential src cross w = Inr (credential, w1)"
  shows "rw_log w1 = rw_log w \<and> (case credential of None \<Rightarrow> True
    | Some c \<Rightarrow> \<not> cross \<and> rs_auth src \<noteq> AuthNone \<and> CHR 0x0D \<notin> set c \<and> CHR 0x0A \<notin> set c \<and> c \<in> set (rw_sent w1))"
  using assms by (auto simp: attempt_credential_def bind_res_Inr resolve_credential_def split: if_splits option.splits)

lemma rejected_credential: "reject_credential_url L cs url = Inr x \<Longrightarrow> c \<in> set cs \<Longrightarrow> \<not> url_holds L url c"
  by (auto simp: reject_credential_url_def url_holds_def list_ex_iff split: option.splits if_splits)

lemma request_from_safe:
  assumes v: "validate_request_url L src url = Inr v" and so: "same_origin L url (rs_base_url src) = Inr (\<not> cross)"
  shows "requests_safe L src w (snd (request_from L src cross url attempt left w))"
proof (induction left arbitrary: attempt w)
  case (Suc left)
  obtain u where u: "rl_urlsplit L url = Some u" "up_username u = None" "up_password u = None"
      "up_scheme u = ''https'' \<or> up_scheme u = ''http'' \<and> rs_allow_http src \<and> is_loopback_host (opt_or (up_hostname u) [])"
    using v by (auto simp: validate_request_url_def split: if_splits option.splits)
  show ?case
  proof (cases "attempt_credential src cross w")
    case (Inr a)
    then obtain credential w1 where a: "attempt_credential src cross w = Inr (credential, w1)" by (cases a) auto
    note ac = attempt_credential_facts [OF a]
    show ?thesis
    proof (cases "reject_credential_url L (rw_sent w1) url")
      case (Inr x)
      have q: "safe_request L src \<lparr>hq_url = url, hq_headers = auth_headers src credential\<rparr>"
      proof (cases credential)
        case None
        then show ?thesis using u by (auto simp: safe_request_def auth_headers_def)
      next
        case (Some c)
        then have "\<not> url_holds L url c" using rejected_credential [OF Inr] ac by auto
        then show ?thesis using u so ac Some by (auto simp: safe_request_def)
      qed
      obtain r w2 where s: "send url (auth_headers src credential) w1 = (r, w2)" by fastforce
      have w2: "requests_safe L src w w2" using s ac q by (auto simp: send_def requests_safe_def)
      have later: "requests_safe L src w (snd (request_from L src cross url (Suc attempt) left (w2\<lparr>rw_sleeps := t\<rparr>)))" for t
        by (rule requests_safe_trans [OF _ Suc.IH]) (use w2 in \<open>simp add: requests_safe_def\<close>)
      show ?thesis using w2 later
        by (simp add: a Inr s split: option.split sum.split)
    qed (use ac a in \<open>simp add: requests_safe_def\<close>)
  qed simp
qed simp

lemma fetch_page_safe: "requests_safe L src w (snd (fetch_page L src url w))"
proof -
  have "requests_safe L src w (snd (rest_request L src url w))"
  proof (cases "bind_res (validate_request_url L src url) (\<lambda>_. same_origin L url (rs_base_url src))")
    case (Inr same)
    then obtain v where "validate_request_url L src url = Inr v" "same_origin L url (rs_base_url src) = Inr (\<not> \<not> same)"
      by (auto simp: bind_res_Inr)
    from request_from_safe [OF this] show ?thesis by (simp add: rest_request_def Inr del: request_from.simps)
  qed (simp add: rest_request_def)
  then show ?thesis by (auto simp: fetch_page_def split: prod.split sum.split)
qed

lemma read_pages_safe: "requests_safe L src w (snd (read_pages L src clock limit m p emitted w))"
proof (induction m arbitrary: p emitted w)
  case (Suc m)
  obtain r w1 where f: "fetch_page L src (rp_url p) w = (r, w1)" by fastforce
  have w1: "requests_safe L src w w1" using fetch_page_safe [of L src w "rp_url p"] f by simp
  have ih: "requests_safe L src w (snd (read_pages L src clock limit m q k w1))" for q k
    by (rule requests_safe_trans [OF w1 Suc.IH])
  show ?case using w1 ih
    by (simp add: f Let_def split: sum.split prod.split option.split) (metis snd_conv)
qed simp

text \<open>C18. Whatever the server answers and whatever checkpoint a read starts from, every request of the read is
  over TLS (or to a loopback host where plain HTTP is allowed) and has no user in its URL, and a credential is
  sent only to the origin of the base URL, in its header, and never in a URL.\<close>

theorem rest_credentials_stay_home:
  "requests_safe L src w (snd (rest_read L src clock stream state w))"
  using read_pages_safe by (auto simp: rest_read_def split: sum.split)

subsection \<open>A service of two pages\<close>

text \<open>Answers that do not depend on the attempt make a stable API, with no credential.\<close>

definition fixed_world :: "(string \<Rightarrow> http_response option) \<Rightarrow> rest_world" where
  "fixed_world web = \<lparr>rw_web = (\<lambda>_. web), rw_secret = (\<lambda>_. None), rw_sent = [], rw_log = [], rw_sleeps = []\<rparr>"

definition fixed_api :: "rest_lib \<Rightarrow> rest_source \<Rightarrow> (string \<Rightarrow> http_response option) \<Rightarrow> page_map" where
  "fixed_api L src web url = fst (fetch_page L src url (fixed_world web))"

definition same_web :: "(string \<Rightarrow> http_response option) \<Rightarrow> rest_world \<Rightarrow> bool" where
  "same_web web w \<longleftrightarrow> rw_web w = (\<lambda>_. web) \<and> rw_sent w = []"

lemma request_once:
  assumes a: "rs_auth src = AuthNone" and web: "\<And>r. web url = Some r \<Longrightarrow> \<not> retryable (hr_status r)" and w: "same_web web w"
  shows "request_from L src cross url 0 (Suc n) w =
    (case reject_credential_url L [] url of Inl e \<Rightarrow> (Inl e, w) | Inr _ \<Rightarrow>
      ((case web url of None \<Rightarrow> Inl (ConfigurationError ''REST request failed before receiving a response'')
        | Some r \<Rightarrow> (case status_error (hr_status r) of Some e \<Rightarrow> Inl e | None \<Rightarrow> Inr r)),
       w\<lparr>rw_log := rw_log w @ [\<lparr>hq_url = url, hq_headers = auth_headers src None\<rparr>]\<rparr>))"
proof (cases "web url")
  case None
  then show ?thesis using a w by (simp add: same_web_def attempt_credential_def send_def split: sum.split)
next
  case (Some r)
  then show ?thesis using a w web [OF Some]
    by (simp add: same_web_def attempt_credential_def send_def split: sum.split option.split)
qed

lemma request_from_fixed:
  assumes "rs_auth src = AuthNone" "\<And>u r. web u = Some r \<Longrightarrow> \<not> retryable (hr_status r)" "same_web web w"
  shows "fst (request_from L src cross url 0 (Suc n) w) = fst (request_from L src cross url 0 (Suc n) (fixed_world web))"
    "same_web web (snd (request_from L src cross url 0 (Suc n) w))"
proof -
  have w0: "same_web web (fixed_world web)" by (simp add: same_web_def fixed_world_def)
  have nr: "\<And>r. web url = Some r \<Longrightarrow> \<not> retryable (hr_status r)" by (rule assms(2))
  note once = request_once [where web = web and url = url, OF assms(1) nr]
  show "fst (request_from L src cross url 0 (Suc n) w) = fst (request_from L src cross url 0 (Suc n) (fixed_world web))"
    by (simp add: once [OF _ assms(3)] once [OF _ w0] del: request_from.simps split: sum.split)
  show "same_web web (snd (request_from L src cross url 0 (Suc n) w))"
    using assms(3) by (simp add: once [OF _ assms(3)] same_web_def del: request_from.simps split: sum.split)
qed

lemma fixed_api_stable:
  assumes a: "rs_auth src = AuthNone" and web: "\<And>u r. web u = Some r \<Longrightarrow> \<not> retryable (hr_status r)"
  shows "stable_api L src (fixed_api L src web) (same_web web)"
  unfolding stable_api_def
proof (intro allI impI)
  fix url w assume w: "same_web web w"
  have w0: "same_web web (fixed_world web)" by (simp add: same_web_def fixed_world_def)
  have r: "fst (rest_request L src url w) = fst (rest_request L src url (fixed_world web))"
    "same_web web (snd (rest_request L src url w))" "same_web web (snd (rest_request L src url (fixed_world web)))"
    using request_from_fixed [OF a web w] request_from_fixed [OF a web w0] w w0
    by (simp_all add: rest_request_def del: request_from.simps split: sum.split)
  obtain x w1 where x: "rest_request L src url w = (x, w1)" by fastforce
  obtain w2 where y: "rest_request L src url (fixed_world web) = (x, w2)" using r(1) x by (metis fst_conv surj_pair)
  show "fst (fetch_page L src url w) = fixed_api L src web url \<and> same_web web (snd (fetch_page L src url w))"
    using r(2,3) by (simp add: fetch_page_def fixed_api_def x y same_web_def split: sum.split)
qed

definition demo_split :: "string \<Rightarrow> url_parts option" where
  "demo_split u = (let https = (take 8 u = ''https://''); rest = (if https then drop 8 u else []);
       host = takeWhile (\<lambda>c. c \<noteq> CHR ''/'') rest; tail = (if https then dropWhile (\<lambda>c. c \<noteq> CHR ''/'') rest else u)
     in Some \<lparr>up_scheme = (if https then ''https'' else []), up_netloc = host, up_path = takeWhile (\<lambda>c. c \<noteq> CHR ''?'') tail,
       up_query = drop 1 (dropWhile (\<lambda>c. c \<noteq> CHR ''?'') tail), up_fragment = [],
       up_hostname = (if host = [] then None else Some host), up_username = None, up_password = None,
       up_port = Some None\<rparr>)"

definition demo_digest :: "string \<Rightarrow> string" where
  "demo_digest s = char_of (48 + length s mod 10) # replicate 63 CHR ''0''"

definition demo_rest_lib :: rest_lib where
  "demo_rest_lib = \<lparr>rl_urlsplit = demo_split,
     rl_urlunsplit = (\<lambda>(scheme, netloc, path, query). scheme @ ''://'' @ netloc @ path @ (if query = [] then [] else CHR ''?'' # query)),
     rl_urljoin = (\<lambda>base u. Some u), rl_parse_qsl = (\<lambda>q. if q = [] then [] else [(takeWhile (\<lambda>c. c \<noteq> CHR ''='') q, [])]),
     rl_urlencode = (\<lambda>kvs. concat (map (\<lambda>(k, v). k @ ''='' @ v) kvs)), rl_unquote = id, rl_unquote_plus = id,
     rl_retry_seconds = (\<lambda>_. None), rl_dumps = (\<lambda>v. case v of JList [JObj [_, (_, JInt n)]] \<Rightarrow> int_str n | _ \<Rightarrow> ''page''),
     rl_text = demo_text\<lparr>tx_sha := demo_digest, tx_repr := (\<lambda>_. ''abc'')\<rparr>\<rparr>"

definition demo_rest_source :: rest_source where
  "demo_rest_source = \<lparr>rs_base_url = ''https://a'', rs_path = ''/x'', rs_stream = ''s'', rs_records_path = [''d''],
     rs_primary_key = [''id''], rs_pagination = PageCursor, rs_next_cursor_path = [''n''], rs_cursor_param = ''c'',
     rs_query_params = [], rs_auth = AuthNone, rs_has_secret = False, rs_api_key_header = ''X-API-Key'',
     rs_allow_http = False, rs_cross_origin_next = False, rs_max_pages = 5, rs_max_records = 1, rs_max_retries = 2,
     rs_endpoint_url = ''https://a/x'', rs_fingerprint = ''f''\<rparr>"

definition demo_rest_web :: "string \<Rightarrow> http_response option" where
  "demo_rest_web url = Some \<lparr>hr_status = 200, hr_headers = Some [], hr_body = Some (JObj
     (if url = ''https://a/x''
      then [(''d'', JList [JObj [(''id'', JInt 1), (''v'', JBool True)], JObj [(''id'', JInt 2), (''v'', JNull)]]), (''n'', JStr ''abc'')]
      else [(''d'', JList [JObj [(''id'', JInt 3), (''v'', JBool False)]])]))\<rparr>"

definition demo_cycle :: "(envelope list \<times> resume_point) option" where
  "demo_cycle = cycle_run demo_rest_lib demo_rest_source (fixed_api demo_rest_lib demo_rest_source demo_rest_web) 2
     (start_point ''https://a/x'' 0)"

lemma demo_rest_facts:
  "lib_ok demo_rest_lib" "usable_source demo_rest_source"
  "stable_api demo_rest_lib demo_rest_source (fixed_api demo_rest_lib demo_rest_source demo_rest_web) (same_web demo_rest_web)"
  "same_web demo_rest_web (fixed_world demo_rest_web)"
proof -
  have d: "hex64 (demo_digest s)" for s
  proof -
    have "length s mod 10 \<in> {0, 1, 2, 3, 4, 5, 6, 7, 8, 9}" by (simp only: insert_iff empty_iff) presburger
    then show ?thesis by (auto simp: demo_digest_def hex64_def list_all_iff is_digit_def)
  qed
  then show "lib_ok demo_rest_lib"
    by (simp add: lib_ok_def demo_rest_lib_def demo_split_def Let_def opt_or_def)
  show "usable_source demo_rest_source" by (simp add: usable_source_def demo_rest_source_def)
  show "stable_api demo_rest_lib demo_rest_source (fixed_api demo_rest_lib demo_rest_source demo_rest_web) (same_web demo_rest_web)"
    by (rule fixed_api_stable) (auto simp: demo_rest_source_def demo_rest_web_def retryable_def)
  show "same_web demo_rest_web (fixed_world demo_rest_web)" by (simp add: same_web_def fixed_world_def)
qed

lemma demo_cycle_records: "map_option (\<lambda>(rs, fin). (map en_cursor rs, rp_url fin, rp_cycle fin)) demo_cycle =
    Some ([Some ''1'', Some ''2'', Some ''3''], ''https://a/x'', 1)"
  by code_simp

lemma demo_cycle_run:
  obtains whole fin where "cycle_run demo_rest_lib demo_rest_source (fixed_api demo_rest_lib demo_rest_source demo_rest_web) 2
      (start_point ''https://a/x'' 0) = Some (whole, fin)" "map en_cursor whole = [Some ''1'', Some ''2'', Some ''3'']"
    "rp_url fin = ''https://a/x''" "rp_cycle fin = 1"
  using demo_cycle_records unfolding demo_cycle_def by (auto split: option.splits)

lemma demo_start: "decode_state demo_rest_source [] = Inr (start_point ''https://a/x'' 0)"
  "distinct (map fst (rp_field_types (start_point ''https://a/x'' 0)))"
  by (simp_all add: decode_state_def demo_rest_source_def start_point_def)

theorem rest_read_resumes_witness:
  "\<exists>whole fin ms w'. map en_cursor whole = [Some ''1'', Some ''2'', Some ''3''] \<and>
     rest_read demo_rest_lib demo_rest_source int ''s'' [] (fixed_world demo_rest_web) = ((ms, None), w') \<and>
     list_all (resumable demo_rest_lib demo_rest_source (fixed_api demo_rest_lib demo_rest_source demo_rest_web) 5 whole fin)
       (checkpoints [] ms)"
proof -
  obtain whole fin where run: "cycle_run demo_rest_lib demo_rest_source (fixed_api demo_rest_lib demo_rest_source demo_rest_web) 2
      (start_point ''https://a/x'' 0) = Some (whole, fin)" "map en_cursor whole = [Some ''1'', Some ''2'', Some ''3'']"
    by (rule demo_cycle_run)
  have stream: "rs_stream demo_rest_source = ''s''" by (simp add: demo_rest_source_def)
  obtain ms e w' where r: "rest_read demo_rest_lib demo_rest_source int (rs_stream demo_rest_source) [] (fixed_world demo_rest_web) = ((ms, e), w')"
    by (metis surj_pair)
  have "length (map en_cursor whole) = 3" using run(2) by simp
  then have "2 + length whole = 5" by simp
  with rest_read_resumes [OF demo_rest_facts(1,3,4,2) demo_start run(1) r] r stream
  have "rest_read demo_rest_lib demo_rest_source int ''s'' [] (fixed_world demo_rest_web) = ((ms, None), w')"
    "list_all (resumable demo_rest_lib demo_rest_source (fixed_api demo_rest_lib demo_rest_source demo_rest_web) 5 whole fin)
       (checkpoints [] ms)" by simp_all
  with run(2) show ?thesis
    by (intro exI [of _ whole] exI [of _ fin] exI [of _ ms] exI [of _ w'] conjI)
qed

theorem repeated_reads_finish_witness:
  "\<exists>k st whole fin. map en_cursor whole = [Some ''1'', Some ''2'', Some ''3''] \<and> rp_cycle fin = 1 \<and>
     repeat_reads demo_rest_lib demo_rest_source int k [] (fixed_world demo_rest_web) = (whole, st) \<and>
     decode_state demo_rest_source st = Inr fin"
proof -
  obtain whole fin where run: "cycle_run demo_rest_lib demo_rest_source (fixed_api demo_rest_lib demo_rest_source demo_rest_web) 2
      (start_point ''https://a/x'' 0) = Some (whole, fin)" "map en_cursor whole = [Some ''1'', Some ''2'', Some ''3'']"
      "rp_cycle fin = 1"
    by (rule demo_cycle_run)
  obtain k st where "repeat_reads demo_rest_lib demo_rest_source int k [] (fixed_world demo_rest_web) = (whole, st)"
      "decode_state demo_rest_source st = Inr fin"
    using repeated_reads_finish [OF demo_rest_facts(1,3,4,2) demo_start run(1), of int] by (elim exE conjE)
  then show ?thesis using run(2,3)
    by (intro exI [of _ k] exI [of _ st] exI [of _ whole] exI [of _ fin] conjI)
qed

text \<open>A checkpoint round-trips: the state that the reader writes for a well-formed point is read back as that
  point, and whatever state is accepted (with no path twice) is a well-formed point.\<close>

theorem checkpoint_round_trip:
  "(point_inv p \<and> encode_state src p = Inr d \<longrightarrow> decode_state src d = Inr p) \<and>
   (rs_endpoint_url src \<noteq> [] \<and> decode_state src d = Inr q \<and> distinct (map fst (rp_field_types q)) \<longrightarrow> point_inv q)"
  using decode_encoded [of p src d] decode_point [of src d q] unfolding point_inv_def by blast

theorem checkpoint_round_trip_witness:
  "point_inv (start_point ''https://a/x'' 3) \<and>
   decode_state demo_rest_source (case encode_state demo_rest_source (start_point ''https://a/x'' 3) of Inr d \<Rightarrow> d | Inl _ \<Rightarrow> [])
     = Inr (start_point ''https://a/x'' 3)"
proof -
  have p: "point_inv (start_point ''https://a/x'' 3)" by (simp add: point_inv_def point_ok_def start_point_def)
  obtain d where "encode_state demo_rest_source (start_point ''https://a/x'' 3) = Inr d"
    by (simp add: encode_state_def start_point_def max_completed_hashes_def)
  with p checkpoint_round_trip [of "start_point ''https://a/x'' 3" demo_rest_source d] show ?thesis by simp
qed

end
