(* ===== verification/SdkRestConfig.thy ===== *)
theory SdkRestConfig
  imports SdkRest
begin

text \<open>
  The constructor of the REST source with its checks, the connection check, and discovery with the
  inferred JSON schema (SDK \<open>sources/rest.py\<close>). The meaning of the schema keywords that the inference
  uses is \<open>conforms\<close>.
\<close>

subsection \<open>Construction\<close>

datatype secret_arg = NoSecret | SecretReference | OtherSecret

text \<open>Arguments that the constructor checks for their type are JSON values.\<close>

record rest_config =
  cf_base_url :: string
  cf_path :: string
  cf_stream :: json
  cf_records_path :: json
  cf_primary_key :: json
  cf_pagination :: string
  cf_next_cursor_path :: json
  cf_cursor_param :: string
  cf_query_params :: obj
  cf_auth_type :: string
  cf_secret :: secret_arg
  cf_api_key_header :: json
  cf_allow_http :: json
  cf_cross_origin_next :: json
  cf_max_pages :: json
  cf_max_records :: json
  cf_max_retries :: json
  cf_timeout :: json
  cf_client :: bool

definition need :: "bool \<Rightarrow> string \<Rightarrow> sdk_error + unit" where
  "need ok msg = (if ok then Inr () else Inl (ConfigurationError msg))"

definition rest_stream_name :: "json \<Rightarrow> bool" where
  "rest_stream_name v = (case v of
     JStr s \<Rightarrow> s \<noteq> [] \<and> ascii_alnum (hd s) \<and> list_all (\<lambda>c. ascii_alnum c \<or> c \<in> {CHR ''.'', CHR ''_'', CHR ''-''}) (tl s)
   | _ \<Rightarrow> False)"

definition rest_header_name :: "json \<Rightarrow> bool" where
  "rest_header_name v = (case v of
     JStr s \<Rightarrow> s \<noteq> [] \<and> list_all (\<lambda>c. ascii_alnum c \<or> c \<in> set ''!#$%&*+.^_|~-'' \<or> c = CHR 0x27 \<or> c = CHR 0x60) s
   | _ \<Rightarrow> False)"

definition positive_int :: "json \<Rightarrow> string \<Rightarrow> sdk_error + nat" where
  "positive_int v field = (case v of
     JInt n \<Rightarrow> if n < 1 then Inl (ConfigurationError (''REST '' @ field @ '' must be a positive integer'')) else Inr (nat n)
   | _ \<Rightarrow> Inl (ConfigurationError (''REST '' @ field @ '' must be a positive integer'')))"

text \<open>An integer that is too large for a float raises when it is converted.\<close>

definition check_timeout :: "json \<Rightarrow> sdk_error + unit" where
  "check_timeout v = (case v of
     JInt n \<Rightarrow> if 2 ^ 1024 - 2 ^ 970 \<le> \<bar>n\<bar> then Inl (Foreign ''OverflowError'')
               else need (0 < n) ''REST request_timeout must be a positive finite number''
   | JFloat w \<Rightarrow> need (\<not> nonfinite w \<and> w \<noteq> 0 \<and> \<not> bit w 63) ''REST request_timeout must be a positive finite number''
   | _ \<Rightarrow> need False ''REST request_timeout must be a positive finite number'')"

definition pagination_of :: "string \<Rightarrow> pagination option" where
  "pagination_of s = (if s = ''none'' then Some PageNone else if s = ''cursor'' then Some PageCursor
     else if s = ''link'' then Some PageLink else None)"

definition auth_of :: "string \<Rightarrow> auth_type option" where
  "auth_of s = (if s = ''none'' then Some AuthNone else if s = ''bearer'' then Some AuthBearer
     else if s = ''api_key'' then Some AuthApiKey else None)"

definition configuration_fingerprint :: "rest_lib \<Rightarrow> rest_config \<Rightarrow> rest_source \<Rightarrow> string" where
  "configuration_fingerprint L cf src = rl_sha L (rl_dumps L (sorted_json (JObj
     [(''base_url'', JStr (rs_base_url src)), (''path'', JStr (rs_path src)), (''stream'', JStr (rs_stream src)),
      (''records_path'', JList (map JStr (rs_records_path src))), (''primary_key'', JList (map JStr (rs_primary_key src))),
      (''pagination'', JStr (cf_pagination cf)), (''next_cursor_path'', JList (map JStr (rs_next_cursor_path src))),
      (''cursor_param'', JStr (rs_cursor_param src)), (''query_params'', JObj (rs_query_params src)),
      (''auth_type'', JStr (cf_auth_type cf)), (''api_key_header'', JStr (rs_api_key_header src))])))"

definition json_text :: "json \<Rightarrow> string" where
  "json_text v = (case v of JStr s \<Rightarrow> s | _ \<Rightarrow> [])"

definition bool_arg :: "json \<Rightarrow> bool" where
  "bool_arg v = (case v of JBool _ \<Rightarrow> True | _ \<Rightarrow> False)"

definition check_auth :: "rest_config \<Rightarrow> sdk_error + auth_type" where
  "check_auth cf =
     (case auth_of (cf_auth_type cf) of
        None \<Rightarrow> Inl (ConfigurationError (''REST auth_type must be '' @ py_quote ''none'' @ '', '' @ py_quote ''bearer'' @ '', or '' @ py_quote ''api_key''))
      | Some auth \<Rightarrow>
          bind_res (need (auth \<noteq> AuthNone \<or> cf_secret cf = NoSecret) ''REST secret requires bearer or api_key authentication'') (\<lambda>_.
          bind_res (need (auth = AuthNone \<or> cf_secret cf = SecretReference)
            ''REST bearer and api_key authentication require SecretRef'') (\<lambda>_.
          bind_res (need (rest_header_name (cf_api_key_header cf)) ''REST api_key_header is not a safe HTTP header name'') (\<lambda>_.
            Inr auth))))"

definition check_limits :: "rest_config \<Rightarrow> sdk_error + (nat \<times> nat \<times> nat)" where
  "check_limits cf =
     bind_res (positive_int (cf_max_pages cf) ''max_pages'') (\<lambda>pages.
     bind_res (positive_int (cf_max_records cf) ''max_records'') (\<lambda>records.
     bind_res (case cf_max_retries cf of JInt n \<Rightarrow> need (0 \<le> n) ''REST max_retries must be a non-negative integer''
       | _ \<Rightarrow> need False ''REST max_retries must be a non-negative integer'') (\<lambda>_.
     bind_res (check_timeout (cf_timeout cf)) (\<lambda>_.
       Inr (pages, records, case cf_max_retries cf of JInt n \<Rightarrow> nat n | _ \<Rightarrow> 0)))))"

definition check_cursor :: "pagination \<Rightarrow> rest_config \<Rightarrow> sdk_error + (string list \<times> string)" where
  "check_cursor paging cf =
     bind_res (normalize_data_path (cf_next_cursor_path cf) ''next_cursor_path'') (\<lambda>cursor_path.
     bind_res (need (paging \<noteq> PageCursor \<or> cursor_path \<noteq> []) ''REST cursor pagination requires next_cursor_path'') (\<lambda>_.
     bind_res (validate_parameter_name (cf_cursor_param cf) ''cursor_param'') (\<lambda>cursor.
     bind_res (need (is_sensitive_query_name cursor \<longrightarrow> is_pagination_token_query_name cursor)
       ''REST cursor_param must be a pagination parameter, not a credential name'') (\<lambda>_.
       Inr (cursor_path, cursor)))))"

definition rest_init :: "rest_lib \<Rightarrow> rest_config \<Rightarrow> sdk_error + rest_source" where
  "rest_init L cf =
     bind_res (need (bool_arg (cf_allow_http cf)) ''REST allow_http must be a boolean'') (\<lambda>_.
     bind_res (need (bool_arg (cf_cross_origin_next cf)) ''REST allow_cross_origin_next must be a boolean'') (\<lambda>_.
     let plain = (cf_allow_http cf = JBool True); cross = (cf_cross_origin_next cf = JBool True) in
     bind_res (need (\<not> (cross \<and> cf_client cf)) ''REST cross-origin pagination cannot use an injected HTTP client'') (\<lambda>_.
     bind_res (validate_base_url L plain (cf_base_url cf)) (\<lambda>base.
     bind_res (validate_path L (cf_path cf)) (\<lambda>path.
     bind_res (need (rest_stream_name (cf_stream cf)) (''REST stream must start with an alphanumeric character and contain only '' @
       ''letters, numbers, dots, underscores, or hyphens'')) (\<lambda>_.
     bind_res (normalize_data_path (cf_records_path cf) ''records_path'') (\<lambda>records_path.
     bind_res (normalize_primary_key (cf_primary_key cf)) (\<lambda>primary_key.
     bind_res (case pagination_of (cf_pagination cf) of None \<Rightarrow>
         Inl (ConfigurationError (''REST pagination must be '' @ py_quote ''none'' @ '', '' @ py_quote ''cursor'' @ '', or '' @
           py_quote ''link'')) | Some paging \<Rightarrow> Inr paging) (\<lambda>paging.
     bind_res (check_cursor paging cf) (\<lambda>cursor.
     bind_res (validate_query_params (cf_query_params cf) (snd cursor)) (\<lambda>params.
     bind_res (check_auth cf) (\<lambda>auth.
     bind_res (check_limits cf) (\<lambda>limits.
       let src = \<lparr>rs_base_url = base, rs_path = path, rs_stream = json_text (cf_stream cf), rs_records_path = records_path,
             rs_primary_key = primary_key, rs_pagination = paging, rs_next_cursor_path = fst cursor,
             rs_cursor_param = snd cursor, rs_query_params = params, rs_auth = auth, rs_has_secret = (cf_secret cf = SecretReference),
             rs_api_key_header = json_text (cf_api_key_header cf), rs_allow_http = plain, rs_cross_origin_next = cross,
             rs_max_pages = fst limits, rs_max_records = fst (snd limits), rs_max_retries = snd (snd limits),
             rs_endpoint_url = append_query L (strip_slashes_right base @ ''/'' @ strip_slashes_left path) params,
             rs_fingerprint = []\<rparr>
       in Inr (src\<lparr>rs_fingerprint := configuration_fingerprint L cf src\<rparr>))))))))))))))"

lemma need_Inr [simp]: "need b m = Inr x \<longleftrightarrow> b"
  by (simp add: need_def)

lemma primary_key_facts: "normalize_primary_key v = Inr ks \<Longrightarrow> ks \<noteq> [] \<and> distinct ks"
  by (auto simp: normalize_primary_key_def bind_res_Inr map_res_Inr_iff split: json.splits if_splits)

lemma positive_int_facts: "positive_int v f = Inr n \<Longrightarrow> 0 < n"
  by (auto simp: positive_int_def split: json.splits if_splits)

lemma query_params_facts:
  "validate_query_params kvs cursor = Inr params \<Longrightarrow>
     params = kvs \<and> list_all (\<lambda>(k, v). \<not> is_sensitive_query_name k \<and> k \<noteq> cursor \<and> parameter_name k) kvs"
  by (induction kvs arbitrary: params)
    (auto simp: bind_res_Inr validate_parameter_name_def split: if_splits)

lemma check_cursor_facts: "check_cursor paging cf = Inr (path, cursor) \<Longrightarrow> paging = PageCursor \<Longrightarrow> path \<noteq> []"
  by (auto simp: check_cursor_def bind_res_Inr)

lemma check_auth_facts: "check_auth cf = Inr auth \<Longrightarrow> auth = AuthNone \<longleftrightarrow> cf_secret cf \<noteq> SecretReference"
  by (auto simp: check_auth_def bind_res_Inr split: option.splits)

lemma check_limits_facts: "check_limits cf = Inr (pages, records, retries) \<Longrightarrow> 0 < pages \<and> 0 < records"
  by (auto simp: check_limits_def bind_res_Inr dest: positive_int_facts)

text \<open>Documented behaviour: a URL put together with a query is not empty.\<close>

definition url_lib_ok :: "rest_lib \<Rightarrow> bool" where
  "url_lib_ok L \<longleftrightarrow> (\<forall>parts. rl_urlunsplit L parts \<noteq> []) \<and> (\<forall>u. u \<noteq> [] \<longrightarrow> rl_urlsplit L u \<noteq> None)"

definition well_configured :: "rest_source \<Rightarrow> bool" where
  "well_configured src \<longleftrightarrow> usable_source src \<and> distinct (rs_primary_key src) \<and>
     (rs_auth src \<noteq> AuthNone \<longleftrightarrow> rs_has_secret src) \<and> (rs_pagination src = PageCursor \<longrightarrow> rs_next_cursor_path src \<noteq> []) \<and>
     list_all (\<lambda>(k, v). \<not> is_sensitive_query_name k \<and> k \<noteq> rs_cursor_param src) (rs_query_params src)"

lemma append_query_nonempty: "url_lib_ok L \<Longrightarrow> url \<noteq> [] \<Longrightarrow> append_query L url kvs \<noteq> []"
  by (auto simp: append_query_def url_lib_ok_def split: option.split)

lemma rest_init_ok:
  assumes L: "url_lib_ok L" and init: "rest_init L cf = Inr src"
  shows "well_configured src"
proof -
  obtain base path key paging cursor params auth limits where
      p: "normalize_primary_key (cf_primary_key cf) = Inr key" "check_cursor paging cf = Inr cursor"
        "validate_query_params (cf_query_params cf) (snd cursor) = Inr params" "check_auth cf = Inr auth"
        "check_limits cf = Inr limits"
    and src: "rs_primary_key src = key" "rs_pagination src = paging" "rs_next_cursor_path src = fst cursor"
        "rs_cursor_param src = snd cursor" "rs_query_params src = params" "rs_auth src = auth"
        "rs_has_secret src \<longleftrightarrow> cf_secret cf = SecretReference" "rs_max_pages src = fst limits"
        "rs_max_records src = fst (snd limits)"
        "rs_endpoint_url src = append_query L (strip_slashes_right base @ ''/'' @ strip_slashes_left path) params"
    using init unfolding rest_init_def Let_def bind_res_Inr need_Inr by (elim exE conjE) (drule sym, simp)
  have "paging = PageCursor \<longrightarrow> fst cursor \<noteq> []" using check_cursor_facts [of paging cf "fst cursor" "snd cursor"] p(2) by auto
  moreover have "list_all (\<lambda>(k, v). \<not> is_sensitive_query_name k \<and> k \<noteq> snd cursor) params"
    using query_params_facts [OF p(3)] by (auto simp: list_all_iff)
  moreover have "0 < fst limits \<and> 0 < fst (snd limits)"
    using check_limits_facts [of cf "fst limits" "fst (snd limits)" "snd (snd limits)"] p(5) by simp
  ultimately show ?thesis
    using primary_key_facts [OF p(1)] check_auth_facts [OF p(4)] append_query_nonempty [OF L]
    by (simp add: well_configured_def usable_source_def src)
qed

subsection \<open>Check and discovery\<close>

text \<open>The first page and what it must satisfy.\<close>

definition first_page :: "rest_lib \<Rightarrow> rest_source \<Rightarrow> rest_world \<Rightarrow> (sdk_error + rest_page) \<times> rest_world" where
  "first_page L src w =
     (case fetch_page L src (rs_endpoint_url src) w of
        (Inl e, w1) \<Rightarrow> (Inl e, w1)
      | (Inr pg, w1) \<Rightarrow>
          (bind_res (validate_page_identities L src (pg_records pg) None) (\<lambda>_.
           bind_res (merge_record_field_types [] (record_field_types (pg_records pg))) (\<lambda>_. Inr pg)), w1))"

definition ingestion_error :: "sdk_error \<Rightarrow> string option" where
  "ingestion_error e = (case e of ConfigurationError m \<Rightarrow> Some m | ProtocolError m \<Rightarrow> Some m | AuthenticationError m \<Rightarrow> Some m
     | PermissionDeniedError m \<Rightarrow> Some m | RateLimitError m \<Rightarrow> Some m | _ \<Rightarrow> None)"

definition rest_check :: "rest_lib \<Rightarrow> rest_source \<Rightarrow> rest_world \<Rightarrow> (sdk_error + (bool \<times> string)) \<times> rest_world" where
  "rest_check L src w =
     (case first_page L src w of
        (Inr pg, w1) \<Rightarrow> (Inr (True, ''REST endpoint and response shape are valid''), w1)
      | (Inl e, w1) \<Rightarrow> ((case ingestion_error e of Some m \<Rightarrow> Inr (False, m) | None \<Rightarrow> Inl e), w1))"

definition objects_of :: "json list \<Rightarrow> obj list" where
  "objects_of vs = concat (map (\<lambda>v. case v of JObj d \<Rightarrow> [d] | _ \<Rightarrow> []) vs)"

definition children_of :: "json list \<Rightarrow> json list" where
  "children_of vs = concat (map (\<lambda>v. case v of JList xs \<Rightarrow> xs | _ \<Rightarrow> []) vs)"

text \<open>The values of a key; a dictionary has at most one.\<close>

definition column :: "string \<Rightarrow> obj list \<Rightarrow> json list" where
  "column key ds = concat (map (\<lambda>d. map snd (filter (\<lambda>p. fst p = key) d)) ds)"

definition all_keys :: "obj list \<Rightarrow> string list" where
  "all_keys ds = sort (remdups (concat (map (map fst) ds)))"

definition common_keys :: "obj list \<Rightarrow> string list" where
  "common_keys ds = sort (filter (\<lambda>k. list_all (\<lambda>d. k \<in> set (map fst d)) ds) (all_keys ds))"

lemma size_column: "d \<in> set ds \<Longrightarrow> sum_list (map size (map snd (filter (\<lambda>p. fst p = key) d))) < size (JObj d)"
proof -
  have "sum_list (map size (map snd (filter (\<lambda>p. fst p = key) d))) \<le> size_list (size_prod (\<lambda>_. 0) size) d"
    by (induction d) auto
  then show ?thesis by simp
qed

lemma column_less: "ds \<noteq> [] \<Longrightarrow> sum_list (map size (column key ds)) < sum_list (map (\<lambda>d. size (JObj d)) ds)"
proof (induction ds)
  case (Cons d ds)
  have d: "sum_list (map size (map snd (filter (\<lambda>p. fst p = key) d))) < size (JObj d)"
    by (rule size_column [of d "[d]"]) simp
  show ?case
  proof (cases "ds = []")
    case True
    with d show ?thesis by (simp add: column_def)
  next
    case False
    with Cons.IH d show ?thesis by (simp add: column_def del: map_map json.size)
  qed
qed simp

lemma objects_size: "list_all is_obj vs \<Longrightarrow> sum_list (map (\<lambda>d. size (JObj d)) (objects_of vs)) = sum_list (map size vs)"
  by (induction vs) (auto simp: objects_of_def split: json.splits)

lemma children_less: "vs \<noteq> [] \<Longrightarrow> list_all (\<lambda>v. json_type v = ''array'') vs \<Longrightarrow>
    sum_list (map size (children_of vs)) < sum_list (map size vs)"
proof (induction vs)
  case (Cons v vs)
  obtain xs where v: "v = JList xs" using Cons.prems(2) by (cases v) (simp_all add: json_type_def)
  have "sum_list (map size xs) \<le> size_list size xs" by (induction xs) auto
  moreover have "sum_list (map size (children_of vs)) \<le> sum_list (map size vs)"
    using Cons by (cases vs) (auto simp: children_of_def)
  ultimately show ?case by (simp add: v children_of_def)
qed simp

definition observed_types :: "json list \<Rightarrow> string list" where
  "observed_types vs = sort (remdups (map json_type vs))"

lemma observed_single: "observed_types vs = [ty] \<Longrightarrow> vs \<noteq> [] \<and> list_all (\<lambda>v. json_type v = ty) vs"
proof -
  assume "observed_types vs = [ty]"
  then have s: "set (map json_type vs) = {ty}"
    by (metis observed_types_def list.set(1) list.simps(15) set_remdups set_sort)
  then show ?thesis by (cases vs) (auto simp: list_all_iff)
qed

lemma is_obj_type: "json_type v = ''object'' \<Longrightarrow> is_obj v"
  by (cases v) (simp_all add: json_type_def)

function infer_values :: "json list \<Rightarrow> json"
and infer_object_schema :: "obj list \<Rightarrow> json" where
  "infer_values vs =
     (if observed_types vs = [''object''] then infer_object_schema (objects_of vs)
      else if observed_types vs = [''array'']
      then JObj [(''type'', JStr ''array''), (''items'', if children_of vs = [] then JObj [] else infer_values (children_of vs))]
      else case observed_types vs of [ty] \<Rightarrow> JObj [(''type'', JStr ty)]
      | types \<Rightarrow> JObj [(''type'', JList (map JStr types))])"
| "infer_object_schema ds =
     (if ds = []
      then JObj [(''type'', JStr ''object''), (''properties'', JObj []), (''additionalProperties'', JBool True)]
      else JObj ([(''type'', JStr ''object''),
          (''properties'', JObj (map (\<lambda>k. (k, infer_values (column k ds))) (all_keys ds))), (''additionalProperties'', JBool True)]
        @ (if common_keys ds = [] then [] else [(''required'', JList (map JStr (common_keys ds)))])))"
  by pat_completeness auto

termination
proof (relation "measure (case_sum (\<lambda>vs. 2 * sum_list (map size vs) + 1) (\<lambda>ds. 2 * sum_list (map (\<lambda>d. size (JObj d)) ds)))",
    goal_cases)
  case (2 vs)
  then have "list_all is_obj vs" using observed_single is_obj_type by (fastforce simp: list_all_iff)
  then show ?case using objects_size by simp
next
  case (3 vs)
  then show ?case using children_less observed_single by fastforce
next
  case (4 ds k)
  then show ?case using column_less [of ds k] by simp
qed simp

declare infer_values.simps [simp del] infer_object_schema.simps [simp del]

definition infer_records_schema :: "obj list \<Rightarrow> json" where
  "infer_records_schema records = infer_object_schema records"

record stream_descriptor =
  sd_name :: string
  sd_namespace :: "string option"
  sd_schema :: json
  sd_primary_key :: "string list"

definition rest_discover :: "rest_lib \<Rightarrow> rest_source \<Rightarrow> rest_world \<Rightarrow> (sdk_error + stream_descriptor list) \<times> rest_world" where
  "rest_discover L src w =
     (let (r, w1) = first_page L src w in
      (bind_res r (\<lambda>pg. Inr [\<lparr>sd_name = rs_stream src, sd_namespace = Some ''rest.endpoint'',
         sd_schema = infer_records_schema (pg_records pg), sd_primary_key = rs_primary_key src\<rparr>]), w1))"

subsection \<open>What a schema accepts\<close>

definition has_type :: "json \<Rightarrow> string \<Rightarrow> bool" where
  "has_type v ty \<longleftrightarrow> json_type v = ty \<or> (ty = ''number'' \<and> json_type v = ''integer'')"

definition type_ok :: "json \<Rightarrow> json \<Rightarrow> bool" where
  "type_ok ty v = (case ty of JNull \<Rightarrow> True | JStr s \<Rightarrow> has_type v s
     | JList ts \<Rightarrow> list_ex (\<lambda>t. has_type v (json_text t)) ts | _ \<Rightarrow> False)"

definition sub_object :: "json \<Rightarrow> string \<Rightarrow> obj" where
  "sub_object schema key = (case schema of JObj s \<Rightarrow> (case obj_get s key of JObj d \<Rightarrow> d | _ \<Rightarrow> []) | _ \<Rightarrow> [])"

definition keyword :: "json \<Rightarrow> string \<Rightarrow> json" where
  "keyword schema key = (case schema of JObj s \<Rightarrow> obj_get s key | _ \<Rightarrow> JNull)"

definition required_of :: "json \<Rightarrow> string list" where
  "required_of schema = (case keyword schema ''required'' of JList ks \<Rightarrow> map json_text ks | _ \<Rightarrow> [])"

text \<open>JSON Schema, the keywords \<open>type\<close>, \<open>properties\<close>, \<open>required\<close> and \<open>items\<close>.\<close>

fun conforms :: "json \<Rightarrow> json \<Rightarrow> bool" where
  "conforms schema (JObj d) =
     (type_ok (keyword schema ''type'') (JObj []) \<and>
      list_all (\<lambda>(k, v). case dict_get (sub_object schema ''properties'') k of None \<Rightarrow> True | Some s \<Rightarrow> conforms s v) d \<and>
      set (required_of schema) \<subseteq> set (map fst d))"
| "conforms schema (JList xs) =
     (type_ok (keyword schema ''type'') (JList []) \<and>
      list_all (\<lambda>x. conforms (case keyword schema ''items'' of JNull \<Rightarrow> JObj [] | s \<Rightarrow> s) x) xs)"
| "conforms schema v = type_ok (keyword schema ''type'') v"

lemma conforms_any: "keyword s ''type'' = JNull \<Longrightarrow> keyword s ''items'' = JNull \<Longrightarrow> sub_object s ''properties'' = [] \<Longrightarrow>
    required_of s = [] \<Longrightarrow> s = JObj [] \<Longrightarrow> conforms s v"
  by (induction s v rule: conforms.induct)
    (auto simp: list_all_iff type_ok_def keyword_def obj_get_def dict_get_or_def sub_object_def required_of_def)

lemma conforms_empty [simp]: "conforms (JObj []) v"
  by (rule conforms_any) (simp_all add: keyword_def obj_get_def dict_get_or_def sub_object_def required_of_def)

text \<open>A schema with a type and nothing else accepts the values of that type.\<close>

lemma conforms_type: "type_ok ty v \<Longrightarrow> conforms (JObj [(''type'', ty)]) v"
  by (cases v) (auto simp: list_all_iff type_ok_def keyword_def obj_get_def dict_get_or_def sub_object_def required_of_def
      has_type_def json_type_def split: json.splits)

lemma observed_type_in: "v \<in> set vs \<Longrightarrow> json_type v \<in> set (observed_types vs)"
  by (simp add: observed_types_def)

lemma in_column: "d \<in> set ds \<Longrightarrow> (k, v) \<in> set d \<Longrightarrow> v \<in> set (column k ds)"
  by (force simp: column_def)

lemma infer_object_entries:
  assumes "ds \<noteq> []"
  shows "keyword (infer_object_schema ds) ''type'' = JStr ''object''"
    "sub_object (infer_object_schema ds) ''properties'' = map (\<lambda>k. (k, infer_values (column k ds))) (all_keys ds)"
    "required_of (infer_object_schema ds) = common_keys ds"
  using assms by (simp_all add: infer_object_schema.simps [of ds] keyword_def sub_object_def required_of_def obj_get_def
      dict_get_or_def comp_def json_text_def)

lemma inferred_accepts:
  "\<forall>v \<in> set vs. conforms (infer_values vs) v" "\<forall>d \<in> set ds. conforms (infer_object_schema ds) (JObj d)"
proof (induction vs and ds rule: infer_values_infer_object_schema.induct)
  case (1 vs)
  show ?case
  proof
    fix v assume v: "v \<in> set vs"
    show "conforms (infer_values vs) v"
    proof (cases "observed_types vs = [''object''] \<or> observed_types vs = [''array'']")
      case True
      then have ty: "json_type v = ''object'' \<and> observed_types vs = [''object''] \<or> json_type v = ''array'' \<and> observed_types vs = [''array'']"
        using observed_type_in [OF v] by auto
      show ?thesis
      proof (cases v)
        case (JObj d)
        then have "observed_types vs = [''object'']" "d \<in> set (objects_of vs)"
          using ty v by (auto simp: json_type_def objects_of_def)
        with 1(1) JObj show ?thesis by (simp add: infer_values.simps [of vs])
      next
        case (JList xs)
        then have o: "observed_types vs = [''array'']" and xs: "set xs \<subseteq> set (children_of vs)"
          using ty v by (auto simp: json_type_def children_of_def)
        have "conforms (if children_of vs = [] then JObj [] else infer_values (children_of vs)) x" if "x \<in> set xs" for x
          using 1(2) o xs that by auto
        moreover have "infer_values (children_of vs) \<noteq> JNull"
          by (simp add: infer_values.simps [of "children_of vs"] infer_object_schema.simps split: list.split)
        ultimately show ?thesis using o
          by (auto simp: JList infer_values.simps [of vs] keyword_def obj_get_def dict_get_or_def type_ok_def has_type_def
              json_type_def list_all_iff split: json.split)
      qed (use ty in \<open>simp_all add: json_type_def\<close>)
    next
      case False
      have "type_ok (JList (map JStr (observed_types vs))) v"
        using observed_type_in [OF v] by (auto simp: type_ok_def has_type_def list_ex_iff json_text_def)
      moreover have "type_ok (JStr ty) v" if "observed_types vs = [ty]" for ty
        using observed_type_in [OF v] that by (simp add: type_ok_def has_type_def)
      ultimately show ?thesis using False
        by (auto simp: infer_values.simps [of vs] conforms_type simp del: conforms.simps split: list.split)
    qed
  qed
next
  case (2 ds)
  show ?case
  proof
    fix d assume d: "d \<in> set ds"
    then have ne: "ds \<noteq> []" by auto
    have "case dict_get (sub_object (infer_object_schema ds) ''properties'') k of None \<Rightarrow> True | Some s \<Rightarrow> conforms s v"
      if kv: "(k, v) \<in> set d" for k v
    proof -
      have k: "k \<in> set (all_keys ds)" using d kv by (force simp: all_keys_def)
      then have "dict_get (sub_object (infer_object_schema ds) ''properties'') k = Some (infer_values (column k ds))"
        by (simp add: infer_object_entries [OF ne] map_of_map_restrict)
      with 2 [OF ne k] in_column [OF d kv] show ?thesis by simp
    qed
    moreover have "set (common_keys ds) \<subseteq> set (map fst d)" using d by (auto simp: common_keys_def list_all_iff)
    ultimately show "conforms (infer_object_schema ds) (JObj d)"
      using infer_object_entries [OF ne] by (auto simp: list_all_iff type_ok_def has_type_def json_type_def)
  qed
qed

text \<open>C39. Discovery: every record of the page that the schema was inferred from conforms to that schema.\<close>

theorem discovered_schema_accepts:
  assumes d: "rest_discover L src w = (Inr ds, w1)" and f: "fetch_page L src (rs_endpoint_url src) w = (Inr pg, w2)"
  shows "list_all (\<lambda>sd. list_all (\<lambda>r. conforms (sd_schema sd) (JObj r)) (pg_records pg)) ds"
proof -
  have "ds = [\<lparr>sd_name = rs_stream src, sd_namespace = Some ''rest.endpoint'',
      sd_schema = infer_records_schema (pg_records pg), sd_primary_key = rs_primary_key src\<rparr>]"
    using d f by (auto simp: rest_discover_def first_page_def bind_res_Inr)
  then show ?thesis using inferred_accepts(2) [of "pg_records pg"] by (simp add: infer_records_schema_def list_all_iff)
qed

lemma checked_first_page:
  assumes c: "rest_check L src w = (Inr (True, m), w1)" and u: "rs_endpoint_url src \<noteq> []"
  obtains pg ids p1 where "fst (fetch_page L src (rs_endpoint_url src) w) = Inr pg"
    "admit_page L src (start_point (rs_endpoint_url src) 0) pg = Inr (ids, p1)"
    "rp_offset p1 = 0" "rp_url p1 = rs_endpoint_url src"
proof -
  obtain pg w2 where f: "fetch_page L src (rs_endpoint_url src) w = (Inr pg, w2)"
    and first: "bind_res (validate_page_identities L src (pg_records pg) None) (\<lambda>_.
      bind_res (merge_record_field_types [] (record_field_types (pg_records pg))) (\<lambda>_. Inr pg)) = Inr pg"
    using c by (auto simp: rest_check_def first_page_def bind_res_Inr split: prod.splits sum.splits option.splits)
  then obtain v fields where v: "validate_page_identities L src (pg_records pg) None = Inr v"
    "merge_record_field_types [] (record_field_types (pg_records pg)) = Inr fields" by (auto simp: bind_res_Inr)
  obtain ids types where "v = (ids, types)" by fastforce
  then have "admit_page L src (start_point (rs_endpoint_url src) 0) pg =
      Inr (ids, (start_point (rs_endpoint_url src) 0)\<lparr>rp_key_types := types, rp_field_types := fields\<rparr>)"
    using v by (simp add: admit_page_def start_point_def)
  with f show thesis by (intro that [of pg ids "(start_point (rs_endpoint_url src) 0)\<lparr>rp_key_types := types, rp_field_types := fields\<rparr>"])
    (simp_all add: start_point_def)
qed

lemma unpaged_next: "rs_pagination src = PageNone \<Longrightarrow> fetch_page L src u w = (Inr pg, w1) \<Longrightarrow> pg_next pg = None"
  by (auto simp: fetch_page_def response_page_def next_target_def checked_next_def bind_res_Inr split: prod.splits sum.splits option.splits)

lemma page_rest_payloads: "rp_offset p = 0 \<Longrightarrow>
    map en_payload (page_rest L src p pg ids (length (pg_records pg))) = map RecordPayload (pg_records pg)"
  by (rule nth_equalityI) (simp_all add: page_rest_def rest_envelope_def Let_def)


subsection \<open>A source from its arguments\<close>

definition demo_config :: rest_config where
  "demo_config = \<lparr>cf_base_url = ''https://a'', cf_path = ''x'', cf_stream = JStr ''s'', cf_records_path = JStr ''d'',
     cf_primary_key = JList [JStr ''id''], cf_pagination = ''none'', cf_next_cursor_path = JStr ''n'', cf_cursor_param = ''c'',
     cf_query_params = [], cf_auth_type = ''none'', cf_secret = NoSecret, cf_api_key_header = JStr ''X-API-Key'',
     cf_allow_http = JBool False, cf_cross_origin_next = JBool False, cf_max_pages = JInt 1, cf_max_records = JInt 1,
     cf_max_retries = JInt 0, cf_timeout = JInt 30, cf_client = False\<rparr>"

definition demo_unpaged :: rest_source where
  "demo_unpaged = (case rest_init demo_rest_lib demo_config of Inr src \<Rightarrow> src | Inl _ \<Rightarrow> demo_rest_source)"

lemma demo_init: "map_sum id (\<lambda>src. (rs_pagination src, rs_auth src, rs_endpoint_url src)) (rest_init demo_rest_lib demo_config) =
    Inr (PageNone, AuthNone, ''https://a/x'')"
  by code_simp

lemma demo_unpaged_facts:
  "rest_init demo_rest_lib demo_config = Inr demo_unpaged" "rs_pagination demo_unpaged = PageNone"
  "rs_auth demo_unpaged = AuthNone" "rs_endpoint_url demo_unpaged = ''https://a/x''"
proof -
  obtain src where "rest_init demo_rest_lib demo_config = Inr src" "rs_pagination src = PageNone" "rs_auth src = AuthNone"
      "rs_endpoint_url src = ''https://a/x''"
    using demo_init by (cases "rest_init demo_rest_lib demo_config") auto
  then show "rest_init demo_rest_lib demo_config = Inr demo_unpaged" "rs_pagination demo_unpaged = PageNone"
    "rs_auth demo_unpaged = AuthNone" "rs_endpoint_url demo_unpaged = ''https://a/x''" by (simp_all add: demo_unpaged_def)
qed

lemma demo_check: "fst (rest_check demo_rest_lib demo_unpaged (fixed_world demo_rest_web)) =
    Inr (True, ''REST endpoint and response shape are valid'')"
  by code_simp


theorem discovered_schema_accepts_witness:
  "\<exists>ds pg w1 w2. rest_discover demo_rest_lib demo_unpaged (fixed_world demo_rest_web) = (Inr ds, w1) \<and>
     fetch_page demo_rest_lib demo_unpaged ''https://a/x'' (fixed_world demo_rest_web) = (Inr pg, w2) \<and>
     list_all (\<lambda>sd. list_all (\<lambda>r. conforms (sd_schema sd) (JObj r)) (pg_records pg)) ds"
proof -
  obtain pg w1 where f: "first_page demo_rest_lib demo_unpaged (fixed_world demo_rest_web) = (Inr pg, w1)"
    using demo_check by (auto simp: rest_check_def split: prod.splits sum.splits option.splits)
  obtain pg2 w2 where g: "fetch_page demo_rest_lib demo_unpaged ''https://a/x'' (fixed_world demo_rest_web) = (Inr pg2, w2)"
    using f by (auto simp: first_page_def demo_unpaged_facts split: prod.splits sum.splits)
  obtain ds where d: "rest_discover demo_rest_lib demo_unpaged (fixed_world demo_rest_web) = (Inr ds, w1)"
    using f by (simp add: rest_discover_def)
  have "list_all (\<lambda>sd. list_all (\<lambda>r. conforms (sd_schema sd) (JObj r)) (pg_records pg2)) ds"
    by (rule discovered_schema_accepts [OF d, unfolded demo_unpaged_facts(4), OF g])
  with d g show ?thesis
    by (intro exI [of _ ds] exI [of _ pg2] exI [of _ w1] exI [of _ w2] conjI)
qed

end
