(* ===== verification/Graphs.thy ===== *)
theory Graphs
  imports ExecutionService
begin

text \<open>
  Graphs and their versions: the service (\<open>backend/app/services/graph_service.py\<close>), the routes
  (\<open>api/graphs.py\<close>), the request and response schemas with the redaction of secrets
  (\<open>schemas/graph.py\<close>), and the predefined graphs (\<open>graph_templates.py\<close>). SHA-256 of the canonical
  JSON text is the parameter \<open>digest\<close>. A user may save graphs, versions and start runs; the node
  registry is an argument.
\<close>

subsection \<open>Names of secrets\<close>

definition secret_key_markers :: "string list" where
  "secret_key_markers = [''password'', ''token'', ''secret'', ''api_key'', ''authorization'', ''cookie'']"

definition text_ends :: "string \<Rightarrow> string \<Rightarrow> bool" where
  "text_ends s suffix \<longleftrightarrow> length suffix \<le> length s \<and> drop (length s - length suffix) s = suffix"

definition is_secret_key :: "string \<Rightarrow> bool" where
  "is_secret_key key =
     (let normalized = map (\<lambda>c. if c = CHR ''-'' then CHR ''_'' else c) (py_lower key)
      in list_ex (\<lambda>m. normalized = m \<or> text_ends normalized (CHR ''_'' # m)) secret_key_markers)"

lemma zip_item_size [termination_simp]: "(i, v) \<in> set (zip is xs) \<Longrightarrow> size v < Suc (size_list size xs)"
proof -
  assume "(i, v) \<in> set (zip is xs)"
  then have "v \<in> set xs" by (rule set_zip_rightD)
  then show ?thesis by (induction xs) auto
qed

text \<open>The first credential that the walk meets, with its path.\<close>

fun inline_secret :: "json \<Rightarrow> string \<Rightarrow> string option" where
  "inline_secret (JObj d) path =
     foldr (\<lambda>(k, v) later.
       if is_secret_key k then Some (path @ ''.'' @ k)
       else case inline_secret v (path @ ''.'' @ k) of Some e \<Rightarrow> Some e | None \<Rightarrow> later) d None"
| "inline_secret (JList xs) path =
     foldr (\<lambda>(i, v) later.
       case inline_secret v (path @ ''['' @ nat_str i @ '']'') of Some e \<Rightarrow> Some e | None \<Rightarrow> later)
       (zip [0..<length xs] xs) None"
| "inline_secret v path = None"

datatype save_error = GraphInvalid graph_error | InlineSecret string

definition assert_no_inline_secrets :: "json \<Rightarrow> string \<Rightarrow> save_error + unit" where
  "assert_no_inline_secrets v path =
     (case inline_secret v path of None \<Rightarrow> Inr () | Some p \<Rightarrow> Inl (InlineSecret p))"

subsection \<open>Redaction of responses\<close>

fun redact_sensitive :: "json \<Rightarrow> json" where
  "redact_sensitive (JObj d) =
     (if set (map fst d) = {''$encrypted''} then JObj [(''configured'', JBool True)]
      else JObj (map (\<lambda>(k, v). (k, if is_secret_key k then JStr ''********'' else redact_sensitive v)) d))"
| "redact_sensitive (JList xs) = JList (map redact_sensitive xs)"
| "redact_sensitive v = v"

text \<open>What a response must not show: a value under the name of a secret, or an encrypted object.\<close>

fun shows_secret :: "json \<Rightarrow> bool" where
  "shows_secret (JObj d) \<longleftrightarrow> set (map fst d) = {''$encrypted''} \<or>
     list_ex (\<lambda>(k, v). (is_secret_key k \<and> v \<noteq> JStr ''********'') \<or> shows_secret v) d"
| "shows_secret (JList xs) \<longleftrightarrow> list_ex shows_secret xs"
| "shows_secret v \<longleftrightarrow> False"

fun secret_free :: "json \<Rightarrow> bool" where
  "secret_free (JObj d) \<longleftrightarrow> list_all (\<lambda>(k, v). \<not> is_secret_key k \<and> secret_free v) d"
| "secret_free (JList xs) \<longleftrightarrow> list_all secret_free xs"
| "secret_free v \<longleftrightarrow> True"

lemma configured_is_no_secret: "\<not> is_secret_key ''configured''"
  by code_simp

lemma redacted_shows_nothing: "\<not> shows_secret (redact_sensitive v)"
proof (induction v rule: redact_sensitive.induct)
  case (1 d)
  show ?case
  proof (cases "set (map fst d) = {''$encrypted''}")
    case True
    then have "redact_sensitive (JObj d) = JObj [(''configured'', JBool True)]" by (simp only: redact_sensitive.simps if_True simp_thms)
    then show ?thesis by (simp add: configured_is_no_secret)
  next
    case False
    let ?m = "map (\<lambda>(k, v). (k, if is_secret_key k then JStr ''********'' else redact_sensitive v)) d"
    have r: "redact_sensitive (JObj d) = JObj ?m" using False by (simp only: redact_sensitive.simps if_False)
    have keys: "map fst ?m = map fst d" by (induction d) auto
    have entry: "\<not> ((is_secret_key k \<and> v \<noteq> JStr ''********'') \<or> shows_secret v)" if kv: "(k, v) \<in> set ?m" for k v
    proof -
      obtain x where x: "(k, x) \<in> set d" "v = (if is_secret_key k then JStr ''********'' else redact_sensitive x)" using kv by auto
      have "\<not> shows_secret (redact_sensitive x)" if "\<not> is_secret_key k"
        by (rule 1 [OF False x(1) refl that])
      with x(2) show ?thesis by simp
    qed
    have "\<not> list_ex (\<lambda>(k, v). (is_secret_key k \<and> v \<noteq> JStr ''********'') \<or> shows_secret v) ?m"
      using entry unfolding list_ex_iff by blast
    with False show ?thesis unfolding r shows_secret.simps keys by blast
  qed
qed (auto simp: list_ex_iff)

lemma foldr_first_None:
  "foldr (\<lambda>x later. case f x of Some e \<Rightarrow> Some e | None \<Rightarrow> later) xs None = None \<longleftrightarrow> (\<forall>x \<in> set xs. f x = None)"
  by (induction xs) (auto split: option.split)

lemma inline_secret_None: "inline_secret v path = None \<longleftrightarrow> secret_free v"
proof (induction v path rule: inline_secret.induct)
  case (1 d path)
  have "foldr (\<lambda>(k, v) later. if is_secret_key k then Some (path @ ''.'' @ k)
       else case inline_secret v (path @ ''.'' @ k) of Some e \<Rightarrow> Some e | None \<Rightarrow> later) d' None = None \<longleftrightarrow>
     list_all (\<lambda>(k, v). \<not> is_secret_key k \<and> secret_free v) d'" if "set d' \<subseteq> set d" for d'
    using that
  proof (induction d')
    case (Cons kv d')
    obtain k v where kv: "kv = (k, v)" by fastforce
    have "inline_secret v (path @ ''.'' @ k) = None \<longleftrightarrow> secret_free v" if "\<not> is_secret_key k"
      by (rule 1 [of kv k v]) (use Cons.prems kv that in auto)
    with Cons kv show ?case by (auto split: option.split)
  qed simp
  then show ?case by simp
next
  case (2 xs path)
  have "(\<forall>(i, v) \<in> set (zip [0..<length xs] xs). inline_secret v (path @ ''['' @ nat_str i @ '']'') = None) \<longleftrightarrow>
      (\<forall>(i, v) \<in> set (zip [0..<length xs] xs). secret_free v)"
    using 2 by (auto simp: case_prod_beta)
  also have "\<dots> \<longleftrightarrow> list_all secret_free xs"
  proof -
    have "snd ` set (zip [0..<length xs] xs) = set (map snd (zip [0..<length xs] xs))" by (simp only: set_map)
    also have "\<dots> = set xs" by simp
    finally have z: "snd ` set (zip [0..<length xs] xs) = set xs" .
    show ?thesis unfolding list_all_iff z [symmetric] by (auto simp: case_prod_beta)
  qed
  finally show ?case using foldr_first_None [of "\<lambda>(i, v). inline_secret v (path @ ''['' @ nat_str i @ '']'')" "zip [0..<length xs] xs"]
    by (simp add: case_prod_unfold)
qed simp_all

subsection \<open>The service\<close>

definition graph_statuses :: "string list" where
  "graph_statuses = [''draft'', ''active'', ''archived'']"

definition find_graph :: "db \<Rightarrow> uuid \<Rightarrow> graph_row option" where
  "find_graph db g = get_row gr_id g (db_graphs db)"

text \<open>A filter that is empty is no filter. The newest come first.\<close>

definition list_graphs :: "db \<Rightarrow> uuid option \<Rightarrow> string option \<Rightarrow> nat \<Rightarrow> nat \<Rightarrow> graph_row list \<times> nat" where
  "list_graphs db owner st offset limit =
     (let rows = filter (\<lambda>g. (case owner of None \<Rightarrow> True | Some u \<Rightarrow> gr_owner_id g = u) \<and>
            (case st of None \<Rightarrow> True | Some s \<Rightarrow> s = [] \<or> gr_status g = s)) (db_graphs db)
      in (take limit (drop offset (sort_key (\<lambda>g. - gr_updated_at g) rows)), length rows))"

definition get_graph :: "db \<Rightarrow> uuid \<Rightarrow> (graph_row \<times> graph_version option) option" where
  "get_graph db g = map_option (\<lambda>row. (row, latest_version (versions_of db g))) (find_graph db g)"

definition add_graph :: "graph_row \<Rightarrow> db \<Rightarrow> db" where
  "add_graph row db = db\<lparr>db_graphs := db_graphs db @ [row], db_next := Suc (db_next db)\<rparr>"

definition create_graph :: "string \<Rightarrow> uuid \<Rightarrow> string option \<Rightarrow> string list \<Rightarrow> time \<Rightarrow> db \<Rightarrow> graph_row \<times> db" where
  "create_graph name owner desc tags now db =
     (let row = \<lparr>gr_id = db_next db, gr_owner_id = owner, gr_name = name, gr_description = desc, gr_status = ''draft'',
            gr_tags = tags, gr_updated_at = now\<rparr>
      in (row, add_graph row db))"

record graph_update =
  gu_name :: "string option"
  gu_description :: "string option"
  gu_status :: "string option"
  gu_tags :: "string list option"

text \<open>\<open>updated_at\<close> changes when a column does.\<close>

definition patched_graph :: "graph_update \<Rightarrow> time \<Rightarrow> graph_row \<Rightarrow> graph_row" where
  "patched_graph u now row =
     (let row' = row\<lparr>gr_name := opt_or (gu_name u) (gr_name row),
            gr_description := (case gu_description u of None \<Rightarrow> gr_description row | d \<Rightarrow> d),
            gr_status := opt_or (gu_status u) (gr_status row), gr_tags := opt_or (gu_tags u) (gr_tags row)\<rparr>
      in if row' = row then row else row'\<lparr>gr_updated_at := now\<rparr>)"

definition update_graph :: "uuid \<Rightarrow> graph_update \<Rightarrow> time \<Rightarrow> db \<Rightarrow> graph_row option \<times> db" where
  "update_graph g u now db =
     (case find_graph db g of
        None \<Rightarrow> (None, db)
      | Some row \<Rightarrow> (Some (patched_graph u now row), db\<lparr>db_graphs := upd_row gr_id g (patched_graph u now) (db_graphs db)\<rparr>))"

definition archive_graph :: "uuid \<Rightarrow> time \<Rightarrow> db \<Rightarrow> graph_row option \<times> db" where
  "archive_graph g now db =
     update_graph g \<lparr>gu_name = None, gu_description = None, gu_status = Some ''archived'', gu_tags = None\<rparr> now db"

definition opt_json :: "obj option \<Rightarrow> json" where
  "opt_json d = (case d of None \<Rightarrow> JNull | Some d \<Rightarrow> JObj d)"

definition compute_checksum :: "(json \<Rightarrow> string) \<Rightarrow> obj option \<Rightarrow> obj option \<Rightarrow> obj option \<Rightarrow> string" where
  "compute_checksum digest nodes edges configs =
     digest (JObj [(''nodes'', opt_json nodes), (''edges'', opt_json edges), (''configs'', opt_json configs)])"

text \<open>The checks of a save, and the data as it will be stored.\<close>

definition lift_graph :: "graph_error + 'a \<Rightarrow> save_error + 'a" where
  "lift_graph r = map_sum GraphInvalid id r"

definition checked_version ::
  "registry \<Rightarrow> obj option \<Rightarrow> obj option \<Rightarrow> obj option \<Rightarrow> save_error + (obj option \<times> obj option)" where
  "checked_version reg nodes edges configs =
     bind_res (lift_graph (sanitize_node_configs reg nodes configs)) (\<lambda>sanitized.
     bind_res (lift_graph (strip_embedded_node_configs nodes)) (\<lambda>stripped.
       let cfg = map (\<lambda>(i, c). (i, JObj c)) sanitized in
       bind_res (assert_no_inline_secrets (JObj cfg) ''node_configs'') (\<lambda>_.
       bind_res (assert_no_inline_secrets (opt_json stripped) ''nodes_data'') (\<lambda>_.
       bind_res (lift_graph (validate_graph_edges reg stripped edges)) (\<lambda>_.
         Inr (stripped, Some cfg))))))"

definition next_version_number :: "db \<Rightarrow> uuid \<Rightarrow> int" where
  "next_version_number db g =
     (case latest_version (versions_of db g) of None \<Rightarrow> 0 | Some v \<Rightarrow> gv_number v) + 1"

definition append_version :: "graph_version \<Rightarrow> db \<Rightarrow> db" where
  "append_version v db = db\<lparr>db_versions := db_versions db @ [v], db_next := Suc (db_next db)\<rparr>"

definition save_graph_version ::
  "registry \<Rightarrow> (json \<Rightarrow> string) \<Rightarrow> uuid \<Rightarrow> obj option \<Rightarrow> obj option \<Rightarrow> obj option \<Rightarrow> db
     \<Rightarrow> (save_error + graph_version option) \<times> db" where
  "save_graph_version reg digest g nodes edges configs db =
     (case checked_version reg nodes edges configs of
        Inl e \<Rightarrow> (Inl e, db)
      | Inr (stripped, cfg) \<Rightarrow>
          (case find_graph db g of
             None \<Rightarrow> (Inr None, db)
           | Some row \<Rightarrow>
               let v = \<lparr>gv_id = db_next db, gv_graph_id = g, gv_number = next_version_number db g, gv_nodes_data = stripped,
                     gv_edges_data = edges, gv_node_configs = cfg, gv_checksum = compute_checksum digest stripped edges cfg\<rparr>
               in (Inr (Some v), append_version v db)))"

definition get_graph_versions :: "db \<Rightarrow> uuid \<Rightarrow> nat \<Rightarrow> graph_version list" where
  "get_graph_versions db g limit = take limit (sort_key (\<lambda>v. - gv_number v) (versions_of db g))"

subsection \<open>Templates\<close>

record template_node =
  tn_id :: string
  tn_type :: string
  tn_x :: int
  tn_y :: int
  tn_config :: obj

record template_edge =
  te_id :: string
  te_source :: string
  te_target :: string
  te_source_port :: string
  te_target_port :: string

record graph_template =
  tp_id :: string
  tp_name :: string
  tp_description :: string
  tp_nodes :: "template_node list"
  tp_edges :: "template_edge list"

text \<open>The errors of the catalogue's validation; \<open>definitions\<close> are the nodes by their id.\<close>

fun template_definitions :: "registry \<Rightarrow> template_node list \<Rightarrow> registry \<Rightarrow> string + registry" where
  "template_definitions reg [] defs = Inr defs"
| "template_definitions reg (n # ns) defs =
     (case get_node reg (tn_type n) of
        None \<Rightarrow> Inl (''requires missing node '' @ tn_type n)
      | Some d \<Rightarrow> template_definitions reg ns (dict_set (tn_id n) d defs))"

fun check_template_edges ::
  "registry \<Rightarrow> template_edge list \<Rightarrow> string list \<Rightarrow> (string \<times> string) list \<Rightarrow> string + (string \<times> string) list" where
  "check_template_edges defs [] ids connected = Inr connected"
| "check_template_edges defs (e # es) ids connected =
     (if te_id e \<in> set ids then Inl (''contains duplicate edge '' @ te_id e)
      else case (dict_get defs (te_source e), dict_get defs (te_target e)) of
        (Some s, Some t) \<Rightarrow>
          (case (find_port (nd_outputs s) (JStr (te_source_port e)), find_port (nd_inputs t) (JStr (te_target_port e))) of
             (Some sp, Some tp) \<Rightarrow>
               if pt_type tp \<noteq> ANY \<and> pt_type sp \<noteq> pt_type tp then Inl (''edge '' @ te_id e @ '' has incompatible ports'')
               else check_template_edges defs es (te_id e # ids) ((te_target e, te_target_port e) # connected)
           | _ \<Rightarrow> Inl (''edge '' @ te_id e @ '' references an unknown port''))
      | _ \<Rightarrow> Inl (''edge '' @ te_id e @ '' has an unknown endpoint''))"

definition missing_input :: "registry \<Rightarrow> (string \<times> string) list \<Rightarrow> (string \<times> string) option" where
  "missing_input defs connected =
     find (\<lambda>p. p \<notin> set connected)
       (concat (map (\<lambda>(i, d). map (\<lambda>p. (i, pt_name p)) (filter pt_required (nd_inputs d))) defs))"

definition validate_template :: "registry \<Rightarrow> string \<Rightarrow> graph_template \<Rightarrow> string + unit" where
  "validate_template reg key t =
     (if key \<noteq> tp_id t then Inl ''does not match the catalog key''
      else if \<not> distinct (map tn_id (tp_nodes t)) then Inl ''contains duplicate node IDs''
      else bind_res (template_definitions reg (tp_nodes t) []) (\<lambda>defs.
        bind_res (check_template_edges defs (tp_edges t) [] []) (\<lambda>connected.
          case missing_input defs connected of
            Some (i, p) \<Rightarrow> Inl (''does not connect required input '' @ i @ ''.'' @ p)
          | None \<Rightarrow> Inr ())))"

definition validate_templates :: "registry \<Rightarrow> (string, graph_template) dict \<Rightarrow> string + unit" where
  "validate_templates reg ts = bind_res (map_res (\<lambda>(key, t). validate_template reg key t) ts) (\<lambda>_. Inr ())"

definition studio_templates :: "(string, graph_template) dict" where
  "studio_templates =
     [(''discord-search'', \<lparr>tp_id = ''discord-search'', tp_name = ''Discord to Search'',
        tp_description = ''Preview a Discord channel through the SDK and query the run output.'',
        tp_nodes = [\<lparr>tn_id = ''discord'', tn_type = ''discord_source'', tn_x = 80, tn_y = 140, tn_config = [(''message_limit'', JInt 100)]\<rparr>,
          \<lparr>tn_id = ''query_store'', tn_type = ''sdk_query_store'', tn_x = 460, tn_y = 140,
           tn_config = [(''collection'', JStr ''discord'')]\<rparr>],
        tp_edges = [\<lparr>te_id = ''discord-query'', te_source = ''discord'', te_target = ''query_store'',
          te_source_port = ''json'', te_target_port = ''items''\<rparr>]\<rparr>),
      (''postgres-search'', \<lparr>tp_id = ''postgres-search'', tp_name = ''PostgreSQL to Search'',
        tp_description = ''Run a safe SELECT and inspect the result through the SDK query store.'',
        tp_nodes = [\<lparr>tn_id = ''database'', tn_type = ''database_source'', tn_x = 80, tn_y = 140,
           tn_config = [(''query'', JStr ''SELECT * FROM your_table LIMIT 100''), (''batch_size'', JInt 100)]\<rparr>,
          \<lparr>tn_id = ''query_store'', tn_type = ''sdk_query_store'', tn_x = 460, tn_y = 140,
           tn_config = [(''collection'', JStr ''database'')]\<rparr>],
        tp_edges = [\<lparr>te_id = ''database-query'', te_source = ''database'', te_target = ''query_store'',
          te_source_port = ''table'', te_target_port = ''items''\<rparr>]\<rparr>),
      (''documents-search'', \<lparr>tp_id = ''documents-search'', tp_name = ''Document Deltas to Search'',
        tp_description = ''Resume selected managed documents through the SDK and inspect this run's delta.'',
        tp_nodes = [\<lparr>tn_id = ''documents'', tn_type = ''sdk_document_source'', tn_x = 80, tn_y = 140,
           tn_config = [(''artifact_ids'', JList []), (''checkpoint_interval'', JInt 50)]\<rparr>,
          \<lparr>tn_id = ''query_store'', tn_type = ''sdk_query_store'', tn_x = 500, tn_y = 140,
           tn_config = [(''collection'', JStr ''document-deltas'')]\<rparr>],
        tp_edges = [\<lparr>te_id = ''documents-query'', te_source = ''documents'', te_target = ''query_store'',
          te_source_port = ''items'', te_target_port = ''items''\<rparr>]\<rparr>)]"

text \<open>\<open>shown\<close> gives the fields of a node that the editor shows (\<open>to_dict\<close>).\<close>

definition template_node_json :: "(node_def \<Rightarrow> obj) \<Rightarrow> template_node \<Rightarrow> node_def \<Rightarrow> json" where
  "template_node_json shown n d =
     JObj [(''id'', JStr (tn_id n)), (''type'', JStr (tn_type n)),
       (''position'', JObj [(''x'', JInt (tn_x n)), (''y'', JInt (tn_y n))]),
       (''data'', JObj [(''label'', obj_get (shown d) ''display_name''), (''config'', JObj []),
          (''category'', obj_get (shown d) ''category''), (''inputs'', obj_get (shown d) ''inputs''),
          (''outputs'', obj_get (shown d) ''outputs''), (''implementation'', obj_get (shown d) ''implementation''),
          (''sdk_component'', obj_get (shown d) ''sdk_component'')])]"

definition template_edge_json :: "template_edge \<Rightarrow> json" where
  "template_edge_json e =
     JObj [(''id'', JStr (te_id e)), (''source'', JStr (te_source e)), (''target'', JStr (te_target e)),
       (''sourceHandle'', JStr (te_source_port e)), (''targetHandle'', JStr (te_target_port e)),
       (''source_port'', JStr (te_source_port e)), (''target_port'', JStr (te_target_port e))]"

text \<open>Nodes, edges and configurations; no value when a node is missing (\<open>RuntimeError\<close>).\<close>

definition materialize_template :: "registry \<Rightarrow> (node_def \<Rightarrow> obj) \<Rightarrow> graph_template \<Rightarrow> (obj \<times> obj \<times> obj) option" where
  "materialize_template reg shown t =
     (if list_ex (\<lambda>n. get_node reg (tn_type n) = None) (tp_nodes t) then None
      else Some ([(''nodes'', JList (map (\<lambda>n. template_node_json shown n (the (get_node reg (tn_type n)))) (tp_nodes t)))],
        [(''edges'', JList (map template_edge_json (tp_edges t)))],
        fold (\<lambda>n acc. dict_set (tn_id n) (JObj (tn_config n)) acc) (tp_nodes t) []))"

definition create_graph_from_template ::
  "registry \<Rightarrow> (node_def \<Rightarrow> obj) \<Rightarrow> (json \<Rightarrow> string) \<Rightarrow> (string, graph_template) dict \<Rightarrow> string \<Rightarrow> uuid \<Rightarrow> string
     \<Rightarrow> string option \<Rightarrow> string list \<Rightarrow> time \<Rightarrow> db \<Rightarrow> graph_row call" where
  "create_graph_from_template reg shown digest templates tid owner name desc tags now db =
     (case dict_get templates tid of
        None \<Rightarrow> (Inl (HttpError 404), db)
      | Some t \<Rightarrow> (case materialize_template reg shown t of
          None \<Rightarrow> (Inl (HttpError 500), db)
        | Some (nodes, edges, configs) \<Rightarrow>
            (let (row, db1) = create_graph name owner
                   (case desc of Some d \<Rightarrow> Some (if d = [] then tp_description t else d) | None \<Rightarrow> Some (tp_description t))
                   (tags @ [''template'', tp_id t]) now db;
                 v = \<lparr>gv_id = db_next db1, gv_graph_id = gr_id row, gv_number = 1, gv_nodes_data = Some nodes,
                   gv_edges_data = Some edges, gv_node_configs = Some configs,
                   gv_checksum = compute_checksum digest (Some nodes) (Some edges) (Some configs)\<rparr>
             in (Inr row, append_version v db1))))"

subsection \<open>Routes\<close>

text \<open>Every route on a graph finds it first and checks the owner.\<close>

definition with_graph :: "uuid \<Rightarrow> user \<Rightarrow> db \<Rightarrow> (graph_row \<Rightarrow> 'a call) \<Rightarrow> 'a call" where
  "with_graph g u db act =
     (case find_graph db g of
        None \<Rightarrow> (Inl (HttpError 404), db)
      | Some row \<Rightarrow> if \<not> is_admin u \<and> gr_owner_id row \<noteq> us_id u then (Inl (HttpError 403), db) else act row)"

definition name_ok :: "string \<Rightarrow> bool" where
  "name_ok s \<longleftrightarrow> s \<noteq> [] \<and> length s \<le> 255"

definition description_ok :: "string option \<Rightarrow> bool" where
  "description_ok d = (case d of None \<Rightarrow> True | Some s \<Rightarrow> int (length s) \<le> 5000)"

definition template_name_ok :: "string \<Rightarrow> bool" where
  "template_name_ok s \<longleftrightarrow> s \<noteq> [] \<and>
     list_all (\<lambda>c. (97 \<le> (of_char c :: nat) \<and> (of_char c :: nat) \<le> 122) \<or> is_digit c \<or> c = CHR ''-'') s"

definition list_graphs_endpoint :: "string option \<Rightarrow> nat \<Rightarrow> nat \<Rightarrow> user \<Rightarrow> db \<Rightarrow> (graph_row list \<times> nat) call" where
  "list_graphs_endpoint st offset limit u db =
     (if limit < 1 \<or> 100 < limit then (Inl (HttpError 422), db) else (Inr (list_graphs db (Some (us_id u)) st offset limit), db))"

record graph_create =
  gc_name :: string
  gc_description :: "string option"
  gc_tags :: "string list"
  gc_template :: "string option"

definition create_graph_endpoint ::
  "registry \<Rightarrow> (node_def \<Rightarrow> obj) \<Rightarrow> (json \<Rightarrow> string) \<Rightarrow> (string, graph_template) dict \<Rightarrow> graph_create \<Rightarrow> user \<Rightarrow> time \<Rightarrow> db
     \<Rightarrow> graph_row call" where
  "create_graph_endpoint reg shown digest templates c u now db =
     (if \<not> name_ok (gc_name c) \<or> \<not> description_ok (gc_description c) \<or>
         (case gc_template c of None \<Rightarrow> False | Some t \<Rightarrow> \<not> template_name_ok t) then (Inl (HttpError 422), db)
      else case gc_template c of
        Some t \<Rightarrow> create_graph_from_template reg shown digest templates t (us_id u) (gc_name c) (gc_description c) (gc_tags c) now db
      | None \<Rightarrow> (let (row, db') = create_graph (gc_name c) (us_id u) (gc_description c) (gc_tags c) now db in (Inr row, db')))"

definition get_graph_endpoint :: "uuid \<Rightarrow> user \<Rightarrow> db \<Rightarrow> (graph_row \<times> graph_version option) call" where
  "get_graph_endpoint g u db = with_graph g u db (\<lambda>row. (Inr (row, latest_version (versions_of db g)), db))"

definition update_graph_endpoint :: "uuid \<Rightarrow> graph_update \<Rightarrow> user \<Rightarrow> time \<Rightarrow> db \<Rightarrow> graph_row call" where
  "update_graph_endpoint g gu u now db =
     (if (case gu_name gu of None \<Rightarrow> False | Some s \<Rightarrow> \<not> name_ok s) \<or> \<not> description_ok (gu_description gu) \<or>
         (case gu_status gu of None \<Rightarrow> False | Some s \<Rightarrow> s \<notin> set graph_statuses) then (Inl (HttpError 422), db)
      else with_graph g u db (\<lambda>_. case update_graph g gu now db of
          (None, db') \<Rightarrow> (Inl (HttpError 404), db') | (Some row, db') \<Rightarrow> (Inr row, db')))"

definition archive_graph_endpoint :: "uuid \<Rightarrow> user \<Rightarrow> time \<Rightarrow> db \<Rightarrow> unit call" where
  "archive_graph_endpoint g u now db =
     with_graph g u db (\<lambda>_. case archive_graph g now db of
       (None, db') \<Rightarrow> (Inl (HttpError 404), db') | (Some row, db') \<Rightarrow> (Inr (), db'))"

text \<open>A \<open>ValueError\<close> is a bad request; other exceptions are internal errors.\<close>

definition save_status :: "save_error \<Rightarrow> nat" where
  "save_status e = (case e of GraphInvalid AttributeError \<Rightarrow> 500 | GraphInvalid TypeError \<Rightarrow> 500 | _ \<Rightarrow> 400)"

definition save_graph_version_endpoint ::
  "registry \<Rightarrow> (json \<Rightarrow> string) \<Rightarrow> uuid \<Rightarrow> obj option \<Rightarrow> obj option \<Rightarrow> obj option \<Rightarrow> user \<Rightarrow> db \<Rightarrow> graph_version call" where
  "save_graph_version_endpoint reg digest g nodes edges configs u db =
     with_graph g u db (\<lambda>_. case save_graph_version reg digest g nodes edges configs db of
       (Inl e, db') \<Rightarrow> (Inl (HttpError (save_status e)), db')
     | (Inr None, db') \<Rightarrow> (Inl (HttpError 404), db')
     | (Inr (Some v), db') \<Rightarrow> (Inr v, db'))"

definition get_graph_versions_endpoint :: "uuid \<Rightarrow> nat \<Rightarrow> user \<Rightarrow> db \<Rightarrow> graph_version list call" where
  "get_graph_versions_endpoint g limit u db =
     (if limit < 1 \<or> 100 < limit then (Inl (HttpError 422), db)
      else with_graph g u db (\<lambda>_. (Inr (get_graph_versions db g limit), db)))"

text \<open>The body of a version response: secrets are masked in the nodes and the configurations.\<close>

definition version_response :: "graph_version \<Rightarrow> json \<times> json \<times> json" where
  "version_response v =
     (redact_sensitive (opt_json (gv_nodes_data v)), opt_json (gv_edges_data v), redact_sensitive (opt_json (gv_node_configs v)))"

subsection \<open>The tables of graphs and versions\<close>

text \<open>Keys, foreign keys, legal names and states, and per graph the version numbers \<open>1, 2, 3, \<dots>\<close> in order.\<close>

definition graphs_ok :: "db \<Rightarrow> bool" where
  "graphs_ok db \<longleftrightarrow> distinct (map gr_id (db_graphs db)) \<and>
     list_all (\<lambda>g. gr_id g < db_next db \<and> name_ok (gr_name g) \<and> gr_status g \<in> set graph_statuses) (db_graphs db) \<and>
     distinct (map gv_id (db_versions db)) \<and>
     list_all (\<lambda>v. gv_id v < db_next db \<and> gv_graph_id v \<in> gr_id ` set (db_graphs db)) (db_versions db) \<and>
     (\<forall>g. map gv_number (versions_of db g) = map int [1..<Suc (length (versions_of db g))])"

lemma latest_version_last: "sorted_wrt (<) (map gv_number vs) \<Longrightarrow> vs \<noteq> [] \<Longrightarrow> latest_version vs = Some (last vs)"
proof (induction vs)
  case (Cons v vs)
  show ?case
  proof (cases "vs = []")
    case False
    then have "gv_number v < gv_number (last vs)" using Cons.prems(1) by simp
    with Cons False show ?thesis by simp
  qed simp
qed simp

lemma numbers_sorted: "map gv_number vs = map int [1..<Suc (length vs)] \<Longrightarrow> sorted_wrt (<) (map gv_number vs)"
  by (simp only: sorted_wrt_map of_nat_less_iff sorted_wrt_upt)

lemma latest_number:
  assumes "map gv_number vs = map int [1..<Suc (length vs)]"
  shows "(case latest_version vs of None \<Rightarrow> 0 | Some v \<Rightarrow> gv_number v) = int (length vs)"
proof (cases "vs = []")
  case False
  then have l: "latest_version vs = Some (last vs)" using latest_version_last [OF numbers_sorted [OF assms]] by simp
  have "gv_number (last vs) = last (map gv_number vs)" using False by (simp add: last_map)
  also have "\<dots> = int (length vs)"
  proof -
    have "1 \<le> length vs" using False by (cases vs) auto
    then show ?thesis by (simp add: assms last_map)
  qed
  finally show ?thesis by (simp add: l)
qed simp

lemma next_number: "graphs_ok db \<Longrightarrow> next_version_number db g = int (length (versions_of db g)) + 1"
  unfolding next_version_number_def graphs_ok_def using latest_number by simp

lemma versions_of_add: "versions_of (append_version v db) g = versions_of db g @ (if gv_graph_id v = g then [v] else [])"
  by (simp add: versions_of_def append_version_def)

lemma versions_of_add_graph [simp]: "versions_of (add_graph row db) g = versions_of db g"
  by (simp add: versions_of_def add_graph_def)

lemma append_version_ok:
  assumes ok: "graphs_ok db" and v: "gv_id v = db_next db" "gv_graph_id v \<in> gr_id ` set (db_graphs db)"
    "gv_number v = int (length (versions_of db (gv_graph_id v))) + 1"
  shows "graphs_ok (append_version v db)"
proof -
  have "map gv_number (versions_of (append_version v db) g) = map int [1..<Suc (length (versions_of (append_version v db) g))]" for g
    using ok v(3) unfolding graphs_ok_def versions_of_add by auto
  then show ?thesis using ok v(1,2)
    by (fastforce simp: graphs_ok_def append_version_def list_all_iff)
qed

lemma add_graph_ok:
  assumes ok: "graphs_ok db" and r: "gr_id row = db_next db" "name_ok (gr_name row)" "gr_status row \<in> set graph_statuses"
  shows "graphs_ok (add_graph row db)"
proof -
  have "\<forall>g. map gv_number (versions_of (add_graph row db) g) = map int [1..<Suc (length (versions_of (add_graph row db) g))]"
    using ok unfolding graphs_ok_def by simp
  then show ?thesis using ok r by (fastforce simp: graphs_ok_def add_graph_def list_all_iff)
qed

lemma find_graph_id: "find_graph db g = Some row \<Longrightarrow> row \<in> set (db_graphs db) \<and> gr_id row = g"
  unfolding find_graph_def by (rule get_row_Some)

lemma find_graph_in: "find_graph db g = Some row \<Longrightarrow> g \<in> gr_id ` set (db_graphs db)"
  using find_graph_id by fastforce

lemma versions_of_graphs [simp]: "versions_of (db\<lparr>db_graphs := gs\<rparr>) g = versions_of db g"
  by (simp add: versions_of_def)

lemma graph_owner_find: "graph_owner db g = map_option gr_owner_id (find_graph db g)"
  by (simp add: graph_owner_def find_graph_def)

lemma with_graph_Inr:
  assumes "with_graph g u db act = (Inr x, db')"
  obtains row where "find_graph db g = Some row" "is_admin u \<or> gr_owner_id row = us_id u" "act row = (Inr x, db')"
  using assms by (auto simp: with_graph_def split: option.splits if_splits)

lemma lift_graph_Inr [simp]: "lift_graph r = Inr x \<longleftrightarrow> r = Inr x"
  by (cases r) (simp_all add: lift_graph_def)

lemma no_inline_secrets_Inr [simp]: "assert_no_inline_secrets v path = Inr x \<longleftrightarrow> secret_free v"
  using inline_secret_None [of v path] by (auto simp: assert_no_inline_secrets_def split: option.split)

lemma opt_json_simps [simp]: "opt_json None = JNull" "opt_json (Some d) = JObj d"
  by (simp_all add: opt_json_def)

lemma checked_version_facts:
  assumes "checked_version reg nodes edges configs = Inr (stripped, cfg)"
  shows "validate_graph_edges reg stripped edges = Inr ()" "secret_free (opt_json stripped)" "secret_free (opt_json cfg)"
  using assms by (auto simp: checked_version_def Let_def bind_res_Inr simp del: secret_free.simps)

lemma saved_version:
  assumes "save_graph_version reg digest g nodes edges configs db = (Inr (Some v), db')"
  obtains stripped cfg row where "checked_version reg nodes edges configs = Inr (stripped, cfg)" "find_graph db g = Some row"
    "db' = append_version v db" "gv_id v = db_next db" "gv_graph_id v = g" "gv_number v = next_version_number db g"
    "gv_nodes_data v = stripped" "gv_edges_data v = edges" "gv_node_configs v = cfg"
  using assms by (auto simp: save_graph_version_def Let_def split: sum.splits option.splits prod.splits)

text \<open>C11. Saving a version: the new row gets the next number of its graph, is what a run started now executes, has
  edges that the node contracts allow and no credential in its nodes or configurations; only the owner or an
  administrator gets there, and nothing else changes.\<close>

theorem save_version_effect:
  assumes ok: "graphs_ok db"
    and s: "save_graph_version_endpoint reg digest g nodes edges configs u db = (Inr v, db')"
  shows "db' = append_version v db \<and> gv_number v = int (length (versions_of db g)) + 1 \<and> pick_version db' g None = Inr (gv_id v) \<and>
    validate_graph_edges reg (gv_nodes_data v) edges = Inr () \<and> gv_edges_data v = edges \<and>
    secret_free (opt_json (gv_nodes_data v)) \<and> secret_free (opt_json (gv_node_configs v)) \<and>
    (is_admin u \<or> graph_owner db g = Some (us_id u))"
proof -
  obtain row where w: "find_graph db g = Some row" "is_admin u \<or> gr_owner_id row = us_id u"
      "(case save_graph_version reg digest g nodes edges configs db of (Inl e, db') \<Rightarrow> (Inl (HttpError (save_status e)), db')
        | (Inr None, db') \<Rightarrow> (Inl (HttpError 404), db') | (Inr (Some v), db') \<Rightarrow> (Inr v, db')) = (Inr v, db')"
    by (rule with_graph_Inr [OF s [unfolded save_graph_version_endpoint_def]])
  then have "save_graph_version reg digest g nodes edges configs db = (Inr (Some v), db')"
    by (auto split: prod.splits sum.splits option.splits)
  then obtain stripped cfg where c: "checked_version reg nodes edges configs = Inr (stripped, cfg)" and v: "db' = append_version v db"
      "gv_graph_id v = g" "gv_number v = next_version_number db g" "gv_nodes_data v = stripped" "gv_edges_data v = edges"
      "gv_node_configs v = cfg" "gv_id v = db_next db"
    by (rule saved_version)
  have n: "gv_number v = int (length (versions_of db g)) + 1" using v(3) next_number [OF ok] by simp
  have ok': "graphs_ok db'"
    unfolding v(1) by (rule append_version_ok) (use ok v n find_graph_in [OF w(1)] in auto)
  have vs: "versions_of db' g = versions_of db g @ [v]" using v by (simp add: versions_of_add)
  have num: "map gv_number (versions_of db' g) = map int [1..<Suc (length (versions_of db' g))]"
    using ok' by (simp add: graphs_ok_def del: upt_Suc)
  have "latest_version (versions_of db' g) = Some (last (versions_of db' g))"
    by (rule latest_version_last [OF numbers_sorted [OF num]]) (simp add: vs)
  then have "pick_version db' g None = Inr (gv_id v)" by (simp add: pick_version_def vs)
  then show ?thesis using checked_version_facts [OF c] v n w by (auto simp: graph_owner_find)
qed

text \<open>Failing routes change nothing.\<close>

lemma with_graph_error: "(\<And>row e db'. act row = (Inl e, db') \<Longrightarrow> db' = db) \<Longrightarrow> with_graph g u db act = (Inl e, db') \<Longrightarrow> db' = db"
  by (auto simp: with_graph_def split: option.splits if_splits)

lemma save_error_same: "save_graph_version reg digest g nodes edges configs db = (r, db') \<Longrightarrow> r = Inl e \<or> r = Inr None \<Longrightarrow> db' = db"
  by (auto simp: save_graph_version_def Let_def split: sum.splits option.splits prod.splits)

definition graph_write :: "db \<Rightarrow> db \<Rightarrow> bool" where
  "graph_write db db' \<longleftrightarrow> (\<exists>gs vs n. db' = db\<lparr>db_graphs := gs, db_versions := vs, db_next := n\<rparr>)"

lemma save_endpoint_cases:
  "save_graph_version_endpoint reg digest g nodes edges configs u db = (r, db') \<Longrightarrow>
    db' = db \<or> (\<exists>v. r = Inr v)"
  unfolding save_graph_version_endpoint_def with_graph_def
  by (auto split: option.splits if_splits prod.splits sum.splits dest: save_error_same)

lemma save_endpoint_ok:
  assumes "graphs_ok db" shows "graphs_ok (snd (save_graph_version_endpoint reg digest g nodes edges configs u db))"
proof -
  obtain r db' where r: "save_graph_version_endpoint reg digest g nodes edges configs u db = (r, db')" by fastforce
  show ?thesis
  proof (cases "db' = db")
    case False
    then obtain v where v: "save_graph_version_endpoint reg digest g nodes edges configs u db = (Inr v, db')"
      using save_endpoint_cases [OF r] r by auto
    obtain row where w: "find_graph db g = Some row"
      "(case save_graph_version reg digest g nodes edges configs db of (Inl e, db') \<Rightarrow> (Inl (HttpError (save_status e)), db')
        | (Inr None, db') \<Rightarrow> (Inl (HttpError 404), db') | (Inr (Some v), db') \<Rightarrow> (Inr v, db')) = (Inr v, db')"
      by (rule with_graph_Inr [OF v [unfolded save_graph_version_endpoint_def]])
    then have "save_graph_version reg digest g nodes edges configs db = (Inr (Some v), db')"
      by (auto split: prod.splits sum.splits option.splits)
    then have "db' = append_version v db" "gv_graph_id v = g" "gv_number v = next_version_number db g" "gv_id v = db_next db"
      by (auto elim: saved_version)
    with r show ?thesis using append_version_ok [OF assms, of v] next_number [OF assms] find_graph_in [OF w(1)] by auto
  qed (use r assms in simp)
qed

lemma update_graph_ok:
  assumes ok: "graphs_ok db" and u: "\<And>s. gu_name gu = Some s \<Longrightarrow> name_ok s" "\<And>s. gu_status gu = Some s \<Longrightarrow> s \<in> set graph_statuses"
  shows "graphs_ok (snd (update_graph g gu now db))"
proof -
  have keys: "map gr_id (upd_row gr_id g (patched_graph gu now) (db_graphs db)) = map gr_id (db_graphs db)"
    by (rule upd_row_keys) (simp add: patched_graph_def Let_def)
  have s: "gr_id ` set (upd_row gr_id g (patched_graph gu now) (db_graphs db)) = gr_id ` set (db_graphs db)"
    using arg_cong [OF keys, of set] by simp
  have "name_ok (gr_name (patched_graph gu now row)) \<and> gr_status (patched_graph gu now row) \<in> set graph_statuses \<and>
      gr_id (patched_graph gu now row) = gr_id row"
    if "name_ok (gr_name row)" "gr_status row \<in> set graph_statuses" for row
    using that u by (cases "gu_name gu"; cases "gu_status gu") (simp_all add: patched_graph_def Let_def opt_or_def)
  then have "list_all (\<lambda>r. gr_id r < db_next db \<and> name_ok (gr_name r) \<and> gr_status r \<in> set graph_statuses)
      (upd_row gr_id g (patched_graph gu now) (db_graphs db))"
    using ok by (auto simp: graphs_ok_def list_all_iff upd_row_def)
  then show ?thesis using ok keys s
    by (simp add: update_graph_def graphs_ok_def del: upt_Suc split: option.split)
qed

subsection \<open>Templates give graphs that a save accepts\<close>

lemma template_definitions_known:
  "template_definitions reg ns defs = Inr defs' \<Longrightarrow> list_all (\<lambda>n. get_node reg (tn_type n) \<noteq> None) ns"
  by (induction ns arbitrary: defs) (auto split: option.splits)

lemma template_nodes_collected:
  "template_definitions reg ns defs = Inr defs' \<Longrightarrow>
     collect_definitions reg (map (\<lambda>n. template_node_json shown n (the (get_node reg (tn_type n)))) ns) defs = Inr defs'"
  by (induction ns arbitrary: defs)
    (auto simp: template_node_json_def as_dict_def obj_get_def dict_get_or_def split: option.splits)

text \<open>Port names are not empty; an empty one would be taken for a missing one.\<close>

definition named_ports :: "template_edge \<Rightarrow> bool" where
  "named_ports e \<longleftrightarrow> te_source_port e \<noteq> [] \<and> te_target_port e \<noteq> []"

lemma template_edge_checked:
  assumes "dict_get defs (te_source e) = Some s" "dict_get defs (te_target e) = Some t" "named_ports e"
    "find_port (nd_outputs s) (JStr (te_source_port e)) = Some sp" "find_port (nd_inputs t) (JStr (te_target_port e)) = Some tp"
    "pt_type tp = ANY \<or> pt_type sp = pt_type tp"
  shows "check_edge defs (template_edge_json e) = Inr ()"
proof -
  have "edge_port_name (case template_edge_json e of JObj d \<Rightarrow> d | _ \<Rightarrow> []) ''source_port'' ''sourceHandle'' ''output'' = JStr (te_source_port e)"
    "edge_port_name (case template_edge_json e of JObj d \<Rightarrow> d | _ \<Rightarrow> []) ''target_port'' ''targetHandle'' ''input'' = JStr (te_target_port e)"
    using assms(3) by (simp_all add: edge_port_name_def template_edge_json_def obj_get_def dict_get_or_def or_else_def named_ports_def)
  then show ?thesis using assms
    by (simp add: check_edge_def template_edge_json_def as_dict_def lookup_definition_def hashable_def obj_get_def dict_get_or_def)
qed

lemma template_edges_checked:
  "check_template_edges defs es ids con = Inr con' \<Longrightarrow> list_all named_ports es \<Longrightarrow>
     map_res (check_edge defs) (map template_edge_json es) = Inr (map (\<lambda>_. ()) es)"
proof (induction es arbitrary: ids con)
  case (Cons e es)
  then obtain s t sp tp where e: "dict_get defs (te_source e) = Some s" "dict_get defs (te_target e) = Some t"
    "find_port (nd_outputs s) (JStr (te_source_port e)) = Some sp" "find_port (nd_inputs t) (JStr (te_target_port e)) = Some tp"
    "pt_type tp = ANY \<or> pt_type sp = pt_type tp"
    "check_template_edges defs es (te_id e # ids) ((te_target e, te_target_port e) # con) = Inr con'"
    by (auto split: option.splits if_splits)
  have "check_edge defs (template_edge_json e) = Inr ()"
    by (rule template_edge_checked [OF e(1,2) _ e(3-5)]) (use Cons.prems in simp)
  with Cons.IH [OF e(6)] Cons.prems show ?case by simp
qed simp

text \<open>A template that passes the validation of the catalogue gives, with any registry it was validated against,
  a graph whose edges the save route would accept.\<close>

theorem valid_template_materializes:
  assumes v: "validate_template reg key t = Inr ()" and p: "list_all named_ports (tp_edges t)"
  shows "\<exists>nodes edges configs. materialize_template reg shown t = Some (nodes, edges, configs) \<and>
    validate_graph_edges reg (Some nodes) (Some edges) = Inr ()"
proof -
  obtain defs con where d: "template_definitions reg (tp_nodes t) [] = Inr defs"
    and e: "check_template_edges defs (tp_edges t) [] [] = Inr con"
    using v by (auto simp: validate_template_def bind_res_Inr split: if_splits)
  have known: "\<not> list_ex (\<lambda>n. get_node reg (tn_type n) = None) (tp_nodes t)"
    using template_definitions_known [OF d] by (auto simp: list_all_iff list_ex_iff)
  then show ?thesis
    using template_nodes_collected [OF d, of shown] template_edges_checked [OF e p]
    by (simp add: materialize_template_def validate_graph_edges_def raw_items_def iter_dicts_def dict_get_or_def opt_or_def)
qed

subsection \<open>One save, one template\<close>

definition demo_owner :: user where
  "demo_owner = \<lparr>us_id = 7, us_role = ''editor''\<rparr>"

lemma one_graph_ok: "graphs_ok one_graph_db"
  by (auto simp: graphs_ok_def one_graph_db_def empty_db_def versions_of_def name_ok_def graph_statuses_def)

lemma map_sum_Inr: "map_sum f g r = Inr y \<Longrightarrow> (\<And>x. r = Inr x \<Longrightarrow> g x = y \<Longrightarrow> thesis) \<Longrightarrow> thesis"
  by (cases r) auto

lemma demo_version_save: "map_prod (map_sum id gv_number) (\<lambda>db. length (db_versions db))
    (save_graph_version_endpoint demo_registry (\<lambda>_. ''d'') 1 (Some demo_nodes) (Some demo_edges) None demo_owner one_graph_db) = (Inr 2, 2)"
  by code_simp

theorem save_version_effect_witness:
  "\<exists>v. save_graph_version_endpoint demo_registry (\<lambda>_. ''d'') 1 (Some demo_nodes) (Some demo_edges) None demo_owner one_graph_db =
     (Inr v, append_version v one_graph_db) \<and> gv_number v = 2 \<and> pick_version (append_version v one_graph_db) 1 None = Inr (gv_id v)"
proof -
  obtain v db' where s: "save_graph_version_endpoint demo_registry (\<lambda>_. ''d'') 1 (Some demo_nodes) (Some demo_edges) None
      demo_owner one_graph_db = (Inr v, db')" "gv_number v = 2"
    using demo_version_save by (cases "save_graph_version_endpoint demo_registry (\<lambda>_. ''d'') 1 (Some demo_nodes) (Some demo_edges) None
      demo_owner one_graph_db") (auto simp: map_prod_def split: prod.splits elim!: map_sum_Inr)
  from save_version_effect [OF one_graph_ok s(1)] s show ?thesis by auto
qed

definition demo_template :: graph_template where
  "demo_template = \<lparr>tp_id = ''t'', tp_name = ''T'', tp_description = ''d'',
     tp_nodes = [\<lparr>tn_id = ''a'', tn_type = ''src'', tn_x = 0, tn_y = 0, tn_config = [(''path'', JStr ''/x'')]\<rparr>,
       \<lparr>tn_id = ''b'', tn_type = ''sink'', tn_x = 1, tn_y = 0, tn_config = []\<rparr>],
     tp_edges = [\<lparr>te_id = ''e'', te_source = ''a'', te_target = ''b'', te_source_port = ''output'', te_target_port = ''input''\<rparr>]\<rparr>"

theorem valid_template_materializes_witness:
  "\<exists>nodes edges configs. materialize_template demo_registry (\<lambda>_. []) demo_template = Some (nodes, edges, configs) \<and>
     validate_graph_edges demo_registry (Some nodes) (Some edges) = Inr ()"
proof -
  have "validate_template demo_registry ''t'' demo_template = Inr ()" "list_all named_ports (tp_edges demo_template)"
    by code_simp+
  from valid_template_materializes [OF this] show ?thesis .
qed

end
