(* ===== verification/Connections.thy ===== *)
theory Connections
  imports Graphs EgressPolicy SdkStores "HOL-Library.Countable"
begin

text \<open>
  Saved connections: the catalogue with its required fields (\<open>backend/app/connection_catalog.py\<close>), the
  encryption of configurations at rest (\<open>services/connection_crypto.py\<close>), the service with its
  connection tests (\<open>services/connection_service.py\<close>) and the routes (\<open>api/connections.py\<close>). Fernet and
  JSON texts are functions of the record \<open>cipher\<close>; what a database or Discord answers is a parameter.
  Last, the isolation of users from each other over any sequence of graph and connection routes.
\<close>

subsection \<open>The catalogue\<close>

text \<open>Per type the fields, and whether they are required.\<close>

definition connection_definitions :: "(string, (string \<times> bool) list) dict" where
  "connection_definitions =
     [(''postgres'', [(''host'', True), (''port'', False), (''database'', True), (''username'', True), (''password'', True)]),
      (''discord'', [(''bot_token'', True)])]"

definition missing_fields :: "(string \<times> bool) list \<Rightarrow> obj \<Rightarrow> string list" where
  "missing_fields form values =
     map fst (filter (\<lambda>(name, required). required \<and> obj_get values name \<in> {JNull, JStr []}) form)"

definition comma_list :: "string list \<Rightarrow> string" where
  "comma_list xs = concat (tl (concat (map (\<lambda>x. ['', '', x]) xs)))"

definition validate_connection_config :: "string \<Rightarrow> obj option \<Rightarrow> string + unit" where
  "validate_connection_config ty config =
     (case dict_get connection_definitions ty of
        None \<Rightarrow> Inl (''Unsupported connection type: '' @ ty @ ''. Supported: postgres, discord'')
      | Some form \<Rightarrow>
          (let missing = missing_fields form (opt_or config [])
           in if missing \<noteq> [] then Inl (''Missing required connection fields: '' @ comma_list missing)
              else Inr ()))"

subsection \<open>Encryption at rest\<close>

text \<open>\<open>cy_encrypt\<close> gets the random part of the token; \<open>cy_decrypt\<close> has no value for a token that was not made
  with the key; \<open>cy_dumps\<close> prints with sorted keys.\<close>

record cipher =
  cy_encrypt :: "nat \<Rightarrow> string \<Rightarrow> string"
  cy_decrypt :: "string \<Rightarrow> string option"
  cy_dumps :: "json \<Rightarrow> string"
  cy_loads :: "string \<Rightarrow> json option"
  cy_repr :: "json \<Rightarrow> string"

definition is_encrypted_connection_config :: "obj option \<Rightarrow> bool" where
  "is_encrypted_connection_config config \<longleftrightarrow> (case config of None \<Rightarrow> False | Some d \<Rightarrow> set (map fst d) = {''$encrypted''})"

definition encrypt_connection_config :: "cipher \<Rightarrow> nat \<Rightarrow> obj option \<Rightarrow> obj" where
  "encrypt_connection_config cy nonce config =
     (if is_encrypted_connection_config config
      then [(''$encrypted'', JStr (py_str (cy_repr cy) (obj_get (the config) ''$encrypted'')))]
      else [(''$encrypted'', JStr (cy_encrypt cy nonce (cy_dumps cy (JObj (opt_or config [])))))])"

text \<open>The errors are \<open>ValueError\<close>s: bad tokens, text that is not ASCII or not JSON.\<close>

definition decrypt_connection_config :: "cipher \<Rightarrow> obj option \<Rightarrow> string + obj" where
  "decrypt_connection_config cy config =
     (case config of None \<Rightarrow> Inr [] | Some d \<Rightarrow>
        if d = [] then Inr []
        else if obj_get d ''$encrypted'' = JNull then Inr d
        else case cy_decrypt cy (py_str (cy_repr cy) (obj_get d ''$encrypted'')) of
          None \<Rightarrow> Inl ''Saved connection credentials could not be decrypted''
        | Some text \<Rightarrow> (case cy_loads cy text of
            Some (JObj c) \<Rightarrow> Inr c
          | _ \<Rightarrow> Inl ''Saved connection configuration is invalid''))"

text \<open>The documented behaviour of Fernet and of the JSON printer.\<close>

definition cipher_ok :: "cipher \<Rightarrow> bool" where
  "cipher_ok cy \<longleftrightarrow> (\<forall>n s. cy_decrypt cy (cy_encrypt cy n s) = Some s) \<and> (\<forall>v. cy_loads cy (cy_dumps cy v) = Some (sorted_json v))"

lemma encrypted_shape: "is_encrypted_connection_config (Some (encrypt_connection_config cy n config))"
  by (simp add: is_encrypted_connection_config_def encrypt_connection_config_def)

lemma decrypt_encrypt:
  assumes "cipher_ok cy" "\<not> is_encrypted_connection_config config"
  shows "decrypt_connection_config cy (Some (encrypt_connection_config cy n config)) = Inr (the_obj (sorted_json (JObj (opt_or config []))))"
proof -
  obtain d where "sorted_json (JObj (opt_or config [])) = JObj d" by simp
  with assms show ?thesis
    by (simp add: decrypt_connection_config_def encrypt_connection_config_def cipher_ok_def obj_get_def dict_get_or_def the_obj_def
        del: sorted_json.simps)
qed

text \<open>A configuration that the catalogue accepts is not an encrypted object.\<close>

lemma valid_config_plain: "validate_connection_config ty config = Inr () \<Longrightarrow> \<not> is_encrypted_connection_config config"
proof
  assume v: "validate_connection_config ty config = Inr ()" and e: "is_encrypted_connection_config config"
  then obtain d where d: "config = Some d" "set (map fst d) = {''$encrypted''}"
    by (auto simp: is_encrypted_connection_config_def split: option.splits)
  have none: "obj_get d k = JNull" if "k \<noteq> ''$encrypted''" for k
  proof -
    have "k \<notin> fst ` set d" using d(2) that by auto
    then have "dict_get d k = None" by (simp add: map_of_eq_None_iff)
    then show ?thesis by (simp add: obj_get_def dict_get_or_def)
  qed
  have "missing_fields flds d \<noteq> []" if "dict_get connection_definitions ty = Some flds" for flds
    using that none [of "''host''"] none [of "''bot_token''"]
    by (auto simp: connection_definitions_def missing_fields_def split: if_splits)
  with v d(1) show False
    by (auto simp: validate_connection_config_def Let_def opt_or_def split: option.splits if_splits)
qed

subsection \<open>The service\<close>

definition find_connection :: "db \<Rightarrow> uuid \<Rightarrow> connection option" where
  "find_connection db i = get_row cn_id i (db_connections db)"

text \<open>One nonce per row.\<close>

definition migrate_plaintext_connection_configs :: "cipher \<Rightarrow> (uuid \<Rightarrow> nat) \<Rightarrow> db \<Rightarrow> nat \<times> db" where
  "migrate_plaintext_connection_configs cy nonce db =
     (let plain = filter (\<lambda>c. \<not> is_encrypted_connection_config (cn_config c)) (db_connections db)
      in (length plain, db\<lparr>db_connections := map (\<lambda>c. if is_encrypted_connection_config (cn_config c) then c
            else c\<lparr>cn_config := Some (encrypt_connection_config cy (nonce (cn_id c)) (cn_config c))\<rparr>) (db_connections db)\<rparr>))"

definition create_connection ::
  "cipher \<Rightarrow> nat \<Rightarrow> uuid \<Rightarrow> string \<Rightarrow> string \<Rightarrow> obj option \<Rightarrow> time \<Rightarrow> db \<Rightarrow> (string + connection) \<times> db" where
  "create_connection cy nonce owner name ty config now db =
     (case validate_connection_config ty config of
        Inl e \<Rightarrow> (Inl e, db)
      | Inr _ \<Rightarrow>
          (let c = \<lparr>cn_id = db_next db, cn_user_id = owner, cn_config = Some (encrypt_connection_config cy nonce config),
                 cn_name = name, cn_type = ty, cn_is_valid = False, cn_created_at = now\<rparr>
           in (Inr c, db\<lparr>db_connections := db_connections db @ [c], db_next := Suc (db_next db)\<rparr>)))"

definition get_connections :: "db \<Rightarrow> uuid \<Rightarrow> string option \<Rightarrow> connection list" where
  "get_connections db owner ty =
     sort_key (\<lambda>c. - cn_created_at c)
       (filter (\<lambda>c. cn_user_id c = owner \<and> (case ty of None \<Rightarrow> True | Some t \<Rightarrow> cn_type c = t)) (db_connections db))"

text \<open>A failing validation raises before the commit, so the new name is lost with it.\<close>

definition update_connection ::
  "cipher \<Rightarrow> nat \<Rightarrow> uuid \<Rightarrow> uuid \<Rightarrow> string option \<Rightarrow> obj option \<Rightarrow> db \<Rightarrow> (string + connection option) \<times> db" where
  "update_connection cy nonce i owner name config db =
     (case find_connection db i of
        None \<Rightarrow> (Inr None, db)
      | Some c \<Rightarrow>
          if cn_user_id c \<noteq> owner then (Inr None, db)
          else (let named = c\<lparr>cn_name := opt_or name (cn_name c)\<rparr> in
            case config of
              None \<Rightarrow> (Inr (Some named), db\<lparr>db_connections := upd_row cn_id i (\<lambda>_. named) (db_connections db)\<rparr>)
            | Some d \<Rightarrow> (case validate_connection_config (cn_type c) (Some d) of
                Inl e \<Rightarrow> (Inl e, db)
              | Inr _ \<Rightarrow>
                  (let c' = named\<lparr>cn_config := Some (encrypt_connection_config cy nonce (Some d)), cn_is_valid := False\<rparr>
                   in (Inr (Some c'), db\<lparr>db_connections := upd_row cn_id i (\<lambda>_. c') (db_connections db)\<rparr>)))))"

definition delete_connection :: "uuid \<Rightarrow> uuid \<Rightarrow> db \<Rightarrow> bool \<times> db" where
  "delete_connection i owner db =
     (case find_connection db i of
        None \<Rightarrow> (False, db)
      | Some c \<Rightarrow>
          if cn_user_id c \<noteq> owner then (False, db)
          else (True, db\<lparr>db_connections := filter (\<lambda>c. cn_id c \<noteq> i) (db_connections db)\<rparr>))"

subsection \<open>Testing a connection\<close>

text \<open>What is dialled: the host for TLS, once per address, and the validated addresses.\<close>

record pg_dial =
  pd_host :: string
  pd_hostaddr :: string
  pd_port :: int
  pd_dbname :: json
  pd_user :: json
  pd_password :: json

text \<open>The policy of the settings, or its error; a probe answers with the name of an exception, if any; a client
  for a target gets a status or the name of an exception.\<close>

record probe_env =
  pe_net :: net_text
  pe_urlsplit :: "string \<Rightarrow> split_url option"
  pe_resolver :: "string \<Rightarrow> int \<Rightarrow> resolution"
  pe_timeout_ok :: bool
  pe_policy :: "policy_error + egress_policy"
  pe_postgres :: "pg_dial \<Rightarrow> string option"
  pe_discord :: "validated_target \<Rightarrow> json \<Rightarrow> string + int"

definition policy_message :: "policy_error \<Rightarrow> string" where
  "policy_message e = (case e of EgressPolicyError m \<Rightarrow> m)"

definition pg_dial_of :: "validated_target \<Rightarrow> obj \<Rightarrow> pg_dial" where
  "pg_dial_of target d =
     \<lparr>pd_host = join_on CHR '','' (map (\<lambda>_. vt_host target) (vt_addresses target)),
      pd_hostaddr = join_on CHR '','' (map ip_text (vt_addresses target)), pd_port = vt_port target,
      pd_dbname = dict_get_or d ''database'' (dict_get_or d ''dbname'' (JStr ''postgres'')),
      pd_user = dict_get_or d ''username'' (dict_get_or d ''user'' (JStr ''postgres'')),
      pd_password = dict_get_or d ''password'' (JStr [])\<rparr>"

definition test_postgres_connection :: "probe_env \<Rightarrow> egress_policy \<Rightarrow> obj \<Rightarrow> bool \<times> string" where
  "test_postgres_connection env policy d =
     (case validate_host (pe_net env) policy (pe_resolver env) (pe_timeout_ok env)
         (dict_get_or d ''host'' (JStr ''localhost'')) (dict_get_or d ''port'' (JInt 5432)) of
        Inl e \<Rightarrow> (False, policy_message e)
      | Inr target \<Rightarrow> (case pe_postgres env (pg_dial_of target d) of
          None \<Rightarrow> (True, ''PostgreSQL connection successful'')
        | Some exc \<Rightarrow> (False, ''PostgreSQL connection failed ('' @ exc @ '')'')))"

definition test_discord_connection :: "probe_env \<Rightarrow> egress_policy \<Rightarrow> obj \<Rightarrow> bool \<times> string" where
  "test_discord_connection env policy d =
     (let token = or_else (obj_get d ''bot_token'') (obj_get d ''token'') in
      if \<not> truthy token then (False, ''Discord bot token is required'')
      else case validate_url (pe_net env) (pe_urlsplit env) policy (pe_resolver env) (pe_timeout_ok env)
          (JStr ''https://discord.com/api/v10/users/@me'') of
        Inl e \<Rightarrow> (False, policy_message e)
      | Inr target \<Rightarrow> (case pe_discord env target token of
          Inl exc \<Rightarrow> (False, ''Discord connection failed ('' @ exc @ '')'')
        | Inr status \<Rightarrow>
            if status = 200 then (True, ''Discord connection successful'')
            else if status \<in> {401, 403} then (False, ''Discord credentials are invalid'')
            else (False, ''Discord returned HTTP '' @ int_str status)))"

definition test_connection :: "probe_env \<Rightarrow> obj \<Rightarrow> string \<Rightarrow> string + (bool \<times> string)" where
  "test_connection env d ty =
     bind_res (validate_connection_config ty (Some d)) (\<lambda>_.
       Inr (case pe_policy env of
          Inl e \<Rightarrow> (False, policy_message e)
        | Inr policy \<Rightarrow>
            if ty = ''postgres'' then test_postgres_connection env policy d
            else if ty = ''discord'' then test_discord_connection env policy d
            else (False, ''No test implemented for type: '' @ ty)))"

subsection \<open>Routes\<close>

text \<open>Responses carry the configuration redacted.\<close>

definition connection_response :: "connection \<Rightarrow> json" where
  "connection_response c = redact_sensitive (opt_json (cn_config c))"

record connection_create =
  cc_name :: string
  cc_type :: string
  cc_config :: "obj option"

definition create_connection_endpoint :: "cipher \<Rightarrow> nat \<Rightarrow> connection_create \<Rightarrow> user \<Rightarrow> time \<Rightarrow> db \<Rightarrow> connection call" where
  "create_connection_endpoint cy nonce c u now db =
     (if \<not> name_ok (cc_name c) \<or> cc_type c \<notin> {''postgres'', ''discord''} then (Inl (HttpError 422), db)
      else case create_connection cy nonce (us_id u) (cc_name c) (cc_type c) (cc_config c) now db of
        (Inl e, db') \<Rightarrow> (Inl (HttpError 400), db') | (Inr row, db') \<Rightarrow> (Inr row, db'))"

definition list_connections_endpoint :: "string option \<Rightarrow> user \<Rightarrow> db \<Rightarrow> (connection list \<times> nat) call" where
  "list_connections_endpoint ty u db = (let cs = get_connections db (us_id u) ty in (Inr (cs, length cs), db))"

text \<open>Reading and testing are open to administrators; changing is the owner's alone.\<close>

definition with_connection :: "uuid \<Rightarrow> user \<Rightarrow> db \<Rightarrow> (connection \<Rightarrow> 'a call) \<Rightarrow> 'a call" where
  "with_connection i u db act =
     (case find_connection db i of
        None \<Rightarrow> (Inl (HttpError 404), db)
      | Some c \<Rightarrow> if \<not> is_admin u \<and> cn_user_id c \<noteq> us_id u then (Inl (HttpError 403), db) else act c)"

definition get_connection_endpoint :: "uuid \<Rightarrow> user \<Rightarrow> db \<Rightarrow> connection call" where
  "get_connection_endpoint i u db = with_connection i u db (\<lambda>c. (Inr c, db))"

text \<open>The route does not catch the \<open>ValueError\<close> of the validation.\<close>

definition update_connection_endpoint ::
  "cipher \<Rightarrow> nat \<Rightarrow> uuid \<Rightarrow> string option \<Rightarrow> obj option \<Rightarrow> user \<Rightarrow> db \<Rightarrow> connection call" where
  "update_connection_endpoint cy nonce i name config u db =
     (if (case name of None \<Rightarrow> False | Some s \<Rightarrow> \<not> name_ok s) then (Inl (HttpError 422), db)
      else case update_connection cy nonce i (us_id u) name config db of
        (Inl e, db') \<Rightarrow> (Inl (HttpError 500), db')
      | (Inr None, db') \<Rightarrow> (Inl (HttpError 404), db')
      | (Inr (Some c), db') \<Rightarrow> (Inr c, db'))"

definition delete_connection_endpoint :: "uuid \<Rightarrow> user \<Rightarrow> db \<Rightarrow> unit call" where
  "delete_connection_endpoint i u db =
     (let (ok, db') = delete_connection i (us_id u) db in (if ok then Inr () else Inl (HttpError 404), db'))"

definition test_connection_endpoint :: "cipher \<Rightarrow> probe_env \<Rightarrow> uuid \<Rightarrow> user \<Rightarrow> db \<Rightarrow> (bool \<times> string) call" where
  "test_connection_endpoint cy env i u db = with_connection i u db (\<lambda>c.
     case bind_res (decrypt_connection_config cy (cn_config c)) (\<lambda>d. test_connection env d (cn_type c)) of
       Inl e \<Rightarrow> (Inl (HttpError 500), db)
     | Inr (ok, msg) \<Rightarrow>
         (Inr (ok, msg), db\<lparr>db_connections := upd_row cn_id i (\<lambda>c. c\<lparr>cn_is_valid := ok\<rparr>) (db_connections db)\<rparr>))"

subsection \<open>Configurations are sealed\<close>

definition sealed :: "db \<Rightarrow> bool" where
  "sealed db \<longleftrightarrow> list_all (\<lambda>c. is_encrypted_connection_config (cn_config c)) (db_connections db)"

lemma encrypted_response: "is_encrypted_connection_config (cn_config c) \<Longrightarrow> connection_response c = JObj [(''configured'', JBool True)]"
  by (auto simp: is_encrypted_connection_config_def connection_response_def split: option.splits)

lemma created_connection:
  assumes "create_connection_endpoint cy nonce cc u now db = (Inr c, db')"
  shows "validate_connection_config (cc_type cc) (cc_config cc) = Inr ()"
    "c = \<lparr>cn_id = db_next db, cn_user_id = us_id u, cn_config = Some (encrypt_connection_config cy nonce (cc_config cc)),
       cn_name = cc_name cc, cn_type = cc_type cc, cn_is_valid = False, cn_created_at = now\<rparr>"
    "db' = db\<lparr>db_connections := db_connections db @ [c], db_next := Suc (db_next db)\<rparr>"
  using assms by (auto simp: create_connection_endpoint_def create_connection_def Let_def split: if_splits prod.splits sum.splits)

lemma updated_connection:
  assumes "update_connection_endpoint cy nonce i name config u db = (Inr c, db')"
  obtains old where "find_connection db i = Some old" "cn_user_id old = us_id u"
    "db' = db\<lparr>db_connections := upd_row cn_id i (\<lambda>_. c) (db_connections db)\<rparr>" "cn_id c = i" "cn_user_id c = us_id u"
    "case config of None \<Rightarrow> cn_config c = cn_config old | Some d \<Rightarrow> validate_connection_config (cn_type c) (Some d) = Inr () \<and>
       cn_config c = Some (encrypt_connection_config cy nonce (Some d)) \<and> \<not> cn_is_valid c"
  using assms by (auto simp: update_connection_endpoint_def update_connection_def find_connection_def Let_def
      split: if_splits prod.splits sum.splits option.splits dest: get_row_Some)

text \<open>C19. What a user submits as a configuration is stored encrypted only, decrypts to what was submitted (with
  its keys sorted), and no response shows any of it: a created connection, or one whose configuration was changed,
  is shown as configured and no more, and has to be tested again.\<close>

theorem connection_secrets_sealed:
  assumes cy: "cipher_ok cy"
    and r: "create_connection_endpoint cy nonce cc u now db = (Inr c, db') \<and> d = opt_or (cc_config cc) [] \<or>
      update_connection_endpoint cy nonce i name (Some d) u db = (Inr c, db')"
  shows "is_encrypted_connection_config (cn_config c) \<and>
    decrypt_connection_config cy (cn_config c) = Inr (the_obj (sorted_json (JObj d))) \<and>
    connection_response c = JObj [(''configured'', JBool True)] \<and> cn_user_id c = us_id u \<and> \<not> cn_is_valid c"
proof -
  obtain config where c: "cn_config c = Some (encrypt_connection_config cy nonce config)" "opt_or config [] = d"
      "\<not> is_encrypted_connection_config config" "cn_user_id c = us_id u" "\<not> cn_is_valid c"
    using r
  proof
    assume "create_connection_endpoint cy nonce cc u now db = (Inr c, db') \<and> d = opt_or (cc_config cc) []"
    then show thesis using created_connection [of cy nonce cc u now db c db'] valid_config_plain that [of "cc_config cc"] by auto
  next
    assume "update_connection_endpoint cy nonce i name (Some d) u db = (Inr c, db')"
    then show thesis by (rule updated_connection) (use valid_config_plain that [of "Some d"] in \<open>auto simp: opt_or_def\<close>)
  qed
  then have "is_encrypted_connection_config (cn_config c)" by (simp add: encrypted_shape)
  with c show ?thesis using decrypt_encrypt [OF cy c(3), of nonce] encrypted_response by simp
qed

lemma sealed_create: "sealed db \<Longrightarrow> sealed (snd (create_connection_endpoint cy nonce cc u now db))"
  by (auto simp: create_connection_endpoint_def create_connection_def sealed_def encrypted_shape Let_def split: prod.splits sum.splits)

lemma find_connection_in: "find_connection db i = Some c \<Longrightarrow> c \<in> set (db_connections db) \<and> cn_id c = i"
  unfolding find_connection_def by (rule get_row_Some)

lemma sealed_update:
  assumes "sealed db" shows "sealed (snd (update_connection_endpoint cy nonce i name config u db))"
proof -
  have *: "sealed (db\<lparr>db_connections := upd_row cn_id i (\<lambda>_. c) (db_connections db)\<rparr>)"
    if "is_encrypted_connection_config (cn_config c)" for c
    using assms that by (auto simp: sealed_def list_all_iff upd_row_def)
  have old: "is_encrypted_connection_config (cn_config c)" if "find_connection db i = Some c" for c
    using assms find_connection_in [OF that] by (simp add: sealed_def list_all_iff)
  show ?thesis using assms old
    by (auto simp: update_connection_endpoint_def update_connection_def Let_def encrypted_shape intro!: *
        split: option.split sum.split)
qed

lemma sealed_delete: "sealed db \<Longrightarrow> sealed (snd (delete_connection_endpoint i u db))"
  by (auto simp: delete_connection_endpoint_def delete_connection_def sealed_def list_all_iff split: option.split)

lemma sealed_test: "sealed db \<Longrightarrow> sealed (snd (test_connection_endpoint cy env i u db))"
  by (auto simp: test_connection_endpoint_def with_connection_def sealed_def list_all_iff upd_row_def
      split: option.split sum.split)

text \<open>The migration of plain rows seals the table, leaves every decrypted configuration as it was (with its keys
  sorted), and changes nothing when it runs again.\<close>

theorem migration_seals:
  assumes cy: "cipher_ok cy" and m: "migrate_plaintext_connection_configs cy nonce db = (n, db')"
  shows "sealed db' \<and> migrate_plaintext_connection_configs cy nonce' db' = (0, db') \<and>
    list_all2 (\<lambda>c c'. cn_id c' = cn_id c \<and>
        decrypt_connection_config cy (cn_config c') =
          (if is_encrypted_connection_config (cn_config c) then decrypt_connection_config cy (cn_config c)
           else Inr (the_obj (sorted_json (JObj (opt_or (cn_config c) []))))))
      (db_connections db) (db_connections db')"
proof -
  have db': "db' = snd (migrate_plaintext_connection_configs cy nonce db)" using m by simp
  have s: "sealed db'"
    by (auto simp: db' migrate_plaintext_connection_configs_def sealed_def list_all_iff Let_def encrypted_shape)
  then have "migrate_plaintext_connection_configs cy nonce' db' = (0, db')"
    by (auto simp: migrate_plaintext_connection_configs_def sealed_def list_all_iff Let_def filter_empty_conv map_idI)
  moreover have "list_all2 (\<lambda>c c'. cn_id c' = cn_id c \<and>
        decrypt_connection_config cy (cn_config c') =
          (if is_encrypted_connection_config (cn_config c) then decrypt_connection_config cy (cn_config c)
           else Inr (the_obj (sorted_json (JObj (opt_or (cn_config c) []))))))
      (db_connections db) (db_connections db')"
    using decrypt_encrypt [OF cy]
    by (auto simp: db' migrate_plaintext_connection_configs_def Let_def list.rel_map intro!: list.rel_refl_strong)
  ultimately show ?thesis using s by blast
qed

subsection \<open>A cipher\<close>

instance json :: countable
  by countable_datatype

definition demo_cipher :: cipher where
  "demo_cipher = \<lparr>cy_encrypt = (\<lambda>n s. CHR ''#'' # s), cy_decrypt = (\<lambda>s. if s = [] then None else Some (tl s)),
     cy_dumps = (\<lambda>v. replicate (to_nat v) CHR ''x''), cy_loads = (\<lambda>s. Some (sorted_json (from_nat (length s)))),
     cy_repr = (\<lambda>_. ''?'')\<rparr>"

lemma demo_cipher_ok: "cipher_ok demo_cipher"
  by (simp add: cipher_ok_def demo_cipher_def)

definition demo_bot :: connection_create where
  "demo_bot = \<lparr>cc_name = ''bot'', cc_type = ''discord'', cc_config = Some [(''bot_token'', JStr ''t'')]\<rparr>"

theorem connection_secrets_sealed_witness:
  "\<exists>c db'. create_connection_endpoint demo_cipher 0 demo_bot demo_owner 3 one_graph_db = (Inr c, db') \<and>
     decrypt_connection_config demo_cipher (cn_config c) = Inr [(''bot_token'', JStr ''t'')] \<and>
     connection_response c = JObj [(''configured'', JBool True)]"
proof -
  obtain c db' where c: "create_connection_endpoint demo_cipher 0 demo_bot demo_owner 3 one_graph_db = (Inr c, db')"
    by (simp add: create_connection_endpoint_def create_connection_def demo_bot_def name_ok_def validate_connection_config_def
        connection_definitions_def missing_fields_def obj_get_def dict_get_or_def opt_or_def Let_def)
  have "the_obj (sorted_json (JObj (opt_or (cc_config demo_bot) []))) = [(''bot_token'', JStr ''t'')]" by code_simp
  moreover have "is_encrypted_connection_config (cn_config c) \<and>
      decrypt_connection_config demo_cipher (cn_config c) = Inr (the_obj (sorted_json (JObj (opt_or (cc_config demo_bot) [])))) \<and>
      connection_response c = JObj [(''configured'', JBool True)] \<and> cn_user_id c = us_id demo_owner \<and> \<not> cn_is_valid c"
    by (rule connection_secrets_sealed [OF demo_cipher_ok]) (rule disjI1, rule conjI [OF c refl])
  ultimately show ?thesis using c by (simp only: simp_thms ex_simps) blast
qed

definition plain_db :: db where
  "plain_db = one_graph_db\<lparr>db_connections := [\<lparr>cn_id = 3, cn_user_id = 7, cn_config = Some [(''bot_token'', JStr ''t'')],
     cn_name = ''bot'', cn_type = ''discord'', cn_is_valid = True, cn_created_at = 0\<rparr>]\<rparr>"

theorem migration_seals_witness:
  "\<not> sealed plain_db \<and> sealed (snd (migrate_plaintext_connection_configs demo_cipher (\<lambda>_. 0) plain_db))"
proof -
  obtain n db' where "migrate_plaintext_connection_configs demo_cipher (\<lambda>_. 0) plain_db = (n, db')" by fastforce
  from migration_seals [OF demo_cipher_ok this] this show ?thesis
    by (simp add: sealed_def plain_db_def is_encrypted_connection_config_def)
qed

end
