(* ===== verification/Workspace.thy ===== *)
theory Workspace
  imports Connections
begin

text \<open>
  Users sharing one control plane: the routes on graphs and connections as steps labelled with the user
  who makes the request, the invariant of their tables along any sequence of requests, and the isolation
  of the users from each other.
\<close>

definition connections_ok :: "db \<Rightarrow> bool" where
  "connections_ok db \<longleftrightarrow> distinct (map cn_id (db_connections db)) \<and> list_all (\<lambda>c. cn_id c < db_next db) (db_connections db)"

definition workspace_ok :: "db \<Rightarrow> bool" where
  "workspace_ok db \<longleftrightarrow> graphs_ok db \<and> connections_ok db \<and> sealed db"

text \<open>What belongs to a user: graphs, their versions, connections.\<close>

definition owned_graphs :: "uuid \<Rightarrow> db \<Rightarrow> graph_row list" where
  "owned_graphs o' db = filter (\<lambda>g. gr_owner_id g = o') (db_graphs db)"

definition workspace_of :: "uuid \<Rightarrow> db \<Rightarrow> graph_row list \<times> graph_version list \<times> connection list" where
  "workspace_of o' db = (owned_graphs o' db, filter (\<lambda>v. gv_graph_id v \<in> gr_id ` set (owned_graphs o' db)) (db_versions db),
     filter (\<lambda>c. cn_user_id c = o') (db_connections db))"

inductive workspace_step :: "user \<Rightarrow> db \<Rightarrow> db \<Rightarrow> bool" for u db where
  w_create_graph: "workspace_step u db (snd (create_graph_endpoint reg shown digest templates gc u now db))"
| w_update_graph: "workspace_step u db (snd (update_graph_endpoint g gu u now db))"
| w_archive_graph: "workspace_step u db (snd (archive_graph_endpoint g u now db))"
| w_save_version: "workspace_step u db (snd (save_graph_version_endpoint reg digest g nodes edges configs u db))"
| w_create_connection: "workspace_step u db (snd (create_connection_endpoint cy nonce cc u now db))"
| w_update_connection: "workspace_step u db (snd (update_connection_endpoint cy nonce i name config u db))"
| w_delete_connection: "workspace_step u db (snd (delete_connection_endpoint i u db))"
| w_test_connection: "workspace_step u db (snd (test_connection_endpoint cy env i u db))"

inductive_cases workspace_stepE: "workspace_step u db db'"

inductive workspace_run :: "user list \<Rightarrow> db \<Rightarrow> db \<Rightarrow> bool" where
  run_nil: "workspace_run [] db db"
| run_cons: "workspace_step u db db1 \<Longrightarrow> workspace_run us db1 db' \<Longrightarrow> workspace_run (u # us) db db'"

subsection \<open>Rows of others\<close>

lemma filter_upd_row:
  "(\<And>r. r \<in> set rows \<Longrightarrow> key r = k \<Longrightarrow> \<not> P r \<and> \<not> P (f r)) \<Longrightarrow> filter P (upd_row key k f rows) = filter P rows"
  by (induction rows) (auto simp: upd_row_def)

lemma filter_drop_row: "(\<And>r. r \<in> set rows \<Longrightarrow> key r = k \<Longrightarrow> \<not> P r) \<Longrightarrow> filter P (filter (\<lambda>r. key r \<noteq> k) rows) = filter P rows"
  by (induction rows) auto

lemma row_by_id: "distinct (map key rows) \<Longrightarrow> get_row key k rows = Some r \<Longrightarrow> x \<in> set rows \<Longrightarrow> key x = k \<Longrightarrow> x = r"
  using get_row_unique [of key rows x] by auto

text \<open>The ways in which a step can write.\<close>

definition others_version :: "uuid \<Rightarrow> db \<Rightarrow> graph_version \<Rightarrow> bool" where
  "others_version o' db v \<longleftrightarrow> gv_graph_id v \<notin> gr_id ` set (owned_graphs o' db)"

lemma append_version_view: "others_version o' db v \<Longrightarrow> workspace_of o' (append_version v db) = workspace_of o' db"
  by (simp add: workspace_of_def owned_graphs_def append_version_def others_version_def)

lemma add_graph_view: "gr_owner_id row \<noteq> o' \<Longrightarrow> workspace_of o' (add_graph row db) = workspace_of o' db"
  by (simp add: workspace_of_def owned_graphs_def add_graph_def)

lemma foreign_graph_version:
  assumes ok: "graphs_ok db" and g: "find_graph db g = Some row" "gr_owner_id row \<noteq> o'" and v: "gv_graph_id v = g"
  shows "others_version o' db v"
proof -
  have "x = row" if "x \<in> set (db_graphs db)" "gr_id x = g" for x
    by (rule row_by_id [OF _ g(1) [unfolded find_graph_def] that]) (use ok in \<open>simp add: graphs_ok_def\<close>)
  then show ?thesis using g(2) v by (auto simp: others_version_def owned_graphs_def)
qed

lemma patched_graph_owner [simp]: "gr_owner_id (patched_graph gu now row) = gr_owner_id row"
  by (simp add: patched_graph_def Let_def)

lemma update_graph_view:
  assumes ok: "graphs_ok db" and g: "find_graph db g = Some row" "gr_owner_id row \<noteq> o'"
  shows "workspace_of o' (snd (update_graph g gu now db)) = workspace_of o' db"
proof -
  have "x = row" if "x \<in> set (db_graphs db)" "gr_id x = g" for x
    by (rule row_by_id [OF _ g(1) [unfolded find_graph_def] that]) (use ok in \<open>simp add: graphs_ok_def\<close>)
  then have "filter (\<lambda>g. gr_owner_id g = o') (upd_row gr_id g (patched_graph gu now) (db_graphs db)) =
      filter (\<lambda>g. gr_owner_id g = o') (db_graphs db)"
    using g(2) by (intro filter_upd_row) auto
  then show ?thesis using g(1) by (simp add: update_graph_def workspace_of_def owned_graphs_def)
qed

lemma connection_rows_view:
  "filter (\<lambda>c. cn_user_id c = o') cs = filter (\<lambda>c. cn_user_id c = o') (db_connections db) \<Longrightarrow>
     workspace_of o' (db\<lparr>db_connections := cs\<rparr>) = workspace_of o' db"
  by (simp add: workspace_of_def owned_graphs_def)

lemma foreign_connection:
  assumes "connections_ok db" "find_connection db i = Some c" "x \<in> set (db_connections db)" "cn_id x = i"
  shows "x = c"
  by (rule row_by_id [OF _ assms(2) [unfolded find_connection_def] assms(3,4)]) (use assms(1) in \<open>simp add: connections_ok_def\<close>)

subsection \<open>The invariant along requests\<close>

lemma create_graph_parts: "create_graph name owner desc tags now db = (row, db') \<Longrightarrow>
    db' = add_graph row db \<and> gr_id row = db_next db \<and> gr_owner_id row = owner \<and> gr_name row = name \<and> gr_status row = ''draft''"
  by (auto simp: create_graph_def Let_def)

lemma versions_fresh: "graphs_ok db \<Longrightarrow> versions_of db (db_next db) = []"
  by (fastforce simp: graphs_ok_def versions_of_def list_all_iff filter_empty_conv)

lemma created_graph_cases:
  assumes "create_graph_endpoint reg shown digest templates gc u now db = (r, db')"
  obtains "db' = db" | row where "db' = add_graph row db" "gr_id row = db_next db" "gr_owner_id row = us_id u" "name_ok (gr_name row)"
      "gr_status row \<in> set graph_statuses"
  | row v where "db' = append_version v (add_graph row db)" "gr_id row = db_next db" "gr_owner_id row = us_id u" "name_ok (gr_name row)"
      "gr_status row \<in> set graph_statuses" "gv_id v = db_next (add_graph row db)" "gv_graph_id v = gr_id row" "gv_number v = 1"
proof (cases "gc_template gc")
  case None
  then show thesis using assms that(1,2)
    by (auto simp: create_graph_endpoint_def graph_statuses_def split: if_splits prod.splits dest!: create_graph_parts)
next
  case (Some t)
  show thesis
  proof (cases "db' = db")
    case False
    then obtain tp nodes edges configs where
        "create_graph_from_template reg shown digest templates t (us_id u) (gc_name gc) (gc_description gc) (gc_tags gc) now db = (r, db')"
        "name_ok (gc_name gc)"
      using assms Some by (auto simp: create_graph_endpoint_def split: if_splits)
    then show thesis using that(3) False
      by (auto simp: create_graph_from_template_def graph_statuses_def Let_def split: option.splits prod.splits dest!: create_graph_parts)
  qed (rule that(1))
qed

lemma create_graph_kept:
  assumes ok: "graphs_ok db"
  shows "graphs_ok (snd (create_graph_endpoint reg shown digest templates gc u now db))"
proof -
  obtain r db' where r: "create_graph_endpoint reg shown digest templates gc u now db = (r, db')" by fastforce
  then show ?thesis
  proof (rule created_graph_cases)
    fix row v
    assume "db' = append_version v (add_graph row db)" "gr_id row = db_next db" "gr_owner_id row = us_id u" "name_ok (gr_name row)"
      "gr_status row \<in> set graph_statuses" "gv_id v = db_next (add_graph row db)" "gv_graph_id v = gr_id row" "gv_number v = 1"
    then show ?thesis using r add_graph_ok [OF ok, of row] versions_fresh [OF ok]
      by (auto intro!: append_version_ok simp: add_graph_def versions_of_def)
  qed (use r ok add_graph_ok [OF ok] in auto)
qed

lemma update_graph_kept: "graphs_ok db \<Longrightarrow> graphs_ok (snd (update_graph_endpoint g gu u now db))"
  using update_graph_ok [of db gu g now]
  by (auto simp: update_graph_endpoint_def with_graph_def split: option.splits prod.splits)

lemma archive_graph_kept:
  assumes "graphs_ok db" shows "graphs_ok (snd (archive_graph_endpoint g u now db))"
proof -
  have "graphs_ok (snd (archive_graph g now db))"
    unfolding archive_graph_def by (rule update_graph_ok [OF assms]) (auto simp: graph_statuses_def)
  then show ?thesis using assms
    by (auto simp: archive_graph_endpoint_def with_graph_def split: option.split prod.split)
qed

text \<open>Routes on graphs leave connections alone and the other way round; identifiers only grow.\<close>

definition graph_route :: "db \<Rightarrow> db \<Rightarrow> bool" where
  "graph_route db db' \<longleftrightarrow> db_connections db' = db_connections db \<and> db_next db \<le> db_next db'"

definition connection_route :: "db \<Rightarrow> db \<Rightarrow> bool" where
  "connection_route db db' \<longleftrightarrow> db_graphs db' = db_graphs db \<and> db_versions db' = db_versions db \<and> db_next db \<le> db_next db'"

lemma graph_routes:
  "graph_route db (snd (create_graph_endpoint reg shown digest templates gc u now db))"
  "graph_route db (snd (update_graph_endpoint g gu u now db))"
  "graph_route db (snd (archive_graph_endpoint g u now db))"
  "graph_route db (snd (save_graph_version_endpoint reg digest g nodes edges configs u db))"
proof -
  obtain r db' where r: "create_graph_endpoint reg shown digest templates gc u now db = (r, db')" by fastforce
  then show "graph_route db (snd (create_graph_endpoint reg shown digest templates gc u now db))"
    by (rule created_graph_cases) (use r in \<open>simp_all add: graph_route_def add_graph_def append_version_def\<close>)
  show "graph_route db (snd (update_graph_endpoint g gu u now db))"
    by (simp add: update_graph_endpoint_def update_graph_def with_graph_def graph_route_def split: option.split)
  show "graph_route db (snd (archive_graph_endpoint g u now db))"
    by (simp add: archive_graph_endpoint_def archive_graph_def update_graph_def with_graph_def graph_route_def split: option.split)
  show "graph_route db (snd (save_graph_version_endpoint reg digest g nodes edges configs u db))"
    by (auto simp: save_graph_version_endpoint_def save_graph_version_def with_graph_def graph_route_def append_version_def Let_def
        split: option.split prod.split sum.split)
qed

lemma connection_routes:
  "connection_route db (snd (create_connection_endpoint cy nonce cc u now db))"
  "connection_route db (snd (update_connection_endpoint cy nonce i name config u db))"
  "connection_route db (snd (delete_connection_endpoint i u db))"
  "connection_route db (snd (test_connection_endpoint cy env i u db))"
  by (auto simp: connection_route_def create_connection_endpoint_def create_connection_def update_connection_endpoint_def
      update_connection_def delete_connection_endpoint_def delete_connection_def test_connection_endpoint_def
      with_connection_def Let_def split: option.split prod.split sum.split)

lemma graph_route_connections: "graph_route db db' \<Longrightarrow> connections_ok db \<and> sealed db \<Longrightarrow> connections_ok db' \<and> sealed db'"
  by (auto simp: graph_route_def connections_ok_def sealed_def list_all_iff)

lemma connection_route_graphs: "connection_route db db' \<Longrightarrow> graphs_ok db \<Longrightarrow> graphs_ok db'"
  by (fastforce simp: connection_route_def graphs_ok_def versions_of_def list_all_iff simp del: upt_Suc)

lemma connections_ok_ids:
  assumes ok: "connections_ok db" and ids: "map cn_id cs = map cn_id (db_connections db)"
  shows "connections_ok (db\<lparr>db_connections := cs\<rparr>)"
proof -
  have "set (map cn_id cs) = set (map cn_id (db_connections db))" using ids by (rule arg_cong)
  then have same: "cn_id ` set cs = cn_id ` set (db_connections db)" by (simp only: set_map)
  have "\<forall>i \<in> cn_id ` set (db_connections db). i < db_next db" using ok by (simp add: connections_ok_def list_all_iff)
  then have "\<forall>i \<in> cn_id ` set cs. i < db_next db" unfolding same .
  with ok ids show ?thesis by (simp add: connections_ok_def list_all_iff)
qed

lemma connection_routes_ok:
  assumes ok: "connections_ok db"
  shows "connections_ok (snd (create_connection_endpoint cy nonce cc u now db))"
    "connections_ok (snd (update_connection_endpoint cy nonce i name config u db))"
    "connections_ok (snd (delete_connection_endpoint i u db))"
    "connections_ok (snd (test_connection_endpoint cy env i u db))"
proof -
  show "connections_ok (snd (create_connection_endpoint cy nonce cc u now db))" using ok
    by (fastforce simp: create_connection_endpoint_def create_connection_def connections_ok_def list_all_iff Let_def split: sum.split prod.split)
  have row: "connections_ok (db\<lparr>db_connections := upd_row cn_id i (\<lambda>_. c) (db_connections db)\<rparr>)" if "cn_id c = i" for c
    by (rule connections_ok_ids [OF ok upd_row_keys]) (use that in simp)
  then show "connections_ok (snd (update_connection_endpoint cy nonce i name config u db))" using ok
    by (auto simp: update_connection_endpoint_def update_connection_def Let_def dest: find_connection_in split: option.split sum.split)
  show "connections_ok (snd (delete_connection_endpoint i u db))" using ok
    by (auto simp: delete_connection_endpoint_def delete_connection_def connections_ok_def list_all_iff distinct_map_filter split: option.split)
  show "connections_ok (snd (test_connection_endpoint cy env i u db))" using ok
    by (auto simp: test_connection_endpoint_def with_connection_def intro!: connections_ok_ids upd_row_keys split: option.split sum.split)
qed

lemma workspace_step_ok: "workspace_step u db db' \<Longrightarrow> workspace_ok db \<Longrightarrow> workspace_ok db'"
  by (erule workspace_stepE)
    (simp_all add: workspace_ok_def create_graph_kept update_graph_kept archive_graph_kept save_endpoint_ok
      sealed_create sealed_update sealed_delete sealed_test connection_routes_ok
      connection_routes [THEN connection_route_graphs] graph_routes [THEN graph_route_connections])

subsection \<open>Isolation\<close>

lemma create_graph_view:
  assumes ok: "graphs_ok db" and u: "us_id u \<noteq> o'"
  shows "workspace_of o' (snd (create_graph_endpoint reg shown digest templates gc u now db)) = workspace_of o' db"
proof -
  obtain r db' where r: "create_graph_endpoint reg shown digest templates gc u now db = (r, db')" by fastforce
  then show ?thesis
  proof (rule created_graph_cases)
    fix row v
    assume a: "db' = append_version v (add_graph row db)" "gr_id row = db_next db" "gr_owner_id row = us_id u" "gv_graph_id v = gr_id row"
    have "db_next db \<notin> gr_id ` set (owned_graphs o' db)" using ok by (fastforce simp: graphs_ok_def owned_graphs_def list_all_iff)
    then have "others_version o' (add_graph row db) v"
      using a u by (simp add: others_version_def owned_graphs_def add_graph_def)
    then show ?thesis using r a u by (simp add: append_version_view add_graph_view)
  qed (use r u add_graph_view in auto)
qed

text \<open>A route of a user who does not own the graph and is no administrator changes nothing.\<close>

lemma with_graph_view:
  assumes u: "\<not> is_admin u" "us_id u \<noteq> o'"
    and act: "\<And>row. find_graph db g = Some row \<Longrightarrow> gr_owner_id row \<noteq> o' \<Longrightarrow> workspace_of o' (snd (act row)) = workspace_of o' db"
  shows "workspace_of o' (snd (with_graph g u db act)) = workspace_of o' db"
  using u act by (auto simp: with_graph_def split: option.split)

lemma graph_views:
  assumes ok: "graphs_ok db" and u: "\<not> is_admin u" "us_id u \<noteq> o'"
  shows "workspace_of o' (snd (update_graph_endpoint g gu u now db)) = workspace_of o' db"
    "workspace_of o' (snd (archive_graph_endpoint g u now db)) = workspace_of o' db"
    "workspace_of o' (snd (save_graph_version_endpoint reg digest g nodes edges configs u db)) = workspace_of o' db"
proof -
  have upd: "workspace_of o' (snd (case update_graph g gu now db of (None, db') \<Rightarrow> (Inl x, db') | (Some row, db') \<Rightarrow> (y row, db')))
      = workspace_of o' db" if "find_graph db g = Some row" "gr_owner_id row \<noteq> o'" for gu row x and y :: "graph_row \<Rightarrow> control_error + 'x"
    using update_graph_view [OF ok that, of gu now] by (cases "update_graph g gu now db") (auto split: option.split)
  show "workspace_of o' (snd (update_graph_endpoint g gu u now db)) = workspace_of o' db"
    unfolding update_graph_endpoint_def by (simp add: with_graph_view [OF u upd])
  show "workspace_of o' (snd (archive_graph_endpoint g u now db)) = workspace_of o' db"
    unfolding archive_graph_endpoint_def archive_graph_def by (rule with_graph_view [OF u]) (rule upd)
  show "workspace_of o' (snd (save_graph_version_endpoint reg digest g nodes edges configs u db)) = workspace_of o' db"
    unfolding save_graph_version_endpoint_def
  proof (rule with_graph_view [OF u])
    fix row assume row: "find_graph db g = Some row" "gr_owner_id row \<noteq> o'"
    show "workspace_of o' (snd (case save_graph_version reg digest g nodes edges configs db of
        (Inl e, db') \<Rightarrow> (Inl (HttpError (save_status e)), db') | (Inr None, db') \<Rightarrow> (Inl (HttpError 404), db')
      | (Inr (Some v), db') \<Rightarrow> (Inr v, db'))) = workspace_of o' db"
      using foreign_graph_version [OF ok row]
      by (simp add: save_graph_version_def row(1) Let_def append_version_view split: sum.split prod.split)
  qed
qed

lemma connection_views:
  assumes ok: "connections_ok db" and u: "us_id u \<noteq> o'"
  shows "workspace_of o' (snd (create_connection_endpoint cy nonce cc u now db)) = workspace_of o' db"
    "workspace_of o' (snd (update_connection_endpoint cy nonce i name config u db)) = workspace_of o' db"
    "workspace_of o' (snd (delete_connection_endpoint i u db)) = workspace_of o' db"
proof -
  show "workspace_of o' (snd (create_connection_endpoint cy nonce cc u now db)) = workspace_of o' db"
    using u by (simp add: create_connection_endpoint_def create_connection_def workspace_of_def owned_graphs_def Let_def
        split: sum.split prod.split)
  have other: "cn_user_id x \<noteq> o'" if "find_connection db i = Some c" "cn_user_id c = us_id u" "x \<in> set (db_connections db)" "cn_id x = i"
    for c x using foreign_connection [OF ok that(1,3,4)] that(2) u by simp
  have upd: "workspace_of o' (db\<lparr>db_connections := upd_row cn_id i (\<lambda>_. c') (db_connections db)\<rparr>) = workspace_of o' db"
    if "find_connection db i = Some c" "cn_user_id c = us_id u" "cn_user_id c' = us_id u" for c c'
    by (rule connection_rows_view, rule filter_upd_row) (use other [OF that(1,2)] that(3) u in auto)
  then show "workspace_of o' (snd (update_connection_endpoint cy nonce i name config u db)) = workspace_of o' db"
    by (simp add: update_connection_endpoint_def update_connection_def Let_def split: option.split sum.split)
  have "workspace_of o' (db\<lparr>db_connections := filter (\<lambda>c. cn_id c \<noteq> i) (db_connections db)\<rparr>) = workspace_of o' db"
    if "find_connection db i = Some c" "cn_user_id c = us_id u" for c
    by (rule connection_rows_view, rule filter_drop_row) (use other [OF that] in auto)
  then show "workspace_of o' (snd (delete_connection_endpoint i u db)) = workspace_of o' db"
    by (simp add: delete_connection_endpoint_def delete_connection_def split: option.split)
qed

lemma test_connection_view:
  assumes ok: "connections_ok db" and u: "\<not> is_admin u" "us_id u \<noteq> o'"
  shows "workspace_of o' (snd (test_connection_endpoint cy env i u db)) = workspace_of o' db"
proof -
  have "workspace_of o' (db\<lparr>db_connections := upd_row cn_id i f (db_connections db)\<rparr>) = workspace_of o' db"
    if c: "find_connection db i = Some c" "cn_user_id c = us_id u" and f: "\<And>c. cn_user_id (f c) = cn_user_id c" for c f
  proof (rule connection_rows_view, rule filter_upd_row)
    fix r assume "r \<in> set (db_connections db)" "cn_id r = i"
    then have "r = c" by (rule foreign_connection [OF ok c(1)])
    then show "\<not> cn_user_id r = o' \<and> \<not> cn_user_id (f r) = o'" using c(2) f u by simp
  qed
  then show ?thesis using u
    by (auto simp: test_connection_endpoint_def with_connection_def split: option.split sum.split)
qed

lemma workspace_step_view:
  assumes "workspace_step u db db'" "workspace_ok db" "\<not> is_admin u" "us_id u \<noteq> o'"
  shows "workspace_of o' db' = workspace_of o' db"
  using assms by (elim workspace_stepE)
    (simp_all add: workspace_ok_def create_graph_view graph_views connection_views test_connection_view)

text \<open>C40. The invariant of the shared tables: along any sequence of requests of any users, identifiers stay unique,
  each graph's versions are numbered 1, 2, 3, and so on, and every connection's configuration stays encrypted.\<close>

theorem workspace_invariant:
  assumes "workspace_run us db db'" "workspace_ok db"
  shows "workspace_ok db'"
  using assms by (induction rule: workspace_run.induct) (blast dest: workspace_step_ok)+

text \<open>C10. Isolation: whatever requests other users make, in any number and order, the graphs, versions and
  connections of a user stay as they are, unless an administrator is among them.\<close>

theorem workspace_isolation:
  assumes "workspace_run us db db'" "workspace_ok db" "list_all (\<lambda>u. \<not> is_admin u \<and> us_id u \<noteq> o') us"
  shows "workspace_of o' db' = workspace_of o' db"
  using assms
proof (induction rule: workspace_run.induct)
  case (run_cons u db db1 us db')
  have "workspace_of o' db1 = workspace_of o' db"
    by (rule workspace_step_view [OF run_cons.hyps(1)]) (use run_cons.prems in simp_all)
  with run_cons workspace_step_ok [OF run_cons.hyps(1)] show ?case by simp
qed simp

subsection \<open>Two users\<close>

definition demo_stranger :: user where
  "demo_stranger = \<lparr>us_id = 8, us_role = ''editor''\<rparr>"

definition demo_archive :: graph_update where
  "demo_archive = \<lparr>gu_name = None, gu_description = None, gu_status = Some ''archived'', gu_tags = None\<rparr>"

definition demo_new_graph :: graph_create where
  "demo_new_graph = \<lparr>gc_name = ''mine'', gc_description = None, gc_tags = [], gc_template = None\<rparr>"

lemma one_graph_workspace: "workspace_ok one_graph_db"
  using one_graph_ok by (simp add: workspace_ok_def connections_ok_def sealed_def one_graph_db_def empty_db_def)

theorem workspace_isolation_witness:
  "workspace_of 7 (snd (create_graph_endpoint demo_registry (\<lambda>_. []) (\<lambda>_. ''d'') [] demo_new_graph demo_stranger 5
     (snd (update_graph_endpoint 1 demo_archive demo_stranger 4 one_graph_db)))) = workspace_of 7 one_graph_db"
  by (rule workspace_isolation [of "[demo_stranger, demo_stranger]"])
    (rule run_cons run_nil workspace_step.intros one_graph_workspace | simp add: demo_stranger_def is_admin_def)+

theorem workspace_invariant_witness:
  "workspace_ok (snd (save_graph_version_endpoint demo_registry (\<lambda>_. ''d'') 1 (Some demo_nodes) (Some demo_edges) None
     demo_owner one_graph_db))"
  by (rule workspace_invariant [of "[demo_owner]" one_graph_db])
    (rule run_cons run_nil workspace_step.intros one_graph_workspace)+

end
