(* ===== verification/Spec2Isabelle.thy ===== *)
theory Spec2Isabelle
  imports Dataflow SdkQuery SdkJsonl SdkPlugins EgressPolicy BuiltinNodes TriggerTables SdkRestConfig Workspace
begin

text \<open>
  \<^bold>\<open>Data Ingestion Graph: a verification library.\<close>

  The repository is a control plane for ingestion graphs (\<open>backend/app\<close>: users draw graphs of
  nodes, save immutable versions, start runs; durable workers execute them) and an SDK of connectors
  (\<open>sdk/src/ingestion_graph\<close>). This library models the core of the program in HOL, operation by
  operation, and proves what makes it correct. Names follow the source.

  \<^bold>\<open>Theories, from the bottom up.\<close>
  \<^item> \<open>Prelude\<close>: results as sums (\<open>Inl\<close> an exception, \<open>Inr\<close> a value), insertion-ordered dictionaries
    as association lists, slices, lookups of rows by key.
  \<^item> \<open>Json\<close>: JSON values as Python sees them.
  \<^item> \<open>RunState\<close> (\<open>engine/state.py\<close>): run and node life cycles and their transition tables.
  \<^item> \<open>Scheduler\<close> (\<open>engine/scheduler.py\<close>): Kahn levels and the validation of a graph. The level loop
    has fuel, one unit per node and one more; \<open>topological_sort_total\<close> shows that it suffices.
  \<^item> \<open>GraphData\<close> (\<open>engine/graph_data.py\<close>, \<open>graph_validation.py\<close>, \<open>nodes/registry.py\<close>): the node
    registry, edge typing, sanitising of configurations, unpacking of saved versions.
  \<^item> \<open>Database\<close> (\<open>models/\<close>): one record per table and row updates by primary key. One state of the
    tables is a value of type \<open>db\<close>; a transaction is a function on it.
  \<^item> \<open>ServiceContract\<close>: what every transaction of every service promises (\<open>db_evolves\<close>: keys stay
    unique, runs move along the transition table, their graph, version and payload are immutable),
    stated as the locale \<open>service_op\<close> that each operation interprets.
  \<^item> \<open>RunQueue\<close> (\<open>services/run_queue_service.py\<close>): leases of durable jobs.
  \<^item> \<open>ExecutionService\<close> (\<open>services/execution_service.py\<close>, \<open>api/executions.py\<close>): creation, listing
    and control of runs, with the access checks of the routes.
  \<^item> \<open>SourceState\<close> (\<open>services/sdk_source_state_service.py\<close>): staged checkpoints of sources and
    their promotion when a run completes.
  \<^item> \<open>Triggers\<close> (\<open>services/trigger_schedule.py\<close>, \<open>trigger_scheduler.py\<close>, \<open>trigger_service.py\<close>,
    \<open>api/triggers.py\<close>): schedules, their dispatch, management; \<open>Webhooks\<close> (\<open>webhook_service.py\<close>):
    signed deliveries and their ledger, no replay; \<open>TriggerTables\<close>: the invariant of both tables.
  \<^item> \<open>ControlPlane\<close>: the step relation of all these transactions in any interleaving, its reachable
    states and the paths of a run.
  \<^item> \<open>NodeRunner\<close> (\<open>engine/retry.py\<close>, \<open>runner.py\<close>, \<open>checkpoint.py\<close>, \<open>dead_letter.py\<close>): an executor
    as an action on a \<open>world\<close> (committed tables, flushed writes, the commits of other clients between
    its database accesses, clock, events); attempts, retries, recorded results.
  \<^item> \<open>Executor\<close> (\<open>engine/executor.py\<close>): inputs, credentials, levels, the whole run.
  \<^item> \<open>JobExecutor\<close> (\<open>engine/run_job_executor.py\<close>, \<open>run_worker.py\<close>): a claimed job, in full or from
    its failures.
  \<^item> \<open>ExecutionSafety\<close>: execution under arbitrary interference and arbitrary node code meets the
    service contract (actions are \<open>safe\<close>; the locale \<open>node_library\<close> states what is asked of nodes).
  \<^item> \<open>Dataflow\<close>: undisturbed execution refines a pure dataflow evaluator (total-correctness triples
    \<open>does\<close> for actions; the equation \<open>dataflow\<close> and its unique solution).
  \<^item> \<open>PyText\<close>: the methods of Python strings that the program uses.
  \<^item> \<open>SdkModels\<close> (SDK \<open>models.py\<close>): envelopes, their canonical form and parser, record versions.
  \<^item> \<open>SdkStores\<close> (SDK \<open>state.py\<close>, \<open>destinations/jsonl.py\<close>, \<open>destinations/sqlite.py\<close>): checkpoints and
    destinations; the locales \<open>state_store\<close> and \<open>idempotent_destination\<close> state what a resumable
    pipeline asks of them, each interpreted on both implementations.
  \<^item> \<open>SdkQuery\<close> (SDK \<open>query.py\<close>): requests and pages over the collection.
  \<^item> \<open>SdkPipeline\<close> (SDK \<open>pipeline.py\<close>): the runtime, with interruptions at every durable call; the locale
    \<open>resumable_pipeline\<close> proves that interrupted attempts settle to one delivery.
  \<^item> \<open>SdkJsonl\<close> (SDK \<open>sources/jsonl.py\<close>): the resumable source, and the pipelines built from it.
  \<^item> \<open>SdkRest\<close> (SDK \<open>sources/rest.py\<close>): requests, pages, checkpoints and the bounded reader; reading on from
    any checkpoint gives what is missing of the cycle, repeated reads finish it, credentials stay with
    their origin. \<open>SdkRestConfig\<close>: construction, check, discovery and what the inferred schema accepts.
  \<^item> \<open>ProcessingNodes\<close>, \<open>ChunkNodes\<close> (\<open>nodes/filter.py\<close>, \<open>merge.py\<close>, \<open>split.py\<close>, \<open>transform.py\<close>,
    \<open>text_chunker.py\<close>, \<open>recursive_splitter.py\<close>, \<open>html_splitter.py\<close>, \<open>chunk_preview.py\<close>): nodes that
    compute on their input alone.
  \<^item> \<open>Uploads\<close> (\<open>services/upload_service.py\<close>, \<open>api/files.py\<close>): managed files, quota, atomic requests.
  \<^item> \<open>SdkDocumentNode\<close> (\<open>nodes/sdk_document_source.py\<close>): the source that stages checkpoints.
  \<^item> \<open>BuiltinNodes\<close>: the library of these nodes, an instance of \<open>node_library\<close>.
  \<^item> \<open>IpAddress\<close>: the module \<open>ipaddress\<close> of Python 3.11 (parsers, printers, networks, tables of
    special addresses), with round trips of the texts.
  \<^item> \<open>EgressPolicy\<close> (\<open>services/egress_policy.py\<close>): which outbound targets are allowed, and the
    transport that connects to validated addresses only.
  \<^item> \<open>Graphs\<close> (\<open>services/graph_service.py\<close>, \<open>api/graphs.py\<close>, \<open>schemas/graph.py\<close>,
    \<open>graph_templates.py\<close>): graphs, saved versions, secrets in graph data, templates. \<open>Connections\<close>
    (\<open>services/connection_service.py\<close>, \<open>connection_crypto.py\<close>, \<open>api/connections.py\<close>,
    \<open>connection_catalog.py\<close>): encrypted configurations, tests through the egress policy. \<open>Workspace\<close>:
    the routes of both as steps of users, their invariant, and the isolation of users.
  \<^item> \<open>SdkPlugins\<close> (SDK \<open>artifacts.py\<close>, \<open>secrets.py\<close>, \<open>plugins.py\<close>): small services.

  \<^bold>\<open>Modelling conventions.\<close> Times are integers (microseconds), UUIDs natural numbers drawn from a
  counter in the tables, strings character lists. A row lock is the atomicity of one operation; what
  other transactions hold locked is a parameter where the code skips locked rows. Python's text of
  floats, lists and dicts, UUID parsing and printing, the decryption of credentials and the code of
  the nodes are parameters (record \<open>runtime\<close>).

  \<^bold>\<open>Not modelled.\<close> HTTP and WebSocket plumbing, authentication and password hashing, schema
  migrations, the web client, and connectors that only call a remote service, a database driver, a
  parser or a language model (their behaviour is outside the repository). Polling loops, heartbeat
  timers and task cancellation are \<open>asyncio\<close> machinery; the transactions they make are modelled. Byte
  estimates, cost rows and log payloads are left out of the rows.
\<close>

end
